(* ===== verification/Keryx_Prelude.thy ===== *)
theory Keryx_Prelude
  imports Main "HOL-Library.Word" "HOL-Library.Monad_Syntax"
begin

section \<open>Shared types, byte encodings and list lemmas\<close>

text \<open>
  Machine integers keep their width (\<open>u8\<close>, \<open>u16\<close>, \<open>u32\<close>, \<open>u64\<close>). A Rust \<open>[u8; 32]\<close> digest is
  the word \<open>hash\<close> of 256 bits whose byte \<open>i\<close> is array element \<open>i\<close>; \<open>hash_bytes\<close> and
  \<open>hash_of_bytes\<close> go between the two views and are inverse to each other. Sizes and indices
  that the code keeps in range (\<open>usize\<close>, and \<open>u64\<close> values used as tree positions) are \<open>nat\<close>,
  with the checked operations written out. A panic or an early \<open>None\<close> return is the value \<open>None\<close>.
\<close>

type_synonym u8 = "8 word"
type_synonym u16 = "16 word"
type_synonym u32 = "32 word"
type_synonym u64 = "64 word"
type_synonym bytes = "8 word list"
type_synonym hash = "256 word"

named_theorems le_simps \<open>little-endian encodings\<close>
named_theorems len_simps \<open>lengths of encodings\<close>

subsection \<open>Little-endian encodings\<close>

text \<open>\<open>nat_le n v\<close> is the low \<open>n\<close> bytes of \<open>v\<close>, least significant first
  (\<open>to_le_bytes\<close>); \<open>le_nat\<close> reads them back (\<open>from_le_bytes\<close>).\<close>

fun nat_le :: "nat \<Rightarrow> nat \<Rightarrow> bytes" where
  "nat_le 0 v = []"
| "nat_le (Suc n) v = word_of_nat (v mod 256) # nat_le n (v div 256)"

fun le_nat :: "bytes \<Rightarrow> nat" where
  "le_nat [] = 0"
| "le_nat (b # bs) = unat b + 256 * le_nat bs"

definition u16_le :: "u16 \<Rightarrow> bytes" where "u16_le w = nat_le 2 (unat w)"
definition u32_le :: "u32 \<Rightarrow> bytes" where "u32_le w = nat_le 4 (unat w)"
definition u64_le :: "u64 \<Rightarrow> bytes" where "u64_le w = nat_le 8 (unat w)"
definition hash_bytes :: "hash \<Rightarrow> bytes" where "hash_bytes w = nat_le 32 (unat w)"

definition le_u16 :: "bytes \<Rightarrow> u16" where "le_u16 bs = word_of_nat (le_nat bs)"
definition le_u32 :: "bytes \<Rightarrow> u32" where "le_u32 bs = word_of_nat (le_nat bs)"
definition le_u64 :: "bytes \<Rightarrow> u64" where "le_u64 bs = word_of_nat (le_nat bs)"
definition hash_of_bytes :: "bytes \<Rightarrow> hash" where "hash_of_bytes bs = word_of_nat (le_nat bs)"

lemma length_nat_le [simp]: "length (nat_le n v) = n"
  by (induction n arbitrary: v) auto

lemma length_le [simp, len_simps]:
  "length (u16_le a) = 2" "length (u32_le b) = 4" "length (u64_le c) = 8"
  "length (hash_bytes h) = 32"
  by (simp_all add: u16_le_def u32_le_def u64_le_def hash_bytes_def)

lemma unat_lt: "unat (w :: 'a::len word) < 2 ^ LENGTH('a)"
  by (rule unsigned_less)

lemma unat_byte_of_nat: "unat (word_of_nat (v mod 256) :: u8) = v mod 256"
  by (simp add: unat_of_nat)

lemma le_nat_nat_le: "le_nat (nat_le n v) = v mod 256 ^ n"
proof (induction n arbitrary: v)
  case 0
  then show ?case by simp
next
  case (Suc n)
  have "v mod (256 * 256 ^ n) = 256 * (v div 256 mod 256 ^ n) + v mod 256"
    by (rule mod_mult2_eq)
  then show ?case using Suc by (simp add: unat_byte_of_nat)
qed

lemma le_nat_less: "le_nat bs < 256 ^ length bs"
proof (induction bs)
  case Nil
  then show ?case by simp
next
  case (Cons b bs)
  have "unat b < 256" using unat_lt [of b] by simp
  with Cons show ?case by simp
qed

lemma nat_le_le_nat: "nat_le (length bs) (le_nat bs) = bs"
proof (induction bs)
  case Nil
  then show ?case by simp
next
  case (Cons b bs)
  have b: "unat b < 256" using unat_lt [of b] by simp
  then have "(unat b + 256 * le_nat bs) mod 256 = unat b"
    and "(unat b + 256 * le_nat bs) div 256 = le_nat bs" by simp_all
  with Cons show ?case by simp
qed

lemma nat_le_inject: "v < 256 ^ n \<Longrightarrow> w < 256 ^ n \<Longrightarrow> nat_le n v = nat_le n w \<longleftrightarrow> v = w"
  by (metis le_nat_nat_le mod_less)

lemma le_u16_u16_le [simp, le_simps]: "le_u16 (u16_le w) = w"
  using unat_lt [of w] by (simp add: le_u16_def u16_le_def le_nat_nat_le)

lemma le_u32_u32_le [simp, le_simps]: "le_u32 (u32_le w) = w"
  using unat_lt [of w] by (simp add: le_u32_def u32_le_def le_nat_nat_le)

lemma le_u64_u64_le [simp, le_simps]: "le_u64 (u64_le w) = w"
  using unat_lt [of w] by (simp add: le_u64_def u64_le_def le_nat_nat_le)

lemma hash_of_bytes_hash_bytes [simp, le_simps]: "hash_of_bytes (hash_bytes w) = w"
  using unat_lt [of w] by (simp add: hash_of_bytes_def hash_bytes_def le_nat_nat_le)

lemma unat_le_u64: "length bs = 8 \<Longrightarrow> unat (le_u64 bs) = le_nat bs"
  using le_nat_less [of bs] by (simp add: le_u64_def unat_of_nat)

lemma unat_le_u32: "length bs = 4 \<Longrightarrow> unat (le_u32 bs) = le_nat bs"
  using le_nat_less [of bs] by (simp add: le_u32_def unat_of_nat)

lemma unat_hash_of_bytes: "length bs = 32 \<Longrightarrow> unat (hash_of_bytes bs) = le_nat bs"
  using le_nat_less [of bs] by (simp add: hash_of_bytes_def unat_of_nat)

lemma hash_bytes_hash_of_bytes: "length bs = 32 \<Longrightarrow> hash_bytes (hash_of_bytes bs) = bs"
  using nat_le_le_nat [of bs] by (simp add: hash_bytes_def unat_hash_of_bytes)

lemma u64_le_le_u64: "length bs = 8 \<Longrightarrow> u64_le (le_u64 bs) = bs"
  using nat_le_le_nat [of bs] by (simp add: u64_le_def unat_le_u64)

lemma u32_le_le_u32: "length bs = 4 \<Longrightarrow> u32_le (le_u32 bs) = bs"
  using nat_le_le_nat [of bs] by (simp add: u32_le_def unat_le_u32)

lemma hash_bytes_inject [simp]: "hash_bytes a = hash_bytes b \<longleftrightarrow> a = b"
  by (metis hash_of_bytes_hash_bytes)

lemma u64_le_inject [simp]: "u64_le a = u64_le b \<longleftrightarrow> a = b"
  by (metis le_u64_u64_le)

lemma u32_le_inject [simp]: "u32_le a = u32_le b \<longleftrightarrow> a = b"
  by (metis le_u32_u32_le)

lemma le_nat_append: "le_nat (xs @ ys) = le_nat xs + 256 ^ length xs * le_nat ys"
  by (induction xs) (simp_all add: algebra_simps)

subsection \<open>Lists\<close>

text \<open>\<open>chunks n xs\<close> is Rust's \<open>xs.chunks(n)\<close> for \<open>n > 0\<close>: consecutive pieces of \<open>n\<close>
  elements, the last one possibly shorter. \<open>chunks_exact\<close> drops a short last piece.\<close>

function chunks :: "nat \<Rightarrow> 'a list \<Rightarrow> 'a list list" where
  "chunks n xs = (if xs = [] \<or> n = 0 then [] else take n xs # chunks n (drop n xs))"
  by pat_completeness auto
termination
  by (relation "measure (\<lambda>(n, xs). length xs)") auto

declare chunks.simps [simp del]

definition chunks_exact :: "nat \<Rightarrow> 'a list \<Rightarrow> 'a list list" where
  "chunks_exact n xs = filter (\<lambda>c. length c = n) (chunks n xs)"

lemma chunks_Nil [simp]: "chunks n [] = []"
  by (simp add: chunks.simps)

lemma chunks_2_simps [simp]:
  "chunks 2 [x] = [[x]]"
  "chunks 2 (x # y # r) = [x, y] # chunks 2 r"
  by (subst chunks.simps, simp)+

lemma concat_chunks: "0 < n \<Longrightarrow> concat (chunks n xs) = xs"
proof (induction n xs rule: chunks.induct)
  case (1 n xs)
  then show ?case by (cases "xs = []") (simp_all add: chunks.simps [of n xs])
qed

lemma length_chunks: "0 < n \<Longrightarrow> length (chunks n xs) = (length xs + n - 1) div n"
proof (induction n xs rule: chunks.induct)
  case (1 n xs)
  show ?case
  proof (cases "xs = []")
    case True
    then show ?thesis using "1.prems" by simp
  next
    case False
    then have "length (chunks n xs) = Suc ((length xs - n + n - 1) div n)"
      using 1 by (simp add: chunks.simps [of n xs])
    also have "\<dots> = (length xs + n - 1) div n"
    proof (cases "length xs \<le> n")
      case True
      then have "(length xs + n - 1) div n = 1"
        using False "1.prems" by (cases xs) (auto intro!: div_nat_eqI)
      with True "1.prems" show ?thesis by simp
    next
      case F: False
      define m where "m = length xs - n + n - 1"
      have "length xs + n - 1 = m + n" using F by (simp add: m_def)
      then show ?thesis unfolding m_def [symmetric] using "1.prems" by (simp add: div_add_self2)
    qed
    finally show ?thesis .
  qed
qed

lemma nth_chunks: "0 < n \<Longrightarrow> i < length (chunks n xs) \<Longrightarrow> chunks n xs ! i = take n (drop (i * n) xs)"
proof (induction n xs arbitrary: i rule: chunks.induct)
  case (1 n xs)
  then have ne: "xs \<noteq> []" by auto
  show ?case
  proof (cases i)
    case 0
    then show ?thesis using ne "1.prems" by (simp add: chunks.simps [of n xs])
  next
    case (Suc j)
    then show ?thesis using ne 1 by (simp add: chunks.simps [of n xs] add.commute)
  qed
qed

text \<open>An indexing that panics out of range, and \<open>slice.get(lo..hi)\<close>.\<close>

definition nth_opt :: "'a list \<Rightarrow> nat \<Rightarrow> 'a option" where
  "nth_opt xs i = (if i < length xs then Some (xs ! i) else None)"

definition get_range :: "'a list \<Rightarrow> nat \<Rightarrow> nat \<Rightarrow> 'a list option" where
  "get_range xs lo hi = (if lo \<le> hi \<and> hi \<le> length xs then Some (take (hi - lo) (drop lo xs)) else None)"

lemma nth_opt_Some [simp]: "nth_opt xs i = Some x \<longleftrightarrow> i < length xs \<and> xs ! i = x"
  by (auto simp: nth_opt_def)

lemma nth_opt_in_range: "i < length xs \<Longrightarrow> nth_opt xs i = Some (xs ! i)"
  by simp

text \<open>The contiguous piece of \<open>c\<close> elements from position \<open>f\<close>.\<close>

abbreviation slice :: "'a list \<Rightarrow> nat \<Rightarrow> nat \<Rightarrow> 'a list" where
  "slice xs f c \<equiv> take c (drop f xs)"

lemma slice_nth: "i < c \<Longrightarrow> f + c \<le> length xs \<Longrightarrow> slice xs f c ! i = xs ! (f + i)"
  by simp

lemma Cons_slice: "0 < f \<Longrightarrow> f \<le> length xs \<Longrightarrow> xs ! (f - 1) # slice xs f c = slice xs (f - 1) (Suc c)"
  by (cases f) (simp_all add: Cons_nth_drop_Suc [symmetric])

lemma slice_snoc: "f + c < length xs \<Longrightarrow> slice xs f c @ [xs ! (f + c)] = slice xs f (Suc c)"
  by (simp add: take_Suc_conv_app_nth)

lemma div_ceil2: "(n + 1) div 2 = n - n div (2::nat)"
  by arith

subsection \<open>UTF-8\<close>

text \<open>Well-formed UTF-8: the trailing bytes a first byte announces (4 for no first byte) and the range of the second
  byte. Reading a file or a line as a string fails on anything else.\<close>

definition utf8_trail :: "u8 \<Rightarrow> nat" where
  "utf8_trail b = (if b < 0x80 then 0 else if 0xC2 \<le> b \<and> b \<le> 0xDF then 1 else if 0xE0 \<le> b \<and> b \<le> 0xEF then 2
     else if 0xF0 \<le> b \<and> b \<le> 0xF4 then 3 else 4)"

definition utf8_second :: "u8 \<Rightarrow> u8 \<Rightarrow> bool" where
  "utf8_second b c = (if b = 0xE0 then 0xA0 \<le> c else if b = 0xED then c \<le> 0x9F
     else if b = 0xF0 then 0x90 \<le> c else if b = 0xF4 then c \<le> 0x8F else True)"

function is_utf8 :: "bytes \<Rightarrow> bool" where
  "is_utf8 [] = True"
| "is_utf8 (b # r) = (let n = utf8_trail b in
     n < 4 \<and> n \<le> length r \<and> list_all (\<lambda>c. 0x80 \<le> c \<and> c \<le> 0xBF) (take n r)
     \<and> (n > 0 \<longrightarrow> utf8_second b (r ! 0)) \<and> is_utf8 (drop n r))"
  by pat_completeness auto
termination
  by (relation "measure length") auto

lemma ascii_utf8: "\<forall>b \<in> set bs. b < 0x80 \<Longrightarrow> is_utf8 bs"
  by (induction bs) (simp_all add: utf8_trail_def)

subsection \<open>Results\<close>

text \<open>\<open>Result\<close> is a sum with the error on the left; \<open>?\<close> is \<open>rbind\<close>, \<open>ok_or\<close> turns an option into a result.\<close>

definition rbind :: "'e + 'a \<Rightarrow> ('a \<Rightarrow> 'e + 'b) \<Rightarrow> 'e + 'b" where
  "rbind m f = (case m of Inl e \<Rightarrow> Inl e | Inr x \<Rightarrow> f x)"

definition ok_or :: "'e \<Rightarrow> 'a option \<Rightarrow> 'e + 'a" where
  "ok_or e m = (case m of None \<Rightarrow> Inl e | Some x \<Rightarrow> Inr x)"

lemma rbind_simps [simp]: "rbind (Inl e) f = Inl e" "rbind (Inr x) f = f x"
  by (simp_all add: rbind_def)

lemma rbind_Inr: "rbind m f = Inr y \<longleftrightarrow> (\<exists>x. m = Inr x \<and> f x = Inr y)"
  by (cases m) auto

lemma ok_or_simps [simp]: "ok_or e None = Inl e" "ok_or e (Some x) = Inr x"
  by (simp_all add: ok_or_def)

lemma ok_or_Inr [simp]: "ok_or e m = Inr x \<longleftrightarrow> m = Some x"
  by (cases m) (simp_all add: ok_or_def)

lemma if_Inl_Inr [simp]:
  "(if b then Inl e else m) = Inr x \<longleftrightarrow> \<not> b \<and> m = Inr x"
  "(if b then m else Inl e) = Inr x \<longleftrightarrow> b \<and> m = Inr x"
  by simp_all

end
