(* ===== verification/Level_Tree.thy ===== *)
theory Level_Tree
  imports Keryx_Prelude
begin

section \<open>Reference hash trees built level by level\<close>

text \<open>
  The miner has three binary hash trees: the model tree of \<open>verifiable-inference/src/merkle.rs\<close>
  (\<open>rt_*\<close>, a lone last node is hashed with itself), the BLAKE3 trace tree of the same file
  (\<open>b3_*\<close>, a lone last node is promoted, and the merge that makes the root is flagged) and the
  possession tree of \<open>src/pom.rs\<close>. All three build a level from the one below by pairing. This
  theory holds one reference tree over a pair function \<open>node n\<close> and a lone-node function
  \<open>lone n\<close>, both told the width \<open>n\<close> of the level they are applied to, its root, the range proof
  of contiguous leaves and the fold that rebuilds the root from leaves and proof. The component
  theories prove their loops equal to these functions and take completeness and binding from here.
\<close>

type_synonym 'h node_fun = "nat \<Rightarrow> 'h \<Rightarrow> 'h \<Rightarrow> 'h"
type_synonym 'h lone_fun = "nat \<Rightarrow> 'h \<Rightarrow> 'h"

subsection \<open>One level up\<close>

fun pair_up :: "('h \<Rightarrow> 'h \<Rightarrow> 'h) \<Rightarrow> ('h \<Rightarrow> 'h) \<Rightarrow> 'h list \<Rightarrow> 'h list" where
  "pair_up f g [] = []"
| "pair_up f g [x] = [g x]"
| "pair_up f g (x # y # r) = f x y # pair_up f g r"

lemma length_pair_up [simp]: "length (pair_up f g xs) = (length xs + 1) div 2"
  by (induction f g xs rule: pair_up.induct) auto

lemma pair_up_eq_Nil [simp]: "pair_up f g xs = [] \<longleftrightarrow> xs = []"
  by (cases "(f, g, xs)" rule: pair_up.cases) auto

lemma nth_pair_up:
  "i < (length xs + 1) div 2 \<Longrightarrow>
   pair_up f g xs ! i = (if 2 * i + 1 < length xs then f (xs ! (2 * i)) (xs ! (2 * i + 1)) else g (xs ! (2 * i)))"
proof (induction f g xs arbitrary: i rule: pair_up.induct)
  case (3 f g x y r)
  then show ?case by (cases i) auto
qed auto

lemma pair_up_slice:
  assumes "even a" and "a + c \<le> length xs" and "even c \<or> a + c = length xs"
  shows "pair_up f g (slice xs a c) = slice (pair_up f g xs) (a div 2) ((c + 1) div 2)"
proof (rule nth_equalityI)
  show len: "length (pair_up f g (slice xs a c)) = length (slice (pair_up f g xs) (a div 2) ((c + 1) div 2))"
    using assms by (auto elim!: evenE)
  fix i
  assume i: "i < length (pair_up f g (slice xs a c))"
  with assms have i': "i < (c + 1) div 2" by simp
  have b: "a div 2 + i < (length xs + 1) div 2" using i' assms by (auto elim!: evenE)
  have e: "2 * (a div 2 + i) = a + 2 * i" using assms(1) by auto
  have lhs: "pair_up f g (slice xs a c) ! i
      = (if 2 * i + 1 < c then f (xs ! (a + 2 * i)) (xs ! (a + (2 * i + 1))) else g (xs ! (a + 2 * i)))"
    using i' assms(2) by (subst nth_pair_up) (auto simp: min_def)
  have eqv: "2 * i + 1 < c \<longleftrightarrow> a + 2 * i + 1 < length xs"
    using i' assms by (auto elim!: evenE)
  have "slice (pair_up f g xs) (a div 2) ((c + 1) div 2) ! i = pair_up f g xs ! (a div 2 + i)"
    using i' b by simp
  also have "\<dots> = (if a + 2 * i + 1 < length xs then f (xs ! (a + 2 * i)) (xs ! (a + 2 * i + 1)) else g (xs ! (a + 2 * i)))"
    using nth_pair_up [OF b, of f g] unfolding e .
  finally show "pair_up f g (slice xs a c) ! i = slice (pair_up f g xs) (a div 2) ((c + 1) div 2) ! i"
    using lhs eqv by (simp add: add.assoc)
qed

subsection \<open>Root\<close>

function tree_root :: "'h node_fun \<Rightarrow> 'h lone_fun \<Rightarrow> 'h list \<Rightarrow> 'h list" where
  "tree_root node lone xs =
     (if length xs \<le> 1 then xs
      else tree_root node lone (pair_up (node (length xs)) (lone (length xs)) xs))"
  by pat_completeness auto
termination
  by (relation "measure (\<lambda>(node, lone, xs). length xs)") auto

declare tree_root.simps [simp del]

lemma length_tree_root: "xs \<noteq> [] \<Longrightarrow> length (tree_root node lone xs) = 1"
proof (induction node lone xs rule: tree_root.induct)
  case (1 node lone xs)
  show ?case
  proof (cases "length xs \<le> 1")
    case True
    with "1.prems" show ?thesis by (cases xs) (auto simp: tree_root.simps)
  next
    case False
    with 1 show ?thesis by (simp add: tree_root.simps [of node lone xs])
  qed
qed

subsection \<open>Range proofs\<close>

text \<open>Siblings needed to rebuild the root from the leaves \<open>lo .. hi\<close>: on each level, the left
  neighbour of an odd \<open>lo\<close> and the right neighbour of an even \<open>hi\<close> that has one.\<close>

function range_proof :: "'h node_fun \<Rightarrow> 'h lone_fun \<Rightarrow> 'h list \<Rightarrow> nat \<Rightarrow> nat \<Rightarrow> 'h list" where
  "range_proof node lone xs lo hi =
     (if length xs \<le> 1 then []
      else (if odd lo then [xs ! (lo - 1)] else [])
        @ (if even hi \<and> hi + 1 < length xs then [xs ! (hi + 1)] else [])
        @ range_proof node lone (pair_up (node (length xs)) (lone (length xs)) xs) (lo div 2) (hi div 2))"
  by pat_completeness auto
termination
  by (relation "measure (\<lambda>(node, lone, xs, lo, hi). length xs)") auto

declare range_proof.simps [simp del]

text \<open>Take one sibling from the proof when the level needs it.\<close>

fun take_sibling :: "bool \<Rightarrow> 'h list \<Rightarrow> ('h list \<times> 'h list) option" where
  "take_sibling False p = Some ([], p)"
| "take_sibling True [] = None"
| "take_sibling True (s # p) = Some ([s], p)"

function range_fold :: "'h node_fun \<Rightarrow> 'h lone_fun \<Rightarrow> nat \<Rightarrow> nat \<Rightarrow> 'h list \<Rightarrow> 'h list \<Rightarrow> ('h list \<times> 'h list) option" where
  "range_fold node lone n lo lvl p =
     (if n \<le> 1 then Some (lvl, p)
      else let hi = lo + length lvl - 1 in
        do { (l, p1) \<leftarrow> take_sibling (odd lo) p;
             (r, p2) \<leftarrow> take_sibling (even hi \<and> hi + 1 < n) p1;
             range_fold node lone ((n + 1) div 2) (lo div 2)
               (pair_up (node n) (lone n) (l @ lvl @ r)) p2 })"
  by pat_completeness auto
termination
  by (relation "measure (\<lambda>(node, lone, n, lo, lvl, p). n)") auto

declare range_fold.simps [simp del]

lemma take_sibling_append:
  "take_sibling b ((if b then [s] else []) @ p) = Some (if b then [s] else [], p)"
  by (cases b) auto

text \<open>The pieces a level of the fold looks at form an aligned slice of the whole level.\<close>

lemma extend_slice:
  assumes "0 < c" and "lo + c \<le> length xs" and hi: "hi = lo + c - 1"
  defines "l \<equiv> (if odd lo then [xs ! (lo - 1)] else [])"
  defines "r \<equiv> (if even hi \<and> hi + 1 < length xs then [xs ! (hi + 1)] else [])"
  shows "l @ slice xs lo c @ r
      = slice xs (2 * (lo div 2)) (c + length l + length r)"
    and "2 * (lo div 2) + (c + length l + length r) \<le> length xs"
    and "even (c + length l + length r) \<or> 2 * (lo div 2) + (c + length l + length r) = length xs"
    and "(c + length l + length r + 1) div 2 = hi div 2 - lo div 2 + 1"
proof -
  have left: "l @ slice xs lo c = slice xs (2 * (lo div 2)) (c + length l)"
  proof (cases "odd lo")
    case True
    then have "2 * (lo div 2) = lo - 1" "0 < lo" by presburger+
    with True assms(2) show ?thesis using Cons_slice [of lo xs c] by (simp add: l_def)
  next
    case False
    then show ?thesis by (simp add: l_def)
  qed
  have ll: "length l = lo mod 2"
    by (simp add: l_def odd_iff_mod_2_eq_one)
  have base: "2 * (lo div 2) + (c + length l) = lo + c"
    unfolding ll by presburger
  have rl: "length r = (if even hi \<and> hi + 1 < length xs then 1 else 0)"
    by (simp add: r_def)
  show "l @ slice xs lo c @ r = slice xs (2 * (lo div 2)) (c + length l + length r)"
  proof (cases "even hi \<and> hi + 1 < length xs")
    case True
    then have "hi + 1 = 2 * (lo div 2) + (c + length l)" using base hi assms(1) by simp
    with True show ?thesis
      using slice_snoc [of "2 * (lo div 2)" "c + length l" xs] left
      by (simp add: r_def flip: append_assoc)
  next
    case False
    then have "r = []" unfolding r_def by auto
    then show ?thesis using left by simp
  qed
  show "2 * (lo div 2) + (c + length l + length r) \<le> length xs"
    using base hi assms(1,2) unfolding rl by (simp split: if_splits)
  show "even (c + length l + length r) \<or> 2 * (lo div 2) + (c + length l + length r) = length xs"
    using hi assms(1,2) unfolding rl ll by (simp split: if_splits; presburger)
  have "2 * (lo div 2) \<le> hi" using hi assms(1) by simp
  then obtain d where d: "hi = 2 * (lo div 2) + d" using le_Suc_ex by blast
  have tot: "c + length l = d + 1" using base d hi assms(1) by simp
  have "length r = 0 \<or> length r = 1 \<and> even d"
    unfolding rl using d by auto
  then have "(d + 1 + length r + 1) div 2 = d div 2 + 1" by (auto elim!: evenE)
  then show "(c + length l + length r + 1) div 2 = hi div 2 - lo div 2 + 1"
    unfolding tot using d by simp
qed

theorem range_fold_range_proof:
  "0 < c \<Longrightarrow> lo + c \<le> length xs \<Longrightarrow>
   range_fold node lone (length xs) lo (slice xs lo c) (range_proof node lone xs lo (lo + c - 1) @ q)
     = Some (tree_root node lone xs, q)"
proof (induction node lone xs lo "lo + c - 1" arbitrary: c rule: range_proof.induct)
  case (1 node lone xs lo)
  show ?case
  proof (cases "length xs \<le> 1")
    case True
    with "1.prems" have "lo = 0" "c = 1" "length xs = 1" by auto
    with True show ?thesis
      by (simp add: range_fold.simps range_proof.simps tree_root.simps)
  next
    case False
    let ?hi = "lo + c - 1"
    let ?up = "pair_up (node (length xs)) (lone (length xs)) xs"
    define l where "l = (if odd lo then [xs ! (lo - 1)] else [])"
    define r where "r = (if even ?hi \<and> ?hi + 1 < length xs then [xs ! (?hi + 1)] else [])"
    note ext = extend_slice [OF "1.prems" refl, folded l_def r_def]
    define c' where "c' = ?hi div 2 - lo div 2 + 1"
    have cur: "pair_up (node (length xs)) (lone (length xs)) (l @ slice xs lo c @ r) = slice ?up (lo div 2) c'"
      unfolding ext(1) c'_def ext(4) [symmetric]
      using pair_up_slice [OF _ ext(2,3)] by simp
    have hi': "?hi div 2 = lo div 2 + c' - 1"
      using "1.prems" by (simp add: c'_def div_le_mono)
    have le: "lo div 2 + c' \<le> length ?up"
      using "1.prems" by (simp add: c'_def div_le_mono)
    have IH: "range_fold node lone (length ?up) (lo div 2) (slice ?up (lo div 2) c')
        (range_proof node lone ?up (lo div 2) (?hi div 2) @ q) = Some (tree_root node lone ?up, q)"
      unfolding hi' by (rule "1.hyps" [OF False hi' _ le]) (simp add: c'_def)
    have len: "lo + length (slice xs lo c) - 1 = ?hi"
      using "1.prems" by simp
    let ?q = "range_proof node lone ?up (lo div 2) (?hi div 2) @ q"
    have pf: "range_proof node lone xs lo ?hi @ q = l @ r @ ?q"
      using False by (simp add: range_proof.simps [of node lone xs lo] l_def r_def)
    have ts1: "take_sibling (odd lo) (l @ r @ ?q) = Some (l, r @ ?q)"
      unfolding l_def by (rule take_sibling_append)
    have ts2: "take_sibling (even ?hi \<and> ?hi + 1 < length xs) (r @ ?q) = Some (r, ?q)"
      unfolding r_def by (rule take_sibling_append)
    have n': "(length xs + 1) div 2 = length ?up" by simp
    have "range_fold node lone (length xs) lo (slice xs lo c) (range_proof node lone xs lo ?hi @ q)
        = range_fold node lone (length ?up) (lo div 2) (slice ?up (lo div 2) c') ?q"
      by (subst range_fold.simps)
        (simp only: False if_False Let_def len pf ts1 ts2 cur n' Option.bind.simps prod.case)
    moreover have "tree_root node lone xs = tree_root node lone ?up"
      using False by (simp add: tree_root.simps [of node lone xs])
    ultimately show ?thesis using IH by simp
  qed
qed

text \<open>A tree of at most \<open>2 ^ k\<close> leaves has \<open>k\<close> levels above its leaves, so a range proof holds at
  most two siblings per level and the proof of one leaf at most one.\<close>

lemma length_range_proof: "length xs \<le> 2 ^ k \<Longrightarrow> length (range_proof node lone xs lo hi) \<le> 2 * k"
proof (induction k arbitrary: xs lo hi)
  case 0
  then show ?case by (simp add: range_proof.simps)
next
  case (Suc k)
  have "length (pair_up (node (length xs)) (lone (length xs)) xs) \<le> 2 ^ k"
    using Suc.prems by simp
  from Suc.IH [OF this] show ?case
    by (subst range_proof.simps) (auto intro: le_SucI)
qed

lemma length_leaf_proof: "length xs \<le> 2 ^ k \<Longrightarrow> length (range_proof node lone xs i i) \<le> k"
proof (induction k arbitrary: xs i)
  case 0
  then show ?case by (simp add: range_proof.simps)
next
  case (Suc k)
  have "length (pair_up (node (length xs)) (lone (length xs)) xs) \<le> 2 ^ k"
    using Suc.prems by simp
  from Suc.IH [OF this] show ?case
    by (subst range_proof.simps) (auto intro: le_SucI)
qed

subsection \<open>Hashed inputs and binding\<close>

text \<open>The pairs a level hashes; \<open>lin x\<close> are the pairs hashed to carry a lone node up.\<close>

fun pair_ins :: "('h \<Rightarrow> ('h \<times> 'h) list) \<Rightarrow> 'h list \<Rightarrow> ('h \<times> 'h) list" where
  "pair_ins lin [] = []"
| "pair_ins lin [x] = lin x"
| "pair_ins lin (x # y # r) = (x, y) # pair_ins lin r"

function range_ins :: "'h node_fun \<Rightarrow> 'h lone_fun \<Rightarrow> ('h \<Rightarrow> ('h \<times> 'h) list) \<Rightarrow> nat \<Rightarrow> nat \<Rightarrow> 'h list \<Rightarrow> 'h list
    \<Rightarrow> (nat \<times> 'h \<times> 'h) list" where
  "range_ins node lone lin n lo lvl p =
     (if n \<le> 1 then []
      else let hi = lo + length lvl - 1 in
        case take_sibling (odd lo) p of None \<Rightarrow> [] | Some (l, p1) \<Rightarrow>
        (case take_sibling (even hi \<and> hi + 1 < n) p1 of None \<Rightarrow> [] | Some (r, p2) \<Rightarrow>
          map (Pair n) (pair_ins lin (l @ lvl @ r))
          @ range_ins node lone lin ((n + 1) div 2) (lo div 2) (pair_up (node n) (lone n) (l @ lvl @ r)) p2))"
  by pat_completeness auto
termination
  by (relation "measure (\<lambda>(node, lone, lin, n, lo, lvl, p). n)") auto

declare range_ins.simps [simp del]

text \<open>Two sets of hashed pairs collide when different pairs of one level have the same digest.\<close>

definition collides :: "'h node_fun \<Rightarrow> (nat \<times> 'h \<times> 'h) set \<Rightarrow> (nat \<times> 'h \<times> 'h) set \<Rightarrow> bool" where
  "collides node A B \<longleftrightarrow>
     (\<exists>m a b c d. (m, a, b) \<in> A \<and> (m, c, d) \<in> B \<and> (a, b) \<noteq> (c, d) \<and> node m a b = node m c d)"

lemma collides_mono: "collides node A B \<Longrightarrow> A \<subseteq> A' \<Longrightarrow> B \<subseteq> B' \<Longrightarrow> collides node A' B'"
  unfolding collides_def by blast

lemma collides_UnI [intro]:
  "collides node A B \<Longrightarrow> collides node (A \<union> C) (B \<union> D)"
  "collides node A B \<Longrightarrow> collides node (C \<union> A) (D \<union> B)"
  "collides node A B \<Longrightarrow> collides node (insert x A) (insert y B)"
  by (erule collides_mono, blast, blast)+

lemma length_take_sibling: "take_sibling b p = Some (l, q) \<Longrightarrow> length l = (if b then 1 else 0)"
  by (cases "(b, p)" rule: take_sibling.cases) auto

text \<open>A hash tree whose carry of a lone node collides only where its pair function does.\<close>

locale hash_tree =
  fixes node :: "'h node_fun" and lone :: "'h lone_fun" and lin :: "'h \<Rightarrow> ('h \<times> 'h) list"
  assumes lone_collision: "lone m x = lone m y \<Longrightarrow> x \<noteq> y \<Longrightarrow>
      collides node (Pair m ` set (lin x)) (Pair m ` set (lin y))"
begin

lemma pair_up_inj:
  "length xs = length ys \<Longrightarrow> pair_up (node m) (lone m) xs = pair_up (node m) (lone m) ys \<Longrightarrow>
   xs = ys \<or> collides node (Pair m ` set (pair_ins lin xs)) (Pair m ` set (pair_ins lin ys))"
proof (induction xs arbitrary: ys rule: induct_list012)
  case 1
  then show ?case by simp
next
  case (2 x)
  then obtain y where "ys = [y]" by (cases ys) auto
  with 2 show ?case using lone_collision [of m x y] by auto
next
  case (3 x x' r)
  then obtain y y' t where ys: "ys = y # y' # t" "length r = length t"
    by (auto simp: length_Suc_conv Suc_length_conv)
  with 3 have hd: "node m x x' = node m y y'"
    and tl: "r = t \<or> collides node (Pair m ` set (pair_ins lin r)) (Pair m ` set (pair_ins lin t))"
    by auto
  show ?case
  proof (cases "(x, x') = (y, y')")
    case True
    with tl ys show ?thesis by auto
  next
    case False
    with hd ys show ?thesis unfolding collides_def by fastforce
  qed
qed

text \<open>Folds of two proofs for the same positions that end in the same nodes started from the same
  leaves, unless their hashed pairs collide.\<close>

lemma fold_binding:
  "range_fold node lone n lo xs p = Some (z, q) \<Longrightarrow> range_fold node lone n lo ys p' = Some (z, q') \<Longrightarrow>
   length xs = length ys \<Longrightarrow>
   xs = ys \<or> collides node (set (range_ins node lone lin n lo xs p)) (set (range_ins node lone lin n lo ys p'))"
proof (induction n arbitrary: lo xs ys p p' rule: less_induct)
  case (less n)
  show ?case
  proof (cases "n \<le> 1")
    case True
    with less.prems show ?thesis by (simp add: range_fold.simps)
  next
    case False
    let ?b = "even (lo + length xs - 1) \<and> lo + length xs - 1 + 1 < n"
    from less.prems(1) False obtain l p1 r p2 where
      x: "take_sibling (odd lo) p = Some (l, p1)" "take_sibling ?b p1 = Some (r, p2)"
        "range_fold node lone ((n + 1) div 2) (lo div 2) (pair_up (node n) (lone n) (l @ xs @ r)) p2 = Some (z, q)"
      by (subst (asm) range_fold.simps) (auto simp: Let_def Option.bind_eq_Some_conv)
    from less.prems(2,3) False obtain l' p1' r' p2' where
      y: "take_sibling (odd lo) p' = Some (l', p1')" "take_sibling ?b p1' = Some (r', p2')"
        "range_fold node lone ((n + 1) div 2) (lo div 2) (pair_up (node n) (lone n) (l' @ ys @ r')) p2' = Some (z, q')"
      by (subst (asm) range_fold.simps) (auto simp: Let_def Option.bind_eq_Some_conv)
    let ?x = "l @ xs @ r" and ?y = "l' @ ys @ r'"
    have ll: "length l = length l'" and lr: "length r = length r'"
      using x y by (auto dest!: length_take_sibling)
    then have len: "length ?x = length ?y" using less.prems(3) by simp
    have sub: "set (range_ins node lone lin n lo xs p) = Pair n ` set (pair_ins lin ?x)
          \<union> set (range_ins node lone lin ((n + 1) div 2) (lo div 2) (pair_up (node n) (lone n) ?x) p2)"
      using x False by (subst range_ins.simps) (simp add: Let_def)
    have sub': "set (range_ins node lone lin n lo ys p') = Pair n ` set (pair_ins lin ?y)
          \<union> set (range_ins node lone lin ((n + 1) div 2) (lo div 2) (pair_up (node n) (lone n) ?y) p2')"
      using y False less.prems(3) by (subst range_ins.simps) (simp add: Let_def)
    from False have "(n + 1) div 2 < n" by simp
    from less.IH [OF this x(3) y(3)] len consider
        "pair_up (node n) (lone n) ?x = pair_up (node n) (lone n) ?y"
      | "collides node (set (range_ins node lone lin ((n + 1) div 2) (lo div 2) (pair_up (node n) (lone n) ?x) p2))
           (set (range_ins node lone lin ((n + 1) div 2) (lo div 2) (pair_up (node n) (lone n) ?y) p2'))"
      by auto
    then show ?thesis
    proof cases
      case 1
      from pair_up_inj [OF len 1] show ?thesis
        using ll lr less.prems(3) unfolding sub sub' by auto
    next
      case 2
      then show ?thesis unfolding sub sub' by auto
    qed
  qed
qed

end

end
