(* ===== verification/Merkle.thy ===== *)
theory Merkle
  imports Level_Tree
begin

section \<open>Merkle proofs over model chunks and trace leaves\<close>

text \<open>
  Model of \<open>verifiable-inference/src/merkle.rs\<close>. The BLAKE3 crate is the record \<open>blake3\<close> of the
  four functions the file calls; every definition takes it as its first argument. Loops over
  the levels of a tree are recursive functions on the level width; a proof iterator
  \<open>proof.iter()\<close> is the list of digests not yet consumed. \<open>None\<close> stands for \<open>return false\<close>,
  \<open>return None\<close> and for the panic of an index out of range.
\<close>

record blake3 =
  b3_hash :: "bytes \<Rightarrow> hash"
  merge_subtrees_root :: "hash \<Rightarrow> hash \<Rightarrow> hash"
  merge_subtrees_non_root :: "hash \<Rightarrow> hash \<Rightarrow> hash"
  finalize_non_root_at :: "nat \<Rightarrow> bytes \<Rightarrow> hash"

definition checked_add_u64 :: "nat \<Rightarrow> nat \<Rightarrow> nat option" where
  "checked_add_u64 a b = (if a + b < 2 ^ 64 then Some (a + b) else None)"

subsection \<open>Model tree: a lone node is hashed with itself\<close>

definition hash_pair :: "blake3 \<Rightarrow> hash \<Rightarrow> hash \<Rightarrow> hash" where
  "hash_pair B l r = b3_hash B (hash_bytes l @ hash_bytes r)"

function rt_verify_loop :: "blake3 \<Rightarrow> nat \<Rightarrow> nat \<Rightarrow> hash list \<Rightarrow> hash list \<Rightarrow> (hash list \<times> hash list) option" where
  "rt_verify_loop B n lo level p =
     (if n \<le> 1 then Some (level, p)
      else let hi = lo + length level - 1 in
        do { (cur, start, p) \<leftarrow>
               (if odd lo then (case p of [] \<Rightarrow> None | s # p' \<Rightarrow> Some ([s], lo - 1, p'))
                else Some ([], lo, p));
             let cur = cur @ level;
             (cur, p) \<leftarrow>
               (if even hi then
                  (if hi + 1 < n then (case p of [] \<Rightarrow> None | s # p' \<Rightarrow> Some (cur @ [s], p'))
                   else Some (cur @ [last cur], p))
                else Some (cur, p));
             rt_verify_loop B ((n + 1) div 2) (start div 2)
               (map (\<lambda>c. hash_pair B (c ! 0) (c ! 1)) (chunks 2 cur)) p })"
  by pat_completeness auto
termination
  by (relation "measure (\<lambda>(B, n, lo, level, p). n)") auto

declare rt_verify_loop.simps [simp del]

definition rt_verify_range :: "blake3 \<Rightarrow> hash \<Rightarrow> nat \<Rightarrow> nat \<Rightarrow> hash list \<Rightarrow> hash list \<Rightarrow> bool" where
  "rt_verify_range B root n_leaves first leaves proof =
     (if leaves = [] \<or> (case checked_add_u64 first (length leaves) of None \<Rightarrow> True | Some e \<Rightarrow> n_leaves < e)
         \<or> 128 < length proof then False
      else (case rt_verify_loop B n_leaves first leaves proof of
              None \<Rightarrow> False
            | Some (level, p) \<Rightarrow> p = [] \<and> length level = 1 \<and> level ! 0 = root))"

function rt_range_proof_loop :: "blake3 \<Rightarrow> hash list \<Rightarrow> nat \<Rightarrow> nat \<Rightarrow> hash list \<Rightarrow> (hash \<times> hash list) option" where
  "rt_range_proof_loop B level lo hi proof =
     (if length level \<le> 1 then do { x \<leftarrow> nth_opt level 0; Some (x, proof) }
      else do { proof \<leftarrow> (if odd lo then do { s \<leftarrow> nth_opt level (lo - 1); Some (proof @ [s]) } else Some proof);
                proof \<leftarrow> (if even hi \<and> hi + 1 < length level
                          then do { s \<leftarrow> nth_opt level (hi + 1); Some (proof @ [s]) } else Some proof);
                rt_range_proof_loop B
                  (map (\<lambda>c. if length c = 2 then hash_pair B (c ! 0) (c ! 1) else hash_pair B (c ! 0) (c ! 0)) (chunks 2 level))
                  (lo div 2) (hi div 2) proof })"
  by pat_completeness auto
termination
  by (relation "measure (\<lambda>(B, level, lo, hi, proof). length level)") (auto simp: length_chunks)

declare rt_range_proof_loop.simps [simp del]

definition rt_range_proof :: "blake3 \<Rightarrow> hash list \<Rightarrow> nat \<Rightarrow> nat \<Rightarrow> (hash \<times> hash list) option" where
  "rt_range_proof B leaves first count =
     (if first + count = 0 then None else rt_range_proof_loop B leaves first (first + count - 1) [])"

definition rt_verify_leaf :: "blake3 \<Rightarrow> hash \<Rightarrow> nat \<Rightarrow> nat \<Rightarrow> hash \<Rightarrow> hash list \<Rightarrow> bool" where
  "rt_verify_leaf B root n_leaves index leaf path = rt_verify_range B root n_leaves index [leaf] path"

subsection \<open>Trace tree: a lone node is promoted, the last merge is flagged\<close>

definition b3_merge :: "blake3 \<Rightarrow> hash \<Rightarrow> hash \<Rightarrow> bool \<Rightarrow> hash" where
  "b3_merge B l r root = (if root then merge_subtrees_root B l r else merge_subtrees_non_root B l r)"

text \<open>The level above \<open>level\<close>, as \<open>b3_root\<close>, \<open>b3_path\<close> and \<open>b3_range_proof\<close> compute it.\<close>

definition b3_level :: "blake3 \<Rightarrow> hash list \<Rightarrow> hash list" where
  "b3_level B level =
     (let n = length level;
          next = map (\<lambda>c. b3_merge B (c ! 0) (c ! 1) (n = 2)) (chunks_exact 2 level)
      in if odd n then next @ [level ! (n - 1)] else next)"

lemma chunks_exact_2_simps [simp]:
  "chunks_exact 2 [] = []" "chunks_exact 2 [x] = []" "chunks_exact 2 (x # y # r) = [x, y] # chunks_exact 2 r"
  by (simp_all add: chunks_exact_def)

lemma b3_level_eq: "b3_level B xs = pair_up (\<lambda>l r. b3_merge B l r (length xs = 2)) (\<lambda>x. x) xs"
proof -
  have "(if odd (length xs) then map (\<lambda>c. f (c ! 0) (c ! 1)) (chunks_exact 2 xs) @ [xs ! (length xs - 1)]
         else map (\<lambda>c. f (c ! 0) (c ! 1)) (chunks_exact 2 xs)) = pair_up f (\<lambda>x. x) xs"
    for f :: "hash \<Rightarrow> hash \<Rightarrow> hash"
    by (induction xs rule: induct_list012) (auto simp: nth_Cons')
  from this [of "\<lambda>l r. b3_merge B l r (length xs = 2)"] show ?thesis
    unfolding b3_level_def Let_def .
qed

lemma length_b3_level [simp]: "length (b3_level B xs) = (length xs + 1) div 2"
  by (simp add: b3_level_eq)

function b3_root :: "blake3 \<Rightarrow> hash list \<Rightarrow> hash option" where
  "b3_root B level = (if length level \<le> 1 then nth_opt level 0 else b3_root B (b3_level B level))"
  by pat_completeness auto
termination
  by (relation "measure (\<lambda>(B, level). length level)") auto

declare b3_root.simps [simp del]

definition xor1 :: "nat \<Rightarrow> nat" where
  "xor1 i = (if even i then i + 1 else i - 1)"

function b3_path_loop :: "blake3 \<Rightarrow> hash list \<Rightarrow> nat \<Rightarrow> hash list \<Rightarrow> hash list option" where
  "b3_path_loop B level i path =
     (if length level \<le> 1 then Some path
      else do { path \<leftarrow> (if even (length level) \<or> i \<noteq> length level - 1
                         then do { s \<leftarrow> nth_opt level (xor1 i); Some (path @ [s]) } else Some path);
                b3_path_loop B (b3_level B level) (i div 2) path })"
  by pat_completeness auto
termination
  by (relation "measure (\<lambda>(B, level, i, path). length level)") auto

declare b3_path_loop.simps [simp del]

definition b3_path :: "blake3 \<Rightarrow> hash list \<Rightarrow> nat \<Rightarrow> hash list option" where
  "b3_path B leaves index = b3_path_loop B leaves index []"

function b3_fold_loop :: "blake3 \<Rightarrow> nat \<Rightarrow> nat \<Rightarrow> hash \<Rightarrow> hash list \<Rightarrow> (hash \<times> hash list) option" where
  "b3_fold_loop B n i acc p =
     (if n \<le> 1 then Some (acc, p)
      else do { (acc, p) \<leftarrow>
                  (if even n \<or> i \<noteq> n - 1
                   then (case p of [] \<Rightarrow> None
                         | s # p' \<Rightarrow> Some (if even i then b3_merge B acc s (n = 2) else b3_merge B s acc (n = 2), p'))
                   else Some (acc, p));
                b3_fold_loop B ((n + 1) div 2) (i div 2) acc p })"
  by pat_completeness auto
termination
  by (relation "measure (\<lambda>(B, n, i, acc, p). n)") auto

declare b3_fold_loop.simps [simp del]

definition b3_fold :: "blake3 \<Rightarrow> nat \<Rightarrow> nat \<Rightarrow> hash \<Rightarrow> hash list \<Rightarrow> hash option" where
  "b3_fold B n_leaves index leaf path =
     (if n_leaves \<le> index \<or> 64 < length path then None
      else do { (acc, p) \<leftarrow> b3_fold_loop B n_leaves index leaf path;
                if p = [] then Some acc else None })"

definition b3_verify :: "blake3 \<Rightarrow> hash \<Rightarrow> nat \<Rightarrow> nat \<Rightarrow> hash \<Rightarrow> hash list \<Rightarrow> bool" where
  "b3_verify B root n_leaves index leaf path = (b3_fold B n_leaves index leaf path = Some root)"

function b3_range_proof_loop :: "blake3 \<Rightarrow> hash list \<Rightarrow> nat \<Rightarrow> nat \<Rightarrow> hash list \<Rightarrow> hash list option" where
  "b3_range_proof_loop B level lo hi proof =
     (if length level \<le> 1 then Some proof
      else do { proof \<leftarrow> (if odd lo then do { s \<leftarrow> nth_opt level (lo - 1); Some (proof @ [s]) } else Some proof);
                proof \<leftarrow> (if even hi \<and> hi + 1 < length level
                          then do { s \<leftarrow> nth_opt level (hi + 1); Some (proof @ [s]) } else Some proof);
                b3_range_proof_loop B (b3_level B level) (lo div 2) (hi div 2) proof })"
  by pat_completeness auto
termination
  by (relation "measure (\<lambda>(B, level, lo, hi, proof). length level)") auto

declare b3_range_proof_loop.simps [simp del]

definition b3_range_proof :: "blake3 \<Rightarrow> hash list \<Rightarrow> nat \<Rightarrow> nat \<Rightarrow> hash list option" where
  "b3_range_proof B leaves first count =
     (if first + count = 0 then None else b3_range_proof_loop B leaves first (first + count - 1) [])"

function b3_range_fold_loop :: "blake3 \<Rightarrow> nat \<Rightarrow> nat \<Rightarrow> hash list \<Rightarrow> hash list \<Rightarrow> (hash list \<times> hash list) option" where
  "b3_range_fold_loop B n lo level p =
     (if n \<le> 1 then Some (level, p)
      else let hi = lo + length level - 1 in
        do { (cur, start, p) \<leftarrow>
               (if even lo then Some ([], lo, p)
                else (case p of [] \<Rightarrow> None | s # p' \<Rightarrow> Some ([s], lo - 1, p')));
             let cur = cur @ level;
             (cur, p) \<leftarrow>
               (if even hi \<and> hi + 1 < n then (case p of [] \<Rightarrow> None | s # p' \<Rightarrow> Some (cur @ [s], p'))
                else Some (cur, p));
             b3_range_fold_loop B ((n + 1) div 2) (start div 2)
               (map (\<lambda>c. if length c = 2 then b3_merge B (c ! 0) (c ! 1) (n = 2) else c ! 0) (chunks 2 cur)) p })"
  by pat_completeness auto
termination
  by (relation "measure (\<lambda>(B, n, lo, level, p). n)") auto

declare b3_range_fold_loop.simps [simp del]

definition b3_range_fold :: "blake3 \<Rightarrow> nat \<Rightarrow> nat \<Rightarrow> hash list \<Rightarrow> hash list \<Rightarrow> hash option" where
  "b3_range_fold B n_leaves first leaves proof =
     (if leaves = [] then None
      else do { e \<leftarrow> checked_add_u64 first (length leaves);
                if n_leaves < e \<or> 128 < length proof then None
                else do { (level, p) \<leftarrow> b3_range_fold_loop B n_leaves first leaves proof;
                          if p = [] \<and> length level = 1 then Some (level ! 0) else None } })"

subsection \<open>Chunks of one BLAKE3 input\<close>

abbreviation "B3_CHUNK \<equiv> 1024 :: nat"

definition div_ceil :: "nat \<Rightarrow> nat \<Rightarrow> nat" where
  "div_ceil a b = (a + b - 1) div b"

definition b3_chunk_cv :: "blake3 \<Rightarrow> bytes \<Rightarrow> nat \<Rightarrow> hash" where
  "b3_chunk_cv B chunk c = finalize_non_root_at B (c * B3_CHUNK) chunk"

definition b3_leaf_from_chunk :: "blake3 \<Rightarrow> nat \<Rightarrow> nat \<Rightarrow> bytes \<Rightarrow> hash list \<Rightarrow> hash option" where
  "b3_leaf_from_chunk B total_len c chunk path =
     (let n_chunks = max (div_ceil total_len B3_CHUNK) 1 in
      do { expected \<leftarrow> (if c + 1 < n_chunks then Some B3_CHUNK
                         else if c * B3_CHUNK \<le> total_len then Some (total_len - c * B3_CHUNK) else None);
           if n_chunks \<le> c \<or> length chunk \<noteq> expected then None
           else if n_chunks = 1 then (if path = [] then Some (b3_hash B chunk) else None)
           else b3_fold B n_chunks c (b3_chunk_cv B chunk c) path })"

definition chunk_cvs :: "blake3 \<Rightarrow> nat \<Rightarrow> bytes \<Rightarrow> hash list" where
  "chunk_cvs B first bs = map (\<lambda>(i, c). b3_chunk_cv B c (first + i)) (zip [0..<length (chunks B3_CHUNK bs)] (chunks B3_CHUNK bs))"

definition b3_leaf_from_chunks :: "blake3 \<Rightarrow> nat \<Rightarrow> nat \<Rightarrow> bytes \<Rightarrow> hash list \<Rightarrow> hash option" where
  "b3_leaf_from_chunks B total_len first bs proof =
     (let n = max (div_ceil total_len B3_CHUNK) 1; count = div_ceil (length bs) B3_CHUNK in
      do { e \<leftarrow> checked_add_u64 first count;
           if count = 0 \<or> n < e \<or> length bs \<noteq> min total_len (e * B3_CHUNK) - first * B3_CHUNK then None
           else if n = 1 then (if proof = [] then Some (b3_hash B bs) else None)
           else b3_range_fold B n first (chunk_cvs B first bs) proof })"

definition b3_chunks_proof :: "blake3 \<Rightarrow> bytes \<Rightarrow> nat \<Rightarrow> nat \<Rightarrow> hash list option" where
  "b3_chunks_proof B data first count =
     (let cvs = chunk_cvs B 0 data in if length cvs \<le> 1 then Some [] else b3_range_proof B cvs first count)"

definition b3_verify_chunk :: "blake3 \<Rightarrow> hash \<Rightarrow> nat \<Rightarrow> nat \<Rightarrow> bytes \<Rightarrow> hash list \<Rightarrow> bool" where
  "b3_verify_chunk B leaf total_len c chunk path = (b3_leaf_from_chunk B total_len c chunk path = Some leaf)"

subsection \<open>The loops compute the reference tree\<close>

definition rt_node :: "blake3 \<Rightarrow> hash node_fun" where
  "rt_node B = (\<lambda>n. hash_pair B)"

definition rt_lone :: "blake3 \<Rightarrow> hash lone_fun" where
  "rt_lone B = (\<lambda>n x. hash_pair B x x)"

definition b3_node :: "blake3 \<Rightarrow> hash node_fun" where
  "b3_node B = (\<lambda>n l r. b3_merge B l r (n = 2))"

definition b3_lone :: "hash lone_fun" where
  "b3_lone = (\<lambda>n x. x)"

lemma chunks2_even: "even (length xs) \<Longrightarrow> map (\<lambda>c. f (c ! 0) (c ! 1)) (chunks 2 xs) = pair_up f g xs"
  by (induction xs rule: induct_list012) auto

lemma chunks2_dup_last:
  "odd (length xs) \<Longrightarrow> map (\<lambda>c. f (c ! 0) (c ! 1)) (chunks 2 (xs @ [last xs])) = pair_up f (\<lambda>x. f x x) xs"
  by (induction xs rule: induct_list012) auto

lemma chunks2_short:
  "map (\<lambda>c. if length c = 2 then f (c ! 0) (c ! 1) else g (c ! 0)) (chunks 2 xs) = pair_up f g xs"
  by (induction xs rule: induct_list012) auto

lemma left_sibling_eq:
  "(if odd (lo :: nat) then (case p of [] \<Rightarrow> None | s # p' \<Rightarrow> Some ([s], lo - 1, p')) else Some ([], lo, p))
     = map_option (\<lambda>(l, p1). (l, 2 * (lo div 2), p1)) (take_sibling (odd lo) p)"
  by (cases "odd lo"; cases p) (auto elim!: oddE)

lemma left_sibling_eq':
  "(if even (lo :: nat) then Some ([], lo, p) else (case p of [] \<Rightarrow> None | s # p' \<Rightarrow> Some ([s], lo - 1, p')))
     = map_option (\<lambda>(l, p1). (l, 2 * (lo div 2), p1)) (take_sibling (odd lo) p)"
  by (cases "odd lo"; cases p) (auto elim!: oddE)

lemma rt_right_sibling_eq:
  "(if e then (if m then (case p of [] \<Rightarrow> None | s # p' \<Rightarrow> Some (cur @ [s], p')) else Some (cur @ [last cur], p))
    else Some (cur, p))
     = map_option (\<lambda>(r, p2). (cur @ r @ (if e \<and> \<not> m then [last cur] else []), p2)) (take_sibling (e \<and> m) p)"
  by (cases e; cases m; cases p) auto

lemma b3_right_sibling_eq:
  "(if b then (case p of [] \<Rightarrow> None | s # p' \<Rightarrow> Some (cur @ [s], p')) else Some (cur, p))
     = map_option (\<lambda>(r, p2). (cur @ r, p2)) (take_sibling b p)"
  by (cases b; cases p) auto

lemma bind_map_option: "Option.bind (map_option f x) g = Option.bind x (g \<circ> f)"
  by (cases x) auto

text \<open>With the positions in range, the nodes a level gathers pair up without a gap.\<close>

lemma gathered_parity:
  assumes "level \<noteq> []" and "lo + length level \<le> n" and "hi = lo + length level - 1"
    and "take_sibling (odd lo) p = Some (l, p1)" and "take_sibling (even hi \<and> hi + 1 < n) p1 = Some (r, p2)"
  shows "odd (length (l @ level @ r)) \<longleftrightarrow> even hi \<and> \<not> hi + 1 < n"
    and "l @ level @ r \<noteq> []" and "2 * (lo div 2) + length (l @ level @ r) \<le> n"
    and "even hi \<and> \<not> hi + 1 < n \<Longrightarrow> r = []"
proof -
  have l: "length l = (if odd lo then 1 else 0)" using assms(4) by (rule length_take_sibling)
  have r: "length r = (if even hi \<and> hi + 1 < n then 1 else 0)" using assms(5) by (rule length_take_sibling)
  obtain k where k: "length level = Suc k" using assms(1) by (cases level) auto
  then have hi: "hi = lo + k" using assms(3) by simp
  show "odd (length (l @ level @ r)) \<longleftrightarrow> even hi \<and> \<not> hi + 1 < n"
    unfolding length_append l r k hi by auto
  show "l @ level @ r \<noteq> []" using assms(1) by simp
  have "2 * (lo div 2) + length l = lo" unfolding l by (auto elim!: oddE)
  then show "2 * (lo div 2) + length (l @ level @ r) \<le> n"
    using assms(2) hi k r by (auto split: if_splits)
  show "r = []" if "even hi \<and> \<not> hi + 1 < n" using r that by auto
qed

lemma rt_verify_loop_eq:
  "level \<noteq> [] \<Longrightarrow> lo + length level \<le> n \<Longrightarrow>
   rt_verify_loop B n lo level p = range_fold (rt_node B) (rt_lone B) n lo level p"
proof (induction n arbitrary: lo level p rule: less_induct)
  case (less n)
  show ?case
  proof (cases "n \<le> 1")
    case True
    then show ?thesis by (simp add: rt_verify_loop.simps range_fold.simps)
  next
    case False
    define hi where "hi = lo + length level - 1"
    let ?b = "even hi \<and> hi + 1 < n"
    have level_up: "map (\<lambda>c. hash_pair B (c ! 0) (c ! 1))
        (chunks 2 ((l @ level) @ r @ (if even hi \<and> \<not> hi + 1 < n then [last (l @ level)] else [])))
        = pair_up (rt_node B n) (rt_lone B n) (l @ level @ r)"
      and rec: "rt_verify_loop B ((n + 1) div 2) (2 * (lo div 2) div 2) (pair_up (rt_node B n) (rt_lone B n) (l @ level @ r)) p2
        = range_fold (rt_node B) (rt_lone B) ((n + 1) div 2) (lo div 2) (pair_up (rt_node B n) (rt_lone B n) (l @ level @ r)) p2"
      if ts: "take_sibling (odd lo) p = Some (l, p1)" "take_sibling ?b p1 = Some (r, p2)" for l p1 r p2
    proof -
      note g = gathered_parity [OF less.prems hi_def ts]
      show "rt_verify_loop B ((n + 1) div 2) (2 * (lo div 2) div 2) (pair_up (rt_node B n) (rt_lone B n) (l @ level @ r)) p2
        = range_fold (rt_node B) (rt_lone B) ((n + 1) div 2) (lo div 2) (pair_up (rt_node B n) (rt_lone B n) (l @ level @ r)) p2"
        using g(2,3) False less.IH [of "(n + 1) div 2" "pair_up (rt_node B n) (rt_lone B n) (l @ level @ r)" "lo div 2" p2]
        by simp
      show "map (\<lambda>c. hash_pair B (c ! 0) (c ! 1))
        (chunks 2 ((l @ level) @ r @ (if even hi \<and> \<not> hi + 1 < n then [last (l @ level)] else [])))
        = pair_up (rt_node B n) (rt_lone B n) (l @ level @ r)"
      proof (cases "even hi \<and> \<not> hi + 1 < n")
        case True
        then show ?thesis
          using chunks2_dup_last [of "l @ level" "hash_pair B"] g(1,4) by (simp add: rt_node_def rt_lone_def)
      next
        case F: False
        then have "even (length (l @ level @ r))" using g(1) by blast
        then show ?thesis
          unfolding if_not_P [OF F] rt_node_def append_Nil2 append_assoc by (rule chunks2_even)
      qed
    qed
    show ?thesis
      unfolding rt_verify_loop.simps [of B n lo level p] range_fold.simps [of _ _ n lo level p]
        Let_def hi_def [symmetric] left_sibling_eq rt_right_sibling_eq bind_map_option
      using False level_up rec by (auto intro!: Option.bind_cong)
  qed
qed

lemma tree_root_step:
  "1 < length xs \<Longrightarrow> tree_root node lone xs = tree_root node lone (pair_up (node (length xs)) (lone (length xs)) xs)"
  by (simp add: tree_root.simps [of node lone xs])

lemma range_proof_step:
  "1 < length xs \<Longrightarrow> range_proof node lone xs lo hi
     = (if odd lo then [xs ! (lo - 1)] else [])
       @ (if even hi \<and> hi + 1 < length xs then [xs ! (hi + 1)] else [])
       @ range_proof node lone (pair_up (node (length xs)) (lone (length xs)) xs) (lo div 2) (hi div 2)"
  by (simp add: range_proof.simps [of node lone xs])

lemma rt_range_proof_loop_eq:
  "lo \<le> hi \<Longrightarrow> hi < length level \<Longrightarrow>
   rt_range_proof_loop B level lo hi acc
     = Some (tree_root (rt_node B) (rt_lone B) level ! 0, acc @ range_proof (rt_node B) (rt_lone B) level lo hi)"
proof (induction "length level" arbitrary: level lo hi acc rule: less_induct)
  case less
  show ?case
  proof (cases "length level \<le> 1")
    case True
    with less.prems show ?thesis
      by (auto simp: rt_range_proof_loop.simps tree_root.simps range_proof.simps nth_opt_def)
  next
    case False
    let ?up = "pair_up (rt_node B (length level)) (rt_lone B (length level)) level"
    have up: "map (\<lambda>c. if length c = 2 then hash_pair B (c ! 0) (c ! 1) else hash_pair B (c ! 0) (c ! 0)) (chunks 2 level) = ?up"
      unfolding rt_node_def rt_lone_def by (rule chunks2_short)
    have IH: "rt_range_proof_loop B ?up (lo div 2) (hi div 2) a
        = Some (tree_root (rt_node B) (rt_lone B) ?up ! 0, a @ range_proof (rt_node B) (rt_lone B) ?up (lo div 2) (hi div 2))" for a
      using False less.prems by (intro less.hyps) (auto simp: div_le_mono)
    have n1: "1 < length level" using False by simp
    have "lo - 1 < length level" using less.prems by auto
    then show ?thesis
      unfolding rt_range_proof_loop.simps [of B level] up range_proof_step [OF n1] tree_root_step [OF n1]
      using False IH by (auto simp: nth_opt_in_range)
  qed
qed

lemma b3_root_eq: "level \<noteq> [] \<Longrightarrow> b3_root B level = Some (tree_root (b3_node B) b3_lone level ! 0)"
proof (induction "length level" arbitrary: level rule: less_induct)
  case less
  show ?case
  proof (cases "length level \<le> 1")
    case True
    with less.prems show ?thesis
      by (cases level) (auto simp: b3_root.simps [of B "[_]"] tree_root.simps [of _ _ "[_]"] nth_opt_def)
  next
    case False
    have "b3_level B level = pair_up (b3_node B (length level)) (b3_lone (length level)) level"
      by (simp add: b3_level_eq b3_node_def b3_lone_def)
    with less False show ?thesis
      by (simp add: b3_root.simps [of B level] tree_root.simps [of _ _ level])
  qed
qed

lemma b3_level_up: "b3_level B xs = pair_up (b3_node B (length xs)) (b3_lone (length xs)) xs"
  by (simp add: b3_level_eq b3_node_def b3_lone_def)

lemma b3_range_proof_loop_eq:
  "lo \<le> hi \<Longrightarrow> hi < length level \<Longrightarrow>
   b3_range_proof_loop B level lo hi acc = Some (acc @ range_proof (b3_node B) b3_lone level lo hi)"
proof (induction "length level" arbitrary: level lo hi acc rule: less_induct)
  case less
  show ?case
  proof (cases "length level \<le> 1")
    case True
    then show ?thesis by (simp add: b3_range_proof_loop.simps range_proof.simps)
  next
    case False
    let ?up = "pair_up (b3_node B (length level)) (b3_lone (length level)) level"
    have IH: "b3_range_proof_loop B ?up (lo div 2) (hi div 2) a
        = Some (a @ range_proof (b3_node B) b3_lone ?up (lo div 2) (hi div 2))" for a
      using False less.prems by (intro less.hyps) (auto simp: div_le_mono)
    have n1: "1 < length level" using False by simp
    have "lo - 1 < length level" using less.prems by auto
    then show ?thesis
      unfolding b3_range_proof_loop.simps [of B level] b3_level_up range_proof_step [OF n1]
      using False IH by (auto simp: nth_opt_in_range)
  qed
qed

lemma b3_path_loop_eq:
  "i < length level \<Longrightarrow> b3_path_loop B level i acc = Some (acc @ range_proof (b3_node B) b3_lone level i i)"
proof (induction "length level" arbitrary: level i acc rule: less_induct)
  case less
  show ?case
  proof (cases "length level \<le> 1")
    case True
    then show ?thesis by (simp add: b3_path_loop.simps range_proof.simps)
  next
    case False
    let ?up = "pair_up (b3_node B (length level)) (b3_lone (length level)) level"
    have IH: "b3_path_loop B ?up (i div 2) a = Some (a @ range_proof (b3_node B) b3_lone ?up (i div 2) (i div 2))" for a
      using False less.prems by (intro less.hyps) auto
    have n1: "1 < length level" using False by simp
    have cond: "even (length level) \<or> i \<noteq> length level - 1 \<longleftrightarrow> odd i \<or> i + 1 < length level"
      using less.prems by (cases "length level") (auto simp: less_Suc_eq)
    have "i - 1 < length level" using less.prems by auto
    then show ?thesis
      unfolding b3_path_loop.simps [of B level] b3_level_up range_proof_step [OF n1] cond
      using False IH by (auto simp: xor1_def nth_opt_in_range)
  qed
qed

lemma b3_range_fold_loop_eq:
  "b3_range_fold_loop B n lo level p = range_fold (b3_node B) b3_lone n lo level p"
proof (induction n arbitrary: lo level p rule: less_induct)
  case (less n)
  show ?case
  proof (cases "n \<le> 1")
    case True
    then show ?thesis by (simp add: b3_range_fold_loop.simps range_fold.simps)
  next
    case False
    have up: "map (\<lambda>c. if length c = 2 then b3_merge B (c ! 0) (c ! 1) (n = 2) else c ! 0) (chunks 2 cur)
        = pair_up (b3_node B n) (b3_lone n) cur" for cur
      unfolding b3_node_def b3_lone_def by (rule chunks2_short)
    have IH: "b3_range_fold_loop B ((n + 1) div 2) l c q = range_fold (b3_node B) b3_lone ((n + 1) div 2) l c q" for l c q
      using False by (intro less.IH) simp
    show ?thesis
      unfolding b3_range_fold_loop.simps [of B n lo level p] range_fold.simps [of _ _ n lo level p]
        Let_def left_sibling_eq' b3_right_sibling_eq bind_map_option up IH
      by (auto intro!: Option.bind_cong)
  qed
qed

lemma b3_fold_loop_eq:
  "i < n \<Longrightarrow> range_fold (b3_node B) b3_lone n i [acc] p = map_option (\<lambda>(a, q). ([a], q)) (b3_fold_loop B n i acc p)"
proof (induction n arbitrary: i acc p rule: less_induct)
  case (less n)
  show ?case
  proof (cases "n \<le> 1")
    case True
    then show ?thesis by (simp add: b3_fold_loop.simps range_fold.simps)
  next
    case False
    have IH: "range_fold (b3_node B) b3_lone ((n + 1) div 2) (i div 2) [a] q
        = map_option (\<lambda>(a, q). ([a], q)) (b3_fold_loop B ((n + 1) div 2) (i div 2) a q)" for a q
      using False less.prems by (intro less.IH) auto
    have cond: "even n \<or> i \<noteq> n - 1 \<longleftrightarrow> odd i \<or> i + 1 < n"
      using less.prems by (cases n) (auto simp: less_Suc_eq)
    show ?thesis
      unfolding b3_fold_loop.simps [of B n] range_fold.simps [of _ _ n] cond
      using False IH by (cases p; cases "odd i") (auto simp: Let_def b3_node_def b3_lone_def)
  qed
qed

subsection \<open>The contract of a vector commitment\<close>

text \<open>
  What the verifier code relies on: the digest of a leaf list, proofs of contiguous leaves, and a
  check. A check never accepts positions outside the tree, honest proofs are accepted, and two
  accepted openings of the same positions agree unless the hash function collides on the inputs
  the two checks fed to it (\<open>clash\<close>).
\<close>

locale commitment =
  fixes commit :: "hash list \<Rightarrow> hash option"
    and prove :: "hash list \<Rightarrow> nat \<Rightarrow> nat \<Rightarrow> hash list option"
    and check :: "hash \<Rightarrow> nat \<Rightarrow> nat \<Rightarrow> hash list \<Rightarrow> hash list \<Rightarrow> bool"
    and clash :: "nat \<Rightarrow> nat \<Rightarrow> hash list \<Rightarrow> hash list \<Rightarrow> hash list \<Rightarrow> hash list \<Rightarrow> bool"
  assumes check_range: "check r n f xs p \<Longrightarrow> xs \<noteq> [] \<and> f + length xs \<le> n \<and> f + length xs < 2 ^ 64"
    and complete: "0 < c \<Longrightarrow> f + c \<le> length xs \<Longrightarrow> length xs < 2 ^ 64 \<Longrightarrow>
        \<exists>r p. commit xs = Some r \<and> prove xs f c = Some p \<and> check r (length xs) f (slice xs f c) p"
    and binding: "check r n f xs p \<Longrightarrow> check r n f ys q \<Longrightarrow> length xs = length ys \<Longrightarrow>
        xs = ys \<or> clash n f xs p ys q"
begin

text \<open>An accepted opening shows the committed leaves.\<close>

lemma sound:
  assumes "commit xs = Some r" and "length xs < 2 ^ 64" and acc: "check r (length xs) f ys q"
  shows "\<exists>p. prove xs f (length ys) = Some p \<and>
    (ys = slice xs f (length ys) \<or> clash (length xs) f (slice xs f (length ys)) p ys q)"
proof -
  from check_range [OF acc] have y: "0 < length ys" "f + length ys \<le> length xs" by auto
  from complete [OF y assms(2)] assms(1) obtain p where
    p: "prove xs f (length ys) = Some p" "check r (length xs) f (slice xs f (length ys)) p" by auto
  have "length (slice xs f (length ys)) = length ys" using y by simp
  from binding [OF p(2) acc this] p(1) show ?thesis by auto
qed

end

definition rt_hashed :: "blake3 \<Rightarrow> nat \<Rightarrow> nat \<Rightarrow> hash list \<Rightarrow> hash list \<Rightarrow> bytes list" where
  "rt_hashed B n f xs p =
     map (\<lambda>(m, l, r). hash_bytes l @ hash_bytes r) (range_ins (rt_node B) (rt_lone B) (\<lambda>x. [(x, x)]) n f xs p)"

definition rt_clash :: "blake3 \<Rightarrow> nat \<Rightarrow> nat \<Rightarrow> hash list \<Rightarrow> hash list \<Rightarrow> hash list \<Rightarrow> hash list \<Rightarrow> bool" where
  "rt_clash B n f xs p ys q \<longleftrightarrow> \<not> inj_on (b3_hash B) (set (rt_hashed B n f xs p) \<union> set (rt_hashed B n f ys q))"

definition rt_commit :: "blake3 \<Rightarrow> hash list \<Rightarrow> hash option" where
  "rt_commit B xs = map_option fst (rt_range_proof B xs 0 1)"

definition rt_prove :: "blake3 \<Rightarrow> hash list \<Rightarrow> nat \<Rightarrow> nat \<Rightarrow> hash list option" where
  "rt_prove B xs f c = map_option snd (rt_range_proof B xs f c)"

definition b3_merged :: "blake3 \<Rightarrow> nat \<Rightarrow> nat \<Rightarrow> hash list \<Rightarrow> hash list \<Rightarrow> (nat \<times> hash \<times> hash) list" where
  "b3_merged B n f xs p = range_ins (b3_node B) b3_lone (\<lambda>_. []) n f xs p"

definition b3_clash :: "blake3 \<Rightarrow> nat \<Rightarrow> nat \<Rightarrow> hash list \<Rightarrow> hash list \<Rightarrow> hash list \<Rightarrow> hash list \<Rightarrow> bool" where
  "b3_clash B n f xs p ys q \<longleftrightarrow> collides (b3_node B) (set (b3_merged B n f xs p)) (set (b3_merged B n f ys q))"

definition b3_check :: "blake3 \<Rightarrow> hash \<Rightarrow> nat \<Rightarrow> nat \<Rightarrow> hash list \<Rightarrow> hash list \<Rightarrow> bool" where
  "b3_check B r n f xs p \<longleftrightarrow> b3_range_fold B n f xs p = Some r"

interpretation rt_tree: hash_tree "rt_node B" "rt_lone B" "\<lambda>x. [(x, x)]" for B
  by unfold_locales (auto simp: collides_def rt_node_def rt_lone_def)

interpretation b3_tree: hash_tree "b3_node B" b3_lone "\<lambda>_. []" for B
  by unfold_locales (simp add: b3_lone_def)

lemma rt_verify_range_iff:
  "rt_verify_range B r n f xs p \<longleftrightarrow>
     xs \<noteq> [] \<and> f + length xs < 2 ^ 64 \<and> f + length xs \<le> n \<and> length p \<le> 128
     \<and> (\<exists>z. range_fold (rt_node B) (rt_lone B) n f xs p = Some ([z], []) \<and> z = r)"
  unfolding rt_verify_range_def checked_add_u64_def
  by (auto simp: rt_verify_loop_eq length_Suc_conv split: option.splits if_splits prod.splits)

lemma b3_check_iff:
  "b3_check B r n f xs p \<longleftrightarrow>
     xs \<noteq> [] \<and> f + length xs < 2 ^ 64 \<and> f + length xs \<le> n \<and> length p \<le> 128
     \<and> range_fold (b3_node B) b3_lone n f xs p = Some ([r], [])"
  unfolding b3_check_def b3_range_fold_def checked_add_u64_def b3_range_fold_loop_eq
  by (auto simp: length_Suc_conv Option.bind_eq_Some_conv split: if_splits)

lemma tree_root_single: "xs \<noteq> [] \<Longrightarrow> tree_root node lone xs = [tree_root node lone xs ! 0]"
  using length_tree_root [of xs node lone] by (auto simp: length_Suc_conv)

lemma rt_collision:
  "collides (rt_node B) (set (range_ins (rt_node B) (rt_lone B) (\<lambda>x. [(x, x)]) n f xs p))
      (set (range_ins (rt_node B) (rt_lone B) (\<lambda>x. [(x, x)]) n f ys q)) \<Longrightarrow> rt_clash B n f xs p ys q"
  unfolding rt_clash_def rt_hashed_def collides_def rt_node_def inj_on_def hash_pair_def
  by (fastforce simp: image_iff)

interpretation rt: commitment "rt_commit B" "rt_prove B" "rt_verify_range B" "rt_clash B" for B
proof
  fix r n f xs p
  assume "rt_verify_range B r n f xs p"
  then show "xs \<noteq> [] \<and> f + length xs \<le> n \<and> f + length xs < 2 ^ 64"
    by (simp add: rt_verify_range_iff)
next
  fix c f and xs :: "hash list"
  assume a: "0 < c" "f + c \<le> length xs" "length xs < 2 ^ 64"
  then have ne: "xs \<noteq> []" by auto
  have "length (range_proof (rt_node B) (rt_lone B) xs f (f + c - 1)) \<le> 2 * 64"
    using a by (intro length_range_proof) simp
  moreover have "range_fold (rt_node B) (rt_lone B) (length xs) f (slice xs f c)
      (range_proof (rt_node B) (rt_lone B) xs f (f + c - 1)) = Some ([tree_root (rt_node B) (rt_lone B) xs ! 0], [])"
    using range_fold_range_proof [OF a(1,2), of "rt_node B" "rt_lone B" "[]"] tree_root_single [OF ne, of "rt_node B" "rt_lone B"]
    by (metis append_Nil2)
  ultimately show "\<exists>r p. rt_commit B xs = Some r \<and> rt_prove B xs f c = Some p \<and> rt_verify_range B r (length xs) f (slice xs f c) p"
    using a ne by (auto simp: rt_commit_def rt_prove_def rt_range_proof_def rt_range_proof_loop_eq rt_verify_range_iff)
next
  fix r n f xs p ys q
  assume x: "rt_verify_range B r n f xs p" and y: "rt_verify_range B r n f ys q" and len: "length xs = length ys"
  from x have "range_fold (rt_node B) (rt_lone B) n f xs p = Some ([r], [])" by (simp add: rt_verify_range_iff)
  moreover from y have "range_fold (rt_node B) (rt_lone B) n f ys q = Some ([r], [])" by (simp add: rt_verify_range_iff)
  ultimately show "xs = ys \<or> rt_clash B n f xs p ys q"
    using rt_tree.fold_binding [OF _ _ len] rt_collision by blast
qed

interpretation b3: commitment "b3_root B" "b3_range_proof B" "b3_check B" "b3_clash B" for B
proof
  fix r n f xs p
  assume "b3_check B r n f xs p"
  then show "xs \<noteq> [] \<and> f + length xs \<le> n \<and> f + length xs < 2 ^ 64"
    by (simp add: b3_check_iff)
next
  fix c f and xs :: "hash list"
  assume a: "0 < c" "f + c \<le> length xs" "length xs < 2 ^ 64"
  then have ne: "xs \<noteq> []" by auto
  have "length (range_proof (b3_node B) b3_lone xs f (f + c - 1)) \<le> 2 * 64"
    using a by (intro length_range_proof) simp
  moreover have "range_fold (b3_node B) b3_lone (length xs) f (slice xs f c)
      (range_proof (b3_node B) b3_lone xs f (f + c - 1)) = Some ([tree_root (b3_node B) b3_lone xs ! 0], [])"
    using range_fold_range_proof [OF a(1,2), of "b3_node B" b3_lone "[]"] tree_root_single [OF ne, of "b3_node B" b3_lone]
    by (metis append_Nil2)
  ultimately show "\<exists>r p. b3_root B xs = Some r \<and> b3_range_proof B xs f c = Some p \<and> b3_check B r (length xs) f (slice xs f c) p"
    using a ne by (auto simp: b3_root_eq b3_range_proof_def b3_range_proof_loop_eq b3_check_iff)
next
  fix r n f xs p ys q
  assume x: "b3_check B r n f xs p" and y: "b3_check B r n f ys q" and len: "length xs = length ys"
  from x have "range_fold (b3_node B) b3_lone n f xs p = Some ([r], [])" by (simp add: b3_check_iff)
  moreover from y have "range_fold (b3_node B) b3_lone n f ys q = Some ([r], [])" by (simp add: b3_check_iff)
  ultimately show "xs = ys \<or> b3_clash B n f xs p ys q"
    using b3_tree.fold_binding [OF _ _ len] unfolding b3_clash_def b3_merged_def by blast
qed

lemma b3_verify_iff:
  "b3_verify B r n i x p \<longleftrightarrow> i < n \<and> length p \<le> 64 \<and> range_fold (b3_node B) b3_lone n i [x] p = Some ([r], [])"
  unfolding b3_verify_def b3_fold_def
  by (auto simp: b3_fold_loop_eq Option.bind_eq_Some_conv split: if_splits)

subsection \<open>Properties\<close>

text \<open>C22. Model tree, completeness: for every non-empty range of a tree of fewer than \<open>2 ^ 64\<close> leaves,
  \<open>rt_range_proof\<close> returns a root and a proof that \<open>rt_verify_range\<close> accepts for exactly those leaves
  (in particular the proof never exceeds the verifier's cap of 128 digests, and no index panics).\<close>

theorem rt_range_proof_accepted:
  assumes "0 < count" and "first + count \<le> length leaves" and "length leaves < 2 ^ 64"
  shows "\<exists>root proof. rt_range_proof B leaves first count = Some (root, proof)
    \<and> rt_verify_range B root (length leaves) first (slice leaves first count) proof"
proof -
  from rt.complete [OF assms, of B] obtain r p where
    "rt_commit B leaves = Some r" "rt_prove B leaves first count = Some p"
    and acc: "rt_verify_range B r (length leaves) first (slice leaves first count) p" by blast
  moreover have "leaves \<noteq> []" using assms by auto
  ultimately have "rt_range_proof B leaves first count = Some (r, p)"
    using assms by (auto simp: rt_commit_def rt_prove_def rt_range_proof_def rt_range_proof_loop_eq)
  with acc show ?thesis by blast
qed

text \<open>C21. Model tree, soundness: an opening accepted against the root of \<open>leaves\<close> shows the leaves that
  are at these positions, whatever the prover sends, as long as BLAKE3 has no collision among the
  finitely many 64-byte inputs hashed by this check and by the check of the honest proof.\<close>

theorem rt_opening_sound:
  assumes "rt_range_proof B leaves first (length claimed) = Some (root, honest)"
    and "length leaves < 2 ^ 64"
    and "rt_verify_range B root (length leaves) first claimed proof"
    and "inj_on (b3_hash B)
      (set (rt_hashed B (length leaves) first (slice leaves first (length claimed)) honest)
       \<union> set (rt_hashed B (length leaves) first claimed proof))"
  shows "claimed = slice leaves first (length claimed)"
proof -
  have rng: "claimed \<noteq> []" "first + length claimed \<le> length leaves"
    using assms(3) by (auto simp: rt_verify_range_iff)
  then have "first \<le> first + length claimed - 1" "first + length claimed - 1 < length leaves"
    and "0 < length leaves"
    by (cases claimed; auto)+
  then have "rt_commit B leaves = Some root"
    using assms(1) by (auto simp: rt_commit_def rt_range_proof_def rt_range_proof_loop_eq split: if_splits)
  from rt.sound [OF this assms(2,3)] assms(1,4) show ?thesis
    by (auto simp: rt_prove_def rt_clash_def)
qed

lemma path_accepted:
  assumes "i < length leaves" and "length leaves \<le> 2 ^ 64"
  shows "\<exists>root path. b3_root B leaves = Some root \<and> b3_path B leaves i = Some path
    \<and> b3_verify B root (length leaves) i (leaves ! i) path"
proof -
  have ne: "leaves \<noteq> []" using assms by auto
  let ?p = "range_proof (b3_node B) b3_lone leaves i i"
  have "slice leaves i 1 = [leaves ! i]"
    using assms by (simp add: take_Suc_conv_app_nth hd_drop_conv_nth)
  then have "range_fold (b3_node B) b3_lone (length leaves) i [leaves ! i] ?p
      = Some (tree_root (b3_node B) b3_lone leaves, [])"
    using range_fold_range_proof [of 1 i leaves "b3_node B" b3_lone "[]"] assms by simp
  then have "range_fold (b3_node B) b3_lone (length leaves) i [leaves ! i] ?p
      = Some ([tree_root (b3_node B) b3_lone leaves ! 0], [])"
    using tree_root_single [OF ne, of "b3_node B" b3_lone] by metis
  moreover have "length ?p \<le> 64" using assms(2) by (rule length_leaf_proof)
  ultimately show ?thesis
    using assms by (auto simp: b3_root_eq [OF ne] b3_path_def b3_path_loop_eq b3_verify_iff)
qed

text \<open>Trace tree, completeness of single-leaf paths: \<open>b3_path\<close> returns a path of at most 64 digests
  that \<open>b3_verify\<close> accepts against \<open>b3_root\<close> at that leaf's index.\<close>

theorem b3_path_accepted:
  assumes "i < length leaves" and "length leaves \<le> 2 ^ 64"
  shows "\<exists>root path. b3_root B leaves = Some root \<and> b3_path B leaves i = Some path
    \<and> b3_verify B root (length leaves) i (leaves ! i) path"
  using assms by (rule path_accepted)

text \<open>C5. Trace tree, soundness of range openings: if \<open>b3_range_fold\<close> rebuilds the root of \<open>leaves\<close>, the
  opened leaves are the committed ones, or two different pairs of subtree values merged at the same
  level of the honest and of the claimed opening have the same parent.\<close>

theorem b3_opening_sound:
  assumes "b3_root B leaves = Some root" and "length leaves < 2 ^ 64"
    and "b3_range_fold B (length leaves) first claimed proof = Some root"
  shows "\<exists>honest. b3_range_proof B leaves first (length claimed) = Some honest \<and>
    (claimed = slice leaves first (length claimed)
     \<or> b3_clash B (length leaves) first (slice leaves first (length claimed)) honest claimed proof)"
  using b3.sound [OF assms(1,2), of first claimed "proof"] assms(3) by (simp add: b3_check_def)

text \<open>A small executable stand-in for the BLAKE3 functions, for witnesses: it follows BLAKE3's tree
  mode (an input of more than one chunk hashes to the root over its chunk values).\<close>

definition toy_mix :: "nat \<Rightarrow> bytes \<Rightarrow> hash" where
  "toy_mix k bs = word_of_nat (k + 3 * length bs + 5 * le_nat bs)"

definition toy_parts :: blake3 where
  "toy_parts = \<lparr> b3_hash = toy_mix 1,
     merge_subtrees_root = (\<lambda>l r. toy_mix 7 (hash_bytes l @ hash_bytes r)),
     merge_subtrees_non_root = (\<lambda>l r. toy_mix 11 (hash_bytes l @ hash_bytes r)),
     finalize_non_root_at = (\<lambda>off bs. toy_mix (13 + off) bs) \<rparr>"

definition toy_blake3 :: blake3 where
  "toy_blake3 = toy_parts\<lparr> b3_hash := (\<lambda>bs. if length bs \<le> B3_CHUNK then toy_mix 1 bs
      else (case b3_root toy_parts (chunk_cvs toy_parts 0 bs) of Some h \<Rightarrow> h | None \<Rightarrow> 0)) \<rparr>"

theorem rt_range_proof_accepted_witness:
  "\<exists>root proof. rt_range_proof toy_blake3 [3, 4, 5] 1 2 = Some (root, proof)
    \<and> rt_verify_range toy_blake3 root 3 1 [4, 5] proof"
proof -
  have len: "length [3, 4, 5 :: hash] = 3" and sl: "slice [3, 4, 5 :: hash] 1 2 = [4, 5]"
    by (simp_all add: numeral_2_eq_2)
  show ?thesis using rt_range_proof_accepted [of 2 1 "[3, 4, 5]" toy_blake3] unfolding len sl by simp
qed

lemma toy_pair: "rt_range_proof toy_blake3 [5, 7] 0 1 = Some (hash_pair toy_blake3 5 7, [7])"
  by (simp add: rt_range_proof_def rt_range_proof_loop.simps nth_opt_def)

lemma toy_pair_check: "rt_verify_range toy_blake3 (hash_pair toy_blake3 5 7) 2 0 [5] [7]"
  by (simp add: rt_verify_range_def checked_add_u64_def rt_verify_loop.simps)

theorem rt_opening_sound_witness:
  "rt_verify_range toy_blake3 (hash_pair toy_blake3 5 7) 2 0 [5] [7] \<and> [5] = slice [5, 7 :: hash] 0 1"
proof -
  have "inj_on (b3_hash toy_blake3) (set (rt_hashed toy_blake3 2 0 [5] [7]) \<union> set (rt_hashed toy_blake3 2 0 [5] [7]))"
    by (simp add: rt_hashed_def range_ins.simps Let_def)
  then show ?thesis
    using rt_opening_sound [of toy_blake3 "[5, 7]" 0 "[5]" "hash_pair toy_blake3 5 7" "[7]" "[7]"]
      toy_pair toy_pair_check by simp
qed

theorem b3_path_accepted_witness:
  "\<exists>root path. b3_root toy_blake3 [3, 4, 5] = Some root \<and> b3_path toy_blake3 [3, 4, 5] 2 = Some path
    \<and> b3_verify toy_blake3 root 3 2 5 path"
proof -
  have len: "length [3, 4, 5 :: hash] = 3" and nth: "[3, 4, 5 :: hash] ! 2 = 5"
    by simp_all
  show ?thesis using b3_path_accepted [of 2 "[3, 4, 5]" toy_blake3] unfolding len nth by simp
qed

theorem b3_opening_sound_witness:
  "b3_range_fold toy_blake3 2 0 [5] [7] = b3_root toy_blake3 [5, 7] \<and>
   (\<exists>honest. b3_range_proof toy_blake3 [5, 7] 0 1 = Some honest \<and>
     ([5] = slice [5, 7] 0 1 \<or> b3_clash toy_blake3 2 0 (slice [5, 7] 0 1) honest [5] [7]))"
proof -
  let ?r = "b3_merge toy_blake3 5 7 True"
  have len: "length [5, 7 :: hash] = 2" "length [5 :: hash] = 1" by simp_all
  have root: "b3_root toy_blake3 [5, 7] = Some ?r"
    by (simp add: b3_root.simps b3_level_eq nth_opt_def)
  have fold: "b3_range_fold toy_blake3 2 0 [5] [7] = Some ?r"
    by (simp add: b3_range_fold_def checked_add_u64_def b3_range_fold_loop.simps)
  show ?thesis
    using b3_opening_sound [of toy_blake3 "[5, 7]" ?r 0 "[5]" "[7]"] root fold unfolding len by simp
qed

lemma length_chunk_cvs [simp]: "length (chunk_cvs B f bs) = div_ceil (length bs) B3_CHUNK"
  by (simp add: chunk_cvs_def length_chunks div_ceil_def)

lemma nth_chunk_cvs:
  "i < div_ceil (length bs) B3_CHUNK \<Longrightarrow> chunk_cvs B f bs ! i = b3_chunk_cv B (slice bs (i * B3_CHUNK) B3_CHUNK) (f + i)"
  by (simp add: chunk_cvs_def length_chunks div_ceil_def nth_chunks)

text \<open>The chunks of a chunk-aligned piece of \<open>data\<close> are a range of its chunks.\<close>

lemma chunk_cvs_slice:
  assumes "0 < c" and fc: "f + c \<le> div_ceil (length data) B3_CHUNK"
  defines "bs \<equiv> slice data (f * B3_CHUNK) (min (length data) ((f + c) * B3_CHUNK) - f * B3_CHUNK)"
  shows "length bs = min (length data) ((f + c) * B3_CHUNK) - f * B3_CHUNK"
    and "div_ceil (length bs) B3_CHUNK = c"
    and "chunk_cvs B f bs = slice (chunk_cvs B 0 data) f c"
proof -
  have low: "(f + c - 1) * B3_CHUNK < length data"
    using assms(1,2) by (auto simp: div_ceil_def)
  show len: "length bs = min (length data) ((f + c) * B3_CHUNK) - f * B3_CHUNK"
    by (simp add: bs_def)
  show dc: "div_ceil (length bs) B3_CHUNK = c"
    unfolding len div_ceil_def using low assms(1) by (auto simp: min_def)
  show "chunk_cvs B f bs = slice (chunk_cvs B 0 data) f c"
  proof (rule nth_equalityI)
    show "length (chunk_cvs B f bs) = length (slice (chunk_cvs B 0 data) f c)"
      using fc by (simp add: dc)
    fix i
    assume "i < length (chunk_cvs B f bs)"
    then have i: "i < c" by (simp add: dc)
    have "slice bs (i * B3_CHUNK) B3_CHUNK = slice data ((f + i) * B3_CHUNK) B3_CHUNK"
    proof (cases "(f + c) * B3_CHUNK \<le> length data")
      case True
      have "B3_CHUNK \<le> (c - i) * B3_CHUNK" using i by simp
      with True show ?thesis
        by (simp add: bs_def drop_take min_absorb2 diff_mult_distrib add_mult_distrib add.commute)
    next
      case False
      then show ?thesis
        by (simp add: bs_def drop_take min_absorb1 add_mult_distrib add.commute)
    qed
    then show "chunk_cvs B f bs ! i = slice (chunk_cvs B 0 data) f c ! i"
      using i fc by (simp add: nth_chunk_cvs dc)
  qed
qed

text \<open>BLAKE3's tree mode, the documented law the chunk openings rest on: the hash of an input longer
  than one chunk is the root of the tree over its chunk values.\<close>

definition blake3_tree_mode :: "blake3 \<Rightarrow> bool" where
  "blake3_tree_mode B \<longleftrightarrow>
     (\<forall>data. B3_CHUNK < length data \<longrightarrow> b3_root B (chunk_cvs B 0 data) = Some (b3_hash B data))"

text \<open>Collisions that could make two openings of the same chunks of one leaf disagree.\<close>

definition chunk_clash :: "blake3 \<Rightarrow> nat \<Rightarrow> nat \<Rightarrow> bytes \<Rightarrow> hash list \<Rightarrow> bytes \<Rightarrow> hash list \<Rightarrow> bool" where
  "chunk_clash B n f bs p bs' p' \<longleftrightarrow>
     (bs \<noteq> bs' \<and> b3_hash B bs = b3_hash B bs')
     \<or> b3_clash B n f (chunk_cvs B f bs) p (chunk_cvs B f bs') p'
     \<or> (\<exists>i. let c = slice bs (i * B3_CHUNK) B3_CHUNK; c' = slice bs' (i * B3_CHUNK) B3_CHUNK
            in c \<noteq> c' \<and> b3_chunk_cv B c (f + i) = b3_chunk_cv B c' (f + i))"

lemma div_ceil_le_self: "div_ceil a B3_CHUNK \<le> a"
  by (cases a) (simp_all add: div_ceil_def)

lemma chunks_rebuild:
  assumes "blake3_tree_mode B" and "0 < count" and "first + count \<le> div_ceil (length data) B3_CHUNK"
    and "length data < 2 ^ 64"
  shows "\<exists>proof. b3_chunks_proof B data first count = Some proof
    \<and> b3_leaf_from_chunks B (length data) first
        (slice data (first * B3_CHUNK) (min (length data) ((first + count) * B3_CHUNK) - first * B3_CHUNK)) proof
      = Some (b3_hash B data)"
proof -
  let ?n = "div_ceil (length data) B3_CHUNK"
  note sl = chunk_cvs_slice [OF assms(2,3)]
  let ?bs = "slice data (first * B3_CHUNK) (min (length data) ((first + count) * B3_CHUNK) - first * B3_CHUNK)"
  have n64: "?n < 2 ^ 64" using div_ceil_le_self [of "length data"] assms(4) by linarith
  then have add: "checked_add_u64 first count = Some (first + count)"
    using assms(3) by (simp add: checked_add_u64_def)
  have n: "max ?n 1 = ?n" using assms(2,3) by simp
  show ?thesis
  proof (cases "?n = 1")
    case True
    then have "first = 0" "count = 1" using assms(2,3) by simp_all
    moreover have "length data \<le> B3_CHUNK" using True by (simp add: div_ceil_def)
    ultimately show ?thesis
      using True add sl(1,2) by (simp add: b3_chunks_proof_def b3_leaf_from_chunks_def Let_def)
  next
    case False
    then have n1: "1 < ?n" using assms(2,3) by simp
    then have "B3_CHUNK < length data" by (auto simp: div_ceil_def)
    then have root: "b3_root B (chunk_cvs B 0 data) = Some (b3_hash B data)"
      using assms(1) by (simp add: blake3_tree_mode_def)
    obtain pf where pf: "b3_range_proof B (chunk_cvs B 0 data) first count = Some pf"
      and acc: "b3_range_fold B ?n first (slice (chunk_cvs B 0 data) first count) pf = Some (b3_hash B data)"
      using b3.complete [OF assms(2), of first "chunk_cvs B 0 data" B] assms(3) n64 root
      by (auto simp: b3_check_def)
    then have "b3_leaf_from_chunks B (length data) first ?bs pf = Some (b3_hash B data)"
      unfolding b3_leaf_from_chunks_def Let_def sl(2,3) n using n1 assms(2,3) sl(1) add by simp
    with pf n1 show ?thesis by (auto simp: b3_chunks_proof_def Let_def)
  qed
qed

text \<open>C34. Chunk openings rebuild the hash: for every non-empty range of chunks of an input, the proof of
  \<open>b3_chunks_proof\<close> and the bytes of those chunks make \<open>b3_leaf_from_chunks\<close> return the BLAKE3 hash of
  the whole input.\<close>

theorem b3_chunks_rebuild:
  assumes "blake3_tree_mode B" and "0 < count" and "first + count \<le> div_ceil (length data) B3_CHUNK"
    and "length data < 2 ^ 64"
  shows "\<exists>proof. b3_chunks_proof B data first count = Some proof
    \<and> b3_leaf_from_chunks B (length data) first
        (slice data (first * B3_CHUNK) (min (length data) ((first + count) * B3_CHUNK) - first * B3_CHUNK)) proof
      = Some (b3_hash B data)"
  using assms by (rule chunks_rebuild)

lemma toy_tree_mode: "blake3_tree_mode toy_blake3"
proof -
  have f: "b3_merge toy_blake3 = b3_merge toy_parts" "b3_chunk_cv toy_blake3 = b3_chunk_cv toy_parts"
    by (auto simp: fun_eq_iff b3_merge_def b3_chunk_cv_def toy_blake3_def)
  then have "b3_level toy_blake3 = b3_level toy_parts" "chunk_cvs toy_blake3 = chunk_cvs toy_parts"
    by (simp_all add: fun_eq_iff b3_level_def chunk_cvs_def)
  moreover from this have "b3_root toy_blake3 xs = b3_root toy_parts xs" for xs
    by (induction "length xs" arbitrary: xs rule: less_induct) (subst (1 2) b3_root.simps, simp)
  moreover have "b3_root toy_parts (chunk_cvs toy_parts 0 d) \<noteq> None" if "B3_CHUNK < length d" for d
  proof -
    have "chunk_cvs toy_parts 0 d \<noteq> []"
      using that by (simp flip: length_0_conv) (simp add: div_ceil_def)
    then show ?thesis by (simp add: b3_root_eq)
  qed
  moreover have "b3_hash toy_blake3 d = (case b3_root toy_parts (chunk_cvs toy_parts 0 d) of None \<Rightarrow> 0 | Some h \<Rightarrow> h)"
    if "B3_CHUNK < length d" for d
    using that by (simp add: toy_blake3_def)
  ultimately show ?thesis
    unfolding blake3_tree_mode_def by (metis option.exhaust option.simps(5))
qed

theorem b3_chunks_rebuild_witness:
  "\<exists>proof. b3_chunks_proof toy_blake3 (replicate 2500 7) 1 2 = Some proof
    \<and> b3_leaf_from_chunks toy_blake3 2500 1 (slice (replicate 2500 7) 1024 1476) proof
      = Some (b3_hash toy_blake3 (replicate 2500 7))"
  using b3_chunks_rebuild [OF toy_tree_mode, of 2 1 "replicate 2500 7"] by (simp add: div_ceil_def)

text \<open>Two openings of the same chunks of a leaf with the same hash carry the same bytes.\<close>

lemma b3_leaf_from_chunks_length:
  "b3_leaf_from_chunks B tlen f bs p = Some h \<Longrightarrow>
   0 < div_ceil (length bs) B3_CHUNK \<and> length bs = min tlen ((f + div_ceil (length bs) B3_CHUNK) * B3_CHUNK) - f * B3_CHUNK"
  by (auto simp: b3_leaf_from_chunks_def Let_def checked_add_u64_def split: if_splits)

lemma bytes_of_chunk_cvs:
  assumes "length bs = length bs'" and "chunk_cvs B f bs = chunk_cvs B f bs'"
  shows "bs = bs' \<or> (\<exists>i. let c = slice bs (i * B3_CHUNK) B3_CHUNK; c' = slice bs' (i * B3_CHUNK) B3_CHUNK
            in c \<noteq> c' \<and> b3_chunk_cv B c (f + i) = b3_chunk_cv B c' (f + i))"
proof (cases "\<forall>i < div_ceil (length bs) B3_CHUNK. slice bs (i * B3_CHUNK) B3_CHUNK = slice bs' (i * B3_CHUNK) B3_CHUNK")
  case True
  have "chunks B3_CHUNK bs = chunks B3_CHUNK bs'"
    by (rule nth_equalityI) (use True assms(1) in \<open>auto simp: length_chunks nth_chunks div_ceil_def\<close>)
  then have "bs = bs'" by (metis concat_chunks zero_less_numeral)
  then show ?thesis ..
next
  case False
  then obtain i where i: "i < div_ceil (length bs) B3_CHUNK"
    "slice bs (i * B3_CHUNK) B3_CHUNK \<noteq> slice bs' (i * B3_CHUNK) B3_CHUNK" by blast
  have "chunk_cvs B f bs ! i = chunk_cvs B f bs' ! i" by (simp add: assms(2))
  with i assms(1) have "b3_chunk_cv B (slice bs (i * B3_CHUNK) B3_CHUNK) (f + i)
      = b3_chunk_cv B (slice bs' (i * B3_CHUNK) B3_CHUNK) (f + i)"
    by (simp add: nth_chunk_cvs)
  with i show ?thesis by (auto simp: Let_def)
qed

lemma b3_leaf_from_chunks_binding:
  assumes a: "b3_leaf_from_chunks B tlen f bs p = Some h" and b: "b3_leaf_from_chunks B tlen f bs' p' = Some h"
    and len: "length bs = length bs'"
  shows "bs = bs' \<or> chunk_clash B (max (div_ceil tlen B3_CHUNK) 1) f bs p bs' p'"
proof (cases "max (div_ceil tlen B3_CHUNK) 1 = 1")
  case True
  then show ?thesis using a b
    by (auto simp: b3_leaf_from_chunks_def Let_def chunk_clash_def checked_add_u64_def split: if_splits)
next
  case False
  then have "b3_range_fold B (max (div_ceil tlen B3_CHUNK) 1) f (chunk_cvs B f bs) p = Some h"
    and "b3_range_fold B (max (div_ceil tlen B3_CHUNK) 1) f (chunk_cvs B f bs') p' = Some h"
    using a b by (auto simp: b3_leaf_from_chunks_def Let_def checked_add_u64_def split: if_splits)
  then have "chunk_cvs B f bs = chunk_cvs B f bs'
      \<or> b3_clash B (max (div_ceil tlen B3_CHUNK) 1) f (chunk_cvs B f bs) p (chunk_cvs B f bs') p'"
    using b3.binding [of B h] len by (simp add: b3_check_def)
  then show ?thesis using bytes_of_chunk_cvs [OF len] unfolding chunk_clash_def by blast
qed

end
