(* ===== verification/Pom_Tree.thy ===== *)
theory Pom_Tree
  imports Merkle
begin

section \<open>The dense possession tree\<close>

text \<open>
  Model of the hash tree of \<open>src/pom.rs\<close>: \<open>blake\<close>, \<open>hash_pair\<close>, \<open>merkle_root\<close>,
  \<open>merkle_proof\<close>, \<open>verify_merkle\<close> and \<open>fold_levels\<close>. A 32-byte array (a digest or a model chunk)
  is a \<open>hash\<close>. The level loop of the source (\<open>while i < level.len() \<dots> i += 2\<close>) is the map
  \<open>pair_level\<close> over the even positions. The lemmas give the node of every level in closed form,
  show that the proofs of \<open>merkle_proof\<close> verify, and that an accepted proof shows the committed
  chunk or a collision between the bytes the two sides hash.
\<close>

subsection \<open>Definitions\<close>

definition blake :: "blake3 \<Rightarrow> bytes \<Rightarrow> hash" where
  "blake B bytes = b3_hash B bytes"

definition pom_hash_pair :: "blake3 \<Rightarrow> hash \<Rightarrow> hash \<Rightarrow> hash" where
  "pom_hash_pair B left right = blake B (hash_bytes left @ hash_bytes right)"

definition pair_level :: "blake3 \<Rightarrow> hash list \<Rightarrow> hash list" where
  "pair_level B level =
     map (\<lambda>i. let r = (if i + 1 < length level then level ! (i + 1) else level ! i)
              in pom_hash_pair B (level ! i) r)
       (map (\<lambda>k. 2 * k) [0..<(length level + 1) div 2])"

lemma length_pair_level [simp]: "length (pair_level B xs) = (length xs + 1) div 2"
  by (simp add: pair_level_def)

function merkle_root :: "blake3 \<Rightarrow> hash list \<Rightarrow> hash option" where
  "merkle_root B level =
     (if level = [] then None
      else if 1 < length level then merkle_root B (pair_level B level)
      else Some (level ! 0))"
  by pat_completeness auto
termination
  by (relation "measure (\<lambda>(B, level). length level)") auto

declare merkle_root.simps [simp del]

function merkle_proof_loop :: "blake3 \<Rightarrow> hash list \<Rightarrow> nat \<Rightarrow> hash list \<Rightarrow> hash list option" where
  "merkle_proof_loop B level idx path =
     (if 1 < length level then
        do { let sib_idx = (if even idx then idx + 1 else idx - 1);
             sib \<leftarrow> (if sib_idx < length level then Some (level ! sib_idx) else nth_opt level idx);
             merkle_proof_loop B (pair_level B level) (idx div 2) (path @ [sib]) }
      else Some path)"
  by pat_completeness auto
termination
  by (relation "measure (\<lambda>(B, level, idx, path). length level)") auto

declare merkle_proof_loop.simps [simp del]

definition merkle_proof :: "blake3 \<Rightarrow> hash list \<Rightarrow> nat \<Rightarrow> hash list option" where
  "merkle_proof B leaves index = merkle_proof_loop B leaves index []"

fun fold_path :: "blake3 \<Rightarrow> hash \<Rightarrow> nat \<Rightarrow> hash list \<Rightarrow> hash" where
  "fold_path B acc idx [] = acc"
| "fold_path B acc idx (sib # path) =
     fold_path B (if even idx then pom_hash_pair B acc sib else pom_hash_pair B sib acc) (idx div 2) path"

definition verify_merkle :: "blake3 \<Rightarrow> hash \<Rightarrow> nat \<Rightarrow> hash list \<Rightarrow> hash \<Rightarrow> bool" where
  "verify_merkle B leaf index path root \<longleftrightarrow> fold_path B leaf index path = root"

definition fold_levels :: "blake3 \<Rightarrow> hash list \<Rightarrow> nat \<Rightarrow> hash option" where
  "fold_levels B batch rounds = nth_opt ((pair_level B ^^ rounds) batch) 0"

subsection \<open>Levels in closed form\<close>

text \<open>\<open>half\<close> is \<open>div_ceil(2)\<close>; \<open>cnt n k\<close> is the width of level \<open>k\<close> over \<open>n\<close> leaves and
  \<open>depth n\<close> the level of the root.\<close>

abbreviation half :: "nat \<Rightarrow> nat" where "half n \<equiv> (n + 1) div 2"

definition cnt :: "nat \<Rightarrow> nat \<Rightarrow> nat" where
  "cnt n k = (half ^^ k) n"

fun depth :: "nat \<Rightarrow> nat" where
  "depth n = (if n \<le> 1 then 0 else Suc (depth (half n)))"

declare depth.simps [simp del]

abbreviation lvl :: "blake3 \<Rightarrow> hash list \<Rightarrow> nat \<Rightarrow> hash list" where
  "lvl B xs k \<equiv> (pair_level B ^^ k) xs"

lemma pair_level_eq: "pair_level B xs = pair_up (pom_hash_pair B) (\<lambda>x. pom_hash_pair B x x) xs"
  by (rule nth_equalityI) (auto simp: pair_level_def nth_pair_up)

lemma cnt_0 [simp]: "cnt n 0 = n"
  by (simp add: cnt_def)

lemma cnt_Suc: "cnt n (Suc k) = half (cnt n k)"
  by (simp add: cnt_def)

lemma cnt_Suc': "cnt n (Suc k) = cnt (half n) k"
  unfolding cnt_def by (simp only: funpow_Suc_right comp_apply)

lemma cnt_add: "cnt n (j + k) = cnt (cnt n j) k"
  unfolding cnt_def by (subst add.commute) (simp only: funpow_add comp_apply)

lemma length_lvl [simp]: "length (lvl B xs k) = cnt (length xs) k"
  by (induction k) (simp_all add: cnt_Suc)

lemma cnt_pos [simp]: "0 < cnt n k \<longleftrightarrow> 0 < n"
proof (induction k)
  case (Suc k)
  have "0 < half (cnt n k) \<longleftrightarrow> 0 < cnt n k" by presburger
  with Suc show ?case by (simp add: cnt_Suc)
qed simp

lemma cnt_bounds: "n \<le> cnt n k * 2 ^ k \<and> (0 < n \<longrightarrow> (cnt n k - 1) * 2 ^ k < n)"
proof (induction k)
  case (Suc k)
  let ?c = "cnt n k"
  have "?c \<le> 2 * half ?c" and "2 * (half ?c - 1) \<le> ?c - 1" by presburger+
  then have "?c * 2 ^ k \<le> 2 * half ?c * 2 ^ k" and "2 * (half ?c - 1) * 2 ^ k \<le> (?c - 1) * 2 ^ k"
    by (simp_all only: mult_le_mono1)
  moreover have "2 * h * 2 ^ k = h * 2 ^ Suc k" for h :: nat by simp
  ultimately have "?c * 2 ^ k \<le> half ?c * 2 ^ Suc k" and "(half ?c - 1) * 2 ^ Suc k \<le> (?c - 1) * 2 ^ k"
    by simp_all
  with Suc show ?case unfolding cnt_Suc by linarith
qed auto

lemma less_cnt_iff: "i < cnt n k \<longleftrightarrow> i * 2 ^ k < n"
proof
  assume "i < cnt n k"
  moreover from this have "0 < n" by (metis cnt_pos gr_zeroI less_zeroE)
  ultimately have "i \<le> cnt n k - 1" and "0 < n" by auto
  then show "i * 2 ^ k < n" using cnt_bounds [of n k] by (meson le_less_trans mult_le_mono1)
next
  assume "i * 2 ^ k < n"
  then have "i * 2 ^ k < cnt n k * 2 ^ k" using cnt_bounds [of n k] by linarith
  then show "i < cnt n k" by simp
qed

lemma cnt_depth: "0 < n \<Longrightarrow> cnt n (depth n) = 1"
proof (induction n rule: depth.induct)
  case (1 n)
  then show ?case by (cases "n \<le> 1") (auto simp: depth.simps [of n] cnt_Suc')
qed

lemma cnt_before_depth: "k < depth n \<Longrightarrow> 1 < cnt n k"
proof (induction n arbitrary: k rule: depth.induct)
  case (1 n)
  then show ?case by (cases "n \<le> 1"; cases k) (auto simp: depth.simps [of n] cnt_Suc')
qed

lemma depth_less_iff: "0 < n \<Longrightarrow> k < depth n \<longleftrightarrow> 2 ^ k < n"
proof -
  assume n: "0 < n"
  have "k < depth n \<longleftrightarrow> 1 < cnt n k"
  proof
    assume c: "1 < cnt n k"
    show "k < depth n"
    proof (rule ccontr)
      assume "\<not> k < depth n"
      then obtain j where "k = depth n + j" by (metis le_Suc_ex not_less)
      then have "cnt n k = cnt 1 j" by (simp add: cnt_add cnt_depth [OF n])
      also have "cnt 1 j = 1" by (induction j) (simp_all add: cnt_Suc)
      finally show False using c by simp
    qed
  qed (rule cnt_before_depth)
  then show ?thesis by (simp add: less_cnt_iff)
qed

lemma le_pow_depth: "n \<le> 2 ^ depth n"
  by (cases "n = 0") (use depth_less_iff [of n "depth n"] in auto)

lemma nth_pair_level:
  "i < half (length xs) \<Longrightarrow> pair_level B xs ! i
     = pom_hash_pair B (xs ! (2 * i)) (if 2 * i + 1 < length xs then xs ! (2 * i + 1) else xs ! (2 * i))"
  by (simp add: pair_level_def Let_def)

lemma nth_lvl_Suc:
  assumes "i < cnt (length xs) (Suc k)"
  shows "lvl B xs (Suc k) ! i = pom_hash_pair B (lvl B xs k ! (2 * i))
      (if 2 * i + 1 < cnt (length xs) k then lvl B xs k ! (2 * i + 1) else lvl B xs k ! (2 * i))"
  using nth_pair_level [of i "lvl B xs k" B] assms by (simp add: cnt_Suc)

lemma pair_level_slice:
  assumes "even a" "even c"
  shows "pair_level B (slice xs a c) = slice (pair_level B xs) (a div 2) (c div 2)"
proof (cases "a + c \<le> length xs")
  case True
  have "(c + 1) div 2 = c div 2" using assms(2) by auto
  with True show ?thesis using assms by (simp add: pair_level_eq pair_up_slice)
next
  case False
  define m where "m = length xs - a"
  have "slice xs a c = drop a xs" using False by simp
  moreover have "slice xs a m = drop a xs" by (simp add: m_def)
  moreover have "pair_level B (slice xs a m) = slice (pair_level B xs) (a div 2) (half m)" if "a \<le> length xs"
    unfolding pair_level_eq using that assms by (intro pair_up_slice) (auto simp: m_def)
  moreover have "slice (pair_level B xs) (a div 2) (half m) = drop (a div 2) (pair_level B xs)"
    using assms(1) by (auto simp: m_def elim!: evenE)
  moreover have "slice (pair_level B xs) (a div 2) (c div 2) = drop (a div 2) (pair_level B xs)"
    using False assms by (auto elim!: evenE)
  ultimately show ?thesis
    using assms(1) by (cases "a \<le> length xs") (auto simp: pair_level_eq elim!: evenE)
qed

lemma lvl_slice: "lvl B (slice xs (a * 2 ^ k) (c * 2 ^ k)) k = slice (lvl B xs k) a c"
proof (induction k arbitrary: xs)
  case (Suc k)
  have "lvl B (slice xs (a * 2 ^ Suc k) (c * 2 ^ Suc k)) (Suc k)
      = lvl B (pair_level B (slice xs (2 * (a * 2 ^ k)) (2 * (c * 2 ^ k)))) k"
    by (simp add: funpow_swap1 mult.left_commute)
  also have "\<dots> = lvl B (slice (pair_level B xs) (a * 2 ^ k) (c * 2 ^ k)) k"
    by (subst pair_level_slice) simp_all
  also have "\<dots> = slice (lvl B (pair_level B xs) k) a c" by (rule Suc)
  finally show ?case by (simp add: funpow_swap1)
qed simp

text \<open>A batch of \<open>2 ^ k\<close> nodes (the last one possibly short) folds to the node above it.\<close>

lemma fold_levels_batch:
  assumes "i < cnt (length xs) k"
  shows "fold_levels B (slice xs (i * 2 ^ k) (2 ^ k)) k = Some (lvl B xs k ! i)"
  using lvl_slice [where k = k and a = i and c = 1 and xs = xs and B = B] assms by (simp add: fold_levels_def nth_opt_def)

subsection \<open>Completeness of inclusion paths\<close>

text \<open>The sibling of position \<open>j\<close> on level \<open>k\<close>; a lone last node is its own sibling.\<close>

definition sibling :: "blake3 \<Rightarrow> hash list \<Rightarrow> nat \<Rightarrow> nat \<Rightarrow> hash" where
  "sibling B xs k j = (if xor1 j < cnt (length xs) k then lvl B xs k ! xor1 j else lvl B xs k ! j)"

abbreviation leaf_path :: "blake3 \<Rightarrow> hash list \<Rightarrow> nat \<Rightarrow> hash list" where
  "leaf_path B xs i \<equiv> map (\<lambda>k. sibling B xs k (i div 2 ^ k)) [0..<depth (length xs)]"

lemma lvl_Suc': "lvl B xs (Suc k) = lvl B (pair_level B xs) k"
  by (simp only: funpow_Suc_right comp_apply)

lemma merkle_root_eq: "xs \<noteq> [] \<Longrightarrow> merkle_root B xs = Some (lvl B xs (depth (length xs)) ! 0)"
proof (induction B xs rule: merkle_root.induct)
  case (1 B xs)
  show ?case
  proof (cases "1 < length xs")
    case True
    then have "pair_level B xs \<noteq> []" by (simp flip: length_greater_0_conv)
    with True 1 show ?thesis
      by (simp add: merkle_root.simps [of B xs] depth.simps [of "length xs"] lvl_Suc' del: funpow.simps)
  next
    case False
    with "1.prems" show ?thesis by (simp add: merkle_root.simps [of B xs] depth.simps [of "length xs"])
  qed
qed

lemma upt_Suc_shift: "map f [0..<Suc n] = f 0 # map (\<lambda>k. f (Suc k)) [0..<n]"
  by (simp add: map_upt_Suc del: upt_Suc)

lemma leaf_path_step:
  "1 < length xs \<Longrightarrow> leaf_path B xs i = sibling B xs 0 i # leaf_path B (pair_level B xs) (i div 2)"
  by (subst depth.simps)
    (simp add: upt_Suc_shift sibling_def cnt_Suc' lvl_Suc' div_mult2_eq del: funpow.simps upt_Suc)

lemma merkle_proof_loop_eq:
  "i < length xs \<Longrightarrow> merkle_proof_loop B xs i path = Some (path @ leaf_path B xs i)"
proof (induction B xs i path rule: merkle_proof_loop.induct)
  case (1 B xs i path)
  show ?case
  proof (cases "1 < length xs")
    case True
    have sib: "(if (if even i then i + 1 else i - 1) < length xs
          then Some (xs ! (if even i then i + 1 else i - 1)) else nth_opt xs i) = Some (sibling B xs 0 i)"
      using "1.prems" by (simp add: sibling_def xor1_def nth_opt_def)
    have "i div 2 < length (pair_level B xs)" using "1.prems" by auto
    from "1.IH" [OF True refl sib this] show ?thesis
      using True sib leaf_path_step [OF True, of B i] "1.prems"
      by (simp add: merkle_proof_loop.simps [of B xs])
  next
    case False
    then show ?thesis by (simp add: merkle_proof_loop.simps [of B xs] depth.simps [of "length xs"])
  qed
qed

lemma merkle_proof_eq: "i < length xs \<Longrightarrow> merkle_proof B xs i = Some (leaf_path B xs i)"
  by (simp add: merkle_proof_def merkle_proof_loop_eq)

lemma fold_path_append:
  "fold_path B a i (p @ q) = fold_path B (fold_path B a i p) (i div 2 ^ length p) q"
  by (induction p arbitrary: a i) (simp_all add: div_mult2_eq)

lemma sibling_step:
  assumes "j < cnt (length xs) k"
  shows "(if even j then pom_hash_pair B (lvl B xs k ! j) (sibling B xs k j)
          else pom_hash_pair B (sibling B xs k j) (lvl B xs k ! j)) = lvl B xs (Suc k) ! (j div 2)"
proof -
  have "j div 2 < cnt (length xs) (Suc k)" using assms by (simp add: cnt_Suc)
  from nth_lvl_Suc [OF this, of B] assms show ?thesis
    by (cases "even j") (auto simp: sibling_def xor1_def elim!: evenE oddE)
qed

lemma fold_leaf_path_prefix:
  assumes "i < length xs" and "k \<le> depth (length xs)"
  shows "fold_path B (xs ! i) i (map (\<lambda>k. sibling B xs k (i div 2 ^ k)) [0..<k]) = lvl B xs k ! (i div 2 ^ k)"
  using assms(2)
proof (induction k)
  case (Suc k)
  have "i div 2 ^ k < cnt (length xs) k"
    unfolding less_cnt_iff using assms(1) by (meson div_times_less_eq_dividend le_less_trans)
  from sibling_step [OF this, of B] Suc show ?case
    by (simp add: fold_path_append div_mult2_eq mult.commute [of 2] del: funpow.simps)
qed simp

lemma fold_leaf_path:
  assumes "i < length xs"
  shows "fold_path B (xs ! i) i (leaf_path B xs i) = lvl B xs (depth (length xs)) ! 0"
proof -
  have "i div 2 ^ depth (length xs) = 0" using assms le_pow_depth [of "length xs"] by simp
  with fold_leaf_path_prefix [OF assms order.refl, of B] show ?thesis by simp
qed

subsection \<open>Soundness of inclusion paths\<close>

text \<open>The byte strings hashed while a path is folded and while the levels over \<open>xs\<close> are built.\<close>

fun path_inputs :: "blake3 \<Rightarrow> hash \<Rightarrow> nat \<Rightarrow> hash list \<Rightarrow> bytes set" where
  "path_inputs B acc idx [] = {}"
| "path_inputs B acc idx (s # p) =
     (let l = (if even idx then acc else s); r = (if even idx then s else acc)
      in insert (hash_bytes l @ hash_bytes r) (path_inputs B (pom_hash_pair B l r) (idx div 2) p))"

definition tree_inputs :: "blake3 \<Rightarrow> hash list \<Rightarrow> bytes set" where
  "tree_inputs B xs = (\<Union>k < depth (length xs). \<Union>i < cnt (length xs) (Suc k).
     {hash_bytes (lvl B xs k ! (2 * i)) @
      hash_bytes (if 2 * i + 1 < cnt (length xs) k then lvl B xs k ! (2 * i + 1) else lvl B xs k ! (2 * i))})"

text \<open>A collision between the strings hashed by the two sides.\<close>

definition blake_clash :: "blake3 \<Rightarrow> bytes set \<Rightarrow> bytes set \<Rightarrow> bool" where
  "blake_clash B X Y \<longleftrightarrow> (\<exists>x\<in>X. \<exists>y\<in>Y. x \<noteq> y \<and> blake B x = blake B y)"

lemma blake_clash_mono: "blake_clash B X Y \<Longrightarrow> X \<subseteq> X' \<Longrightarrow> Y \<subseteq> Y' \<Longrightarrow> blake_clash B X' Y'"
  by (auto simp: blake_clash_def)

lemma path_inputs_append:
  "path_inputs B a i (p @ q) = path_inputs B a i p \<union> path_inputs B (fold_path B a i p) (i div 2 ^ length p) q"
  by (induction p arbitrary: a i) (auto simp: div_mult2_eq Let_def)

lemma path_inputs_last:
  "p \<noteq> [] \<Longrightarrow> \<exists>x \<in> path_inputs B a i p. length x = 64 \<and> blake B x = fold_path B a i p"
proof (cases p rule: rev_cases)
  case (snoc q s)
  let ?l = "if even (i div 2 ^ length q) then fold_path B a i q else s"
  let ?r = "if even (i div 2 ^ length q) then s else fold_path B a i q"
  show ?thesis
    by (rule bexI [of _ "hash_bytes ?l @ hash_bytes ?r"])
      (auto simp: snoc fold_path_append path_inputs_append pom_hash_pair_def Let_def)
qed simp

lemma tree_inputs_length: "x \<in> tree_inputs B xs \<Longrightarrow> length x = 64"
  by (auto simp: tree_inputs_def)

lemma lvl_preimage:
  assumes "k < depth (length xs)" and "i < cnt (length xs) (Suc k)"
  shows "\<exists>y \<in> tree_inputs B xs. lvl B xs (Suc k) ! i = blake B y"
proof -
  let ?y = "hash_bytes (lvl B xs k ! (2 * i)) @
      hash_bytes (if 2 * i + 1 < cnt (length xs) k then lvl B xs k ! (2 * i + 1) else lvl B xs k ! (2 * i))"
  have "?y \<in> tree_inputs B xs" using assms unfolding tree_inputs_def by blast
  moreover have "lvl B xs (Suc k) ! i = blake B ?y"
    using nth_lvl_Suc [OF assms(2), of B] by (simp only: pom_hash_pair_def)
  ultimately show ?thesis by blast
qed

lemma append_hash_bytes_inject [simp]:
  "hash_bytes a @ hash_bytes b = hash_bytes c @ hash_bytes d \<longleftrightarrow> a = c \<and> b = d"
  by (simp add: append_eq_append_conv)

text \<open>A path that ends in node \<open>j\<close> of level \<open>k\<close> walks down the tree from there.\<close>

lemma fold_path_down:
  assumes "k \<le> depth (length xs)" and "j < cnt (length xs) k"
    and "fold_path B a i p = lvl B xs k ! j" and "\<not> blake_clash B (path_inputs B a i p) (tree_inputs B xs)"
  shows "(k < length p \<longrightarrow> fold_path B a i (take (length p - k) p) \<in> set xs)
    \<and> (length p \<le> k \<longrightarrow> a \<in> set (lvl B xs (k - length p))
        \<and> (j * 2 ^ length p + i mod 2 ^ length p < cnt (length xs) (k - length p)
             \<longrightarrow> a = lvl B xs (k - length p) ! (j * 2 ^ length p + i mod 2 ^ length p)))"
  using assms
proof (induction k arbitrary: j p)
  case 0
  then show ?case by (cases p) auto
next
  case (Suc k)
  show ?case
  proof (cases p rule: rev_cases)
    case Nil
    with Suc.prems show ?thesis by (auto simp del: funpow.simps)
  next
    case (snoc q s)
    define b where "b = i div 2 ^ length q"
    define x where "x = fold_path B a i q"
    define l where "l = (if even b then x else s)"
    define r where "r = (if even b then s else x)"
    define l' where "l' = lvl B xs k ! (2 * j)"
    define r' where "r' = (if 2 * j + 1 < cnt (length xs) k then lvl B xs k ! (2 * j + 1) else l')"
    have "hash_bytes l @ hash_bytes r \<in> path_inputs B a i p"
      by (simp add: snoc path_inputs_append l_def r_def x_def b_def Let_def)
    moreover have "hash_bytes l' @ hash_bytes r' \<in> tree_inputs B xs"
      using Suc.prems(1,2) unfolding tree_inputs_def l'_def r'_def by (auto simp: Suc_le_eq simp del: funpow.simps)
    moreover have "blake B (hash_bytes l @ hash_bytes r) = blake B (hash_bytes l' @ hash_bytes r')"
      using Suc.prems(3) nth_lvl_Suc [OF Suc.prems(2), of B]
      by (auto simp: snoc fold_path_append pom_hash_pair_def l_def r_def l'_def r'_def x_def b_def
          simp del: funpow.simps split: if_splits)
    ultimately have eq: "l = l'" "r = r'"
      using Suc.prems(4) unfolding blake_clash_def by (metis append_hash_bytes_inject)+
    define c where "c = (if even b \<or> \<not> 2 * j + 1 < cnt (length xs) k then 2 * j else 2 * j + 1)"
    have "2 * j < cnt (length xs) k" using Suc.prems(2) by (simp add: cnt_Suc)
    then have c: "c < cnt (length xs) k" by (auto simp: c_def)
    have x: "x = lvl B xs k ! c"
      using eq by (auto simp: l_def r_def l'_def r'_def c_def split: if_splits)
    have nc: "\<not> blake_clash B (path_inputs B a i q) (tree_inputs B xs)"
      using Suc.prems(4) blake_clash_mono [of B "path_inputs B a i q" "tree_inputs B xs" "path_inputs B a i p"]
      by (auto simp: snoc path_inputs_append)
    note IH = Suc.IH [OF _ c x [unfolded x_def] nc]
    have pos: "j * 2 ^ length p + i mod 2 ^ length p = (2 * j + b mod 2) * 2 ^ length q + i mod 2 ^ length q"
      using mod_mult2_eq [of i "2 ^ length q" 2] by (simp add: snoc b_def algebra_simps)
    have cc: "c = 2 * j + b mod 2" if "(2 * j + b mod 2) * 2 ^ length q + i mod 2 ^ length q < cnt (length xs) (k - length q)"
      and "length q \<le> k"
    proof -
      have "(2 * j + b mod 2) * 2 ^ length q < cnt (length xs) (k - length q)" using that(1) by linarith
      then have "2 * j + b mod 2 < cnt (length xs) k"
        using that(2) by (simp add: less_cnt_iff mult.assoc flip: power_add)
      then show ?thesis by (auto simp: c_def parity_cases odd_iff_mod_2_eq_one even_iff_mod_2_eq_zero)
    qed
    show ?thesis
    proof (cases "length q \<le> k")
      case True
      then show ?thesis using IH cc Suc.prems(1) pos by (simp add: snoc)
    next
      case False
      then show ?thesis using IH Suc.prems(1) by (simp add: snoc Suc_diff_le)
    qed
  qed
qed

subsection \<open>Chunks and aligned groups of chunks\<close>

definition chunk_leaves :: "blake3 \<Rightarrow> hash list \<Rightarrow> hash list" where
  "chunk_leaves B cs = map (\<lambda>c. blake B (hash_bytes c)) cs"

lemma chunk_leaves_simps [simp]:
  "length (chunk_leaves B cs) = length cs" "chunk_leaves B cs = [] \<longleftrightarrow> cs = []"
  "i < length cs \<Longrightarrow> chunk_leaves B cs ! i = blake B (hash_bytes (cs ! i))"
  by (simp_all add: chunk_leaves_def)

lemma chunk_leaves_slice: "chunk_leaves B (slice cs a c) = slice (chunk_leaves B cs) a c"
  by (simp add: chunk_leaves_def take_map drop_map)

text \<open>What the verifier of one opened chunk hashes, and what the committer of \<open>cs\<close> hashes.\<close>

definition opening_inputs :: "blake3 \<Rightarrow> hash \<Rightarrow> nat \<Rightarrow> hash list \<Rightarrow> bytes set" where
  "opening_inputs B c i p = insert (hash_bytes c) (path_inputs B (blake B (hash_bytes c)) i p)"

definition commit_inputs :: "blake3 \<Rightarrow> hash list \<Rightarrow> bytes set" where
  "commit_inputs B cs = hash_bytes ` set cs \<union> tree_inputs B (chunk_leaves B cs)"

lemma chunk_opening_sound:
  assumes root: "merkle_root B (chunk_leaves B cs) = Some root" and i: "i < length cs"
    and ver: "verify_merkle B (blake B (hash_bytes c)) i p root"
  shows "c = cs ! i \<or> blake_clash B (opening_inputs B c i p) (commit_inputs B cs)"
proof (rule disjCI)
  let ?a = "blake B (hash_bytes c)" and ?xs = "chunk_leaves B cs"
  let ?d = "depth (length cs)"
  assume nc: "\<not> blake_clash B (opening_inputs B c i p) (commit_inputs B cs)"
  then have nc': "\<not> blake_clash B (path_inputs B ?a i p) (tree_inputs B ?xs)"
    using blake_clash_mono [of B "path_inputs B ?a i p" "tree_inputs B ?xs" "opening_inputs B c i p" "commit_inputs B cs"]
    by (auto simp: opening_inputs_def commit_inputs_def)
  have ne: "?xs \<noteq> []" "0 < length cs" using i by auto
  have "fold_path B ?a i p = lvl B ?xs ?d ! 0"
    using ver root merkle_root_eq [OF ne(1), of B] by (simp add: verify_merkle_def)
  moreover have "0 < cnt (length ?xs) ?d" using ne by simp
  ultimately have down: "?d < length p \<longrightarrow> fold_path B ?a i (take (length p - ?d) p) \<in> set ?xs"
    "length p \<le> ?d \<longrightarrow> ?a \<in> set (lvl B ?xs (?d - length p))"
    "length p = ?d \<longrightarrow> i mod 2 ^ ?d < length cs \<longrightarrow> ?a = ?xs ! (i mod 2 ^ ?d)"
    using fold_path_down [of ?d ?xs 0 B ?a i p] nc' by auto
  consider "length p = ?d" | "length p < ?d" | "?d < length p" by linarith
  then show "c = cs ! i"
  proof cases
    case 1
    moreover have "i mod 2 ^ ?d = i" using i le_pow_depth [of "length cs"] by simp
    ultimately have "?a = blake B (hash_bytes (cs ! i))" using down(3) i by simp
    moreover have "hash_bytes c \<in> opening_inputs B c i p" "hash_bytes (cs ! i) \<in> commit_inputs B cs"
      using i by (simp_all add: opening_inputs_def commit_inputs_def)
    ultimately show ?thesis using nc unfolding blake_clash_def by (metis hash_bytes_inject)
  next
    case 2
    define k where "k = ?d - length p - 1"
    have k: "?d - length p = Suc k" "k < ?d" using 2 by (simp_all add: k_def)
    obtain j where "j < cnt (length cs) (Suc k)" "?a = lvl B ?xs (Suc k) ! j"
      using down(2) 2 unfolding k(1) in_set_conv_nth by (auto simp del: funpow.simps)
    then obtain y where "y \<in> tree_inputs B ?xs" "?a = blake B y"
      using lvl_preimage [of k ?xs j B] k(2) by auto
    moreover from this have "hash_bytes c \<noteq> y" using tree_inputs_length [of y B ?xs] by auto
    ultimately show ?thesis
      using nc unfolding blake_clash_def opening_inputs_def commit_inputs_def by blast
  next
    case 3
    define q where "q = take (length p - ?d) p"
    have "q \<noteq> []" using 3 by (auto simp: q_def)
    from path_inputs_last [OF this, of B ?a i] obtain x
      where x: "x \<in> path_inputs B ?a i q" "length x = 64" "blake B x = fold_path B ?a i q" by blast
    have "path_inputs B ?a i q \<subseteq> opening_inputs B c i p"
      unfolding opening_inputs_def using path_inputs_append [of B ?a i q "drop (length p - ?d) p"]
      by (auto simp: q_def)
    moreover obtain y where "y \<in> set cs" "fold_path B ?a i q = blake B (hash_bytes y)"
      using down(1) 3 by (auto simp: q_def chunk_leaves_def)
    moreover have "x \<noteq> hash_bytes y" for y using x(2) by (auto dest: arg_cong [of _ _ length])
    ultimately show ?thesis
      using nc x unfolding blake_clash_def commit_inputs_def by fastforce
  qed
qed

lemma depth_pow2 [simp]: "depth (2 ^ k) = k"
proof (induction k)
  case 0
  then show ?case by (simp add: depth.simps)
next
  case (Suc k)
  have h: "half (2 ^ Suc k) = 2 ^ k" by simp
  have "1 < (2 :: nat) ^ Suc k" by (rule one_less_power) simp_all
  then have "depth (2 ^ Suc k) = Suc (depth (half (2 ^ Suc k)))"
    by (subst depth.simps) (simp del: power_Suc)
  then show ?case unfolding h Suc .
qed

lemma group_start: "(i + 1) * 2 ^ k \<le> n \<Longrightarrow> i * 2 ^ k < (n :: nat)"
  by (rule less_le_trans [of _ "(i + 1) * 2 ^ k"]) simp_all

lemma group_root:
  assumes "(i + 1) * 2 ^ k \<le> length xs"
  shows "merkle_root B (slice xs (i * 2 ^ k) (2 ^ k)) = Some (lvl B xs k ! i)"
proof -
  let ?g = "slice xs (i * 2 ^ k) (2 ^ k)"
  have len: "length ?g = 2 ^ k" using assms by (simp add: algebra_simps)
  then have "?g \<noteq> []" by (metis list.size(3) power_not_zero zero_neq_numeral)
  then have "merkle_root B ?g = Some (lvl B ?g k ! 0)" using len by (simp add: merkle_root_eq)
  moreover have "i < cnt (length xs) k" using group_start [OF assms] by (simp add: less_cnt_iff)
  ultimately show ?thesis using fold_levels_batch [of i xs k B] by (simp add: fold_levels_def nth_opt_def split: if_splits)
qed

text \<open>The path of the first leaf of an aligned group, without its lowest \<open>k\<close> siblings, is a path of
  the group's own root.\<close>

lemma group_path:
  assumes "(i + 1) * 2 ^ k \<le> length xs"
  shows "fold_path B (lvl B xs k ! i) i (drop k (leaf_path B xs (i * 2 ^ k))) = lvl B xs (depth (length xs)) ! 0"
    and "k \<le> depth (length xs)"
proof -
  have lt: "i * 2 ^ k < length xs" using assms by (rule group_start)
  have "2 ^ k \<le> length xs" using assms by (simp add: algebra_simps)
  then have "(2 :: nat) ^ k \<le> 2 ^ depth (length xs)" using le_pow_depth [of "length xs"] by linarith
  then show k: "k \<le> depth (length xs)" by simp
  have take: "take k (leaf_path B xs (i * 2 ^ k)) = map (\<lambda>m. sibling B xs m (i * 2 ^ k div 2 ^ m)) [0..<k]"
    using k by (simp add: take_map)
  have "fold_path B (xs ! (i * 2 ^ k)) (i * 2 ^ k)
      (take k (leaf_path B xs (i * 2 ^ k)) @ drop k (leaf_path B xs (i * 2 ^ k))) = lvl B xs (depth (length xs)) ! 0"
    using fold_leaf_path [OF lt, of B] by simp
  then show "fold_path B (lvl B xs k ! i) i (drop k (leaf_path B xs (i * 2 ^ k))) = lvl B xs (depth (length xs)) ! 0"
    using fold_leaf_path_prefix [OF lt k, of B] k
    unfolding fold_path_append take by simp
qed

lemma fold_path_low_bits: "fold_path B a (i * 2 ^ length p + m) p = fold_path B a m p"
proof (induction p arbitrary: a m)
  case (Cons s p)
  have "even (i * 2 ^ length (s # p) + m) \<longleftrightarrow> even m" by simp
  moreover have "(i * 2 ^ length (s # p) + m) div 2 = i * 2 ^ length p + m div 2"
    by (simp add: mult.left_commute)
  ultimately show ?case using Cons by simp
qed simp

text \<open>What the verifier of an aligned group of opened chunks hashes.\<close>

definition group_inputs :: "blake3 \<Rightarrow> hash list \<Rightarrow> nat \<Rightarrow> hash list \<Rightarrow> bytes set" where
  "group_inputs B g i p =
     (\<Union>m < length g. opening_inputs B (g ! m) (i * length g + m) (leaf_path B (chunk_leaves B g) m @ p))"

lemma group_opening_sound:
  assumes root: "merkle_root B (chunk_leaves B cs) = Some root" and i: "(i + 1) * 2 ^ k \<le> length cs"
    and g: "length g = 2 ^ k" "merkle_root B (chunk_leaves B g) = Some r"
    and ver: "verify_merkle B r i p root"
  shows "g = slice cs (i * 2 ^ k) (2 ^ k) \<or> blake_clash B (group_inputs B g i p) (commit_inputs B cs)"
proof (rule disjCI)
  assume nc: "\<not> blake_clash B (group_inputs B g i p) (commit_inputs B cs)"
  have "g ! m = cs ! (i * 2 ^ k + m)" if m: "m < 2 ^ k" for m
  proof -
    let ?lp = "leaf_path B (chunk_leaves B g) m" and ?j = "i * 2 ^ k + m"
    have j: "?j < length cs" using i m by (simp add: algebra_simps)
    have lp: "length ?lp = k" using g(1) by simp
    have "chunk_leaves B g \<noteq> []" using g(2) by (auto simp: merkle_root.simps)
    then have "r = lvl B (chunk_leaves B g) k ! 0" using merkle_root_eq [of "chunk_leaves B g" B] g by simp
    then have "fold_path B (blake B (hash_bytes (g ! m))) m ?lp = r"
      using fold_leaf_path [of m "chunk_leaves B g" B] m g(1) by simp
    then have "fold_path B (blake B (hash_bytes (g ! m))) ?j ?lp = r"
      using fold_path_low_bits [of B "blake B (hash_bytes (g ! m))" i ?lp m] lp by simp
    then have "verify_merkle B (blake B (hash_bytes (g ! m))) ?j (?lp @ p) root"
      using ver m unfolding verify_merkle_def fold_path_append lp by simp
    from chunk_opening_sound [OF root j this]
    have "g ! m = cs ! ?j \<or> blake_clash B (opening_inputs B (g ! m) ?j (?lp @ p)) (commit_inputs B cs)" .
    moreover have "opening_inputs B (g ! m) ?j (?lp @ p) \<subseteq> group_inputs B g i p"
      using m g(1) by (auto simp: group_inputs_def)
    ultimately show ?thesis using nc blake_clash_mono by blast
  qed
  then show "g = slice cs (i * 2 ^ k) (2 ^ k)"
    using g(1) i by (intro nth_equalityI) (auto simp: algebra_simps)
qed

subsection \<open>The contract of a chunk store\<close>

text \<open>
  What the provers need of the resident model: a store \<open>s\<close> that stands for the chunk list \<open>cs\<close>
  serves every chunk, a path that hashes to the committed root for every chunk, and stays a
  store of the same chunks. The client lemmas turn this into accepted openings of chunks and of
  aligned groups of chunks.
\<close>

locale chunk_store =
  fixes B :: blake3
    and holds :: "'s \<Rightarrow> hash list \<Rightarrow> bool"
    and size_of :: "'s \<Rightarrow> nat"
    and rd :: "'s \<Rightarrow> nat \<Rightarrow> hash option"
    and pth :: "'s \<Rightarrow> nat \<Rightarrow> (hash list \<times> 's) option"
    and root_of :: "'s \<Rightarrow> hash"
  assumes root_ok: "holds s cs \<Longrightarrow> merkle_root B (chunk_leaves B cs) = Some (root_of s)"
    and size_ok: "holds s cs \<Longrightarrow> size_of s = length cs"
    and rd_ok: "holds s cs \<Longrightarrow> i < length cs \<Longrightarrow> rd s i = Some (cs ! i)"
    and pth_ok: "holds s cs \<Longrightarrow> i < length cs \<Longrightarrow>
      \<exists>p s'. pth s i = Some (p, s') \<and> holds s' cs \<and> merkle_proof B (chunk_leaves B cs) i = Some p"
begin

lemma nonempty: "holds s cs \<Longrightarrow> cs \<noteq> []"
  using root_ok by (metis chunk_leaves_simps(2) merkle_root.simps option.distinct(1))

lemma root_stable: "holds s cs \<Longrightarrow> holds s' cs \<Longrightarrow> root_of s' = root_of s"
  using root_ok by (metis option.inject)

lemma path_verifies:
  assumes "holds s cs" and "i < length cs"
  obtains p s' where "pth s i = Some (p, s')" and "holds s' cs"
    and "verify_merkle B (blake B (hash_bytes (cs ! i))) i p (root_of s)"
proof -
  obtain p s' where p: "pth s i = Some (p, s')" "holds s' cs" "p = leaf_path B (chunk_leaves B cs) i"
    using pth_ok [OF assms] assms(2) merkle_proof_eq [of i "chunk_leaves B cs" B] by auto
  have "verify_merkle B (blake B (hash_bytes (cs ! i))) i p (root_of s)"
    using fold_leaf_path [of i "chunk_leaves B cs" B] assms root_ok [OF assms(1)] nonempty [OF assms(1)]
      merkle_root_eq [of "chunk_leaves B cs" B]
    by (simp add: verify_merkle_def p(3))
  with p that show ?thesis by blast
qed

lemma group_verifies:
  assumes "holds s cs" and "(i + 1) * 2 ^ k \<le> length cs"
  obtains p s' r where "pth s (i * 2 ^ k) = Some (p, s')" and "holds s' cs" and "k \<le> length p"
    and "merkle_root B (chunk_leaves B (slice cs (i * 2 ^ k) (2 ^ k))) = Some r"
    and "verify_merkle B r i (drop k p) (root_of s)"
proof -
  let ?xs = "chunk_leaves B cs"
  have lt: "i * 2 ^ k < length cs" using assms(2) by (rule group_start)
  obtain p s' where p: "pth s (i * 2 ^ k) = Some (p, s')" "holds s' cs" "p = leaf_path B ?xs (i * 2 ^ k)"
    using pth_ok [OF assms(1) lt] lt merkle_proof_eq [of "i * 2 ^ k" ?xs B] by auto
  have "(i + 1) * 2 ^ k \<le> length ?xs" using assms(2) by simp
  note g = group_root [OF this, of B] group_path(1) [OF this, of B] group_path(2) [OF this]
  have "verify_merkle B (lvl B ?xs k ! i) i (drop k p) (root_of s)"
    using g(2) root_ok [OF assms(1)] nonempty [OF assms(1)] merkle_root_eq [of ?xs B]
    by (simp add: verify_merkle_def p(3))
  with p g(1,3) that show ?thesis by (simp add: chunk_leaves_slice)
qed

end

end
