(* ===== verification/Pom_Index.thy ===== *)
theory Pom_Index
  imports Pom_Tree "HOL-Library.List_Lexorder"
begin

section \<open>The sparse weight index\<close>

text \<open>
  Model of \<open>WeightIndex\<close> of \<open>src/pom.rs\<close>: the checkpoint layout, the streaming build of the
  tree file from the tensors of a GGUF, the upper checkpoint levels, the cache check on restart
  and the on-demand inclusion path with its sibling memo. A file is the list of its bytes, the
  parsed GGUF header is the record \<open>gguf_meta\<close>, and the SHA-256 of a file is a parameter. The
  main facts: the root and the paths of the sparse index are those of the dense tree of
  \<open>Pom_Tree\<close> (for more than 32 chunks; below that the stored root is carried too high), the memo
  and the dense cache never change a path, and a restart finds the index that was built.
\<close>

subsection \<open>Checkpoint layout\<close>

abbreviation "CHECKPOINT_INTERVAL \<equiv> 6 :: nat"

record stored_level =
  sl_level :: nat
  sl_offset :: nat
  sl_count :: nat

text \<open>The loop of \<open>compute_checkpoint_offsets\<close>; it never ends for a count of 0, which both callers
  exclude.\<close>

partial_function (option) checkpoint_loop ::
    "nat \<Rightarrow> nat \<Rightarrow> nat \<Rightarrow> stored_level list \<Rightarrow> (stored_level list \<times> nat) option" where
  "checkpoint_loop count off level checkpoints =
     (let is_checkpoint = (0 < level \<and> CHECKPOINT_INTERVAL dvd level) \<or> count = 1;
          checkpoints = (if is_checkpoint
            then checkpoints @ [\<lparr>sl_level = level, sl_offset = off, sl_count = count\<rparr>] else checkpoints)
      in if count = 1 then Some (checkpoints, level + 1)
         else checkpoint_loop (half count) (if is_checkpoint then off + count * 32 else off) (level + 1) checkpoints)"

declare checkpoint_loop.simps [code]

definition compute_checkpoint_offsets :: "nat \<Rightarrow> (stored_level list \<times> nat) option" where
  "compute_checkpoint_offsets n_chunks = checkpoint_loop n_chunks 0 0 []"

text \<open>Reference layout: the multiples of the interval and the root level, one after the other.\<close>

definition is_cp :: "nat \<Rightarrow> nat \<Rightarrow> bool" where
  "is_cp n l \<longleftrightarrow> (0 < l \<and> CHECKPOINT_INTERVAL dvd l) \<or> cnt n l = 1"

definition cp_levels :: "nat \<Rightarrow> nat list" where
  "cp_levels n = filter (is_cp n) [0..<Suc (depth n)]"

definition cp_offset :: "nat \<Rightarrow> nat \<Rightarrow> nat" where
  "cp_offset n l = 32 * (\<Sum>k\<leftarrow>filter (is_cp n) [0..<l]. cnt n k)"

definition cp_at :: "nat \<Rightarrow> nat \<Rightarrow> stored_level" where
  "cp_at n l = \<lparr>sl_level = l, sl_offset = cp_offset n l, sl_count = cnt n l\<rparr>"

lemma cp_at_simps [simp]:
  "sl_level (cp_at n l) = l" "sl_offset (cp_at n l) = cp_offset n l" "sl_count (cp_at n l) = cnt n l"
  by (simp_all add: cp_at_def)

lemma cp_offset_Suc: "cp_offset n (Suc l) = (if is_cp n l then cp_offset n l + cnt n l * 32 else cp_offset n l)"
  by (simp add: cp_offset_def)

lemma checkpoint_loop_eq:
  assumes "0 < n" and "l \<le> depth n"
  shows "checkpoint_loop (cnt n l) (cp_offset n l) l acc
    = Some (acc @ map (cp_at n) (filter (is_cp n) [l..<Suc (depth n)]), depth n + 1)"
  using assms(2)
proof (induction "depth n - l" arbitrary: l acc)
  case 0
  then have l: "l = depth n" by simp
  with cnt_depth [OF assms(1)] show ?case
    by (subst checkpoint_loop.simps) (simp add: cp_at_def is_cp_def)
next
  case (Suc m)
  then have lt: "l < depth n" by simp
  then have c: "cnt n l \<noteq> 1" using cnt_before_depth [of l n] by simp
  have up: "[l..<Suc (depth n)] = l # [Suc l..<Suc (depth n)]" using lt by (simp add: upt_rec)
  have "checkpoint_loop (cnt n l) (cp_offset n l) l acc
      = checkpoint_loop (cnt n (Suc l)) (cp_offset n (Suc l)) (Suc l) (if is_cp n l then acc @ [cp_at n l] else acc)"
    using c by (subst checkpoint_loop.simps) (auto simp: Let_def is_cp_def cp_offset_Suc cnt_Suc cp_at_def)
  also have "\<dots> = Some ((if is_cp n l then acc @ [cp_at n l] else acc)
      @ map (cp_at n) (filter (is_cp n) [Suc l..<Suc (depth n)]), depth n + 1)"
    using Suc lt by (intro Suc.hyps(1)) auto
  finally show ?case unfolding up by simp
qed

lemma compute_checkpoint_offsets_eq:
  "0 < n \<Longrightarrow> compute_checkpoint_offsets n = Some (map (cp_at n) (cp_levels n), depth n + 1)"
  using checkpoint_loop_eq [of n 0 "[]"] by (simp add: compute_checkpoint_offsets_def cp_levels_def cp_offset_def)

lemma cp_levels_iff: "0 < n \<Longrightarrow> l \<in> set (cp_levels n) \<longleftrightarrow> l \<le> depth n \<and> ((0 < l \<and> 6 dvd l) \<or> l = depth n)"
  using cnt_before_depth [of l n] cnt_depth [of n]
  by (auto simp: cp_levels_def is_cp_def less_Suc_eq_le le_less)

lemma filter_less_upt: "l \<le> m \<Longrightarrow> filter (\<lambda>x. x < l) [0..<m] = [0..<l]"
proof (induction m)
  case (Suc m)
  have "filter (\<lambda>x. x < Suc m) [0..<m] = [0..<m]" by (auto simp: filter_id_conv)
  with Suc show ?case by (cases "l = Suc m") auto
qed simp

lemma cp_levels_split:
  assumes "cp_levels n = pre @ l # post"
  shows "pre = filter (is_cp n) [0..<l]" and "l \<le> depth n" and "is_cp n l" and "\<forall>x\<in>set post. l < x"
proof -
  have s: "sorted_wrt (<) (pre @ l # post)"
    unfolding assms [symmetric] cp_levels_def by (intro sorted_wrt_filter) (simp del: upt_Suc)
  have "l \<in> set (cp_levels n)" by (simp add: assms)
  then show l: "l \<le> depth n" "is_cp n l" by (auto simp: cp_levels_def simp del: upt_Suc)
  show "\<forall>x\<in>set post. l < x" using s by (simp add: sorted_wrt_append)
  have "pre = filter (\<lambda>x. x < l) (pre @ l # post)"
    using s by (auto simp: sorted_wrt_append filter_id_conv filter_empty_conv)
  also have "\<dots> = filter (is_cp n) (filter (\<lambda>x. x < l) [0..<Suc (depth n)])"
    by (simp add: assms [symmetric] cp_levels_def conj_commute del: upt_Suc)
  also have "filter (\<lambda>x. x < l) [0..<Suc (depth n)] = [0..<l]"
    using l(1) by (intro filter_less_upt) simp
  finally show "pre = filter (is_cp n) [0..<l]" .
qed

subsection \<open>The tree file\<close>

definition read_exact_at :: "bytes \<Rightarrow> nat \<Rightarrow> nat \<Rightarrow> bytes option" where
  "read_exact_at file len offset = (if offset + len \<le> length file then Some (slice file offset len) else None)"

definition read_node :: "bytes \<Rightarrow> nat \<Rightarrow> hash option" where
  "read_node file offset = map_option hash_of_bytes (read_exact_at file 32 offset)"

text \<open>One upper level: batches of \<open>2 ^ rounds\<close> nodes of the previous stored level, each folded.\<close>

function finalize_level :: "blake3 \<Rightarrow> bytes \<Rightarrow> nat \<Rightarrow> nat \<Rightarrow> nat \<Rightarrow> nat \<Rightarrow> bytes \<Rightarrow> bytes option" where
  "finalize_level B file prev_offset prev_count rounds read_idx out =
     (if read_idx < prev_count then
        let tk = min (2 ^ rounds) (prev_count - read_idx)
        in do { batch \<leftarrow> those (map (\<lambda>i. read_node file (prev_offset + (read_idx + i) * 32)) [0..<tk]);
                parent_node \<leftarrow> fold_levels B batch rounds;
                finalize_level B file prev_offset prev_count rounds (read_idx + tk) (out @ hash_bytes parent_node) }
      else Some out)"
  by pat_completeness auto
termination
  by (relation "measure (\<lambda>(B, file, po, pc, r, i, out). pc - i)") (auto simp: min_def diff_less_mono2)

declare finalize_level.simps [simp del]

fun finalize_loop :: "blake3 \<Rightarrow> bytes \<Rightarrow> stored_level \<Rightarrow> stored_level list \<Rightarrow> bytes option" where
  "finalize_loop B file prev [] = Some file"
| "finalize_loop B file prev (cp # cps) =
     do { out \<leftarrow> finalize_level B file (sl_offset prev) (sl_count prev) (sl_level cp - sl_level prev) 0 [];
          finalize_loop B (file @ out) cp cps }"

definition finalize_checkpoint_upper :: "blake3 \<Rightarrow> bytes \<Rightarrow> nat \<Rightarrow> (bytes \<times> stored_level list \<times> nat \<times> hash) option" where
  "finalize_checkpoint_upper B file n_chunks =
     do { (checkpoints, total_levels) \<leftarrow> compute_checkpoint_offsets n_chunks;
          cp0 \<leftarrow> nth_opt checkpoints 0;
          file \<leftarrow> finalize_loop B file cp0 (drop 1 checkpoints);
          r_t \<leftarrow> read_node file (sl_offset (last checkpoints));
          Some (file, checkpoints, total_levels, r_t) }"

text \<open>Reference contents: the stored levels end to end.\<close>

definition level_bytes :: "hash list \<Rightarrow> bytes" where
  "level_bytes xs = concat (map hash_bytes xs)"

definition store :: "blake3 \<Rightarrow> hash list \<Rightarrow> nat list \<Rightarrow> bytes" where
  "store B xs ls = concat (map (\<lambda>l. level_bytes (lvl B xs l)) ls)"

lemma length_level_bytes [simp]: "length (level_bytes xs) = 32 * length xs"
  by (induction xs) (simp_all add: level_bytes_def)

lemma level_bytes_append [simp]: "level_bytes (xs @ ys) = level_bytes xs @ level_bytes ys"
  by (simp add: level_bytes_def)

lemma level_bytes_simps [simp]: "level_bytes [] = []" "level_bytes (x # xs) = hash_bytes x @ level_bytes xs"
  by (simp_all add: level_bytes_def)

lemma store_simps [simp]:
  "store B xs [] = []" "store B xs (l # ls) = level_bytes (lvl B xs l) @ store B xs ls"
  "store B xs (ls @ ls') = store B xs ls @ store B xs ls'"
  by (simp_all add: store_def)

lemma length_store: "length (store B xs ls) = 32 * (\<Sum>l\<leftarrow>ls. cnt (length xs) l)"
  by (induction ls) (simp_all add: algebra_simps)

lemma slice_level_bytes: "i < length xs \<Longrightarrow> slice (level_bytes xs @ rest) (i * 32) 32 = hash_bytes (xs ! i)"
proof (induction xs arbitrary: i)
  case (Cons x xs)
  then show ?case by (cases i) simp_all
qed simp

lemma read_node_level:
  assumes "length pre = off" and "i < length xs"
  shows "read_node (pre @ level_bytes xs @ post) (off + i * 32) = Some (xs ! i)"
proof -
  have "slice (pre @ level_bytes xs @ post) (off + i * 32) 32 = hash_bytes (xs ! i)"
    using slice_level_bytes [OF assms(2), of post] assms(1) by (simp flip: drop_drop add: add.commute)
  with assms show ?thesis by (simp add: read_node_def read_exact_at_def)
qed

lemma read_node_store:
  assumes "cp_levels (length xs) = pre @ l # post" and "i < cnt (length xs) l"
  shows "read_node (store B xs (pre @ l # rest)) (cp_offset (length xs) l + i * 32) = Some (lvl B xs l ! i)"
  using read_node_level [of "store B xs pre" "cp_offset (length xs) l" i "lvl B xs l" "store B xs rest"]
    assms cp_levels_split(1) [OF assms(1)]
  by (simp add: length_store cp_offset_def)

lemma those_map_Some: "(\<And>x. x \<in> set xs \<Longrightarrow> f x = Some (g x)) \<Longrightarrow> those (map f xs) = Some (map g xs)"
  by (induction xs) simp_all

lemma map_nth_slice: "a + c \<le> length xs \<Longrightarrow> map (\<lambda>i. xs ! (a + i)) [0..<c] = slice xs a c"
  by (rule nth_equalityI) simp_all

lemma finalize_level_eq:
  assumes rd: "\<And>i. i < length ys \<Longrightarrow> read_node file (po + i * 32) = Some (ys ! i)"
  shows "j \<le> cnt (length ys) rounds \<Longrightarrow>
    finalize_level B file po (length ys) rounds (min (length ys) (j * 2 ^ rounds)) (level_bytes (take j (lvl B ys rounds)))
      = Some (level_bytes (lvl B ys rounds))"
proof (induction "cnt (length ys) rounds - j" arbitrary: j)
  case 0
  then have "j = cnt (length ys) rounds" by simp
  moreover from this have "length ys \<le> j * 2 ^ rounds" using cnt_bounds [of "length ys" rounds] by simp
  ultimately show ?case by (subst finalize_level.simps) simp
next
  case (Suc m)
  let ?R = "2 ^ rounds :: nat" and ?i = "min (length ys) (j * 2 ^ rounds)"
  have j: "j < cnt (length ys) rounds" using Suc.hyps(2) by simp
  then have lt: "j * ?R < length ys" by (simp add: less_cnt_iff)
  define tk where "tk = min ?R (length ys - j * ?R)"
  have batch: "those (map (\<lambda>i. read_node file (po + (?i + i) * 32)) [0..<tk]) = Some (slice ys (j * ?R) ?R)"
  proof -
    have "read_node file (po + (?i + x) * 32) = Some (ys ! (j * ?R + x))" if "x < tk" for x
      using rd [of "j * ?R + x"] that lt by (simp add: tk_def less_diff_conv add.commute)
    then have "those (map (\<lambda>i. read_node file (po + (?i + i) * 32)) [0..<tk]) = Some (map (\<lambda>i. ys ! (j * ?R + i)) [0..<tk])"
      by (intro those_map_Some) simp
    also have "map (\<lambda>i. ys ! (j * ?R + i)) [0..<tk] = slice ys (j * ?R) tk"
      using lt by (intro map_nth_slice) (simp add: tk_def)
    also have "\<dots> = slice ys (j * ?R) ?R" by (simp add: tk_def min_def)
    finally show ?thesis .
  qed
  have fold: "fold_levels B (slice ys (j * ?R) ?R) rounds = Some (lvl B ys rounds ! j)"
    by (rule fold_levels_batch [OF j])
  have nxt: "?i + tk = min (length ys) (Suc j * ?R)" using lt by (auto simp: tk_def min_def)
  have out: "level_bytes (take j (lvl B ys rounds)) @ hash_bytes (lvl B ys rounds ! j)
      = level_bytes (take (Suc j) (lvl B ys rounds))"
    using j by (simp add: take_Suc_conv_app_nth)
  have "finalize_level B file po (length ys) rounds ?i (level_bytes (take j (lvl B ys rounds)))
      = finalize_level B file po (length ys) rounds (?i + tk)
          (level_bytes (take j (lvl B ys rounds)) @ hash_bytes (lvl B ys rounds ! j))"
    using lt batch fold by (subst finalize_level.simps) (simp add: Let_def tk_def)
  also have "\<dots> = Some (level_bytes (lvl B ys rounds))"
    unfolding nxt out using Suc j by (intro Suc.hyps(1)) auto
  finally show ?case .
qed

lemma finalize_loop_eq:
  "cp_levels (length xs) = pre @ l # post \<Longrightarrow>
   finalize_loop B (store B xs (pre @ [l])) (cp_at (length xs) l) (map (cp_at (length xs)) post)
     = Some (store B xs (pre @ l # post))"
proof (induction post arbitrary: pre l)
  case (Cons l' post)
  let ?n = "length xs" and ?ys = "lvl B xs l"
  have less: "l < l'" using cp_levels_split(4) [OF Cons.prems] by simp
  then have up: "lvl B ?ys (l' - l) = lvl B xs l'" by (simp flip: funpow_add comp_apply [of "_ ^^ _"])
  have "read_node (store B xs (pre @ [l])) (cp_offset ?n l + i * 32) = Some (?ys ! i)" if "i < length ?ys" for i
    using read_node_store [OF Cons.prems, of i B "[]"] that by simp
  from finalize_level_eq [OF this, of 0 "l' - l" B]
  have "finalize_level B (store B xs (pre @ [l])) (cp_offset ?n l) (cnt ?n l) (l' - l) 0 []
      = Some (level_bytes (lvl B xs l'))" by (simp add: up)
  moreover have "cp_levels ?n = (pre @ [l]) @ l' # post" using Cons.prems by simp
  from Cons.IH [OF this] have "finalize_loop B (store B xs ((pre @ [l]) @ [l'])) (cp_at ?n l') (map (cp_at ?n) post)
      = Some (store B xs (pre @ l # l' # post))" by simp
  ultimately show ?case by simp
qed simp

subsection \<open>Building from a GGUF\<close>

record tensor_meta =
  t_offset :: nat
  t_nbytes :: nat

record gguf_meta =
  gguf_tensors :: "(bytes \<times> tensor_meta) list"
  tensor_data_offset :: nat

definition sorted_names :: "gguf_meta \<Rightarrow> bytes list" where
  "sorted_names meta = sort (map fst (gguf_tensors meta))"

record build_state =
  bs_table :: "(nat \<times> nat) list"
  bs_n_chunks :: nat
  bs_batch :: "hash list"
  bs_out :: bytes

definition push_chunk :: "blake3 \<Rightarrow> bytes \<Rightarrow> build_state \<Rightarrow> build_state option" where
  "push_chunk B chunk st =
     (let st = st\<lparr>bs_batch := bs_batch st @ [blake B chunk], bs_n_chunks := bs_n_chunks st + 1\<rparr>
      in if length (bs_batch st) = 2 ^ CHECKPOINT_INTERVAL
         then do { node \<leftarrow> fold_levels B (bs_batch st) CHECKPOINT_INTERVAL;
                   Some (st\<lparr>bs_out := bs_out st @ hash_bytes node, bs_batch := []\<rparr>) }
         else Some st)"

fun push_chunks :: "blake3 \<Rightarrow> bytes list \<Rightarrow> build_state \<Rightarrow> build_state option" where
  "push_chunks B [] st = Some st"
| "push_chunks B (c # cs) st = do { st \<leftarrow> push_chunk B c st; push_chunks B cs st }"

abbreviation "SLAB_CHUNKS \<equiv> 65536 :: nat"

function slab_loop :: "blake3 \<Rightarrow> bytes \<Rightarrow> nat \<Rightarrow> nat \<Rightarrow> nat \<Rightarrow> build_state \<Rightarrow> build_state option" where
  "slab_loop B file file_off full dn st =
     (if dn < full then
        let tk = min SLAB_CHUNKS (full - dn)
        in do { buf \<leftarrow> read_exact_at file (tk * 32) (file_off + dn * 32);
                st \<leftarrow> push_chunks B (map (\<lambda>c. slice buf (c * 32) 32) [0..<tk]) st;
                slab_loop B file file_off full (dn + tk) st }
      else Some st)"
  by pat_completeness auto
termination
  by (relation "measure (\<lambda>(B, file, fo, full, dn, st). full - dn)") (auto simp: min_def diff_less_mono2)

declare slab_loop.simps [simp del]

fun build_tensors :: "blake3 \<Rightarrow> bytes \<Rightarrow> gguf_meta \<Rightarrow> bytes list \<Rightarrow> build_state \<Rightarrow> build_state option" where
  "build_tensors B file meta [] st = Some st"
| "build_tensors B file meta (name # names) st =
     do { t \<leftarrow> map_of (gguf_tensors meta) name;
          let file_off = tensor_data_offset meta + t_offset t;
          let full = t_nbytes t div 32;
          let st = (if 0 < full then st\<lparr>bs_table := bs_table st @ [(bs_n_chunks st, file_off)]\<rparr> else st);
          st \<leftarrow> slab_loop B file file_off full 0 st;
          build_tensors B file meta names st }"

record weight_index =
  n_chunks :: nat
  r_t :: hash
  chunk_table :: "(nat \<times> nat) list"
  mmap :: bytes
  tree_file :: bytes
  checkpoints :: "stored_level list"
  total_levels :: nat
  dense :: "hash list list option"
  sibling_memo :: "nat \<times> nat \<rightharpoonup> hash"

text \<open>The part of \<open>build_from_gguf\<close> after the cache check: the level-6 nodes are streamed out, then
  the upper levels are added.\<close>

definition build_index :: "blake3 \<Rightarrow> bytes \<Rightarrow> gguf_meta \<Rightarrow> weight_index option" where
  "build_index B gguf meta =
     do { st \<leftarrow> build_tensors B gguf meta (sorted_names meta)
            \<lparr>bs_table = [], bs_n_chunks = 0, bs_batch = [], bs_out = []\<rparr>;
          out \<leftarrow> (if bs_batch st \<noteq> [] then do { node \<leftarrow> fold_levels B (bs_batch st) CHECKPOINT_INTERVAL;
                                                Some (bs_out st @ hash_bytes node) }
                  else Some (bs_out st));
          if bs_n_chunks st = 0 then None
          else do { (file, cps, tot, root) \<leftarrow> finalize_checkpoint_upper B out (bs_n_chunks st);
                    Some \<lparr>n_chunks = bs_n_chunks st, r_t = root, chunk_table = bs_table st, mmap = gguf,
                          tree_file = file, checkpoints = cps, total_levels = tot, dense = None,
                          sibling_memo = Map.empty\<rparr> } }"

text \<open>Reference: the canonical chunks of the tensors, in name order, and the chunk table.\<close>

definition span_of :: "gguf_meta \<Rightarrow> bytes \<Rightarrow> nat \<times> nat" where
  "span_of meta name = (case map_of (gguf_tensors meta) name of
     Some t \<Rightarrow> (tensor_data_offset meta + t_offset t, t_nbytes t div 32) | None \<Rightarrow> (0, 0))"

definition spans :: "gguf_meta \<Rightarrow> (nat \<times> nat) list" where
  "spans meta = map (span_of meta) (sorted_names meta)"

definition span_chunks :: "bytes \<Rightarrow> nat \<times> nat \<Rightarrow> hash list" where
  "span_chunks file sp = map (\<lambda>i. hash_of_bytes (slice file (fst sp + i * 32) 32)) [0..<snd sp]"

definition canonical_chunks :: "bytes \<Rightarrow> gguf_meta \<Rightarrow> hash list" where
  "canonical_chunks file meta = concat (map (span_chunks file) (spans meta))"

fun table_of :: "nat \<Rightarrow> (nat \<times> nat) list \<Rightarrow> (nat \<times> nat) list" where
  "table_of start [] = []"
| "table_of start ((fo, full) # sps) = (if 0 < full then [(start, fo)] else []) @ table_of (start + full) sps"

text \<open>A header whose tensors all lie inside the file.\<close>

definition tensors_in_file :: "bytes \<Rightarrow> gguf_meta \<Rightarrow> bool" where
  "tensors_in_file file meta \<longleftrightarrow> (\<forall>(fo, full) \<in> set (spans meta). 0 < full \<longrightarrow> fo + full * 32 \<le> length file)"

subsection \<open>The streaming build computes the tree\<close>

text \<open>The state after the leaves \<open>xs\<close>: a level-6 node per full batch, the rest still in the batch.\<close>

definition batch_node :: "blake3 \<Rightarrow> hash list \<Rightarrow> nat \<Rightarrow> hash" where
  "batch_node B xs j = lvl B (slice xs (j * 64) 64) 6 ! 0"

definition state_after :: "blake3 \<Rightarrow> (nat \<times> nat) list \<Rightarrow> hash list \<Rightarrow> build_state" where
  "state_after B tab xs = \<lparr>bs_table = tab, bs_n_chunks = length xs, bs_batch = drop (length xs div 64 * 64) xs,
     bs_out = level_bytes (map (batch_node B xs) [0..<length xs div 64])\<rparr>"

lemma batch_node_snoc: "j < length xs div 64 \<Longrightarrow> batch_node B (xs @ ys) j = batch_node B xs j"
proof -
  assume "j < length xs div 64"
  then have "Suc j * 64 \<le> length xs" by (simp only: Suc_le_eq [symmetric] less_eq_div_iff_mult_less_eq zero_less_numeral)
  then have "j * 64 + 64 \<le> length xs" by simp
  then have "slice (xs @ ys) (j * 64) 64 = slice xs (j * 64) 64" by simp
  then show ?thesis by (simp only: batch_node_def)
qed

lemma fold_levels_short:
  assumes "xs \<noteq> []"
  shows "fold_levels B xs k = Some (lvl B xs k ! 0)"
  using assms by (simp add: fold_levels_def nth_opt_def)

lemma push_chunk_state:
  "push_chunk B ch (state_after B tab xs) = Some (state_after B tab (xs @ [blake B ch]))"
proof -
  define q where "q = length xs div 64"
  have n: "length xs = q * 64 + length xs mod 64" "length xs mod 64 < 64" by (simp_all add: q_def)
  let ?ys = "xs @ [blake B ch]"
  have groups: "map (batch_node B ?ys) [0..<q] = map (batch_node B xs) [0..<q]"
    by (rule map_cong) (simp_all add: batch_node_snoc q_def)
  have batch: "drop (q * 64) xs @ [blake B ch] = drop (q * 64) ?ys" using n(1) by simp
  have step: "push_chunk B ch (state_after B tab xs)
      = (if length (drop (q * 64) ?ys) = 64
         then map_option (\<lambda>node. \<lparr>bs_table = tab, bs_n_chunks = length ?ys, bs_batch = [],
                bs_out = level_bytes (map (batch_node B ?ys) [0..<q]) @ hash_bytes node\<rparr>) (fold_levels B (drop (q * 64) ?ys) 6)
         else Some \<lparr>bs_table = tab, bs_n_chunks = length ?ys, bs_batch = drop (q * 64) ?ys,
                bs_out = level_bytes (map (batch_node B ?ys) [0..<q])\<rparr>)"
    unfolding push_chunk_def state_after_def Let_def groups batch [symmetric] q_def [symmetric]
    by (simp add: map_option_case split: option.split)
  show ?thesis
  proof (cases "length xs mod 64 = 63")
    case True
    then have q': "length ?ys div 64 = Suc q" and len: "length xs = q * 64 + 63" using n(1) by (simp_all add: q_def)
    have full: "drop (q * 64) ?ys = slice ?ys (q * 64) 64" and empty: "drop (Suc q * 64) ?ys = []" using len by simp_all
    have fl: "fold_levels B (drop (q * 64) ?ys) 6 = Some (batch_node B ?ys q)"
      unfolding batch_node_def by (subst full, rule fold_levels_short) (use len in simp)
    have l64: "length (drop (q * 64) ?ys) = 64" using len by simp
    have e: "state_after B tab ?ys = \<lparr>bs_table = tab, bs_n_chunks = length ?ys, bs_batch = [],
        bs_out = level_bytes (map (batch_node B ?ys) [0..<q]) @ hash_bytes (batch_node B ?ys q)\<rparr>"
      unfolding state_after_def q' empty by simp
    show ?thesis unfolding step e by (simp only: l64 fl if_True option.map simp_thms)
  next
    case False
    then have q': "length ?ys div 64 = q" using n(2) by (simp add: q_def div_Suc mod_Suc)
    have l64: "length (drop (q * 64) ?ys) \<noteq> 64" using False n by simp
    have e: "state_after B tab ?ys = \<lparr>bs_table = tab, bs_n_chunks = length ?ys, bs_batch = drop (q * 64) ?ys,
        bs_out = level_bytes (map (batch_node B ?ys) [0..<q])\<rparr>"
      unfolding state_after_def q' ..
    show ?thesis unfolding step e using l64 by (simp only: if_False simp_thms)
  qed
qed

lemma push_chunks_state:
  "push_chunks B chs (state_after B tab xs) = Some (state_after B tab (xs @ map (blake B) chs))"
  by (induction chs arbitrary: xs) (simp_all add: push_chunk_state)

lemma slab_loop_state:
  assumes "fo + full * 32 \<le> length file"
  shows "dn \<le> full \<Longrightarrow> slab_loop B file fo full dn (state_after B tab xs)
    = Some (state_after B tab (xs @ map (\<lambda>i. blake B (slice file (fo + i * 32) 32)) [dn..<full]))"
proof (induction "full - dn" arbitrary: dn xs rule: less_induct)
  case less
  show ?case
  proof (cases "dn < full")
    case False
    then show ?thesis using less.prems by (subst slab_loop.simps) simp
  next
    case True
    define tk where "tk = min SLAB_CHUNKS (full - dn)"
    have tk: "0 < tk" "dn + tk \<le> full" using True by (simp_all add: tk_def)
    have "fo + dn * 32 + tk * 32 \<le> length file" using assms tk by linarith
    then have rd: "read_exact_at file (tk * 32) (fo + dn * 32) = Some (slice file (fo + dn * 32) (tk * 32))"
      by (simp add: read_exact_at_def)
    have "map (\<lambda>c. slice (slice file (fo + dn * 32) (tk * 32)) (c * 32) 32) [0..<tk]
        = map (\<lambda>i. slice file (fo + i * 32) 32) [dn..<dn + tk]"
      by (rule nth_equalityI) (auto simp: drop_take min_def algebra_simps)
    then have "map (blake B) (map (\<lambda>c. slice (slice file (fo + dn * 32) (tk * 32)) (c * 32) 32) [0..<tk])
        = map (\<lambda>i. blake B (slice file (fo + i * 32) 32)) [dn..<dn + tk]" by (simp only: map_map comp_def)
    then have "slab_loop B file fo full dn (state_after B tab xs)
        = slab_loop B file fo full (dn + tk)
            (state_after B tab (xs @ map (\<lambda>i. blake B (slice file (fo + i * 32) 32)) [dn..<dn + tk]))"
      using True rd by (subst slab_loop.simps) (simp add: Let_def push_chunks_state del: map_map flip: tk_def)
    also have "\<dots> = Some (state_after B tab (xs @ map (\<lambda>i. blake B (slice file (fo + i * 32) 32)) [dn..<dn + tk]
        @ map (\<lambda>i. blake B (slice file (fo + i * 32) 32)) [dn + tk..<full]))"
      using tk less.hyps [of "dn + tk"] by simp
    also have "map (\<lambda>i. blake B (slice file (fo + i * 32) 32)) [dn..<dn + tk]
        @ map (\<lambda>i. blake B (slice file (fo + i * 32) 32)) [dn + tk..<full]
        = map (\<lambda>i. blake B (slice file (fo + i * 32) 32)) [dn..<full]"
      using tk upt_add_eq_append [of dn "dn + tk" "full - (dn + tk)"] by (simp flip: map_append)
    finally show ?thesis .
  qed
qed

lemma span_leaves:
  assumes "0 < full \<longrightarrow> fo + full * 32 \<le> length file"
  shows "map (\<lambda>i. blake B (slice file (fo + i * 32) 32)) [0..<full] = chunk_leaves B (span_chunks file (fo, full))"
proof -
  have "length (slice file (fo + i * 32) 32) = 32" if "i < full" for i using assms that by simp
  then show ?thesis by (auto simp: chunk_leaves_def span_chunks_def hash_bytes_hash_of_bytes)
qed

lemma chunk_leaves_append [simp]: "chunk_leaves B (xs @ ys) = chunk_leaves B xs @ chunk_leaves B ys"
  by (simp add: chunk_leaves_def)

lemma length_span_chunks [simp]: "length (span_chunks file sp) = snd sp"
  by (simp add: span_chunks_def)

lemma slab_loop_span:
  assumes "0 < full \<longrightarrow> fo + full * 32 \<le> length file"
  shows "slab_loop B file fo full 0 (state_after B tab xs)
    = Some (state_after B tab (xs @ chunk_leaves B (span_chunks file (fo, full))))"
proof (cases "full = 0")
  case True
  then show ?thesis by (subst slab_loop.simps) (simp add: span_chunks_def chunk_leaves_def)
next
  case False
  with slab_loop_state [of fo full "file" 0 B tab xs] span_leaves [OF assms, of B] assms
  show ?thesis by simp
qed

lemma build_tensors_state:
  assumes "\<forall>name \<in> set names. map_of (gguf_tensors meta) name \<noteq> None"
    and "\<forall>(fo, full) \<in> set (map (span_of meta) names). 0 < full \<longrightarrow> fo + full * 32 \<le> length file"
  shows "build_tensors B file meta names (state_after B tab xs)
    = Some (state_after B (tab @ table_of (length xs) (map (span_of meta) names))
        (xs @ chunk_leaves B (concat (map (span_chunks file) (map (span_of meta) names)))))"
  using assms
proof (induction names arbitrary: tab xs)
  case Nil
  then show ?case by (simp add: chunk_leaves_def)
next
  case (Cons name names)
  then obtain t where t: "map_of (gguf_tensors meta) name = Some t" by auto
  define fo where "fo = tensor_data_offset meta + t_offset t"
  define full where "full = t_nbytes t div 32"
  have sp: "span_of meta name = (fo, full)" by (simp add: span_of_def t fo_def full_def)
  have tab: "(if 0 < full then (state_after B tab xs)\<lparr>bs_table := bs_table (state_after B tab xs)
        @ [(bs_n_chunks (state_after B tab xs), fo)]\<rparr> else state_after B tab xs)
      = state_after B (tab @ (if 0 < full then [(length xs, fo)] else [])) xs"
    by (simp add: state_after_def)
  have slab: "slab_loop B file fo full 0 (state_after B (tab @ (if 0 < full then [(length xs, fo)] else [])) xs)
      = Some (state_after B (tab @ (if 0 < full then [(length xs, fo)] else [])) (xs @ chunk_leaves B (span_chunks file (fo, full))))"
    using Cons.prems(2) sp by (intro slab_loop_span) auto
  have "build_tensors B file meta (name # names) (state_after B tab xs)
      = build_tensors B file meta names (state_after B (tab @ (if 0 < full then [(length xs, fo)] else []))
          (xs @ chunk_leaves B (span_chunks file (fo, full))))"
    by (simp only: build_tensors.simps t bind.bind_lunit Let_def fo_def [symmetric] full_def [symmetric] tab slab)
  also have "\<dots> = Some (state_after B (tab @ table_of (length xs) (map (span_of meta) (name # names)))
        (xs @ chunk_leaves B (concat (map (span_chunks file) (map (span_of meta) (name # names))))))"
    using Cons.prems by (subst Cons.IH) (auto simp: sp)
  finally show ?case .
qed

lemma lvl_6_batches: "lvl B xs 6 = map (batch_node B xs) [0..<cnt (length xs) 6]"
proof (rule nth_equalityI)
  fix i assume "i < length (lvl B xs 6)"
  then have i: "i < cnt (length xs) 6" by (simp only: length_lvl)
  from fold_levels_batch [OF this, of B] have "lvl B (slice xs (i * 64) 64) 6 ! 0 = lvl B xs 6 ! i"
    unfolding fold_levels_def nth_opt_Some by simp
  then show "lvl B xs 6 ! i = map (batch_node B xs) [0..<cnt (length xs) 6] ! i"
    using i by (simp only: batch_node_def nth_map length_upt nth_upt add_0 diff_zero)
qed (simp only: length_lvl length_map length_upt diff_zero)

lemma nat_eq_by_less: "(\<And>i. i < a \<longleftrightarrow> i < b) \<Longrightarrow> a = (b :: nat)"
  by (metis less_irrefl nat_neq_iff)

lemma cnt_6: "cnt n 6 = (if n mod 64 = 0 then n div 64 else Suc (n div 64))"
proof -
  have "i < cnt n 6 \<longleftrightarrow> i < (if n mod 64 = 0 then n div 64 else Suc (n div 64))" for i
    unfolding less_cnt_iff by (auto simp: less_Suc_eq_le less_eq_div_iff_mult_less_eq) presburger+
  then show ?thesis by (rule nat_eq_by_less)
qed

text \<open>After the last partial batch the file holds level 6.\<close>

lemma streamed_level_6:
  "(if bs_batch (state_after B tab xs) \<noteq> []
    then do { node \<leftarrow> fold_levels B (bs_batch (state_after B tab xs)) 6; Some (bs_out (state_after B tab xs) @ hash_bytes node) }
    else Some (bs_out (state_after B tab xs))) = Some (level_bytes (lvl B xs 6))"
proof (cases "length xs mod 64 = 0")
  case True
  then have "drop (length xs div 64 * 64) xs = []" by auto
  with True show ?thesis by (simp only: lvl_6_batches cnt_6 state_after_def build_state.simps if_True simp_thms if_False)
next
  case False
  let ?q = "length xs div 64"
  have lt: "length xs - ?q * 64 = length xs mod 64" by (simp add: minus_div_mult_eq_mod)
  then have ne: "drop (?q * 64) xs \<noteq> []" using False by (simp flip: length_greater_0_conv)
  have "drop (?q * 64) xs = slice xs (?q * 64) 64" using lt by (simp add: mod_less_divisor less_imp_le)
  then have "fold_levels B (drop (?q * 64) xs) 6 = Some (batch_node B xs ?q)"
    unfolding batch_node_def using fold_levels_short [OF ne, of B 6] by argo
  with False ne show ?thesis
    by (simp add: lvl_6_batches cnt_6 state_after_def del: funpow.simps)
qed

subsection \<open>Reading chunks and paths\<close>

definition read_chunk_bytes :: "weight_index \<Rightarrow> nat \<Rightarrow> hash option" where
  "read_chunk_bytes ix off =
     (let j = length (takeWhile (\<lambda>(start, _). start \<le> off) (chunk_table ix))
      in if j = 0 then None
         else let (start, file_off) = chunk_table ix ! (j - 1); b = file_off + (off - start) * 32
              in map_option hash_of_bytes (get_range (mmap ix) b (b + 32)))"

definition find_checkpoint :: "weight_index \<Rightarrow> nat \<Rightarrow> stored_level option" where
  "find_checkpoint ix level = find (\<lambda>cp. sl_level cp = level) (checkpoints ix)"

definition count_at_level :: "weight_index \<Rightarrow> nat \<Rightarrow> nat" where
  "count_at_level ix level = (half ^^ level) (n_chunks ix)"

fun trailing_zeros :: "nat \<Rightarrow> nat" where
  "trailing_zeros n = (if n = 0 then 64 else if odd n then 0 else Suc (trailing_zeros (n div 2)))"

declare trailing_zeros.simps [simp del]

definition compute_subtree_hash :: "blake3 \<Rightarrow> weight_index \<Rightarrow> nat \<Rightarrow> nat \<Rightarrow> nat \<Rightarrow> hash option" where
  "compute_subtree_hash B ix start span src_level =
     do { let rounds = trailing_zeros span;
          source_count \<leftarrow> (if src_level = 0 then Some (n_chunks ix) else map_option sl_count (find_checkpoint ix src_level));
          if source_count \<le> start then Some 0
          else do { let en = min (start + span) source_count;
                    nodes \<leftarrow> (if src_level = 0
                       then those (map (\<lambda>i. map_option (\<lambda>c. blake B (hash_bytes c)) (read_chunk_bytes ix i)) [start..<en])
                       else do { cp \<leftarrow> find_checkpoint ix src_level;
                                 those (map (\<lambda>i. read_node (tree_file ix) (sl_offset cp + i * 32)) [start..<en]) });
                    fold_levels B nodes rounds } }"

function dense_levels :: "blake3 \<Rightarrow> hash list \<Rightarrow> hash list list" where
  "dense_levels B cur = (if 1 < length cur then cur # dense_levels B (pair_level B cur) else [cur])"
  by pat_completeness auto
termination
  by (relation "measure (\<lambda>(B, cur). length cur)") auto

declare dense_levels.simps [simp del]

definition build_dense :: "blake3 \<Rightarrow> weight_index \<Rightarrow> weight_index option" where
  "build_dense B ix =
     (if dense ix \<noteq> None then Some ix
      else do { leaves \<leftarrow> those (map (\<lambda>i. map_option (\<lambda>c. blake B (hash_bytes c)) (read_chunk_bytes ix i)) [0..<n_chunks ix]);
                Some (ix\<lparr>dense := Some (dense_levels B leaves)\<rparr>) })"

fun dense_path :: "hash list list \<Rightarrow> nat \<Rightarrow> hash list option" where
  "dense_path [] idx = Some []"
| "dense_path (level # levels) idx =
     do { let sib = xor1 idx;
          h \<leftarrow> (if sib < length level then Some (level ! sib) else nth_opt level idx);
          path \<leftarrow> dense_path levels (idx div 2);
          Some (h # path) }"

text \<open>The sibling of node \<open>idx\<close> on \<open>level\<close>, read from the tree file or recomputed.\<close>

definition sparse_sibling :: "blake3 \<Rightarrow> weight_index \<Rightarrow> nat \<Rightarrow> nat \<Rightarrow> hash option" where
  "sparse_sibling B ix level idx =
     (let sib_idx = xor1 idx;
          is_stored = 0 < level \<and> (CHECKPOINT_INTERVAL dvd level \<or> level = total_levels ix - 1)
      in if is_stored
         then do { cp \<leftarrow> find_checkpoint ix level;
                   let real_idx = (if sib_idx < sl_count cp then sib_idx else idx);
                   read_node (tree_file ix) (sl_offset cp + real_idx * 32) }
         else let node_count = count_at_level ix level;
                  real_sib_idx = (if sib_idx < node_count then sib_idx else idx);
                  src_level = level div CHECKPOINT_INTERVAL * CHECKPOINT_INTERVAL;
                  span = 2 ^ (level - src_level)
              in compute_subtree_hash B ix (real_sib_idx * span) span src_level)"

text \<open>\<open>memo_on\<close> and \<open>memo_max\<close> are the two environment knobs of the sibling memo.\<close>

fun path_loop :: "blake3 \<Rightarrow> bool \<Rightarrow> nat \<Rightarrow> nat list \<Rightarrow> nat \<Rightarrow> weight_index \<Rightarrow> (hash list \<times> weight_index) option" where
  "path_loop B memo_on memo_max [] idx ix = Some ([], ix)"
| "path_loop B memo_on memo_max (level # levels) idx ix =
     (let sib_idx = xor1 idx;
          memoize = memo_on \<and> count_at_level ix level \<le> memo_max
      in case (if memoize then sibling_memo ix (level, sib_idx) else None) of
           Some hit \<Rightarrow> do { (path, ix) \<leftarrow> path_loop B memo_on memo_max levels (idx div 2) ix; Some (hit # path, ix) }
         | None \<Rightarrow>
             do { node \<leftarrow> sparse_sibling B ix level idx;
                  let ix = (if memoize then ix\<lparr>sibling_memo := (sibling_memo ix)((level, sib_idx) \<mapsto> node)\<rparr> else ix);
                  (path, ix) \<leftarrow> path_loop B memo_on memo_max levels (idx div 2) ix;
                  Some (node # path, ix) })"

definition merkle_path :: "blake3 \<Rightarrow> bool \<Rightarrow> nat \<Rightarrow> weight_index \<Rightarrow> nat \<Rightarrow> (hash list \<times> weight_index) option" where
  "merkle_path B memo_on memo_max ix off =
     (case dense ix of
        Some levels \<Rightarrow> map_option (\<lambda>p. (p, ix)) (dense_path (butlast levels) off)
      | None \<Rightarrow> path_loop B memo_on memo_max [0..<total_levels ix - 1] off ix)"

subsection \<open>What the index holds\<close>

definition index_holds :: "blake3 \<Rightarrow> weight_index \<Rightarrow> hash list \<Rightarrow> bool" where
  "index_holds B ix cs \<longleftrightarrow>
     (let n = length cs; xs = chunk_leaves B cs in
      cs \<noteq> [] \<and> n_chunks ix = n \<and> merkle_root B xs = Some (r_t ix)
      \<and> (\<forall>i < n. read_chunk_bytes ix i = Some (cs ! i))
      \<and> checkpoints ix = map (cp_at n) (cp_levels n) \<and> total_levels ix = depth n + 1
      \<and> (\<forall>l \<in> set (cp_levels n). \<forall>i < cnt n l. read_node (tree_file ix) (cp_offset n l + i * 32) = Some (lvl B xs l ! i))
      \<and> (dense ix = None \<or> dense ix = Some (map (lvl B xs) [0..<Suc (depth n)]))
      \<and> (\<forall>l s h. sibling_memo ix (l, s) = Some h \<longrightarrow> h = sibling B xs l (xor1 s)))"

lemma xor1_xor1 [simp]: "xor1 (xor1 i) = i"
  by (auto simp: xor1_def)

lemma trailing_zeros_pow2 [simp]: "trailing_zeros (2 ^ k) = k"
  by (induction k) (auto simp: trailing_zeros.simps)

lemma find_cp: "l \<in> set ls \<Longrightarrow> find (\<lambda>cp. sl_level cp = l) (map (cp_at n) ls) = Some (cp_at n l)"
  by (induction ls) auto

lemma map_nth_upt: "e \<le> length xs \<Longrightarrow> s \<le> e \<Longrightarrow> map (\<lambda>i. xs ! i) [s..<e] = slice xs s (e - s)"
  by (rule nth_equalityI) simp_all

lemma index_holdsD:
  assumes "index_holds B ix cs"
  shows "cs \<noteq> []" and "n_chunks ix = length cs"
    and "i < length cs \<Longrightarrow> read_chunk_bytes ix i = Some (cs ! i)"
    and "total_levels ix = depth (length cs) + 1"
    and "l \<in> set (cp_levels (length cs)) \<Longrightarrow> i < cnt (length cs) l \<Longrightarrow>
      read_node (tree_file ix) (cp_offset (length cs) l + i * 32) = Some (lvl B (chunk_leaves B cs) l ! i)"
    and "l \<in> set (cp_levels (length cs)) \<Longrightarrow> find_checkpoint ix l = Some (cp_at (length cs) l)"
    and "sibling_memo ix (l, s) = Some h \<Longrightarrow> h = sibling B (chunk_leaves B cs) l (xor1 s)"
  using assms by (simp_all add: index_holds_def Let_def find_checkpoint_def find_cp)

lemma leaves_read:
  assumes "index_holds B ix cs" and "e \<le> length cs" and "s \<le> e"
  shows "those (map (\<lambda>i. map_option (\<lambda>c. blake B (hash_bytes c)) (read_chunk_bytes ix i)) [s..<e])
    = Some (slice (chunk_leaves B cs) s (e - s))"
proof -
  have "those (map (\<lambda>i. map_option (\<lambda>c. blake B (hash_bytes c)) (read_chunk_bytes ix i)) [s..<e])
      = Some (map (\<lambda>i. chunk_leaves B cs ! i) [s..<e])"
    using assms by (intro those_map_Some) (simp add: index_holdsD(3))
  then show ?thesis using assms by (simp add: map_nth_upt)
qed

lemma compute_subtree_hash_eq:
  assumes h: "index_holds B ix cs" and src: "src = 0 \<or> src \<in> set (cp_levels (length cs))"
    and i: "i < cnt (length cs) (src + k)"
  shows "compute_subtree_hash B ix (i * 2 ^ k) (2 ^ k) src = Some (lvl B (chunk_leaves B cs) (src + k) ! i)"
proof -
  let ?xs = "chunk_leaves B cs" and ?ys = "lvl B (chunk_leaves B cs) src"
  have len: "length ?ys = cnt (length cs) src" by simp
  have i': "i < cnt (length ?ys) k" using i by (simp add: cnt_add)
  then have lt: "i * 2 ^ k < length ?ys" by (simp only: less_cnt_iff)
  have fold: "fold_levels B (slice ?ys (i * 2 ^ k) (2 ^ k)) k = Some (lvl B ?xs (src + k) ! i)"
    using fold_levels_batch [OF i', of B] by (simp add: add.commute funpow_add)
  have sl: "slice ?ys (i * 2 ^ k) (min (i * 2 ^ k + 2 ^ k) (length ?ys) - i * 2 ^ k) = slice ?ys (i * 2 ^ k) (2 ^ k)"
    by (simp add: min_def)
  show ?thesis
  proof (cases "src = 0")
    case True
    then have "those (map (\<lambda>j. map_option (\<lambda>c. blake B (hash_bytes c)) (read_chunk_bytes ix j))
        [i * 2 ^ k..<min (i * 2 ^ k + 2 ^ k) (length cs)]) = Some (slice ?ys (i * 2 ^ k) (2 ^ k))"
      using leaves_read [OF h, of "min (i * 2 ^ k + 2 ^ k) (length cs)" "i * 2 ^ k"] lt sl by simp
    then show ?thesis
      using True lt fold index_holdsD(2) [OF h] by (simp add: compute_subtree_hash_def)
  next
    case False
    with src have s: "src \<in> set (cp_levels (length cs))" by simp
    have "those (map (\<lambda>j. read_node (tree_file ix) (cp_offset (length cs) src + j * 32))
        [i * 2 ^ k..<min (i * 2 ^ k + 2 ^ k) (length ?ys)])
        = Some (map (\<lambda>j. ?ys ! j) [i * 2 ^ k..<min (i * 2 ^ k + 2 ^ k) (length ?ys)])"
      using index_holdsD(5) [OF h s] by (intro those_map_Some) simp
    also have "\<dots> = Some (slice ?ys (i * 2 ^ k) (2 ^ k))"
      using lt sl by (simp add: map_nth_upt del: length_lvl)
    finally show ?thesis
      using False lt fold index_holdsD(6) [OF h s] by (simp add: compute_subtree_hash_def)
  qed
qed

lemma sparse_sibling_eq:
  assumes h: "index_holds B ix cs" and l: "l < depth (length cs)" and i: "i < cnt (length cs) l"
  shows "sparse_sibling B ix l i = Some (sibling B (chunk_leaves B cs) l i)"
proof -
  let ?n = "length cs" and ?xs = "chunk_leaves B cs"
  have n0: "0 < ?n" using index_holdsD(1) [OF h] by simp
  let ?real = "if xor1 i < cnt ?n l then xor1 i else i"
  have real: "?real < cnt ?n l" "lvl B ?xs l ! ?real = sibling B ?xs l i" using i by (simp_all add: sibling_def)
  show ?thesis
  proof (cases "0 < l \<and> 6 dvd l")
    case True
    then have "l \<in> set (cp_levels ?n)" using l by (simp add: cp_levels_iff [OF n0])
    with True real index_holdsD(5,6) [OF h, of l] show ?thesis
      by (simp add: sparse_sibling_def Let_def split del: if_split)
  next
    case False
    define src where "src = l div 6 * 6"
    have "src = 0 \<or> 0 < src \<and> 6 dvd src \<and> src \<le> depth ?n" using l by (auto simp: src_def)
    then have s: "src = 0 \<or> src \<in> set (cp_levels ?n)" by (auto simp: cp_levels_iff [OF n0])
    have le: "src + (l - src) = l" by (simp add: src_def)
    have "count_at_level ix l = cnt ?n l" by (simp add: count_at_level_def cnt_def index_holdsD(2) [OF h])
    with False l real compute_subtree_hash_eq [OF h s, of ?real "l - src" , unfolded le] show ?thesis
      by (auto simp: sparse_sibling_def Let_def index_holdsD(4) [OF h] src_def split del: if_split)
  qed
qed

lemma read_chunk_bytes_cong [simp]:
  "read_chunk_bytes (ix\<lparr>sibling_memo := m\<rparr>) = read_chunk_bytes ix"
  "read_chunk_bytes (ix\<lparr>dense := d\<rparr>) = read_chunk_bytes ix"
  by (simp_all add: fun_eq_iff read_chunk_bytes_def)

lemma index_holds_memo:
  assumes "index_holds B ix cs" and "h = sibling B (chunk_leaves B cs) l (xor1 s)"
  shows "index_holds B (ix\<lparr>sibling_memo := (sibling_memo ix)((l, s) \<mapsto> h)\<rparr>) cs"
  using assms by (simp add: index_holds_def Let_def)

lemma path_loop_eq:
  assumes "l + m = depth (length cs)"
  shows "index_holds B ix cs \<Longrightarrow> dense ix = None \<Longrightarrow> i < cnt (length cs) l \<Longrightarrow>
    \<exists>ix'. path_loop B on mx [l..<depth (length cs)] i ix
        = Some (map (\<lambda>k. sibling B (chunk_leaves B cs) (l + k) (i div 2 ^ k)) [0..<m], ix')
      \<and> index_holds B ix' cs"
  using assms
proof (induction m arbitrary: l i ix)
  case (Suc m)
  let ?d = "depth (length cs)" and ?xs = "chunk_leaves B cs"
  let ?s = "sibling B ?xs l i"
  have l: "l < ?d" using Suc.prems(4) by simp
  have up: "[l..<?d] = l # [Suc l..<?d]" using l by (simp add: upt_rec)
  have i2: "i div 2 < cnt (length cs) (Suc l)" using Suc.prems(3) by (simp add: cnt_Suc)
  have list: "?s # map (\<lambda>k. sibling B ?xs (Suc l + k) (i div 2 div 2 ^ k)) [0..<m]
      = map (\<lambda>k. sibling B ?xs (l + k) (i div 2 ^ k)) [0..<Suc m]"
    by (simp add: upt_Suc_shift div_mult2_eq del: upt_Suc)
  have memo: "sibling_memo ix (l, xor1 i) = Some h \<Longrightarrow> h = ?s" for h
    using index_holdsD(7) [OF Suc.prems(1), of l "xor1 i" h] by simp
  note sp = sparse_sibling_eq [OF Suc.prems(1) l Suc.prems(3)]
  have rest: "\<exists>ix''. path_loop B on mx [Suc l..<?d] (i div 2) ix'
      = Some (map (\<lambda>k. sibling B ?xs (Suc l + k) (i div 2 div 2 ^ k)) [0..<m], ix'') \<and> index_holds B ix'' cs"
    if "index_holds B ix' cs" "dense ix' = None" for ix'
    using Suc.IH [OF that i2] Suc.prems(4) by simp
  let ?ix = "ix\<lparr>sibling_memo := (sibling_memo ix)((l, xor1 i) \<mapsto> ?s)\<rparr>"
  have upd: "index_holds B ?ix cs" "dense ?ix = None"
    using index_holds_memo [OF Suc.prems(1), of ?s l "xor1 i"] Suc.prems(2) by simp_all
  show ?case
    using rest [OF Suc.prems(1,2)] rest [OF upd] memo
    unfolding list [symmetric] up path_loop.simps
    by (auto simp: Let_def sp split: option.split)
qed simp

lemma dense_path_eq:
  "i < cnt (length xs) l \<Longrightarrow> dense_path (map (lvl B xs) [l..<l + m]) i
     = Some (map (\<lambda>k. sibling B xs (l + k) (i div 2 ^ k)) [0..<m])"
proof (induction m arbitrary: l i)
  case (Suc m)
  have up: "[l..<l + Suc m] = l # [Suc l..<Suc l + m]" by (simp add: upt_rec)
  have "i div 2 < cnt (length xs) (Suc l)" using Suc.prems by (simp add: cnt_Suc)
  from Suc.IH [OF this] Suc.prems show ?case
    unfolding up by (simp add: upt_Suc_shift sibling_def div_mult2_eq nth_opt_def del: upt_Suc)
qed simp

lemma dense_levels_eq: "xs \<noteq> [] \<Longrightarrow> dense_levels B xs = map (lvl B xs) [0..<Suc (depth (length xs))]"
proof (induction B xs rule: dense_levels.induct)
  case (1 B xs)
  show ?case
  proof (cases "1 < length xs")
    case True
    then have "pair_level B xs \<noteq> []" by (simp flip: length_greater_0_conv)
    with 1 True show ?thesis
      by (simp add: dense_levels.simps [of B xs] depth.simps [of "length xs"] upt_Suc_shift lvl_Suc'
          del: upt_Suc funpow.simps)
  next
    case False
    then show ?thesis by (simp add: dense_levels.simps [of B xs] depth.simps [of "length xs"])
  qed
qed

text \<open>Path queries answer with the dense proof and keep the index.\<close>

lemma merkle_path_dense:
  assumes h: "index_holds B ix cs" and i: "i < length cs"
  shows "\<exists>p ix'. merkle_path B on mx ix i = Some (p, ix') \<and> index_holds B ix' cs
    \<and> merkle_proof B (chunk_leaves B cs) i = Some p"
proof (cases "dense ix")
  case None
  with path_loop_eq [of 0 "depth (length cs)" cs B ix i on mx] h i show ?thesis
    by (auto simp: merkle_path_def index_holdsD(4) [OF h] merkle_proof_eq)
next
  case (Some levels)
  with h have "levels = map (lvl B (chunk_leaves B cs)) [0..<Suc (depth (length cs))]"
    by (simp add: index_holds_def Let_def del: upt_Suc)
  with Some h i dense_path_eq [of i "chunk_leaves B cs" 0 B "depth (length cs)"] show ?thesis
    by (simp add: merkle_path_def merkle_proof_eq)
qed

lemma build_dense_holds:
  assumes h: "index_holds B ix cs"
  shows "\<exists>ix'. build_dense B ix = Some ix' \<and> index_holds B ix' cs"
proof (cases "dense ix")
  case None
  have "those (map (\<lambda>i. map_option (\<lambda>c. blake B (hash_bytes c)) (read_chunk_bytes ix i)) [0..<length cs])
      = Some (chunk_leaves B cs)"
    using leaves_read [OF h, of "length cs" 0] by simp
  moreover have "dense_levels B (chunk_leaves B cs) = map (lvl B (chunk_leaves B cs)) [0..<Suc (depth (length cs))]"
    using dense_levels_eq [of "chunk_leaves B cs" B] index_holdsD(1) [OF h] by simp
  ultimately show ?thesis
    using h None index_holdsD(2) [OF h] by (simp add: build_dense_def index_holds_def Let_def del: upt_Suc)
qed (use h in \<open>simp add: build_dense_def\<close>)

lemma index_holds_root: "index_holds B ix cs \<Longrightarrow> merkle_root B (chunk_leaves B cs) = Some (r_t ix)"
  by (simp add: index_holds_def Let_def)

interpretation ix_store: chunk_store B "index_holds B" n_chunks read_chunk_bytes "merkle_path B on mx" r_t for B on mx
  by unfold_locales (rule index_holds_root index_holdsD(2,3) merkle_path_dense; assumption)+

subsection \<open>The built index holds the canonical chunks\<close>

lemma table_of_ge: "(a, fo) \<in> set (table_of start sps) \<Longrightarrow> start \<le> a"
proof (induction start sps rule: table_of.induct)
  case (2 start fo' full sps)
  then show ?case by (auto split: if_splits)
qed simp

lemma takeWhile_table_Nil: "off < start \<Longrightarrow> takeWhile (\<lambda>(s, _). s \<le> off) (table_of start sps) = []"
  using table_of_ge [of _ _ start sps] by (cases "table_of start sps") fastforce+

lemma table_lookup:
  assumes "\<forall>(fo, full) \<in> set sps. 0 < full \<longrightarrow> fo + full * 32 \<le> length file"
    and "start \<le> off" and "off < start + length (concat (map (span_chunks file) sps))"
  shows "\<exists>m s fo. length (takeWhile (\<lambda>(s, _). s \<le> off) (table_of start sps)) = Suc m
    \<and> table_of start sps ! m = (s, fo) \<and> fo + (off - s) * 32 + 32 \<le> length file
    \<and> concat (map (span_chunks file) sps) ! (off - start) = hash_of_bytes (slice file (fo + (off - s) * 32) 32)"
  using assms
proof (induction start sps rule: table_of.induct)
  case (2 start fo full sps)
  show ?case
  proof (cases "off < start + full")
    case True
    with 2 have "takeWhile (\<lambda>(s, _). s \<le> off) (table_of start ((fo, full) # sps)) = [(start, fo)]"
      by (simp add: takeWhile_table_Nil)
    moreover have "fo + (off - start) * 32 + 32 \<le> length file" using 2 True by auto
    ultimately show ?thesis using 2 True
      by (intro exI [of _ 0] exI [of _ start] exI [of _ fo]) (auto simp: nth_append span_chunks_def)
  next
    case False
    then obtain m s fo' where m: "length (takeWhile (\<lambda>(s, _). s \<le> off) (table_of (start + full) sps)) = Suc m"
      "table_of (start + full) sps ! m = (s, fo')" "fo' + (off - s) * 32 + 32 \<le> length file"
      "concat (map (span_chunks file) sps) ! (off - (start + full)) = hash_of_bytes (slice file (fo' + (off - s) * 32) 32)"
      using 2 by fastforce
    have c: "concat (map (span_chunks file) ((fo, full) # sps)) ! (off - start) = concat (map (span_chunks file) sps) ! (off - (start + full))"
      using False "2.prems"(2) by (auto simp: nth_append)
    show ?thesis
      using m False "2.prems"(2) unfolding c by (cases "0 < full") (auto intro!: exI [of _ "Suc m"])
  qed
qed simp

text \<open>The stages of the build, for a header whose tensors lie inside the file.\<close>

lemma build_tensors_all:
  assumes "tensors_in_file file meta"
  shows "build_tensors B file meta (sorted_names meta) \<lparr>bs_table = [], bs_n_chunks = 0, bs_batch = [], bs_out = []\<rparr>
    = Some (state_after B (table_of 0 (spans meta)) (chunk_leaves B (canonical_chunks file meta)))"
proof -
  have "\<forall>name \<in> set (sorted_names meta). map_of (gguf_tensors meta) name \<noteq> None"
    by (auto simp: sorted_names_def map_of_eq_None_iff)
  from build_tensors_state [OF this, of "file" B "[]" "[]"] assms show ?thesis
    by (simp add: tensors_in_file_def spans_def canonical_chunks_def state_after_def)
qed

lemma finalize_upper:
  assumes n: "32 < length xs"
  shows "finalize_checkpoint_upper B (level_bytes (lvl B xs 6)) (length xs)
    = Some (store B xs (cp_levels (length xs)), map (cp_at (length xs)) (cp_levels (length xs)),
        depth (length xs) + 1, lvl B xs (depth (length xs)) ! 0)"
proof -
  let ?n = "length xs" and ?d = "depth (length xs)"
  have n0: "0 < ?n" using n by linarith
  have d: "6 \<le> ?d" using depth_less_iff [OF n0, of 5] n by simp
  have up: "[0..<Suc ?d] = [0..<6] @ 6 # [7..<Suc ?d]"
    using d upt_add_eq_append [of 0 6 "Suc ?d - 6"] by (simp add: upt_rec [of 6] del: upt_Suc)
  have "\<not> is_cp ?n l" if "l < 6" for l
    using that d cnt_before_depth [of l ?n] by (auto simp: is_cp_def dest!: dvd_imp_le)
  then have "filter (is_cp ?n) [0..<6] = []" by (simp add: filter_empty_conv)
  then obtain post where cps: "cp_levels ?n = 6 # post"
    unfolding cp_levels_def up by (simp add: is_cp_def)
  have last: "last (cp_levels ?n) = ?d" using cnt_depth [OF n0] by (simp add: cp_levels_def is_cp_def)
  then obtain pre where split: "cp_levels ?n = pre @ [?d]"
    using cps by (metis append_butlast_last_id list.distinct(1))
  have fin: "finalize_loop B (level_bytes (lvl B xs 6)) (cp_at ?n 6) (map (cp_at ?n) post) = Some (store B xs (cp_levels ?n))"
    using finalize_loop_eq [of xs "[]" 6 post B] cps by (simp del: funpow.simps)
  have root: "read_node (store B xs (cp_levels ?n)) (cp_offset ?n ?d) = Some (lvl B xs ?d ! 0)"
    using read_node_store [OF split, of 0 B "[]"] n0 split by (simp add: cnt_depth del: funpow.simps)
  have "nth_opt (map (cp_at ?n) (cp_levels ?n)) 0 = Some (cp_at ?n 6)"
    and "drop 1 (map (cp_at ?n) (cp_levels ?n)) = map (cp_at ?n) post"
    and "sl_offset (last (map (cp_at ?n) (cp_levels ?n))) = cp_offset ?n ?d"
    using cps last by (auto simp: last_map split: if_splits)
  then show ?thesis
    unfolding finalize_checkpoint_upper_def compute_checkpoint_offsets_eq [OF n0]
    using fin root by (simp del: funpow.simps nth_opt_Some)
qed

lemma built_chunk:
  assumes "tensors_in_file file meta" and "chunk_table ix = table_of 0 (spans meta)" and "mmap ix = file"
    and "i < length (canonical_chunks file meta)"
  shows "read_chunk_bytes ix i = Some (canonical_chunks file meta ! i)"
  using table_lookup [of "spans meta" "file" 0 i] assms
  by (auto simp: tensors_in_file_def canonical_chunks_def read_chunk_bytes_def get_range_def)

lemma build_index_eq:
  assumes t: "tensors_in_file file meta" and ne: "canonical_chunks file meta \<noteq> []"
  shows "build_index B file meta
    = map_option (\<lambda>(tree, cps, tot, root). \<lparr>n_chunks = length (canonical_chunks file meta), r_t = root,
          chunk_table = table_of 0 (spans meta), mmap = file, tree_file = tree, checkpoints = cps,
          total_levels = tot, dense = None, sibling_memo = Map.empty\<rparr>)
        (finalize_checkpoint_upper B (level_bytes (lvl B (chunk_leaves B (canonical_chunks file meta)) 6))
          (length (canonical_chunks file meta)))"
proof -
  let ?xs = "chunk_leaves B (canonical_chunks file meta)"
  have st: "bs_n_chunks (state_after B tab ?xs) = length (canonical_chunks file meta)"
    "bs_table (state_after B tab ?xs) = tab" for tab
    by (simp_all add: state_after_def)
  have n: "length (canonical_chunks file meta) \<noteq> 0" using ne by simp
  show ?thesis
    unfolding build_index_def build_tensors_all [OF t] bind.bind_lunit streamed_level_6 st if_not_P [OF n]
    by (cases "finalize_checkpoint_upper B (level_bytes (lvl B ?xs 6)) (length (canonical_chunks file meta))") auto
qed

lemma build_index_holds:
  assumes t: "tensors_in_file file meta" and n: "32 < length (canonical_chunks file meta)"
  shows "\<exists>ix. build_index B file meta = Some ix \<and> index_holds B ix (canonical_chunks file meta)"
proof -
  let ?cs = "canonical_chunks file meta"
  let ?xs = "chunk_leaves B ?cs" and ?n = "length ?cs"
  have ne: "?cs \<noteq> []" "?xs \<noteq> []" using n by auto
  define ix where "ix = \<lparr>n_chunks = ?n, r_t = lvl B ?xs (depth ?n) ! 0, chunk_table = table_of 0 (spans meta),
    mmap = file, tree_file = store B ?xs (cp_levels ?n), checkpoints = map (cp_at ?n) (cp_levels ?n),
    total_levels = depth ?n + 1, dense = None, sibling_memo = Map.empty\<rparr>"
  have "finalize_checkpoint_upper B (level_bytes (lvl B ?xs 6)) ?n
      = Some (store B ?xs (cp_levels ?n), map (cp_at ?n) (cp_levels ?n), depth ?n + 1, lvl B ?xs (depth ?n) ! 0)"
    using finalize_upper [of ?xs B] n by (simp del: funpow.simps)
  then have "build_index B file meta = Some ix" by (simp add: build_index_eq [OF t ne(1)] ix_def)
  moreover have "merkle_root B ?xs = Some (lvl B ?xs (depth ?n) ! 0)" using merkle_root_eq [OF ne(2), of B] by simp
  moreover have "read_chunk_bytes ix i = Some (?cs ! i)" if "i < ?n" for i
    using built_chunk [OF t _ _ that] by (simp add: ix_def)
  moreover have "read_node (store B ?xs (cp_levels ?n)) (cp_offset ?n l + i * 32) = Some (lvl B ?xs l ! i)"
    if "l \<in> set (cp_levels ?n)" "i < cnt ?n l" for l i
    using that read_node_store [of ?xs _ l _ i B] by (auto dest!: split_list)
  ultimately show ?thesis using ne by (simp add: index_holds_def Let_def ix_def)
qed

text \<open>At most 32 chunks: the only checkpoint is the root, but the file holds level 6.\<close>

lemma lvl_above_root:
  assumes "cnt (length xs) l = 1"
  shows "lvl B xs (l + k) = [((\<lambda>h. pom_hash_pair B h h) ^^ k) (lvl B xs l ! 0)]"
proof (induction k)
  case 0
  from assms have "length (lvl B xs l) = 1" by simp
  then show ?case by (auto simp: length_Suc_conv simp del: length_lvl)
next
  case (Suc k)
  then show ?case by (simp add: pair_level_eq)
qed

lemma finalize_upper_small:
  assumes "0 < length xs" and "length xs \<le> 32"
  shows "\<exists>cps. finalize_checkpoint_upper B (level_bytes (lvl B xs 6)) (length xs)
    = Some (level_bytes (lvl B xs 6), cps, depth (length xs) + 1, lvl B xs 6 ! 0)"
proof -
  let ?n = "length xs" and ?d = "depth (length xs)"
  have d: "?d < 6" using depth_less_iff [OF assms(1), of 5] assms(2) by simp
  have none: "\<not> is_cp ?n l" if "l < ?d" for l
    using that d cnt_before_depth [of l ?n] by (auto simp: is_cp_def dest!: dvd_imp_le)
  then have f: "filter (is_cp ?n) [0..<?d] = []" by (simp add: filter_empty_conv)
  then have cps: "cp_levels ?n = [?d]" using cnt_depth [OF assms(1)] by (simp add: cp_levels_def is_cp_def)
  have "read_node (level_bytes (lvl B xs 6)) 0 = Some (lvl B xs 6 ! 0)"
    using read_node_level [of "[]" 0 0 "lvl B xs 6" "[]"] assms(1) by (simp del: funpow.simps)
  then show ?thesis
    by (simp add: finalize_checkpoint_upper_def compute_checkpoint_offsets_eq [OF assms(1)] cps cp_offset_def f
        nth_opt_def del: funpow.simps)
qed

text \<open>A sequence of path queries against one index, whose memo carries over.\<close>

fun run_paths :: "blake3 \<Rightarrow> bool \<Rightarrow> nat \<Rightarrow> weight_index \<Rightarrow> nat list \<Rightarrow> hash list list option" where
  "run_paths B on mx ix [] = Some []"
| "run_paths B on mx ix (off # offs) =
     do { (p, ix) \<leftarrow> merkle_path B on mx ix off; ps \<leftarrow> run_paths B on mx ix offs; Some (p # ps) }"

lemma run_paths_ok:
  assumes "index_holds B ix cs" and "\<forall>off \<in> set offs. off < length cs"
  shows "\<exists>ps. run_paths B on mx ix offs = Some ps
    \<and> list_all2 (\<lambda>off p. merkle_proof B (chunk_leaves B cs) off = Some p) offs ps"
  using assms
proof (induction offs arbitrary: ix)
  case (Cons off offs)
  obtain p ix' where "merkle_path B on mx ix off = Some (p, ix')" "index_holds B ix' cs"
    "merkle_proof B (chunk_leaves B cs) off = Some p"
    using merkle_path_dense [OF Cons.prems(1), of off on mx] Cons.prems(2) by auto
  with Cons.IH [of ix'] Cons.prems(2) show ?case by auto
qed simp

subsection \<open>Properties\<close>

text \<open>C10. The sparse weight index is the dense tree: a model of more than 32 chunks whose tensors lie
  inside the file builds, the root \<open>R_T\<close> is the dense Merkle root of its canonical chunks, and every
  chunk is read back.\<close>

theorem weight_index_root:
  assumes "tensors_in_file file meta" and "32 < length (canonical_chunks file meta)"
  shows "\<exists>ix. build_index B file meta = Some ix
    \<and> merkle_root B (chunk_leaves B (canonical_chunks file meta)) = Some (r_t ix)
    \<and> n_chunks ix = length (canonical_chunks file meta)
    \<and> (\<forall>i < n_chunks ix. read_chunk_bytes ix i = Some (canonical_chunks file meta ! i))"
  using build_index_holds [OF assms, of B] by (auto simp: index_holds_def Let_def)

text \<open>C11. Paths of the sparse index: whatever the order and repetition of the queries, with or without the
  sibling memo and the dense cache, every answer is the path the dense tree gives.\<close>

theorem weight_index_paths:
  assumes "tensors_in_file file meta" and "32 < length (canonical_chunks file meta)"
    and "build_index B file meta = Some ix" and "ix' = ix \<or> build_dense B ix = Some ix'"
    and "\<forall>off \<in> set offs. off < length (canonical_chunks file meta)"
  shows "\<exists>ps. run_paths B memo_on memo_max ix' offs = Some ps
    \<and> list_all2 (\<lambda>off p. merkle_proof B (chunk_leaves B (canonical_chunks file meta)) off = Some p) offs ps"
proof -
  have "index_holds B ix (canonical_chunks file meta)" using build_index_holds [OF assms(1,2), of B] assms(3) by auto
  then have "index_holds B ix' (canonical_chunks file meta)" using build_dense_holds [of B ix] assms(4) by auto
  with assms(5) show ?thesis by (intro run_paths_ok)
qed

text \<open>Small models: with at most 32 chunks the build stores its level-6 node as \<open>R_T\<close>, which is the dense
  root hashed with itself \<open>6 - depth\<close> more times, not the dense root.\<close>

theorem weight_index_small_root:
  assumes "tensors_in_file file meta" and "0 < length (canonical_chunks file meta)"
    and "length (canonical_chunks file meta) \<le> 32"
  shows "\<exists>ix root. build_index B file meta = Some ix
    \<and> merkle_root B (chunk_leaves B (canonical_chunks file meta)) = Some root
    \<and> r_t ix = ((\<lambda>h. pom_hash_pair B h h) ^^ (6 - depth (length (canonical_chunks file meta)))) root"
proof -
  let ?xs = "chunk_leaves B (canonical_chunks file meta)"
  let ?d = "depth (length ?xs)"
  have xs: "0 < length ?xs" "length ?xs \<le> 32" using assms(2,3) by simp_all
  then have "?d < 6" using depth_less_iff [OF xs(1), of 5] by simp
  then have "lvl B ?xs 6 ! 0 = ((\<lambda>h. pom_hash_pair B h h) ^^ (6 - ?d)) (lvl B ?xs ?d ! 0)"
    using lvl_above_root [where xs = ?xs and l = ?d and B = B and k = "6 - ?d"] cnt_depth [OF xs(1)] by (simp del: funpow.simps)
  moreover have "merkle_root B ?xs = Some (lvl B ?xs ?d ! 0)" using xs by (intro merkle_root_eq) auto
  moreover have "canonical_chunks file meta \<noteq> []" using assms(2) by auto
  from build_index_eq [OF assms(1) this, of B] finalize_upper_small [OF xs, of B]
  obtain ix where "build_index B file meta = Some ix" "r_t ix = lvl B ?xs 6 ! 0" by (auto simp del: funpow.simps)
  ultimately show ?thesis by simp
qed

text \<open>A model of one tensor, used to exercise the properties on concrete data.\<close>

definition toy_gguf :: bytes where
  "toy_gguf = replicate 1100 7"

definition toy_meta :: "nat \<Rightarrow> gguf_meta" where
  "toy_meta k = \<lparr>gguf_tensors = [([97], \<lparr>t_offset = 4, t_nbytes = k * 32 + 5\<rparr>)], tensor_data_offset = 2\<rparr>"

lemma toy_model:
  assumes "k \<le> 34"
  shows "tensors_in_file toy_gguf (toy_meta k)" and "length (canonical_chunks toy_gguf (toy_meta k)) = k"
  using assms by (simp_all add: tensors_in_file_def canonical_chunks_def spans_def span_of_def sorted_names_def
      toy_meta_def toy_gguf_def)

theorem weight_index_root_witness:
  "\<exists>ix. build_index toy_blake3 toy_gguf (toy_meta 34) = Some ix
    \<and> merkle_root toy_blake3 (chunk_leaves toy_blake3 (canonical_chunks toy_gguf (toy_meta 34))) = Some (r_t ix)
    \<and> n_chunks ix = 34"
  using weight_index_root [of toy_gguf "toy_meta 34" toy_blake3] toy_model [of 34] by auto

theorem weight_index_paths_witness:
  "\<exists>ix ps. build_index toy_blake3 toy_gguf (toy_meta 34) = Some ix
    \<and> run_paths toy_blake3 True 8 ix [33, 0, 33] = Some ps
    \<and> list_all2 (\<lambda>off p. merkle_proof toy_blake3 (chunk_leaves toy_blake3 (canonical_chunks toy_gguf (toy_meta 34))) off = Some p)
        [33, 0, 33] ps"
proof -
  obtain ix where ix: "build_index toy_blake3 toy_gguf (toy_meta 34) = Some ix"
    using build_index_holds [of toy_gguf "toy_meta 34" toy_blake3] toy_model [of 34] by auto
  with weight_index_paths [of toy_gguf "toy_meta 34" toy_blake3 ix ix "[33, 0, 33]" True 8] toy_model [of 34]
  show ?thesis by auto
qed

theorem weight_index_small_root_witness:
  "\<exists>ix root. build_index toy_blake3 toy_gguf (toy_meta 32) = Some ix
    \<and> merkle_root toy_blake3 (chunk_leaves toy_blake3 (canonical_chunks toy_gguf (toy_meta 32))) = Some root
    \<and> r_t ix = pom_hash_pair toy_blake3 root root"
proof -
  have d: "depth 32 = 5" using depth_pow2 [of 5] by simp
  show ?thesis
    using weight_index_small_root [of toy_gguf "toy_meta 32" toy_blake3] toy_model [of 32] by (simp add: d)
qed

end
