(* ===== verification/Pom_Cache.thy ===== *)
theory Pom_Cache
  imports Pom_Index
begin

section \<open>The cached weight index\<close>

text \<open>
  Model of the restart path of \<open>src/pom.rs\<close>: the sidecar metadata, its validation,
  \<open>open_existing_tree\<close> and \<open>build_from_gguf\<close>. The directory of the model is the pair of the
  tree file and the parsed sidecar, either of which may be missing; a sidecar that does not parse
  counts as missing. SHA-256 is the parameter \<open>sha\<close>. On an error during a build the half-written
  tree file is not modelled: the next start rejects or rewrites it.
\<close>

record cache_metadata =
  format_version :: nat
  layout_version :: nat
  cm_model_id :: hash
  cm_n_chunks :: nat
  chunk_size :: nat
  checkpoint_interval :: nat
  gguf_size :: nat
  tree_size :: nat
  tree_sha256 :: hash
  cm_root :: hash

datatype pom_error = NoChunks | LegacyTree | TreeSizeMismatch | TreeReadError | BadMetadata
  | MetadataMismatch | TreeLengthMismatch | TreeDigestMismatch

abbreviation "CACHE_FORMAT_VERSION \<equiv> 1 :: nat"
abbreviation "CANONICAL_LAYOUT_VERSION \<equiv> 1 :: nat"

definition validate_cache_metadata ::
    "(bytes \<Rightarrow> hash) \<Rightarrow> cache_metadata \<Rightarrow> bytes \<Rightarrow> hash \<Rightarrow> nat \<Rightarrow> nat \<Rightarrow> hash \<Rightarrow> pom_error + unit" where
  "validate_cache_metadata sha metadata tree expected_model_id n gsize root =
     (if format_version metadata \<noteq> CACHE_FORMAT_VERSION \<or> layout_version metadata \<noteq> CANONICAL_LAYOUT_VERSION
         \<or> cm_model_id metadata \<noteq> expected_model_id \<or> cm_n_chunks metadata \<noteq> n \<or> chunk_size metadata \<noteq> 32
         \<or> checkpoint_interval metadata \<noteq> CHECKPOINT_INTERVAL \<or> gguf_size metadata \<noteq> gsize \<or> cm_root metadata \<noteq> root
      then Inl MetadataMismatch
      else if tree_size metadata \<noteq> length tree then Inl TreeLengthMismatch
      else if tree_sha256 metadata \<noteq> sha tree then Inl TreeDigestMismatch
      else Inr ())"

text \<open>Chunk count and chunk table from the header alone.\<close>

fun header_layout :: "gguf_meta \<Rightarrow> bytes list \<Rightarrow> nat \<Rightarrow> (nat \<times> nat) list \<Rightarrow> (nat \<times> (nat \<times> nat) list) option" where
  "header_layout meta [] n table = Some (n, table)"
| "header_layout meta (name # names) n table =
     do { t \<leftarrow> map_of (gguf_tensors meta) name;
          let file_off = tensor_data_offset meta + t_offset t;
          let full = t_nbytes t div 32;
          header_layout meta names (n + full) (if 0 < full then table @ [(n, file_off)] else table) }"

definition open_existing_tree ::
    "(bytes \<Rightarrow> hash) \<Rightarrow> bytes \<Rightarrow> gguf_meta \<Rightarrow> bytes \<Rightarrow> cache_metadata option \<Rightarrow> hash \<Rightarrow> pom_error + weight_index" where
  "open_existing_tree sha gguf meta tree sidecar expected_model_id =
     (case header_layout meta (sorted_names meta) 0 [] of
        None \<Rightarrow> Inl NoChunks
      | Some (n, table) \<Rightarrow>
          if n = 0 then Inl NoChunks
          else (case compute_checkpoint_offsets n of
              None \<Rightarrow> Inl NoChunks
            | Some (cps, tot) \<Rightarrow>
                let expected_size = (if cps = [] then 0 else sl_offset (last cps) + 32);
                    actual_size = length tree
                in if expected_size + expected_size < actual_size then Inl LegacyTree
                   else if actual_size \<noteq> expected_size then Inl TreeSizeMismatch
                   else (case read_node tree (sl_offset (last cps)) of
                       None \<Rightarrow> Inl TreeReadError
                     | Some root \<Rightarrow>
                         (case sidecar of
                            None \<Rightarrow> Inl BadMetadata
                          | Some md \<Rightarrow>
                              (case validate_cache_metadata sha md tree expected_model_id n (length gguf) root of
                                 Inl e \<Rightarrow> Inl e
                               | Inr _ \<Rightarrow> Inr \<lparr>n_chunks = n, r_t = root, chunk_table = table, mmap = gguf, tree_file = tree,
                                   checkpoints = cps, total_levels = tot, dense = None, sibling_memo = Map.empty\<rparr>)))))"

definition write_cache_metadata :: "(bytes \<Rightarrow> hash) \<Rightarrow> bytes \<Rightarrow> hash \<Rightarrow> weight_index \<Rightarrow> cache_metadata" where
  "write_cache_metadata sha gguf model_id ix =
     \<lparr>format_version = CACHE_FORMAT_VERSION, layout_version = CANONICAL_LAYOUT_VERSION, cm_model_id = model_id,
      cm_n_chunks = n_chunks ix, chunk_size = 32, checkpoint_interval = CHECKPOINT_INTERVAL,
      gguf_size = length gguf, tree_size = length (tree_file ix), tree_sha256 = sha (tree_file ix), cm_root = r_t ix\<rparr>"

record model_dir =
  tree_bin :: "bytes option"
  tree_json :: "cache_metadata option"

definition build_from_gguf ::
    "(bytes \<Rightarrow> hash) \<Rightarrow> blake3 \<Rightarrow> bytes \<Rightarrow> gguf_meta \<Rightarrow> hash \<Rightarrow> model_dir \<Rightarrow> (model_dir \<times> weight_index) option" where
  "build_from_gguf sha B gguf meta model_id dir =
     (case (case tree_bin dir of None \<Rightarrow> None
            | Some tree \<Rightarrow> (case open_existing_tree sha gguf meta tree (tree_json dir) model_id of
                             Inr ix \<Rightarrow> Some ix | Inl _ \<Rightarrow> None)) of
        Some ix \<Rightarrow> Some (dir, ix)
      | None \<Rightarrow>
          do { ix \<leftarrow> build_index B gguf meta;
               Some (\<lparr>tree_bin = Some (tree_file ix), tree_json = Some (write_cache_metadata sha gguf model_id ix)\<rparr>, ix) })"

subsection \<open>A restart finds the built index\<close>

lemma header_layout_eq:
  "\<forall>name \<in> set names. map_of (gguf_tensors meta) name \<noteq> None \<Longrightarrow>
   header_layout meta names n table = Some (n + sum_list (map (snd \<circ> span_of meta) names), table @ table_of n (map (span_of meta) names))"
proof (induction names arbitrary: n table)
  case (Cons name names)
  then obtain t where "map_of (gguf_tensors meta) name = Some t" by auto
  with Cons show ?case by (simp add: span_of_def Let_def)
qed simp

lemma length_canonical_chunks: "length (canonical_chunks file meta) = sum_list (map (snd \<circ> span_of meta) (sorted_names meta))"
  by (simp add: canonical_chunks_def spans_def length_concat comp_def)

lemma header_layout_sorted:
  "header_layout meta (sorted_names meta) 0 [] = Some (length (canonical_chunks file meta), table_of 0 (spans meta))"
proof -
  have "\<forall>name \<in> set (sorted_names meta). map_of (gguf_tensors meta) name \<noteq> None"
    by (auto simp: sorted_names_def map_of_eq_None_iff)
  then show ?thesis by (simp add: header_layout_eq length_canonical_chunks spans_def)
qed

text \<open>Shape of the index a build returns.\<close>

lemma built_shape:
  assumes t: "tensors_in_file file meta" and b: "build_index B file meta = Some ix"
    and ne: "canonical_chunks file meta \<noteq> []"
  defines "n \<equiv> length (canonical_chunks file meta)"
  shows "ix = \<lparr>n_chunks = n, r_t = r_t ix, chunk_table = table_of 0 (spans meta), mmap = file, tree_file = tree_file ix,
      checkpoints = map (cp_at n) (cp_levels n), total_levels = depth n + 1, dense = None, sibling_memo = Map.empty\<rparr>"
    and "length (tree_file ix) = cp_offset n (last (cp_levels n)) + 32"
    and "read_node (tree_file ix) (cp_offset n (last (cp_levels n))) = Some (r_t ix)"
proof -
  let ?xs = "chunk_leaves B (canonical_chunks file meta)"
  have n0: "0 < n" "length ?xs = n" "?xs \<noteq> []" using ne by (simp_all add: n_def)
  obtain tree cps tot root where f: "finalize_checkpoint_upper B (level_bytes (lvl B ?xs 6)) n = Some (tree, cps, tot, root)"
    and ix: "ix = \<lparr>n_chunks = n, r_t = root, chunk_table = table_of 0 (spans meta), mmap = file, tree_file = tree,
      checkpoints = cps, total_levels = tot, dense = None, sibling_memo = Map.empty\<rparr>"
    using b unfolding build_index_eq [OF t ne] n_def by (auto simp del: funpow.simps)
  have lv: "cp_levels n \<noteq> []" "last (cp_levels n) = depth n" using cnt_depth [OF n0(1)] by (simp_all add: cp_levels_def is_cp_def)
  have fin: "cps = map (cp_at n) (cp_levels n)" "tot = depth n + 1"
    "read_node tree (cp_offset n (depth n)) = Some root"
    using f lv unfolding finalize_checkpoint_upper_def compute_checkpoint_offsets_eq [OF n0(1)]
    by (auto simp: last_map simp del: funpow.simps split: Option.bind_splits)
  show "ix = \<lparr>n_chunks = n, r_t = r_t ix, chunk_table = table_of 0 (spans meta), mmap = file, tree_file = tree_file ix,
      checkpoints = map (cp_at n) (cp_levels n), total_levels = depth n + 1, dense = None, sibling_memo = Map.empty\<rparr>"
    and "read_node (tree_file ix) (cp_offset n (last (cp_levels n))) = Some (r_t ix)"
    by (simp_all add: ix fin lv)
  show "length (tree_file ix) = cp_offset n (last (cp_levels n)) + 32"
  proof (cases "32 < n")
    case True
    then have "tree = store B ?xs (cp_levels n)"
      using f finalize_upper [of ?xs B] n0 by (simp del: funpow.simps)
    moreover have "cp_levels n = filter (is_cp n) [0..<depth n] @ [depth n]"
      using cnt_depth [OF n0(1)] by (simp add: cp_levels_def is_cp_def)
    ultimately show ?thesis using cnt_depth [OF n0(1)] n0 by (simp add: ix lv length_store cp_offset_def)
  next
    case False
    then have "tree = level_bytes (lvl B ?xs 6)"
      using f finalize_upper_small [of ?xs B] n0 by (auto simp del: funpow.simps)
    moreover have "depth n \<le> 5" using False depth_less_iff [OF n0(1), of 5] by simp
    moreover have "\<not> is_cp n l" if "l < depth n" for l
      using that calculation(2) cnt_before_depth [of l n] by (auto simp: is_cp_def dest!: dvd_imp_le)
    moreover have "cnt n 6 = 1" using False n0(1) unfolding cnt_6 by simp
    ultimately show ?thesis using n0 by (simp add: ix lv cp_offset_def filter_empty_conv [THEN iffD2] del: funpow.simps)
  qed
qed

lemma reopen_built:
  assumes "tensors_in_file file meta" and "build_index B file meta = Some ix" and "canonical_chunks file meta \<noteq> []"
  shows "open_existing_tree sha file meta (tree_file ix) (Some (write_cache_metadata sha file model_id ix)) model_id = Inr ix"
proof -
  let ?n = "length (canonical_chunks file meta)"
  have n0: "0 < ?n" using assms(3) by simp
  note sh = built_shape [OF assms]
  have lv: "cp_levels ?n \<noteq> []" using cnt_depth [OF n0] by (simp add: cp_levels_def is_cp_def)
  have "n_chunks ix = ?n" by (subst sh(1)) simp
  then show ?thesis
    unfolding open_existing_tree_def header_layout_sorted [of meta "file"]
    using n0 lv sh(2,3) sh(1) [symmetric]
    by (simp add: compute_checkpoint_offsets_eq last_map validate_cache_metadata_def write_cache_metadata_def)
qed

text \<open>C31. A restart reuses exactly what was built: after a build, \<open>build_from_gguf\<close> on the directory it left
  opens the cache, leaves the directory as it is and returns the same index.\<close>

theorem restart_reuses_index:
  assumes "tensors_in_file gguf meta" and "canonical_chunks gguf meta \<noteq> []"
    and "build_from_gguf sha B gguf meta model_id \<lparr>tree_bin = None, tree_json = sidecar\<rparr> = Some (dir, ix)"
  shows "build_from_gguf sha B gguf meta model_id dir = Some (dir, ix)"
  using assms(3) reopen_built [OF assms(1) _ assms(2), of B _ sha model_id]
  by (auto simp: build_from_gguf_def split: Option.bind_splits)

text \<open>A tampered or stale tree is not trusted: when the sidecar of a build is kept and another tree file
  is put in its place, it is opened only if it has the same SHA-256 digest and then serves the same
  chunks under the same root; otherwise the tree is rebuilt.\<close>

theorem cache_digest_binds:
  assumes "tensors_in_file gguf meta" and "canonical_chunks gguf meta \<noteq> []"
    and "build_index B gguf meta = Some ix"
    and "dir = \<lparr>tree_bin = Some tree, tree_json = Some (write_cache_metadata sha gguf model_id ix)\<rparr>"
  shows "if sha tree = sha (tree_file ix) \<and> length tree = length (tree_file ix)
             \<and> read_node tree (sl_offset (last (checkpoints ix))) = Some (r_t ix)
         then build_from_gguf sha B gguf meta model_id dir = Some (dir, ix\<lparr>tree_file := tree\<rparr>)
         else build_from_gguf sha B gguf meta model_id dir
           = Some (\<lparr>tree_bin = Some (tree_file ix), tree_json = Some (write_cache_metadata sha gguf model_id ix)\<rparr>, ix)"
proof -
  let ?n = "length (canonical_chunks gguf meta)" and ?md = "write_cache_metadata sha gguf model_id ix"
  have n0: "0 < ?n" using assms(2) by simp
  note sh = built_shape [OF assms(1,3,2)]
  have lv: "cp_levels ?n \<noteq> []" using cnt_depth [OF n0] by (simp add: cp_levels_def is_cp_def)
  have cps: "sl_offset (last (checkpoints ix)) = cp_offset ?n (last (cp_levels ?n))" and nc: "n_chunks ix = ?n"
    by (subst sh(1), simp add: lv last_map)+
  have upd: "\<lparr>n_chunks = ?n, r_t = r_t ix, chunk_table = table_of 0 (spans meta), mmap = gguf, tree_file = tree,
      checkpoints = map (cp_at ?n) (cp_levels ?n), total_levels = depth ?n + 1, dense = None, sibling_memo = Map.empty\<rparr>
      = ix\<lparr>tree_file := tree\<rparr>" by (subst (2) sh(1)) simp
  let ?ok = "sha tree = sha (tree_file ix) \<and> length tree = length (tree_file ix)
    \<and> read_node tree (sl_offset (last (checkpoints ix))) = Some (r_t ix)"
  have "open_existing_tree sha gguf meta tree (Some ?md) model_id = Inr (ix\<lparr>tree_file := tree\<rparr>)" if ?ok
    using that n0 lv sh(2) cps nc upd unfolding open_existing_tree_def header_layout_sorted [of meta gguf]
    by (simp add: compute_checkpoint_offsets_eq last_map validate_cache_metadata_def write_cache_metadata_def)
  moreover have "\<exists>e. open_existing_tree sha gguf meta tree (Some ?md) model_id = Inl e" if "\<not> ?ok"
    using that n0 lv sh(2) cps nc unfolding open_existing_tree_def header_layout_sorted [of meta gguf]
    by (auto simp: compute_checkpoint_offsets_eq last_map validate_cache_metadata_def write_cache_metadata_def Let_def
        split: option.split)
  ultimately show ?thesis by (auto simp: build_from_gguf_def assms(3,4))
qed

theorem restart_reuses_index_witness:
  "\<exists>dir ix. build_from_gguf (b3_hash toy_blake3) toy_blake3 toy_gguf (toy_meta 34) 5 \<lparr>tree_bin = None, tree_json = None\<rparr> = Some (dir, ix)
    \<and> build_from_gguf (b3_hash toy_blake3) toy_blake3 toy_gguf (toy_meta 34) 5 dir = Some (dir, ix)"
proof -
  obtain ix where "build_index toy_blake3 toy_gguf (toy_meta 34) = Some ix"
    using build_index_holds [of toy_gguf "toy_meta 34" toy_blake3] toy_model [of 34] by auto
  then obtain dir where d: "build_from_gguf (b3_hash toy_blake3) toy_blake3 toy_gguf (toy_meta 34) 5
      \<lparr>tree_bin = None, tree_json = None\<rparr> = Some (dir, ix)" by (simp add: build_from_gguf_def)
  have "canonical_chunks toy_gguf (toy_meta 34) \<noteq> []" using toy_model(2) [of 34] by auto
  from restart_reuses_index [OF toy_model(1) this d] d show ?thesis by auto
qed

theorem cache_digest_binds_witness:
  "\<exists>ix. build_index toy_blake3 toy_gguf (toy_meta 34) = Some ix
    \<and> build_from_gguf (b3_hash toy_blake3) toy_blake3 toy_gguf (toy_meta 34) 5
        \<lparr>tree_bin = Some [], tree_json = Some (write_cache_metadata (b3_hash toy_blake3) toy_gguf 5 ix)\<rparr>
      = Some (\<lparr>tree_bin = Some (tree_file ix), tree_json = Some (write_cache_metadata (b3_hash toy_blake3) toy_gguf 5 ix)\<rparr>, ix)"
proof -
  obtain ix where b: "build_index toy_blake3 toy_gguf (toy_meta 34) = Some ix"
    using build_index_holds [of toy_gguf "toy_meta 34" toy_blake3] toy_model [of 34] by auto
  have ne: "canonical_chunks toy_gguf (toy_meta 34) \<noteq> []" using toy_model(2) [of 34] by auto
  have "length (tree_file ix) \<noteq> 0" using built_shape(2) [OF toy_model(1) b ne] by simp
  with cache_digest_binds [OF toy_model(1) ne b refl, of "b3_hash toy_blake3" "[]" 5] b show ?thesis by auto
qed

end
