(* ===== verification/Pom_Walk.thy ===== *)
theory Pom_Walk
  imports Pom_Index
begin

section \<open>The possession walk: primitives, seeds and folds\<close>

text \<open>
  Model of the byte-exact primitives of \<open>src/pom.rs\<close>: \<open>mix64\<close>, the walk transitions, the chunk
  and word views, the little-endian comparison with the target, the block seeds of every era, the
  pow fold and the Fiat-Shamir challenges. All values keep their 64-bit width. \<open>KeccakF1600\<close>
  (assembly or a crate) is a parameter.
\<close>

unbundle bit_operations_syntax

subsection \<open>Mixing\<close>

definition mix64 :: "u64 \<Rightarrow> u64" where
  "mix64 x =
     (let x = x XOR drop_bit 30 x;
          x = x * 0xbf58476d1ce4e5b9;
          x = x XOR drop_bit 27 x;
          x = x * 0x94d049bb133111eb
      in x XOR drop_bit 31 x)"

definition SEED_SALT :: u64 where
  "SEED_SALT = 0x4B65727978500"

definition seed_state :: "u64 \<Rightarrow> u64" where
  "seed_state pow_seed = mix64 (pow_seed XOR SEED_SALT)"

definition transition_v1 :: "u64 \<Rightarrow> u64 list \<Rightarrow> u64" where
  "transition_v1 state chunk = mix64 (foldl (\<lambda>h w. h XOR w) state chunk)"

definition transition_v2 :: "u64 \<Rightarrow> u64 list \<Rightarrow> u64" where
  "transition_v2 state chunk = foldl (\<lambda>h w. mix64 (h XOR w)) state chunk"

definition transition :: "u64 \<Rightarrow> u64 list \<Rightarrow> bool \<Rightarrow> u64" where
  "transition state chunk walk_v2 = (if walk_v2 then transition_v2 state chunk else transition_v1 state chunk)"

definition chunk_to_words :: "hash \<Rightarrow> u64 list" where
  "chunk_to_words c = map (\<lambda>i. le_u64 (slice (hash_bytes c) (i * 8) 8)) [0..<4]"

definition words_to_bytes :: "u64 list \<Rightarrow> hash" where
  "words_to_bytes w = hash_of_bytes (concat (map u64_le w))"

definition trace_leaf :: "blake3 \<Rightarrow> u64 \<Rightarrow> hash" where
  "trace_leaf B state = blake B (u64_le state)"

fun le_leq_loop :: "bytes \<Rightarrow> bytes \<Rightarrow> nat list \<Rightarrow> bool" where
  "le_leq_loop a b [] = True"
| "le_leq_loop a b (i # is) =
     (if a ! i < b ! i then True else if a ! i > b ! i then False else le_leq_loop a b is)"

definition le_leq :: "hash \<Rightarrow> hash \<Rightarrow> bool" where
  "le_leq a b = le_leq_loop (hash_bytes a) (hash_bytes b) (rev [0..<32])"

subsection \<open>Seeds and the pow fold\<close>

definition pph_words :: "hash \<Rightarrow> u64 list" where
  "pph_words pre_pow_hash = map (\<lambda>i. le_u64 (slice (hash_bytes pre_pow_hash) (i * 8) 8)) [0..<4]"

definition POM_H3_PPH_SALT :: "u64 list" where
  "POM_H3_PPH_SALT = [0x7C99D381176D4EC4, 0xC2E28E3E28118C36, 0xD496CE1B129B76CA, 0x47CF0979FA580BCE]"

definition POM_H5_1_PPH_SALT :: "u64 list" where
  "POM_H5_1_PPH_SALT = [0x0F86D1400D3F8664, 0xC296B67C7A7A6A5B, 0x5F89AD33D961FEAA, 0xAC6C9AFDFA053580]"

definition POM_H5_2_PPH_SALT :: "u64 list" where
  "POM_H5_2_PPH_SALT = [0x584ADE0A598D896D, 0x8783631D81BC2695, 0x2917FCF883A0B862, 0x533CCCFAC88FD614]"

definition POM_V4_PPH_SALT :: "u64 list" where
  "POM_V4_PPH_SALT = [0x7D7BC84C8D18DE80, 0xDE48EE16AE3F1541, 0x3305F1952B30384A, 0xF78C133968D388B7]"

definition xor_words :: "u64 list \<Rightarrow> u64 list \<Rightarrow> u64 list" where
  "xor_words w s = map (\<lambda>(wi, si). wi XOR si) (zip w s)"

definition pph_words_for_era :: "hash \<Rightarrow> bool \<Rightarrow> u64 list" where
  "pph_words_for_era pre_pow_hash h3 =
     (let w = pph_words pre_pow_hash in if h3 then xor_words w POM_H3_PPH_SALT else w)"

definition seed_pph_words_for_era :: "hash \<Rightarrow> bool \<Rightarrow> bool \<Rightarrow> bool \<Rightarrow> u64 list" where
  "seed_pph_words_for_era pre_pow_hash h3 h5_1 h5_2 =
     (if h5_2 then xor_words (pph_words pre_pow_hash) POM_H5_2_PPH_SALT
      else if h5_1 then xor_words (pph_words pre_pow_hash) POM_H5_1_PPH_SALT
      else pph_words_for_era pre_pow_hash h3)"

definition pom_block_seed_from_words :: "u64 list \<Rightarrow> u64 \<Rightarrow> u64 \<Rightarrow> u64" where
  "pom_block_seed_from_words p timestamp nonce =
     (let s = mix64 (nonce XOR 0x4B65727978531);
          s = mix64 (s XOR timestamp);
          s = mix64 (s XOR p ! 0);
          s = mix64 (s XOR p ! 1);
          s = mix64 (s XOR p ! 2)
      in mix64 (s XOR p ! 3))"

definition pom_block_seed :: "hash \<Rightarrow> u64 \<Rightarrow> u64 \<Rightarrow> bool \<Rightarrow> bool \<Rightarrow> bool \<Rightarrow> u64" where
  "pom_block_seed pre_pow_hash timestamp nonce h3 h5_1 h5_2 =
     pom_block_seed_from_words (seed_pph_words_for_era pre_pow_hash h3 h5_1 h5_2) timestamp nonce"

definition pom_pow_value :: "u64 \<Rightarrow> hash \<Rightarrow> bool \<Rightarrow> hash" where
  "pom_pow_value final_state pre_pow_hash h3 =
     (let p = pph_words_for_era pre_pow_hash h3;
          o0 = mix64 (final_state XOR p ! 0 XOR 0x9E3779B97F4A7C15);
          o1 = mix64 (o0 XOR p ! 1 XOR 0xC2B2AE3D27D4EB4F);
          o2 = mix64 (o1 XOR p ! 2 XOR 0x165667B19E3779F9);
          o3 = mix64 (o2 XOR p ! 3 XOR 0xD6E8FEB86659FD93)
      in hash_of_bytes (u64_le o0 @ u64_le o1 @ u64_le o2 @ u64_le o3))"

definition pph_words_v4 :: "hash \<Rightarrow> u64 list" where
  "pph_words_v4 pre_pow_hash = xor_words (pph_words pre_pow_hash) POM_V4_PPH_SALT"

definition pom_block_seed_v4 :: "hash \<Rightarrow> u64 \<Rightarrow> u64 \<Rightarrow> u64" where
  "pom_block_seed_v4 pre_pow_hash timestamp nonce = pom_block_seed_from_words (pph_words_v4 pre_pow_hash) timestamp nonce"

definition POW_HASH_INITIAL_STATE :: "u64 list" where
  "POW_HASH_INITIAL_STATE =
    [1242148031264380989, 3008272977830772284, 2188519011337848018, 1992179434288343456, 8876506674959887717,
     5399642050693751366, 1745875063082670864, 8605242046444978844, 17936695144567157056, 3343109343542796272,
     1123092876221303306, 4963925045340115282, 17037383077651887893, 16629644495023626889, 12833675776649114147,
     3784524041015224902, 1082795874807940378, 13952716920571277634, 13411128033953605860, 15060696040649351053,
     9928834659948351306, 5237849264682708699, 12825353012139217522, 6706187291358897596, 196324915476054915]"

definition pom_seed_h10_state :: "hash \<Rightarrow> u64 \<Rightarrow> u64 list" where
  "pom_seed_h10_state pre_pow_hash timestamp =
     (let st = fold (\<lambda>(i, w) st. st[i := st ! i XOR w]) (enumerate 0 (pph_words pre_pow_hash)) POW_HASH_INITIAL_STATE
      in st[4 := st ! 4 XOR timestamp])"

definition pom_block_seed_h10 :: "(u64 list \<Rightarrow> u64 list) \<Rightarrow> hash \<Rightarrow> u64 \<Rightarrow> u64 \<Rightarrow> u64" where
  "pom_block_seed_h10 f1600 pre_pow_hash timestamp nonce =
     (let st = pom_seed_h10_state pre_pow_hash timestamp
      in f1600 (st[9 := st ! 9 XOR nonce]) ! 0)"

definition SEED_H14_TAG :: bytes where
  "SEED_H14_TAG = [75, 69, 82, 89, 88, 45, 72, 49, 52, 45, 80, 82, 73, 86, 65, 84,
     69, 45, 73, 78, 70, 69, 82, 69, 78, 67, 69, 45, 83, 69, 69, 68]"

definition seed_h14_pph :: "hash \<Rightarrow> hash" where
  "seed_h14_pph pre_pow_hash =
     hash_of_bytes (map (\<lambda>(b, t). b XOR t) (zip (hash_bytes pre_pow_hash) SEED_H14_TAG))"

definition pom_block_seed_h14 :: "(u64 list \<Rightarrow> u64 list) \<Rightarrow> hash \<Rightarrow> u64 \<Rightarrow> u64 \<Rightarrow> u64" where
  "pom_block_seed_h14 f1600 pre_pow_hash timestamp nonce =
     pom_block_seed_h10 f1600 (seed_h14_pph pre_pow_hash) timestamp nonce"

text \<open>A remainder by zero panics.\<close>

definition checked_rem :: "u64 \<Rightarrow> nat \<Rightarrow> nat option" where
  "checked_rem v n = (if n = 0 then None else Some (unat v mod n))"

definition challenges :: "blake3 \<Rightarrow> hash \<Rightarrow> u64 \<Rightarrow> hash \<Rightarrow> hash \<Rightarrow> nat \<Rightarrow> nat \<Rightarrow> nat list option" where
  "challenges B pre_pow_hash nonce trace_root pow_value t k =
     (let seed = blake B (hash_bytes pre_pow_hash @ u64_le nonce @ hash_bytes trace_root @ hash_bytes pow_value)
      in those (map (\<lambda>j. checked_rem (le_u64 (take 8 (hash_bytes (blake B (hash_bytes seed @ u64_le (word_of_nat j)))))) k)
           [0..<t]))"

subsection \<open>\<open>mix64\<close> is a permutation\<close>

definition xorshift :: "nat \<Rightarrow> u64 \<Rightarrow> u64" where
  "xorshift k x = x XOR drop_bit k x"

definition unxorshift :: "nat \<Rightarrow> u64 \<Rightarrow> u64" where
  "unxorshift k y = y XOR drop_bit k y XOR drop_bit (2 * k) y"

definition unmix64 :: "u64 \<Rightarrow> u64" where
  "unmix64 y = unxorshift 30 (unxorshift 27 (unxorshift 31 y * 0x319642b2d24d8ec3) * 0x96de1b173f119089)"

lemma bit_u64_high: "64 \<le> n \<Longrightarrow> \<not> bit (x :: u64) n"
  using bit_imp_le_length [of x n] by auto

lemma unxorshift_xorshift:
  assumes "64 \<le> 3 * k"
  shows "unxorshift k (xorshift k x) = x"
proof (rule bit_word_eqI)
  fix n
  have i: "k + (k + n) = 2 * k + n" "2 * k + (k + n) = 3 * k + n" "k + (2 * k + n) = 3 * k + n" by simp_all
  have "\<not> bit x (3 * k + n)" using assms by (intro bit_u64_high) simp
  then show "bit (unxorshift k (xorshift k x)) n = bit x n"
    by (simp only: xorshift_def unxorshift_def bit_xor_iff bit_drop_bit_eq comp_apply i) blast
qed

lemma xorshift_unxorshift:
  assumes "64 \<le> 3 * k"
  shows "xorshift k (unxorshift k x) = x"
proof (rule bit_word_eqI)
  fix n
  have i: "k + (k + n) = 2 * k + n" "2 * k + (k + n) = 3 * k + n" "k + (2 * k + n) = 3 * k + n" by simp_all
  have "\<not> bit x (3 * k + n)" using assms by (intro bit_u64_high) simp
  then show "bit (xorshift k (unxorshift k x)) n = bit x n"
    by (simp only: xorshift_def unxorshift_def bit_xor_iff bit_drop_bit_eq comp_apply i) blast
qed

lemma mix64_eq:
  "mix64 x = xorshift 31 (xorshift 27 (xorshift 30 x * 0xbf58476d1ce4e5b9) * 0x94d049bb133111eb)"
  by (simp add: mix64_def xorshift_def Let_def)

lemma mix_mult_inverse:
  "(0xbf58476d1ce4e5b9 :: u64) * 0x96de1b173f119089 = 1" "(0x94d049bb133111eb :: u64) * 0x319642b2d24d8ec3 = 1"
  by simp_all

lemma mix_mult_cancel:
  "(a :: u64) * 0xbf58476d1ce4e5b9 * 0x96de1b173f119089 = a" "a * 0x94d049bb133111eb * 0x319642b2d24d8ec3 = a"
  "a * 0x96de1b173f119089 * 0xbf58476d1ce4e5b9 = a" "a * 0x319642b2d24d8ec3 * 0x94d049bb133111eb = a"
  by (simp_all only: mult.assoc mix_mult_inverse mix_mult_inverse [unfolded mult.commute [of "0xbf58476d1ce4e5b9"]
      mult.commute [of "0x94d049bb133111eb"]] mult_1_right)

lemma numeral_le_simps: "(64 :: nat) \<le> 3 * 27" "(64 :: nat) \<le> 3 * 30" "(64 :: nat) \<le> 3 * 31"
  by simp_all

lemma unmix64_mix64 [simp]: "unmix64 (mix64 x) = x"
  by (simp only: mix64_eq unmix64_def unxorshift_xorshift mix_mult_cancel numeral_le_simps)

lemma mix64_unmix64 [simp]: "mix64 (unmix64 x) = x"
  by (simp only: mix64_eq unmix64_def xorshift_unxorshift mix_mult_cancel numeral_le_simps)

lemma mix64_inject [simp]: "mix64 a = mix64 b \<longleftrightarrow> a = b"
  by (metis unmix64_mix64)

lemma xor_left_inject [simp]: "(a :: 'a::semiring_bit_operations) XOR c = b XOR c \<longleftrightarrow> a = b"
  by (metis xor.assoc xor.comm_neutral xor_self_eq)

lemma xor_right_inject [simp]: "(c :: 'a::semiring_bit_operations) XOR a = c XOR b \<longleftrightarrow> a = b"
  by (metis xor.commute xor_left_inject)

lemma xor_eq_self [simp]:
  "(a :: 'a::semiring_bit_operations) = a XOR c \<longleftrightarrow> c = 0" "a XOR c = a \<longleftrightarrow> c = 0"
  by (metis xor.right_neutral xor_right_inject)+

subsection \<open>Words and bytes of a chunk\<close>

lemma upt_4: "[0..<4] = [0, 1, 2, 3 :: nat]"
  by (simp add: upt_rec)

lemma concat_slices_8: "length bs = 32 \<Longrightarrow> slice bs 0 8 @ slice bs 8 8 @ slice bs 16 8 @ slice bs 24 8 = bs"
  using append_take_drop_id [of 8 bs] append_take_drop_id [of 8 "drop 8 bs"] append_take_drop_id [of 8 "drop 16 bs"]
  by simp

lemma words_to_bytes_chunk_to_words [simp]: "words_to_bytes (chunk_to_words c) = c"
proof -
  have "concat (map u64_le (chunk_to_words c)) = hash_bytes c"
    using concat_slices_8 [of "hash_bytes c"] by (simp add: chunk_to_words_def upt_4 u64_le_le_u64)
  then show ?thesis by (simp add: words_to_bytes_def)
qed

lemma chunk_to_words_words_to_bytes: "length w = 4 \<Longrightarrow> chunk_to_words (words_to_bytes w) = w"
  by (auto simp: words_to_bytes_def chunk_to_words_def upt_4 hash_bytes_hash_of_bytes length_Suc_conv numeral_eq_Suc)

lemma chunk_to_words_inject [simp]: "chunk_to_words a = chunk_to_words b \<longleftrightarrow> a = b"
  by (metis words_to_bytes_chunk_to_words)

lemma length_pph_words [simp]: "length (pph_words h) = 4"
  by (simp add: pph_words_def)

subsection \<open>Comparison with the target\<close>

lemma le_leq_loop_eq:
  "n \<le> length a \<Longrightarrow> n \<le> length b \<Longrightarrow> le_leq_loop a b (rev [0..<n]) \<longleftrightarrow> le_nat (take n a) \<le> le_nat (take n b)"
proof (induction n)
  case (Suc n)
  have s: "le_nat (take (Suc n) xs) = le_nat (take n xs) + 256 ^ n * unat (xs ! n)" if "Suc n \<le> length xs" for xs
    using that by (simp add: take_Suc_conv_app_nth le_nat_append min_def)
  have lt: "le_nat (take n xs) < 256 ^ n" if "Suc n \<le> length xs" for xs
    using le_nat_less [of "take n xs"] that by (simp add: min_def)
  have *: "x + 256 ^ n * u < y + 256 ^ n * v" if "x < 256 ^ n" "u < v" for x y u v :: nat
  proof -
    have "256 ^ n * (u + 1) \<le> 256 ^ n * v" using that(2) by (intro mult_le_mono2) simp
    then show ?thesis using that(1) by (simp add: algebra_simps)
  qed
  show ?case
    using Suc s [of a] s [of b] * [OF lt, of a "unat (a ! n)" "unat (b ! n)" "le_nat (take n b)"]
      * [OF lt, of b "unat (b ! n)" "unat (a ! n)" "le_nat (take n a)"]
    by (auto simp: word_less_nat_alt not_less le_antisym)
qed simp

lemma le_leq_eq: "le_leq a b \<longleftrightarrow> a \<le> b"
proof -
  have "le_nat (hash_bytes h) = unat h" for h
    by (metis hash_of_bytes_hash_bytes length_le(4) unat_hash_of_bytes)
  then show ?thesis
    using le_leq_loop_eq [of 32 "hash_bytes a" "hash_bytes b"]
    by (simp add: le_leq_def word_le_nat_alt del: upt_conv_Cons)
qed

end
