(* ===== verification/Pom_Proof.thy ===== *)
theory Pom_Proof
  imports Pom_Walk
begin

section \<open>Possession proofs of the first two eras\<close>

text \<open>
  Model of the wire structs of \<open>src/pom.rs\<close>, \<open>src/pom_v3.rs\<close> and \<open>src/pom_v4.rs\<close>, the search walk,
  the spot-check prover and verifier (\<open>build_proof\<close>, \<open>verify_proof\<close>), the recompute-from-chunks
  prover and verifier (\<open>build_proof_v2\<close>, \<open>verify_proof_v2\<close>) and the CPU search \<open>mine_pom\<close>. The
  closures \<open>read_chunk\<close> and \<open>weight_path\<close> are arguments; a path query may update the store it
  reads (the sibling memo), so the store is threaded through. \<open>None\<close> is a panic.
\<close>

subsection \<open>Wire structs\<close>

record pom_opening =
  state_before :: u64
  op_chunk :: hash
  op_weight_path :: "hash list"
  trace_path_before :: "hash list"
  trace_path_after :: "hash list"

record pom_step =
  step_chunk :: hash
  step_weight_path :: "hash list"

record pom_v3_opening =
  row_before :: bytes
  path_before :: "hash list"
  row_after :: bytes
  path_after :: "hash list"
  tile_col :: bytes
  col_path :: "hash list"
  snippet_path :: "hash list"

record pom_proof_v3 =
  v3_tier :: u8
  v3_roots :: "hash list"
  v3_snippets :: "hash list"
  v3_checks :: "pom_v3_opening list"

record pom_v4_range_proof =
  range_path :: "hash list"

record pom_proof_v4 =
  v4_tier :: u8
  v4_tiles :: "bytes list"
  v4_merkle :: "pom_v4_range_proof list"

record pom_proof =
  tier :: u8
  trace_root :: hash
  pow_value :: hash
  final_state :: u64
  initial_trace_path :: "hash list"
  final_trace_path :: "hash list"
  openings :: "pom_opening list"
  steps_v2 :: "pom_step list option"
  proof_v3 :: "pom_proof_v3 option"
  proof_v4 :: "pom_proof_v4 option"
  task :: "bytes option"

subsection \<open>Search walk\<close>

fun walk_final_loop :: "nat \<Rightarrow> (nat \<Rightarrow> u64 list option) \<Rightarrow> bool \<Rightarrow> nat \<Rightarrow> u64 \<Rightarrow> nat \<Rightarrow> u64 option" where
  "walk_final_loop nch read_chunk walk_v2 0 state off = Some state"
| "walk_final_loop nch read_chunk walk_v2 (Suc k) state off =
     do { c \<leftarrow> read_chunk off;
          let state = transition state c walk_v2;
          off \<leftarrow> checked_rem state nch;
          walk_final_loop nch read_chunk walk_v2 k state off }"

definition walk_final :: "u64 \<Rightarrow> nat \<Rightarrow> nat \<Rightarrow> (nat \<Rightarrow> u64 list option) \<Rightarrow> bool \<Rightarrow> u64 option" where
  "walk_final seed nch k read_chunk walk_v2 =
     do { off \<leftarrow> checked_rem seed nch; walk_final_loop nch read_chunk walk_v2 k seed off }"

subsection \<open>Spot-check proof\<close>

fun trace_loop :: "nat \<Rightarrow> (nat \<Rightarrow> u64 list option) \<Rightarrow> nat \<Rightarrow> u64 \<Rightarrow> nat \<Rightarrow> u64 list \<Rightarrow> u64 list option" where
  "trace_loop nch read_chunk 0 state off trace = Some trace"
| "trace_loop nch read_chunk (Suc k) state off trace =
     do { c \<leftarrow> read_chunk off;
          let state = transition_v1 state c;
          off \<leftarrow> checked_rem state nch;
          trace_loop nch read_chunk k state off (trace @ [state]) }"

fun open_steps :: "blake3 \<Rightarrow> nat \<Rightarrow> (nat \<Rightarrow> u64 list option) \<Rightarrow> ('s \<Rightarrow> nat \<Rightarrow> (hash list \<times> 's) option)
    \<Rightarrow> u64 list \<Rightarrow> hash list \<Rightarrow> nat list \<Rightarrow> 's \<Rightarrow> (pom_opening list \<times> 's) option" where
  "open_steps B nch read_chunk weight_path trace trace_leaves [] s = Some ([], s)"
| "open_steps B nch read_chunk weight_path trace trace_leaves (i # is) s =
     do { sb \<leftarrow> nth_opt trace i;
          off \<leftarrow> checked_rem sb nch;
          c \<leftarrow> read_chunk off;
          (wp, s) \<leftarrow> weight_path s off;
          tb \<leftarrow> merkle_proof B trace_leaves i;
          ta \<leftarrow> merkle_proof B trace_leaves (i + 1);
          (ops, s) \<leftarrow> open_steps B nch read_chunk weight_path trace trace_leaves is s;
          Some (\<lparr>state_before = sb, op_chunk = words_to_bytes c, op_weight_path = wp,
                 trace_path_before = tb, trace_path_after = ta\<rparr> # ops, s) }"

definition build_proof :: "blake3 \<Rightarrow> u8 \<Rightarrow> hash \<Rightarrow> u64 \<Rightarrow> u64 \<Rightarrow> nat \<Rightarrow> nat \<Rightarrow> nat \<Rightarrow> (nat \<Rightarrow> u64 list option)
    \<Rightarrow> ('s \<Rightarrow> nat \<Rightarrow> (hash list \<times> 's) option) \<Rightarrow> 's \<Rightarrow> bool \<Rightarrow> (pom_proof \<times> 's) option" where
  "build_proof B tr pre_pow_hash nonce seed nch k t read_chunk weight_path s h3 =
     do { off \<leftarrow> checked_rem seed nch;
          trace \<leftarrow> trace_loop nch read_chunk k seed off [seed];
          let trace_leaves = map (trace_leaf B) trace;
          troot \<leftarrow> merkle_root B trace_leaves;
          fs \<leftarrow> nth_opt trace k;
          let pv = pom_pow_value fs pre_pow_hash h3;
          chs \<leftarrow> challenges B pre_pow_hash nonce troot pv t k;
          (ops, s) \<leftarrow> open_steps B nch read_chunk weight_path trace trace_leaves chs s;
          ip \<leftarrow> merkle_proof B trace_leaves 0;
          fp \<leftarrow> merkle_proof B trace_leaves k;
          Some (\<lparr>tier = tr, trace_root = troot, pow_value = pv, final_state = fs, initial_trace_path = ip,
                 final_trace_path = fp, openings = ops, steps_v2 = None, proof_v3 = None, proof_v4 = None, task = None\<rparr>, s) }"

fun verify_openings :: "blake3 \<Rightarrow> nat \<Rightarrow> hash \<Rightarrow> hash \<Rightarrow> (pom_opening \<times> nat) list \<Rightarrow> bool option" where
  "verify_openings B nch troot rt [] = Some True"
| "verify_openings B nch troot rt ((op, i) # rest) =
     (if \<not> verify_merkle B (trace_leaf B (state_before op)) i (trace_path_before op) troot then Some False
      else do { off \<leftarrow> checked_rem (state_before op) nch;
                if \<not> verify_merkle B (blake B (hash_bytes (op_chunk op))) off (op_weight_path op) rt then Some False
                else let state_after = transition_v1 (state_before op) (chunk_to_words (op_chunk op))
                     in if \<not> verify_merkle B (trace_leaf B state_after) (i + 1) (trace_path_after op) troot then Some False
                        else verify_openings B nch troot rt rest })"

definition verify_proof :: "blake3 \<Rightarrow> hash \<Rightarrow> u64 \<Rightarrow> u64 \<Rightarrow> pom_proof \<Rightarrow> nat \<Rightarrow> nat \<Rightarrow> nat \<Rightarrow> hash \<Rightarrow> hash \<Rightarrow> bool \<Rightarrow> bool option" where
  "verify_proof B pre_pow_hash nonce seed proof nch k t rt target h3 =
     (if length (openings proof) \<noteq> t then Some False
      else if pom_pow_value (final_state proof) pre_pow_hash h3 \<noteq> pow_value proof then Some False
      else if \<not> le_leq (pow_value proof) target then Some False
      else if \<not> verify_merkle B (trace_leaf B seed) 0 (initial_trace_path proof) (trace_root proof) then Some False
      else if \<not> verify_merkle B (trace_leaf B (final_state proof)) k (final_trace_path proof) (trace_root proof) then Some False
      else do { chs \<leftarrow> challenges B pre_pow_hash nonce (trace_root proof) (pow_value proof) t k;
                verify_openings B nch (trace_root proof) rt (zip (openings proof) chs) })"

subsection \<open>Recompute-from-chunks proof\<close>

fun build_steps :: "nat \<Rightarrow> (nat \<Rightarrow> u64 list option) \<Rightarrow> ('s \<Rightarrow> nat \<Rightarrow> (hash list \<times> 's) option) \<Rightarrow> bool
    \<Rightarrow> nat \<Rightarrow> u64 \<Rightarrow> 's \<Rightarrow> (pom_step list \<times> u64 \<times> 's) option" where
  "build_steps nch read_chunk weight_path walk_v2 0 state s = Some ([], state, s)"
| "build_steps nch read_chunk weight_path walk_v2 (Suc k) state s =
     do { off \<leftarrow> checked_rem state nch;
          c \<leftarrow> read_chunk off;
          (wp, s) \<leftarrow> weight_path s off;
          (steps, fin, s) \<leftarrow> build_steps nch read_chunk weight_path walk_v2 k (transition state c walk_v2) s;
          Some (\<lparr>step_chunk = words_to_bytes c, step_weight_path = wp\<rparr> # steps, fin, s) }"

definition build_proof_v2 :: "u8 \<Rightarrow> hash \<Rightarrow> u64 \<Rightarrow> nat \<Rightarrow> nat \<Rightarrow> (nat \<Rightarrow> u64 list option)
    \<Rightarrow> ('s \<Rightarrow> nat \<Rightarrow> (hash list \<times> 's) option) \<Rightarrow> 's \<Rightarrow> bool \<Rightarrow> bool \<Rightarrow> (pom_proof \<times> 's) option" where
  "build_proof_v2 tr pre_pow_hash seed nch k read_chunk weight_path s h3 walk_v2 =
     do { (steps, fs, s) \<leftarrow> build_steps nch read_chunk weight_path walk_v2 k seed s;
          Some (\<lparr>tier = tr, trace_root = 0, pow_value = pom_pow_value fs pre_pow_hash h3, final_state = fs,
                 initial_trace_path = [], final_trace_path = [], openings = [], steps_v2 = Some steps,
                 proof_v3 = None, proof_v4 = None, task = None\<rparr>, s) }"

text \<open>The re-walk of the verifier: \<open>Some (Some st)\<close> is the state after all steps, \<open>Some None\<close> a rejection.\<close>

fun verify_steps :: "blake3 \<Rightarrow> nat \<Rightarrow> hash \<Rightarrow> bool \<Rightarrow> pom_step list \<Rightarrow> u64 \<Rightarrow> u64 option option" where
  "verify_steps B nch rt walk_v2 [] state = Some (Some state)"
| "verify_steps B nch rt walk_v2 (step # steps) state =
     do { off \<leftarrow> checked_rem state nch;
          if \<not> verify_merkle B (blake B (hash_bytes (step_chunk step))) off (step_weight_path step) rt then Some None
          else verify_steps B nch rt walk_v2 steps (transition state (chunk_to_words (step_chunk step)) walk_v2) }"

definition verify_proof_v2 :: "blake3 \<Rightarrow> pom_proof \<Rightarrow> hash \<Rightarrow> u64 \<Rightarrow> nat \<Rightarrow> nat \<Rightarrow> hash \<Rightarrow> hash \<Rightarrow> bool \<Rightarrow> bool \<Rightarrow> bool option" where
  "verify_proof_v2 B proof pre_pow_hash seed nch k rt target h3 walk_v2 =
     (case steps_v2 proof of
        None \<Rightarrow> Some False
      | Some steps \<Rightarrow>
          if length steps \<noteq> k then Some False
          else if trace_root proof \<noteq> 0 \<or> initial_trace_path proof \<noteq> [] \<or> final_trace_path proof \<noteq> [] \<or> openings proof \<noteq> []
          then Some False
          else do { r \<leftarrow> verify_steps B nch rt walk_v2 steps seed;
                    case r of
                      None \<Rightarrow> Some False
                    | Some state \<Rightarrow>
                        if state \<noteq> final_state proof then Some False
                        else let pv = pom_pow_value state pre_pow_hash h3
                             in if pv \<noteq> pow_value proof then Some False else Some (le_leq pv target) })"

subsection \<open>CPU search\<close>

definition saturating_add_u64 :: "nat \<Rightarrow> nat \<Rightarrow> nat" where
  "saturating_add_u64 a b = min (a + b) (2 ^ 64 - 1)"

definition read_chunk :: "weight_index \<Rightarrow> nat \<Rightarrow> u64 list option" where
  "read_chunk ix off = map_option chunk_to_words (read_chunk_bytes ix off)"

fun mine_loop :: "blake3 \<Rightarrow> bool \<Rightarrow> nat \<Rightarrow> weight_index \<Rightarrow> u8 \<Rightarrow> hash \<Rightarrow> u64 \<Rightarrow> hash \<Rightarrow> nat \<Rightarrow> nat \<Rightarrow> bool
    \<Rightarrow> nat list \<Rightarrow> (u64 \<times> pom_proof) option option" where
  "mine_loop B on mx ix tr pre_pow_hash timestamp target k t h3 [] = Some None"
| "mine_loop B on mx ix tr pre_pow_hash timestamp target k t h3 (nn # nonces) =
     do { let nonce = word_of_nat nn;
          let seed = pom_block_seed pre_pow_hash timestamp nonce h3 False False;
          fs \<leftarrow> walk_final seed (n_chunks ix) k (read_chunk ix) False;
          if le_leq (pom_pow_value fs pre_pow_hash h3) target
          then do { (proof, ix') \<leftarrow> build_proof B tr pre_pow_hash nonce seed (n_chunks ix) k t (read_chunk ix) (merkle_path B on mx) ix h3;
                    Some (Some (nonce, proof)) }
          else mine_loop B on mx ix tr pre_pow_hash timestamp target k t h3 nonces }"

definition mine_pom :: "blake3 \<Rightarrow> bool \<Rightarrow> nat \<Rightarrow> weight_index \<Rightarrow> u8 \<Rightarrow> hash \<Rightarrow> u64 \<Rightarrow> hash \<Rightarrow> nat \<Rightarrow> nat \<Rightarrow> nat \<Rightarrow> nat \<Rightarrow> bool
    \<Rightarrow> (u64 \<times> pom_proof) option option" where
  "mine_pom B on mx ix tr pre_pow_hash timestamp target k t nonce_start max_nonces h3 =
     mine_loop B on mx ix tr pre_pow_hash timestamp target k t h3 [nonce_start..<saturating_add_u64 nonce_start max_nonces]"

subsection \<open>The walk over a committed model\<close>

text \<open>Reference: the state after \<open>i\<close> steps over the chunks \<open>cs\<close>.\<close>

primrec walk_state :: "hash list \<Rightarrow> bool \<Rightarrow> u64 \<Rightarrow> nat \<Rightarrow> u64" where
  "walk_state cs v2 seed 0 = seed"
| "walk_state cs v2 seed (Suc i) =
     (let st = walk_state cs v2 seed i in transition st (chunk_to_words (cs ! (unat st mod length cs))) v2)"

definition serves :: "(nat \<Rightarrow> u64 list option) \<Rightarrow> hash list \<Rightarrow> bool" where
  "serves rdc cs \<longleftrightarrow> cs \<noteq> [] \<and> (\<forall>i < length cs. rdc i = Some (chunk_to_words (cs ! i)))"

lemma walk_state_shift:
  "walk_state cs v2 (transition st (chunk_to_words (cs ! (unat st mod length cs))) v2) i = walk_state cs v2 st (Suc i)"
  by (induction i) (simp_all add: Let_def)

lemma walk_state_Suc:
  "walk_state cs v2 seed (Suc i) =
     transition (walk_state cs v2 seed i) (chunk_to_words (cs ! (unat (walk_state cs v2 seed i) mod length cs))) v2"
  by (simp add: Let_def)

declare walk_state.simps(2) [simp del]

lemma serves_rem:
  assumes "serves rdc cs"
  shows "checked_rem st (length cs) = Some (unat st mod length cs)"
    and "rdc (unat st mod length cs) = Some (chunk_to_words (cs ! (unat st mod length cs)))"
    and "unat st mod length cs < length cs"
  using assms by (simp_all add: serves_def checked_rem_def)

lemma walk_final_eq: "serves rdc cs \<Longrightarrow> walk_final seed (length cs) k rdc v2 = Some (walk_state cs v2 seed k)"
proof -
  assume s: "serves rdc cs"
  have "walk_final_loop (length cs) rdc v2 k st (unat st mod length cs) = Some (walk_state cs v2 st k)" for st
    by (induction k arbitrary: st) (simp_all add: serves_rem [OF s] walk_state_shift)
  then show ?thesis by (simp add: walk_final_def serves_rem [OF s])
qed

lemma trace_loop_eq:
  assumes "serves rdc cs"
  shows "trace_loop (length cs) rdc k st (unat st mod length cs) tr
    = Some (tr @ map (walk_state cs False st) [1..<Suc k])"
proof (induction k arbitrary: st tr)
  case (Suc k)
  let ?st = "transition_v1 st (chunk_to_words (cs ! (unat st mod length cs)))"
  have "map (walk_state cs False ?st) [1..<Suc k] = map (\<lambda>i. walk_state cs False st (Suc i)) [1..<Suc k]"
    using walk_state_shift [of cs False st] by (simp add: transition_def)
  also have "\<dots> = map (walk_state cs False st) [2..<Suc (Suc k)]"
    by (rule nth_equalityI) (simp_all del: upt_Suc)
  finally have "?st # map (walk_state cs False ?st) [1..<Suc k] = map (walk_state cs False st) [1..<Suc (Suc k)]"
    by (simp add: upt_conv_Cons walk_state_Suc transition_def numeral_2_eq_2 del: upt_Suc)
  with Suc show ?case by (simp add: serves_rem [OF assms] del: upt_Suc)
qed simp

lemma those_SomeD: "those (map f xs) = Some ys \<Longrightarrow> length ys = length xs \<and> (\<forall>y \<in> set ys. \<exists>x \<in> set xs. f x = Some y)"
proof (induction xs arbitrary: ys)
  case (Cons a xs)
  then obtain y zs where "f a = Some y" "those (map f xs) = Some zs" "ys = y # zs" by (auto split: option.splits)
  with Cons.IH show ?case by fastforce
qed simp

lemma challenges_bounds:
  assumes "challenges B pph nonce tr pv t k = Some chs"
  shows "length chs = t" and "\<forall>i \<in> set chs. i < k"
  using those_SomeD [OF assms [unfolded challenges_def Let_def]]
  by (auto simp: checked_rem_def split: if_splits)

lemma challenges_defined: "0 < k \<Longrightarrow> \<exists>chs. challenges B pph nonce tr pv t k = Some chs"
  unfolding challenges_def Let_def by (subst those_map_Some) (auto simp: checked_rem_def)

subsection \<open>Honest proofs are accepted\<close>

context chunk_store
begin

lemma serves_store: "holds s cs \<Longrightarrow> serves (\<lambda>i. map_option chunk_to_words (rd s i)) cs"
  using nonempty rd_ok by (simp add: serves_def)

lemma open_steps_ok:
  assumes "serves rdc cs" and "\<forall>i \<in> set chs. i < k"
    and tr: "trace = map (walk_state cs False seed) [0..<Suc k]" "leaves = map (trace_leaf B) trace"
    and root: "merkle_root B leaves = Some troot"
  shows "holds s cs \<Longrightarrow> root_of s = rt0 \<Longrightarrow>
    \<exists>ops s'. open_steps B (length cs) rdc pth trace leaves chs s = Some (ops, s') \<and> holds s' cs \<and> length ops = length chs
      \<and> verify_openings B (length cs) troot rt0 (zip ops chs) = Some True"
  using assms(2)
proof (induction chs arbitrary: s)
  case (Cons i chs)
  let ?sb = "walk_state cs False seed i"
  let ?off = "unat ?sb mod length cs"
  have i: "i < k" "i < length leaves" "i + 1 < length leaves" using Cons.prems(3) by (simp_all add: tr)
  have sb: "nth_opt trace i = Some ?sb" using i by (simp add: tr del: upt_Suc)
  obtain wp s1 where wp: "pth s ?off = Some (wp, s1)" "holds s1 cs"
    "verify_merkle B (blake B (hash_bytes (cs ! ?off))) ?off wp rt0"
    using path_verifies [OF Cons.prems(1) serves_rem(3) [OF assms(1)], of ?sb] Cons.prems(2) by metis
  have "root_of s1 = rt0" using root_stable [OF Cons.prems(1) wp(2)] Cons.prems(2) by simp
  with Cons.IH [OF wp(2)] Cons.prems(3) obtain ops s2
    where ops: "open_steps B (length cs) rdc pth trace leaves chs s1 = Some (ops, s2)" "holds s2 cs"
      "length ops = length chs" "verify_openings B (length cs) troot rt0 (zip ops chs) = Some True" by auto
  have r: "troot = lvl B leaves (depth (length leaves)) ! 0"
    using merkle_root_eq [of leaves B] root i by (cases "leaves = []") auto
  have lf: "leaves ! j = trace_leaf B (walk_state cs False seed j)" if "j < Suc k" for j
    using that by (simp add: tr del: upt_Suc)
  have tb: "verify_merkle B (trace_leaf B ?sb) i (leaf_path B leaves i) troot"
    using fold_leaf_path [OF i(2), of B] i lf [of i] by (simp add: verify_merkle_def r)
  have "transition_v1 ?sb (chunk_to_words (cs ! ?off)) = walk_state cs False seed (i + 1)"
    by (simp add: walk_state_Suc transition_def)
  then have ta: "verify_merkle B (trace_leaf B (transition_v1 ?sb (chunk_to_words (cs ! ?off)))) (i + 1) (leaf_path B leaves (i + 1)) troot"
    using fold_leaf_path [OF i(3), of B] i lf [of "i + 1"] by (simp add: verify_merkle_def r)
  show ?case
    using ops wp tb ta sb serves_rem [OF assms(1), of ?sb] merkle_proof_eq [OF i(2), of B] merkle_proof_eq [OF i(3), of B]
    by (simp add: Let_def del: nth_opt_Some)
qed simp

lemma build_proof_ok:
  assumes h: "holds s cs" and s: "serves rdc cs" and k: "0 < k"
  shows "\<exists>proof s'. build_proof B tr pph nonce seed (length cs) k t rdc pth s h3 = Some (proof, s') \<and> holds s' cs
    \<and> final_state proof = walk_state cs False seed k
    \<and> pow_value proof = pom_pow_value (walk_state cs False seed k) pph h3
    \<and> verify_proof B pph nonce seed proof (length cs) k t (root_of s) target h3
      = Some (le_leq (pom_pow_value (walk_state cs False seed k) pph h3) target)"
proof -
  define trace where "trace = map (walk_state cs False seed) [0..<Suc k]"
  define leaves where "leaves = map (trace_leaf B) trace"
  let ?fs = "walk_state cs False seed k"
  let ?pv = "pom_pow_value ?fs pph h3"
  have len: "length leaves = Suc k" "leaves \<noteq> []" "0 < length leaves" "k < length leaves" by (simp_all add: leaves_def trace_def)
  have lf: "leaves ! j = trace_leaf B (walk_state cs False seed j)" if "j < Suc k" for j
    using that by (simp add: leaves_def trace_def del: upt_Suc)
  have "[seed] @ map (walk_state cs False seed) [1..<Suc k] = trace"
    by (simp add: trace_def upt_conv_Cons del: upt_Suc)
  then have tr: "trace_loop (length cs) rdc k seed (unat seed mod length cs) [seed] = Some trace"
    using trace_loop_eq [OF s, of k seed "[seed]"] by simp
  define troot where "troot = lvl B leaves (depth (length leaves)) ! 0"
  have root: "merkle_root B leaves = Some troot" unfolding troot_def using len by (intro merkle_root_eq) simp
  obtain chs where chs: "challenges B pph nonce troot ?pv t k = Some chs" using challenges_defined [OF k] by blast
  note cb = challenges_bounds [OF chs]
  obtain ops s' where ops: "open_steps B (length cs) rdc pth trace leaves chs s = Some (ops, s')" "holds s' cs"
    "length ops = length chs" "verify_openings B (length cs) troot (root_of s) (zip ops chs) = Some True"
    using open_steps_ok [OF s cb(2) trace_def leaves_def root h refl] by blast
  have vi: "verify_merkle B (trace_leaf B seed) 0 (leaf_path B leaves 0) troot"
    using fold_leaf_path [OF len(3), of B] lf [of 0] by (simp add: verify_merkle_def troot_def)
  have vf: "verify_merkle B (trace_leaf B ?fs) k (leaf_path B leaves k) troot"
    using fold_leaf_path [OF len(4), of B] lf [of k] by (simp add: verify_merkle_def troot_def)
  have fs: "nth_opt trace k = Some ?fs" by (simp add: trace_def del: upt_Suc)
  have "build_proof B tr pph nonce seed (length cs) k t rdc pth s h3
      = Some (\<lparr>tier = tr, trace_root = troot, pow_value = ?pv, final_state = ?fs, initial_trace_path = leaf_path B leaves 0,
          final_trace_path = leaf_path B leaves k, openings = ops, steps_v2 = None, proof_v3 = None, proof_v4 = None, task = None\<rparr>, s')"
    unfolding build_proof_def
    using tr root fs chs ops(1) merkle_proof_eq [OF len(3), of B] merkle_proof_eq [OF len(4), of B] serves_rem(1) [OF s, of seed]
    by (simp add: Let_def leaves_def [symmetric] del: nth_opt_Some)
  then show ?thesis using ops cb vi vf chs by (simp add: verify_proof_def Let_def)
qed

lemma build_steps_ok:
  assumes s: "serves rdc cs"
  shows "holds st cs \<Longrightarrow> root_of st = rt0 \<Longrightarrow>
    \<exists>steps st'. build_steps (length cs) rdc pth v2 k state st = Some (steps, walk_state cs v2 state k, st') \<and> holds st' cs
      \<and> length steps = k \<and> verify_steps B (length cs) rt0 v2 steps state = Some (Some (walk_state cs v2 state k))"
proof (induction k arbitrary: state st)
  case (Suc k)
  let ?off = "unat state mod length cs"
  obtain wp s1 where wp: "pth st ?off = Some (wp, s1)" "holds s1 cs"
    "verify_merkle B (blake B (hash_bytes (cs ! ?off))) ?off wp rt0"
    using path_verifies [OF Suc.prems(1) serves_rem(3) [OF s], of state] Suc.prems(2) by metis
  have "root_of s1 = rt0" using root_stable [OF Suc.prems(1) wp(2)] Suc.prems(2) by simp
  from Suc.IH [OF wp(2) this, of "transition state (chunk_to_words (cs ! ?off)) v2"] obtain steps s2
    where st: "build_steps (length cs) rdc pth v2 k (transition state (chunk_to_words (cs ! ?off)) v2) s1
        = Some (steps, walk_state cs v2 state (Suc k), s2)" "holds s2 cs" "length steps = k"
      "verify_steps B (length cs) rt0 v2 steps (transition state (chunk_to_words (cs ! ?off)) v2)
        = Some (Some (walk_state cs v2 state (Suc k)))"
    unfolding walk_state_shift by blast
  with wp show ?case by (simp add: serves_rem [OF s])
qed simp

lemma build_proof_v2_ok:
  assumes h: "holds s cs" and s: "serves rdc cs"
  shows "\<exists>proof s'. build_proof_v2 tr pph seed (length cs) k rdc pth s h3 v2 = Some (proof, s') \<and> holds s' cs
    \<and> final_state proof = walk_state cs v2 seed k
    \<and> verify_proof_v2 B proof pph seed (length cs) k (root_of s) target h3 v2
      = Some (le_leq (pom_pow_value (walk_state cs v2 seed k) pph h3) target)"
proof -
  obtain steps s' where "build_steps (length cs) rdc pth v2 k seed s = Some (steps, walk_state cs v2 seed k, s')" "holds s' cs"
    "length steps = k" "verify_steps B (length cs) (root_of s) v2 steps seed = Some (Some (walk_state cs v2 seed k))"
    using build_steps_ok [OF s h refl, of v2 k seed] by blast
  then show ?thesis by (simp add: build_proof_v2_def verify_proof_v2_def Let_def)
qed

end

subsection \<open>Accepted proofs are honest walks\<close>

text \<open>The bytes the verifier of a recompute proof hashes.\<close>

fun steps_inputs :: "blake3 \<Rightarrow> nat \<Rightarrow> bool \<Rightarrow> pom_step list \<Rightarrow> u64 \<Rightarrow> bytes set" where
  "steps_inputs B nch v2 [] st = {}"
| "steps_inputs B nch v2 (step # steps) st =
     opening_inputs B (step_chunk step) (unat st mod nch) (step_weight_path step)
     \<union> steps_inputs B nch v2 steps (transition st (chunk_to_words (step_chunk step)) v2)"

lemma verify_steps_sound:
  assumes root: "merkle_root B (chunk_leaves B cs) = Some rt"
  shows "verify_steps B (length cs) rt v2 steps st = Some (Some fin) \<Longrightarrow>
    fin = walk_state cs v2 st (length steps) \<or> blake_clash B (steps_inputs B (length cs) v2 steps st) (commit_inputs B cs)"
proof (induction steps arbitrary: st)
  case (Cons step steps)
  let ?off = "unat st mod length cs" and ?c = "step_chunk step"
  have ne: "cs \<noteq> []" using root by (auto simp: merkle_root.simps chunk_leaves_def)
  then have ver: "verify_merkle B (blake B (hash_bytes ?c)) ?off (step_weight_path step) rt"
    and rest: "verify_steps B (length cs) rt v2 steps (transition st (chunk_to_words ?c) v2) = Some (Some fin)"
    using Cons.prems by (auto simp: checked_rem_def split: if_splits)
  have "?c = cs ! ?off \<or> blake_clash B (opening_inputs B ?c ?off (step_weight_path step)) (commit_inputs B cs)"
    using ne by (intro chunk_opening_sound [OF root _ ver]) simp
  moreover have "blake_clash B X Y \<Longrightarrow> X \<subseteq> X' \<Longrightarrow> blake_clash B X' Y" for X X' Y
    by (rule blake_clash_mono) auto
  ultimately show ?case
    using Cons.IH [OF rest] walk_state_shift [of cs v2 st] by (auto simp: blake_clash_def)
qed simp

subsection \<open>Properties\<close>

text \<open>C23. Soundness of recompute proofs: a proof the verifier accepts against the root of the chunks \<open>cs\<close> has
  the final state of the real walk over \<open>cs\<close> and its pow value meets the target, or the bytes hashed by
  verifier and committer contain a collision.\<close>

theorem verify_proof_v2_sound:
  assumes "merkle_root B (chunk_leaves B cs) = Some r"
    and "verify_proof_v2 B proof pph seed (length cs) k r target h3 walk_v2 = Some True"
  shows "(final_state proof = walk_state cs walk_v2 seed k
      \<and> pow_value proof = pom_pow_value (walk_state cs walk_v2 seed k) pph h3 \<and> pow_value proof \<le> target)
    \<or> (\<exists>steps. steps_v2 proof = Some steps
        \<and> blake_clash B (steps_inputs B (length cs) walk_v2 steps seed) (commit_inputs B cs))"
proof -
  obtain steps st where "steps_v2 proof = Some steps" "length steps = k"
    "verify_steps B (length cs) r walk_v2 steps seed = Some (Some st)" "st = final_state proof"
    "pow_value proof = pom_pow_value st pph h3" "le_leq (pow_value proof) target"
    using assms(2) by (auto simp: verify_proof_v2_def Let_def split: option.splits if_splits Option.bind_splits)
  with verify_steps_sound [OF assms(1), of walk_v2 steps seed st] show ?thesis by (auto simp: le_leq_eq)
qed

text \<open>C24. Completeness of recompute proofs: over the weight index of a model, \<open>build_proof_v2\<close> never fails, its
  final state is the one the search walk found, and \<open>verify_proof_v2\<close> accepts it exactly when its pow value
  meets the target.\<close>

theorem build_proof_v2_verifies:
  assumes "index_holds B ix cs"
  shows "\<exists>proof ix' fs. build_proof_v2 tr pph seed (n_chunks ix) k (read_chunk ix) (merkle_path B on mx) ix h3 walk_v2 = Some (proof, ix')
    \<and> index_holds B ix' cs \<and> walk_final seed (n_chunks ix) k (read_chunk ix) walk_v2 = Some fs \<and> final_state proof = fs
    \<and> verify_proof_v2 B proof pph seed (n_chunks ix) k (r_t ix) target h3 walk_v2
      = Some (pom_pow_value fs pph h3 \<le> target)"
proof -
  have "read_chunk ix = (\<lambda>i. map_option chunk_to_words (read_chunk_bytes ix i))" by (simp add: fun_eq_iff read_chunk_def)
  then have "serves (read_chunk ix) cs" using ix_store.serves_store [OF assms] by simp
  with ix_store.build_proof_v2_ok [OF assms this, of tr pph seed k on mx h3 walk_v2 target] walk_final_eq [OF this]
  show ?thesis by (simp add: index_holdsD(2) [OF assms] le_leq_eq)
qed

text \<open>Whether nonce number \<open>nn\<close> wins for the model \<open>cs\<close>.\<close>

definition nonce_wins :: "hash list \<Rightarrow> hash \<Rightarrow> u64 \<Rightarrow> hash \<Rightarrow> nat \<Rightarrow> bool \<Rightarrow> nat \<Rightarrow> bool" where
  "nonce_wins cs pph ts target k h3 nn \<longleftrightarrow>
     pom_pow_value (walk_state cs False (pom_block_seed pph ts (word_of_nat nn) h3 False False) k) pph h3 \<le> target"

text \<open>What a search over the nonces \<open>lo ..< hi\<close> must report: the first winning nonce with an accepted
  proof, or nothing when none wins.\<close>

definition search_ok :: "blake3 \<Rightarrow> weight_index \<Rightarrow> hash list \<Rightarrow> hash \<Rightarrow> u64 \<Rightarrow> hash \<Rightarrow> nat \<Rightarrow> nat \<Rightarrow> bool \<Rightarrow> nat \<Rightarrow> nat
    \<Rightarrow> (u64 \<times> pom_proof) option \<Rightarrow> bool" where
  "search_ok B ix cs pph ts target k t h3 lo hi res \<longleftrightarrow>
     (case res of
        None \<Rightarrow> \<forall>nn \<in> {lo..<hi}. \<not> nonce_wins cs pph ts target k h3 nn
      | Some (nonce, proof) \<Rightarrow> \<exists>nn \<in> {lo..<hi}. nonce = word_of_nat nn
          \<and> (\<forall>m \<in> {lo..<nn}. \<not> nonce_wins cs pph ts target k h3 m)
          \<and> verify_proof B pph nonce (pom_block_seed pph ts nonce h3 False False) proof (n_chunks ix) k t (r_t ix) target h3
            = Some True)"

lemma search_ok_step:
  assumes "\<not> nonce_wins cs pph ts target k h3 lo" and "search_ok B ix cs pph ts target k t h3 (Suc lo) hi res"
  shows "search_ok B ix cs pph ts target k t h3 lo hi res"
proof -
  have *: "x \<in> {lo..<m} \<Longrightarrow> x = lo \<or> x \<in> {Suc lo..<m}" for x m by auto
  show ?thesis
  proof (cases res)
    case None
    with assms show ?thesis by (auto simp: search_ok_def dest!: *)
  next
    case (Some r)
    with assms(2) obtain nn where nn: "nn \<in> {Suc lo..<hi}" "fst r = word_of_nat nn"
      "\<forall>m \<in> {Suc lo..<nn}. \<not> nonce_wins cs pph ts target k h3 m"
      "verify_proof B pph (fst r) (pom_block_seed pph ts (fst r) h3 False False) (snd r) (n_chunks ix) k t (r_t ix) target h3 = Some True"
      by (auto simp: search_ok_def split: prod.splits)
    have "nn \<in> {lo..<hi}" using nn(1) by simp
    moreover have "\<forall>m \<in> {lo..<nn}. \<not> nonce_wins cs pph ts target k h3 m" using nn(3) assms(1) * by blast
    ultimately show ?thesis using nn Some unfolding search_ok_def by (auto split: prod.splits)
  qed
qed

lemma mine_loop_ok:
  assumes h: "index_holds B ix cs" and k: "0 < k"
  shows "\<exists>res. mine_loop B on mx ix tr pph ts target k t h3 [lo..<hi] = Some res \<and> search_ok B ix cs pph ts target k t h3 lo hi res"
proof (induction "hi - lo" arbitrary: lo)
  case 0
  then show ?case by (simp add: search_ok_def)
next
  case (Suc d)
  then have lt: "lo < hi" by simp
  let ?nonce = "word_of_nat lo :: u64"
  let ?seed = "pom_block_seed pph ts ?nonce h3 False False"
  have "read_chunk ix = (\<lambda>i. map_option chunk_to_words (read_chunk_bytes ix i))" by (simp add: fun_eq_iff read_chunk_def)
  then have s: "serves (read_chunk ix) cs" using ix_store.serves_store [OF h] by simp
  note wf = walk_final_eq [OF s, of ?seed k False]
  obtain pf ix' where p: "build_proof B tr pph ?nonce ?seed (length cs) k t (read_chunk ix) (merkle_path B on mx) ix h3 = Some (pf, ix')"
    and v: "verify_proof B pph ?nonce ?seed pf (length cs) k t (r_t ix) target h3
      = Some (le_leq (pom_pow_value (walk_state cs False ?seed k) pph h3) target)"
    using ix_store.build_proof_ok [OF h s k, of tr pph ?nonce ?seed t on mx h3 target] by blast
  have up: "[lo..<hi] = lo # [Suc lo..<hi]" using lt by (rule upt_conv_Cons)
  show ?case
  proof (cases "nonce_wins cs pph ts target k h3 lo")
    case True
    then have "mine_loop B on mx ix tr pph ts target k t h3 [lo..<hi] = Some (Some (?nonce, pf))"
      using p wf unfolding up by (simp add: index_holdsD(2) [OF h] nonce_wins_def le_leq_eq Let_def)
    moreover have "search_ok B ix cs pph ts target k t h3 lo hi (Some (?nonce, pf))"
      using True v lt by (auto simp: search_ok_def index_holdsD(2) [OF h] nonce_wins_def le_leq_eq intro!: bexI [of _ lo])
    ultimately show ?thesis by blast
  next
    case False
    then have "mine_loop B on mx ix tr pph ts target k t h3 [lo..<hi] = mine_loop B on mx ix tr pph ts target k t h3 [Suc lo..<hi]"
      using wf unfolding up by (simp add: index_holdsD(2) [OF h] nonce_wins_def le_leq_eq Let_def)
    moreover have "d = hi - Suc lo" using Suc.hyps(2) by simp
    ultimately show ?thesis using Suc.hyps(1) [of "Suc lo"] search_ok_step [OF False] by auto
  qed
qed

text \<open>C26. CPU search: \<open>mine_pom\<close> always returns; it finds the first nonce of its range whose walk meets the
  target, with a proof \<open>verify_proof\<close> accepts, or it reports that no nonce of the range wins.\<close>

theorem mine_pom_first_win:
  assumes "index_holds B ix cs" and "0 < k"
  shows "\<exists>res. mine_pom B on mx ix tr pph ts target k t nonce_start max_nonces h3 = Some res
    \<and> search_ok B ix cs pph ts target k t h3 nonce_start (saturating_add_u64 nonce_start max_nonces) res"
  unfolding mine_pom_def by (rule mine_loop_ok [OF assms])

text \<open>Distinct nonces walk from distinct seeds and distinct final states have distinct pow values, in every era.\<close>

theorem seed_and_pow_injective:
  "(pom_block_seed pph ts nonce h3 h5_1 h5_2 = pom_block_seed pph ts nonce' h3 h5_1 h5_2 \<longleftrightarrow> nonce = nonce')
   \<and> (pom_block_seed_v4 pph ts nonce = pom_block_seed_v4 pph ts nonce' \<longleftrightarrow> nonce = nonce')
   \<and> (pom_pow_value fs pph h3 = pom_pow_value fs' pph h3 \<longleftrightarrow> fs = fs')"
proof -
  have seed: "pom_block_seed_from_words p ts nonce = pom_block_seed_from_words p ts nonce' \<longleftrightarrow> nonce = nonce'" for p
    by (simp add: pom_block_seed_from_words_def Let_def)
  have first: "fs = fs'" if "pom_pow_value fs pph h3 = pom_pow_value fs' pph h3"
    using arg_cong [OF that, of "\<lambda>h. take 8 (hash_bytes h)"]
    by (simp add: pom_pow_value_def Let_def hash_bytes_hash_of_bytes)
  show ?thesis unfolding pom_block_seed_def pom_block_seed_v4_def seed using first by blast
qed

text \<open>Every hard fork that salts the seed words changes them: the raw, H3, H5.1, H5.2 and v4 words of one
  pre-pow hash are pairwise different.\<close>

theorem era_salts_distinct:
  "distinct [pph_words pph, pph_words_for_era pph True, seed_pph_words_for_era pph h3 True False,
     seed_pph_words_for_era pph h3 h5_1 True, pph_words_v4 pph]"
proof -
  have x0: "xor_words (pph_words pph) s ! 0 = pph_words pph ! 0 XOR s ! 0" if "length s = 4" for s
    using that by (simp add: xor_words_def)
  have "distinct (map (\<lambda>w. w ! 0) [pph_words pph, pph_words_for_era pph True, seed_pph_words_for_era pph h3 True False,
     seed_pph_words_for_era pph h3 h5_1 True, pph_words_v4 pph])"
    by (simp add: pph_words_for_era_def seed_pph_words_for_era_def pph_words_v4_def x0 POM_H3_PPH_SALT_def
        POM_H5_1_PPH_SALT_def POM_H5_2_PPH_SALT_def POM_V4_PPH_SALT_def)
  then show ?thesis by (rule distinct_map [THEN iffD1, THEN conjunct1])
qed

text \<open>The properties on the one-tensor model.\<close>

definition toy_chunks :: "hash list" where
  "toy_chunks = canonical_chunks toy_gguf (toy_meta 34)"

lemma toy_index: "\<exists>ix. index_holds toy_blake3 ix toy_chunks"
  using build_index_holds [of toy_gguf "toy_meta 34" toy_blake3] toy_model [of 34] by (auto simp: toy_chunks_def)

lemma length_toy_chunks [simp]: "length toy_chunks = 34"
  using toy_model(2) [of 34] by (simp add: toy_chunks_def)

lemma le_max_hash [simp]: "le_leq h (- 1)"
  by (simp add: le_leq_eq)

theorem verify_proof_v2_sound_witness:
  "\<exists>proof r. merkle_root toy_blake3 (chunk_leaves toy_blake3 toy_chunks) = Some r
    \<and> verify_proof_v2 toy_blake3 proof 3 9 34 5 r (- 1) True True = Some True
    \<and> ((final_state proof = walk_state toy_chunks True 9 5
        \<and> pow_value proof = pom_pow_value (walk_state toy_chunks True 9 5) 3 True \<and> pow_value proof \<le> - 1)
      \<or> (\<exists>steps. steps_v2 proof = Some steps
        \<and> blake_clash toy_blake3 (steps_inputs toy_blake3 34 True steps 9) (commit_inputs toy_blake3 toy_chunks)))"
proof -
  obtain ix where ix: "index_holds toy_blake3 ix toy_chunks" using toy_index ..
  obtain pf where pf: "verify_proof_v2 toy_blake3 pf 3 9 34 5 (r_t ix) (- 1) True True = Some True"
    using ix_store.build_proof_v2_ok [OF ix ix_store.serves_store [OF ix], of 0 3 9 5 True 8 True True "- 1"] by auto
  from verify_proof_v2_sound [OF index_holds_root [OF ix], of pf 3 9 5 "- 1" True True] pf index_holds_root [OF ix]
  show ?thesis by (intro exI [of _ pf] exI [of _ "r_t ix"]) simp
qed

theorem build_proof_v2_verifies_witness:
  "\<exists>ix proof ix' fs. index_holds toy_blake3 ix toy_chunks
    \<and> build_proof_v2 1 3 9 34 5 (read_chunk ix) (merkle_path toy_blake3 True 8) ix True True = Some (proof, ix')
    \<and> verify_proof_v2 toy_blake3 proof 3 9 34 5 (r_t ix) (- 1) True True = Some (pom_pow_value fs 3 True \<le> - 1)"
proof -
  obtain ix where ix: "index_holds toy_blake3 ix toy_chunks" using toy_index ..
  from build_proof_v2_verifies [OF ix, of 1 3 9 5 True 8 True True "- 1"] index_holdsD(2) [OF ix] show ?thesis
    using ix by (simp only: length_toy_chunks) blast
qed

theorem mine_pom_first_win_witness:
  "\<exists>ix res. index_holds toy_blake3 ix toy_chunks \<and> mine_pom toy_blake3 True 8 ix 1 3 77 (- 1) 5 2 100 10 True = Some res
    \<and> search_ok toy_blake3 ix toy_chunks 3 77 (- 1) 5 2 True 100 (saturating_add_u64 100 10) res"
proof -
  obtain ix where ix: "index_holds toy_blake3 ix toy_chunks" using toy_index ..
  from mine_pom_first_win [OF ix, of 5 True 8 1 3 77 "- 1" 2 100 10 True] ix show ?thesis by auto
qed

end
