(* ===== verification/Pom_Tiles.thy ===== *)
theory Pom_Tiles
  imports Pom_Proof
begin

section \<open>Matrix walks: PoM v3, v4 and v5\<close>

text \<open>
  Model of \<open>src/pom_v3.rs\<close>, \<open>src/pom_v4.rs\<close> and \<open>src/pom_v5.rs\<close>: the int8 matrix transition with its
  scalar and SIMD dot products, the tile offset chains, the spot-check prover and verifier of v3,
  and the re-walk provers and verifiers of v4 and v5 (which mixes pad tiles into the walk). An
  \<open>anyhow\<close> error is a value of \<open>proof_error\<close>; a panic is the error \<open>Panic\<close>. An \<open>i32\<close> accumulator is a
  32-bit word.
\<close>

datatype proof_error = Panic | WrongShape | BlobTooSmall | TileShape nat | RangeProof nat | NoTileSpace | PadNotEmpty nat

definition no_panic :: "'a option \<Rightarrow> proof_error + 'a" where
  "no_panic m = (case m of None \<Rightarrow> Inl Panic | Some x \<Rightarrow> Inr x)"

lemma no_panic_simps [simp]: "no_panic None = Inl Panic" "no_panic (Some x) = Inr x"
  by (simp_all add: no_panic_def)

lemma no_panic_Inr: "no_panic m = Inr x \<longleftrightarrow> m = Some x"
  by (cases m) auto

subsection \<open>Primitives of the v3 walk\<close>

abbreviation "POM_V3_D \<equiv> 256 :: nat"
abbreviation "POM_V3_K \<equiv> 256 :: nat"
abbreviation "POM_V3_CHECKS \<equiv> 32 :: nat"
abbreviation "POM_V3_TILE_CHUNKS \<equiv> 2048 :: nat"
abbreviation "POM_V3_COL_CHUNKS \<equiv> 8 :: nat"
abbreviation "POM_V3_COL_SUBTREE_DEPTH \<equiv> 3 :: nat"

definition POM_V3_S0_ROW_SALT :: u64 where "POM_V3_S0_ROW_SALT = 0x6B61F28F3CC48744"
definition POM_V3_OFFSET_FIRST_SALT :: u64 where "POM_V3_OFFSET_FIRST_SALT = 0x3F1F886D659E316A"
definition POM_V3_OFFSET_STEP_SALT :: u64 where "POM_V3_OFFSET_STEP_SALT = 0xD4C194F3ADB3B1C7"

text \<open>\<open>b"keryx-h6-checks-v3"\<close>\<close>

definition POM_V3_CHECKS_DOMAIN :: bytes where
  "POM_V3_CHECKS_DOMAIN = [107, 101, 114, 121, 120, 45, 104, 54, 45, 99, 104, 101, 99, 107, 115, 45, 118, 51]"

definition fold64 :: "hash \<Rightarrow> u64" where
  "fold64 root = le_u64 (take 8 (hash_bytes root))"

definition rho8 :: "u32 \<Rightarrow> u32 \<Rightarrow> u8" where
  "rho8 acc tweak =
     (let z = acc XOR tweak;
          z = z * 0x9E3779B9;
          z = z XOR drop_bit 16 z;
          z = z * 0x85EBCA6B;
          z = z XOR drop_bit 13 z
      in ucast (z AND 0xff))"

definition rho_tweak :: "u32 \<Rightarrow> u32 \<Rightarrow> u32 \<Rightarrow> u32" where
  "rho_tweak step row col = step * 0x9E3779B9 + row * 0xC2B2AE35 + col * 0x85EBCA6B"

definition dot_i8 :: "bytes \<Rightarrow> bytes \<Rightarrow> u32" where
  "dot_i8 row col = sum_list (map (\<lambda>(a, b). word_of_int (sint a * sint b)) (zip row col))"

definition snippet_fold :: "hash \<Rightarrow> u64" where
  "snippet_fold snippet =
     foldl (\<lambda>sf w. mix64 (sf XOR ucast (le_u32 (slice (hash_bytes snippet) (w * 4) 4)))) 0 [0..<8]"

definition v3_first_offset :: "u64 \<Rightarrow> nat \<Rightarrow> nat option" where
  "v3_first_offset seed n_tiles = checked_rem (mix64 (seed XOR POM_V3_OFFSET_FIRST_SALT)) n_tiles"

definition v3_next_offset :: "u64 \<Rightarrow> nat \<Rightarrow> hash \<Rightarrow> nat \<Rightarrow> nat option" where
  "v3_next_offset seed step snippet n_tiles =
     checked_rem (mix64 (seed XOR (word_of_nat (step + 1) * POM_V3_OFFSET_STEP_SALT) XOR snippet_fold snippet)) n_tiles"

text \<open>The \<open>mix64\<close> keystream of one row of the initial state: 4 bytes per round.\<close>

fun row_stream :: "nat \<Rightarrow> u64 \<Rightarrow> bytes" where
  "row_stream 0 h = []"
| "row_stream (Suc k4) h = u32_le (ucast (mix64 h)) @ row_stream k4 (mix64 h)"

definition v3_initial_state :: "u64 \<Rightarrow> bytes" where
  "v3_initial_state seed =
     concat (map (\<lambda>r. row_stream (POM_V3_D div 4) (mix64 (seed XOR (POM_V3_S0_ROW_SALT + word_of_nat r)))) [0..<POM_V3_D])"

definition state_leaves :: "blake3 \<Rightarrow> bytes \<Rightarrow> hash list" where
  "state_leaves B state = map (\<lambda>r. blake B (slice state (r * POM_V3_D) POM_V3_D)) [0..<POM_V3_D]"

definition v3_state_root :: "blake3 \<Rightarrow> bytes \<Rightarrow> hash option" where
  "v3_state_root B state = merkle_root B (state_leaves B state)"

definition v3_check_points :: "blake3 \<Rightarrow> hash \<Rightarrow> u64 \<Rightarrow> hash list \<Rightarrow> hash list \<Rightarrow> (nat \<times> nat \<times> nat) list" where
  "v3_check_points B pre_pow_hash nonce roots snippets =
     (let roots_buf = concat (map hash_bytes roots);
          snip_buf = concat (map hash_bytes snippets);
          acc = POM_V3_CHECKS_DOMAIN @ hash_bytes pre_pow_hash @ u64_le nonce
            @ hash_bytes (blake B roots_buf) @ hash_bytes (blake B snip_buf);
          prf_seed = blake B acc
      in map (\<lambda>i. let d = hash_bytes (blake B (hash_bytes prf_seed @ u64_le (word_of_nat i)))
                  in (1 + unat (le_u64 (slice d 0 8)) mod POM_V3_K, unat (le_u64 (slice d 8 8)) mod POM_V3_D,
                      unat (le_u64 (slice d 16 8)) mod POM_V3_D))
           [0..<POM_V3_CHECKS])"

subsection \<open>Offset chain and spot checks of v3\<close>

text \<open>The loop \<open>for step in 1..=K\<close> that derives the tile offsets from the snippets.\<close>

fun v3_offsets_loop :: "u64 \<Rightarrow> nat \<Rightarrow> hash list \<Rightarrow> nat \<Rightarrow> nat \<Rightarrow> nat \<Rightarrow> nat list option" where
  "v3_offsets_loop seed n_tiles snippets step off 0 = Some []"
| "v3_offsets_loop seed n_tiles snippets step off (Suc m) =
     do { off' \<leftarrow> (if step < POM_V3_K
             then do { sn \<leftarrow> nth_opt snippets (step - 1); v3_next_offset seed step sn n_tiles } else Some off);
          offs \<leftarrow> v3_offsets_loop seed n_tiles snippets (step + 1) off' m;
          Some (off # offs) }"

definition v3_offsets :: "u64 \<Rightarrow> nat \<Rightarrow> hash list \<Rightarrow> nat list option" where
  "v3_offsets seed n_tiles snippets =
     do { off \<leftarrow> v3_first_offset seed n_tiles; v3_offsets_loop seed n_tiles snippets 1 off POM_V3_K }"

text \<open>\<open>count\<close> consecutive chunks as one byte string.\<close>

definition read_chunks :: "('s \<Rightarrow> nat \<Rightarrow> hash option) \<Rightarrow> 's \<Rightarrow> nat \<Rightarrow> nat \<Rightarrow> bytes option" where
  "read_chunks rd s first count = map_option concat (those (map (\<lambda>c. map_option hash_bytes (rd s (first + c))) [0..<count]))"

text \<open>\<open>path[depth..]\<close> panics when the path is shorter.\<close>

definition drop_path :: "nat \<Rightarrow> hash list \<Rightarrow> hash list option" where
  "drop_path d p = (if d \<le> length p then Some (drop d p) else None)"

fun v3_open :: "blake3 \<Rightarrow> ('s \<Rightarrow> nat \<Rightarrow> hash option) \<Rightarrow> ('s \<Rightarrow> nat \<Rightarrow> (hash list \<times> 's) option) \<Rightarrow> bytes \<Rightarrow> hash list list
    \<Rightarrow> nat list \<Rightarrow> (nat \<times> nat \<times> nat) list \<Rightarrow> 's \<Rightarrow> (pom_v3_opening list \<times> 's) option" where
  "v3_open B rd pth states leaves offsets [] s = Some ([], s)"
| "v3_open B rd pth states leaves offsets ((t, x, j) # points) s =
     do { off \<leftarrow> nth_opt offsets (t - 1);
          let d2 = POM_V3_D * POM_V3_D;
          let col_first_leaf = off * POM_V3_TILE_CHUNKS + j * POM_V3_COL_CHUNKS;
          col \<leftarrow> read_chunks rd s col_first_leaf POM_V3_COL_CHUNKS;
          (cp, s) \<leftarrow> pth s col_first_leaf;
          cp \<leftarrow> drop_path POM_V3_COL_SUBTREE_DEPTH cp;
          (sp, s) \<leftarrow> pth s (off * POM_V3_TILE_CHUNKS);
          rb \<leftarrow> get_range states ((t - 1) * d2 + x * POM_V3_D) ((t - 1) * d2 + (x + 1) * POM_V3_D);
          lb \<leftarrow> nth_opt leaves (t - 1);
          pb \<leftarrow> merkle_proof B lb x;
          ra \<leftarrow> get_range states (t * d2 + x * POM_V3_D) (t * d2 + (x + 1) * POM_V3_D);
          la \<leftarrow> nth_opt leaves t;
          pa \<leftarrow> merkle_proof B la x;
          (ops, s) \<leftarrow> v3_open B rd pth states leaves offsets points s;
          Some (\<lparr>row_before = rb, path_before = pb, row_after = ra, path_after = pa, tile_col = col, col_path = cp,
                 snippet_path = sp\<rparr> # ops, s) }"

definition build_proof_v3 :: "blake3 \<Rightarrow> ('s \<Rightarrow> nat \<Rightarrow> hash option) \<Rightarrow> ('s \<Rightarrow> nat \<Rightarrow> (hash list \<times> 's) option) \<Rightarrow> nat \<Rightarrow> u8 \<Rightarrow> hash \<Rightarrow> u64
    \<Rightarrow> u64 \<Rightarrow> bytes \<Rightarrow> bytes \<Rightarrow> 's \<Rightarrow> proof_error + pom_proof_v3 \<times> 's" where
  "build_proof_v3 B rd pth nch tr pre_pow_hash nonce seed states snippets_bytes s =
     (let d2 = POM_V3_D * POM_V3_D; n_tiles = nch div POM_V3_TILE_CHUNKS in
      if length states \<noteq> (POM_V3_K + 1) * d2 \<or> length snippets_bytes \<noteq> POM_V3_K * 32 then Inl WrongShape
      else if n_tiles = 0 then Inl BlobTooSmall
      else
        let snippets = map hash_of_bytes (chunks 32 snippets_bytes);
            leaves = map (\<lambda>t. state_leaves B (slice states (t * d2) d2)) [0..<POM_V3_K + 1]
        in no_panic (do { roots \<leftarrow> those (map (merkle_root B) leaves);
                          offsets \<leftarrow> v3_offsets seed n_tiles snippets;
                          (checks, s) \<leftarrow> v3_open B rd pth states leaves offsets (v3_check_points B pre_pow_hash nonce roots snippets) s;
                          Some (\<lparr>v3_tier = tr, v3_roots = roots, v3_snippets = snippets, v3_checks = checks\<rparr>, s) }))"

definition col_subtree_root :: "blake3 \<Rightarrow> bytes \<Rightarrow> hash option" where
  "col_subtree_root B col = merkle_root B (map (blake B) (chunks 32 col))"

fun v3_verify_points :: "blake3 \<Rightarrow> hash list \<Rightarrow> hash list \<Rightarrow> nat list \<Rightarrow> hash \<Rightarrow> ((nat \<times> nat \<times> nat) \<times> pom_v3_opening) list \<Rightarrow> bool option" where
  "v3_verify_points B roots snippets offsets rt [] = Some True"
| "v3_verify_points B roots snippets offsets rt (((t, x, j), op) # rest) =
     (if length (row_before op) \<noteq> POM_V3_D \<or> length (row_after op) \<noteq> POM_V3_D \<or> length (tile_col op) \<noteq> POM_V3_D then Some False
      else do { rb \<leftarrow> nth_opt roots (t - 1);
                if \<not> verify_merkle B (blake B (row_before op)) x (path_before op) rb then Some False
                else do { ra \<leftarrow> nth_opt roots t;
                  if \<not> verify_merkle B (blake B (row_after op)) x (path_after op) ra then Some False
                  else do { off \<leftarrow> nth_opt offsets (t - 1);
                    col_root \<leftarrow> col_subtree_root B (tile_col op);
                    if \<not> verify_merkle B col_root (off * (POM_V3_TILE_CHUNKS div 8) + j) (col_path op) rt then Some False
                    else do { sn \<leftarrow> nth_opt snippets (t - 1);
                      if \<not> verify_merkle B (blake B (hash_bytes sn)) (off * POM_V3_TILE_CHUNKS) (snippet_path op) rt then Some False
                      else do { cell \<leftarrow> nth_opt (row_after op) j;
                        if rho8 (dot_i8 (row_before op) (tile_col op)) (rho_tweak (word_of_nat t) (word_of_nat x) (word_of_nat j)) \<noteq> cell
                        then Some False
                        else v3_verify_points B roots snippets offsets rt rest } } } } })"

definition verify_proof_v3 :: "blake3 \<Rightarrow> hash \<Rightarrow> u64 \<Rightarrow> u64 \<Rightarrow> pom_proof_v3 \<Rightarrow> hash \<Rightarrow> nat \<Rightarrow> bool option" where
  "verify_proof_v3 B pre_pow_hash nonce seed proof rt nch =
     (if length (v3_roots proof) \<noteq> POM_V3_K + 1 \<or> length (v3_snippets proof) \<noteq> POM_V3_K \<or> length (v3_checks proof) \<noteq> POM_V3_CHECKS
      then Some False
      else let n_tiles = nch div POM_V3_TILE_CHUNKS in
        if n_tiles = 0 then Some False
        else do { r0 \<leftarrow> v3_state_root B (v3_initial_state seed);
                  if r0 \<noteq> v3_roots proof ! 0 then Some False
                  else do { offsets \<leftarrow> v3_offsets seed n_tiles (v3_snippets proof);
                            v3_verify_points B (v3_roots proof) (v3_snippets proof) offsets rt
                              (zip (v3_check_points B pre_pow_hash nonce (v3_roots proof) (v3_snippets proof)) (v3_checks proof)) } })"

subsection \<open>The v4 transition and its SIMD dot products\<close>

abbreviation "POM_V4_D \<equiv> 32 :: nat"
abbreviation "POM_V4_K \<equiv> 256 :: nat"
abbreviation "POM_V4_TILE_BYTES \<equiv> 1024 :: nat"
abbreviation "POM_V4_TILE_CHUNKS \<equiv> 32 :: nat"
abbreviation "POM_V4_TILE_SUBTREE_DEPTH \<equiv> 5 :: nat"

definition POM_V4_S0_ROW_SALT :: u64 where "POM_V4_S0_ROW_SALT = 0x03421325594C3C51"
definition POM_V4_OFFSET_FIRST_SALT :: u64 where "POM_V4_OFFSET_FIRST_SALT = 0x6D1CCF96AC4D76F9"
definition POM_V4_OFFSET_STEP_SALT :: u64 where "POM_V4_OFFSET_STEP_SALT = 0x89050E78D34609EF"

definition v4_first_offset :: "u64 \<Rightarrow> nat \<Rightarrow> nat option" where
  "v4_first_offset seed n_tiles = checked_rem (mix64 (seed XOR POM_V4_OFFSET_FIRST_SALT)) n_tiles"

definition v4_next_offset :: "u64 \<Rightarrow> nat \<Rightarrow> hash \<Rightarrow> nat \<Rightarrow> nat option" where
  "v4_next_offset seed step snippet n_tiles =
     checked_rem (mix64 (seed XOR (word_of_nat (step + 1) * POM_V4_OFFSET_STEP_SALT) XOR snippet_fold snippet)) n_tiles"

definition v4_initial_state :: "u64 \<Rightarrow> bytes" where
  "v4_initial_state seed =
     concat (map (\<lambda>r. row_stream (POM_V4_D div 4) (mix64 (seed XOR (POM_V4_S0_ROW_SALT + word_of_nat r)))) [0..<POM_V4_D])"

text \<open>One transition with the dot product \<open>dot\<close>: cell \<open>(x, j)\<close> mixes row \<open>x\<close> of the state with column \<open>j\<close> of
  the tile.\<close>

definition v4_transition_with :: "(bytes \<Rightarrow> bytes \<Rightarrow> u32) \<Rightarrow> bytes \<Rightarrow> bytes \<Rightarrow> nat \<Rightarrow> bytes" where
  "v4_transition_with dot src tile step =
     concat (map (\<lambda>x. map (\<lambda>j. rho8 (dot (slice src (x * POM_V4_D) POM_V4_D) (slice tile (j * POM_V4_D) POM_V4_D))
         (rho_tweak (word_of_nat step) (word_of_nat x) (word_of_nat j))) [0..<POM_V4_D]) [0..<POM_V4_D])"

definition v4_transition_into_scalar :: "bytes \<Rightarrow> bytes \<Rightarrow> nat \<Rightarrow> bytes" where
  "v4_transition_into_scalar src tile step = v4_transition_with dot_i8 src tile step"

text \<open>SIMD lanes as lists of words, lane 0 first: sign extension of 8-bit lanes, the pairwise
  multiply-add of 16-bit lanes, lane-wise addition, and a byte shift of four 32-bit lanes.\<close>

definition cvtepi8_epi16 :: "bytes \<Rightarrow> 16 word list" where
  "cvtepi8_epi16 lanes = map scast lanes"

fun madd_epi16 :: "16 word list \<Rightarrow> 16 word list \<Rightarrow> u32 list" where
  "madd_epi16 (a0 # a1 # as) (b0 # b1 # bs) = word_of_int (sint a0 * sint b0 + sint a1 * sint b1) # madd_epi16 as bs"
| "madd_epi16 _ _ = []"

definition add_epi32 :: "u32 list \<Rightarrow> u32 list \<Rightarrow> u32 list" where
  "add_epi32 a b = map (\<lambda>(x, y). x + y) (zip a b)"

definition srli_lanes :: "u32 list \<Rightarrow> nat \<Rightarrow> u32 list" where
  "srli_lanes s k = drop k s @ replicate (min k (length s)) 0"

definition hsum4 :: "u32 list \<Rightarrow> u32" where
  "hsum4 s = (let s = add_epi32 s (srli_lanes s 2); s = add_epi32 s (srli_lanes s 1) in s ! 0)"

definition dot32_avx2 :: "bytes \<Rightarrow> bytes \<Rightarrow> u32" where
  "dot32_avx2 row col =
     (let p0 = madd_epi16 (cvtepi8_epi16 (slice row 0 16)) (cvtepi8_epi16 (slice col 0 16));
          p1 = madd_epi16 (cvtepi8_epi16 (slice row 16 16)) (cvtepi8_epi16 (slice col 16 16));
          sum = add_epi32 p0 p1;
          s = add_epi32 (take 4 sum) (drop 4 sum)
      in hsum4 s)"

fun dot32_sse41_loop :: "bytes \<Rightarrow> bytes \<Rightarrow> nat list \<Rightarrow> u32 list \<Rightarrow> u32 list" where
  "dot32_sse41_loop row col [] acc = acc"
| "dot32_sse41_loop row col (off # offs) acc =
     dot32_sse41_loop row col offs
       (add_epi32 acc (madd_epi16 (cvtepi8_epi16 (slice row off 8)) (cvtepi8_epi16 (slice col off 8))))"

definition dot32_sse41 :: "bytes \<Rightarrow> bytes \<Rightarrow> u32" where
  "dot32_sse41 row col = hsum4 (dot32_sse41_loop row col [0, 8, 16, 24] (replicate 4 0))"

definition vmull_s16 :: "16 word list \<Rightarrow> 16 word list \<Rightarrow> u32 list" where
  "vmull_s16 a b = map (\<lambda>(x, y). word_of_int (sint x * sint y)) (zip a b)"

fun dot32_neon_loop :: "bytes \<Rightarrow> bytes \<Rightarrow> nat list \<Rightarrow> u32 list \<Rightarrow> u32 list" where
  "dot32_neon_loop row col [] acc = acc"
| "dot32_neon_loop row col (h0 # halves) acc =
     (let a = slice row h0 16; b = slice col h0 16;
          a_lo = cvtepi8_epi16 (take 8 a); a_hi = cvtepi8_epi16 (drop 8 a);
          b_lo = cvtepi8_epi16 (take 8 b); b_hi = cvtepi8_epi16 (drop 8 b);
          acc = add_epi32 acc (vmull_s16 (take 4 a_lo) (take 4 b_lo));
          acc = add_epi32 acc (vmull_s16 (drop 4 a_lo) (drop 4 b_lo));
          acc = add_epi32 acc (vmull_s16 (take 4 a_hi) (take 4 b_hi));
          acc = add_epi32 acc (vmull_s16 (drop 4 a_hi) (drop 4 b_hi))
      in dot32_neon_loop row col halves acc)"

definition dot32_neon :: "bytes \<Rightarrow> bytes \<Rightarrow> u32" where
  "dot32_neon row col = sum_list (dot32_neon_loop row col [0, 16] (replicate 4 0))"

text \<open>The CPU feature found at run time picks the body; the three length assertions come first.\<close>

datatype simd = Avx2 | Sse41 | Neon | Scalar

definition v4_transition_into :: "simd \<Rightarrow> bytes \<Rightarrow> bytes \<Rightarrow> nat \<Rightarrow> bytes option" where
  "v4_transition_into feature src tile step =
     (if length src \<noteq> POM_V4_D * POM_V4_D \<or> length tile \<noteq> POM_V4_TILE_BYTES then None
      else Some (case feature of
          Avx2 \<Rightarrow> v4_transition_with dot32_avx2 src tile step
        | Sse41 \<Rightarrow> v4_transition_with dot32_sse41 src tile step
        | Neon \<Rightarrow> v4_transition_with dot32_neon src tile step
        | Scalar \<Rightarrow> v4_transition_into_scalar src tile step))"

definition v4_state_leaves :: "blake3 \<Rightarrow> bytes \<Rightarrow> hash list" where
  "v4_state_leaves B state = map (\<lambda>r. blake B (slice state (r * POM_V4_D) POM_V4_D)) [0..<POM_V4_D]"

definition v4_state_root :: "blake3 \<Rightarrow> bytes \<Rightarrow> hash option" where
  "v4_state_root B state = merkle_root B (v4_state_leaves B state)"

definition v4_tile_subtree_root :: "blake3 \<Rightarrow> bytes \<Rightarrow> hash option" where
  "v4_tile_subtree_root B tile = merkle_root B (map (blake B) (chunks 32 tile))"

subsection \<open>v4 prover and verifier\<close>

text \<open>Both loops run \<open>step\<close> from 1 to \<open>K\<close>; \<open>m\<close> counts the steps left.\<close>

fun v4_build_loop :: "simd \<Rightarrow> ('s \<Rightarrow> nat \<Rightarrow> hash option) \<Rightarrow> ('s \<Rightarrow> nat \<Rightarrow> (hash list \<times> 's) option) \<Rightarrow> u64 \<Rightarrow> nat
    \<Rightarrow> nat \<Rightarrow> nat \<Rightarrow> bytes \<Rightarrow> nat \<Rightarrow> 's \<Rightarrow> (bytes list \<times> pom_v4_range_proof list \<times> bytes \<times> 's) option" where
  "v4_build_loop feature rd pth seed n_tiles step 0 state off s = Some ([], [], state, s)"
| "v4_build_loop feature rd pth seed n_tiles step (Suc m) state off s =
     do { tile \<leftarrow> read_chunks rd s (off * POM_V4_TILE_CHUNKS) POM_V4_TILE_CHUNKS;
          let snippet = hash_of_bytes (take 32 tile);
          (p, s) \<leftarrow> pth s (off * POM_V4_TILE_CHUNKS);
          path \<leftarrow> drop_path POM_V4_TILE_SUBTREE_DEPTH p;
          state \<leftarrow> v4_transition_into feature state tile step;
          off \<leftarrow> (if step < POM_V4_K then v4_next_offset seed step snippet n_tiles else Some off);
          (tiles, merkle, fin, s) \<leftarrow> v4_build_loop feature rd pth seed n_tiles (step + 1) m state off s;
          Some (tile # tiles, \<lparr>range_path = path\<rparr> # merkle, fin, s) }"

definition build_proof_v4 :: "blake3 \<Rightarrow> simd \<Rightarrow> ('s \<Rightarrow> nat \<Rightarrow> hash option) \<Rightarrow> ('s \<Rightarrow> nat \<Rightarrow> (hash list \<times> 's) option) \<Rightarrow> nat
    \<Rightarrow> u8 \<Rightarrow> u64 \<Rightarrow> 's \<Rightarrow> proof_error + (pom_proof_v4 \<times> u64) \<times> 's" where
  "build_proof_v4 B feature rd pth nch tr seed s =
     (let n_tiles = nch div POM_V4_TILE_CHUNKS in
      if n_tiles = 0 then Inl BlobTooSmall
      else no_panic (do { off \<leftarrow> v4_first_offset seed n_tiles;
                          (tiles, merkle, state, s) \<leftarrow> v4_build_loop feature rd pth seed n_tiles 1 POM_V4_K (v4_initial_state seed) off s;
                          root \<leftarrow> v4_state_root B state;
                          Some ((\<lparr>v4_tier = tr, v4_tiles = tiles, v4_merkle = merkle\<rparr>, fold64 root), s) }))"

fun v4_verify_loop :: "blake3 \<Rightarrow> simd \<Rightarrow> u64 \<Rightarrow> nat \<Rightarrow> hash \<Rightarrow> nat \<Rightarrow> (bytes \<times> pom_v4_range_proof) list \<Rightarrow> bytes \<Rightarrow> nat \<Rightarrow> proof_error + bytes" where
  "v4_verify_loop B feature seed n_tiles rt step [] state off = Inr state"
| "v4_verify_loop B feature seed n_tiles rt step ((tile, rp) # rest) state off =
     (if length tile \<noteq> POM_V4_TILE_BYTES then Inl (TileShape step)
      else rbind (no_panic (v4_tile_subtree_root B tile)) (\<lambda>tr.
        if \<not> verify_merkle B tr off (range_path rp) rt then Inl (RangeProof step)
        else rbind (no_panic (v4_transition_into feature state tile step)) (\<lambda>state.
          rbind (no_panic (if step < POM_V4_K then v4_next_offset seed step (hash_of_bytes (take 32 tile)) n_tiles else Some off))
            (\<lambda>off. v4_verify_loop B feature seed n_tiles rt (step + 1) rest state off))))"

definition verify_proof_v4 :: "blake3 \<Rightarrow> simd \<Rightarrow> u64 \<Rightarrow> pom_proof_v4 \<Rightarrow> hash \<Rightarrow> nat \<Rightarrow> proof_error + u64" where
  "verify_proof_v4 B feature seed proof rt nch =
     (if length (v4_tiles proof) \<noteq> POM_V4_K \<or> length (v4_merkle proof) \<noteq> POM_V4_K then Inl WrongShape
      else let n_tiles = nch div POM_V4_TILE_CHUNKS in
        if n_tiles = 0 then Inl BlobTooSmall
        else rbind (no_panic (v4_first_offset seed n_tiles)) (\<lambda>off.
          rbind (v4_verify_loop B feature seed n_tiles rt 1 (zip (v4_tiles proof) (v4_merkle proof)) (v4_initial_state seed) off)
            (\<lambda>state. rbind (no_panic (v4_state_root B state)) (\<lambda>root. Inr (fold64 root)))))"

subsection \<open>The SIMD paths equal the scalar one\<close>

lemma sint_scast_8_16: "sint (scast (a :: u8) :: 16 word) = sint a"
  by (rule sint_up_scast) (simp add: is_up)

lemma scast_8_16_32: "(scast (scast (a :: u8) :: 16 word) :: u32) = scast a"
  by (metis scast_eq sint_scast_8_16)

lemma sum_zeros [simp]: "sum_list (replicate n (0 :: 'a::comm_monoid_add)) = 0"
  by (induction n) simp_all

text \<open>Every lane vector sums to the dot product of the lanes it multiplied.\<close>

lemma sum_madd: "length a = length b \<Longrightarrow> even (length a) \<Longrightarrow>
  sum_list (madd_epi16 (cvtepi8_epi16 a) (cvtepi8_epi16 b)) = dot_i8 a b"
proof (induction a arbitrary: b rule: induct_list012)
  case (3 x y zs)
  then obtain u v ws where b: "b = u # v # ws" by (auto simp: length_Suc_conv Suc_length_conv)
  with 3 show ?case by (simp add: cvtepi8_epi16_def dot_i8_def sint_scast_8_16 add.assoc)
qed (auto simp: cvtepi8_epi16_def dot_i8_def)

lemma length_madd: "length a = length b \<Longrightarrow> length (madd_epi16 a b) = length a div 2"
  by (induction a b rule: madd_epi16.induct) auto

lemma sum_vmull: "sum_list (vmull_s16 (cvtepi8_epi16 a) (cvtepi8_epi16 b)) = dot_i8 a b"
  by (induction a b rule: list_induct2') (simp_all add: vmull_s16_def cvtepi8_epi16_def dot_i8_def scast_8_16_32)

lemma sum_add_epi32: "length a = length b \<Longrightarrow> sum_list (add_epi32 a b) = sum_list a + sum_list b"
  by (induction a b rule: list_induct2) (simp_all add: add_epi32_def algebra_simps)

lemma length_add_epi32 [simp]: "length (add_epi32 a b) = min (length a) (length b)"
  by (simp add: add_epi32_def)

lemma hsum4_eq: "length s = 4 \<Longrightarrow> hsum4 s = sum_list s"
  by (auto simp: hsum4_def add_epi32_def srli_lanes_def length_Suc_conv numeral_eq_Suc Let_def algebra_simps)

lemma dot_i8_append: "length a = length b \<Longrightarrow> dot_i8 (a @ a') (b @ b') = dot_i8 a b + dot_i8 a' b'"
  by (simp add: dot_i8_def)

lemma dot_i8_split:
  assumes "length a = length b"
  shows "dot_i8 a b = dot_i8 (take k a) (take k b) + dot_i8 (drop k a) (drop k b)"
  using dot_i8_append [of "take k a" "take k b" "drop k a" "drop k b"] assms by simp

lemma dot32_avx2_eq:
  assumes "length row = 32" "length col = 32"
  shows "dot32_avx2 row col = dot_i8 row col"
proof -
  let ?p0 = "madd_epi16 (cvtepi8_epi16 (slice row 0 16)) (cvtepi8_epi16 (slice col 0 16))"
  let ?p1 = "madd_epi16 (cvtepi8_epi16 (slice row 16 16)) (cvtepi8_epi16 (slice col 16 16))"
  have len: "length ?p0 = 8" "length ?p1 = 8"
    using assms by (simp_all add: length_madd cvtepi8_epi16_def)
  have "dot32_avx2 row col = sum_list (take 4 (add_epi32 ?p0 ?p1)) + sum_list (drop 4 (add_epi32 ?p0 ?p1))"
    using len by (simp add: dot32_avx2_def Let_def hsum4_eq sum_add_epi32)
  also have "\<dots> = sum_list (add_epi32 ?p0 ?p1)" by (simp flip: sum_list_append)
  also have "\<dots> = dot_i8 (take 16 row) (take 16 col) + dot_i8 (drop 16 row) (drop 16 col)"
    using len assms sum_madd [of "take 16 row" "take 16 col"] sum_madd [of "drop 16 row" "drop 16 col"]
    by (simp add: sum_add_epi32)
  also have "\<dots> = dot_i8 row col" using dot_i8_split [of row col 16] assms by simp
  finally show ?thesis .
qed

lemma dot32_sse41_eq:
  assumes "length row = 32" "length col = 32"
  shows "dot32_sse41 row col = dot_i8 row col"
proof -
  define p where "p off = madd_epi16 (cvtepi8_epi16 (slice row off 8)) (cvtepi8_epi16 (slice col off 8))" for off
  have len: "length (p off) = 4" if "off \<in> {0, 8, 16, 24}" for off
    using assms that by (auto simp: p_def length_madd cvtepi8_epi16_def)
  have p: "sum_list (p off) = dot_i8 (slice row off 8) (slice col off 8)" if "off \<in> {0, 8, 16, 24}" for off
    unfolding p_def using that assms by (intro sum_madd) auto
  have "dot32_sse41 row col = dot_i8 (slice row 0 8) (slice col 0 8) + dot_i8 (slice row 8 8) (slice col 8 8)
      + dot_i8 (slice row 16 8) (slice col 16 8) + dot_i8 (slice row 24 8) (slice col 24 8)"
    unfolding dot32_sse41_def dot32_sse41_loop.simps p_def [symmetric]
    using len p by (simp add: hsum4_eq sum_add_epi32 del: One_nat_def)
  then show ?thesis
    using dot_i8_split [of row col 8] dot_i8_split [of "drop 8 row" "drop 8 col" 8] dot_i8_split [of "drop 16 row" "drop 16 col" 8] assms
    by (simp add: add.assoc)
qed

lemma dot32_neon_eq:
  assumes "length row = 32" "length col = 32"
  shows "dot32_neon row col = dot_i8 row col"
proof -
  define q where "q off = vmull_s16 (cvtepi8_epi16 (slice row off 4)) (cvtepi8_epi16 (slice col off 4))" for off
  have len: "length (q off) = 4" if "off + 4 \<le> 32" for off
    using assms that by (simp add: q_def vmull_s16_def cvtepi8_epi16_def)
  have cv: "take n (cvtepi8_epi16 a) = cvtepi8_epi16 (take n a)" "drop n (cvtepi8_epi16 a) = cvtepi8_epi16 (drop n a)" for n a
    by (simp_all add: cvtepi8_epi16_def take_map drop_map)
  have lp: "dot32_neon_loop row col (h0 # hs) acc = dot32_neon_loop row col hs
      (add_epi32 (add_epi32 (add_epi32 (add_epi32 acc (q h0)) (q (h0 + 4))) (q (h0 + 8))) (q (h0 + 12)))" for h0 hs acc
    by (simp add: Let_def cv q_def drop_take min_def add.commute)
  have "dot32_neon row col = sum_list (q 0) + sum_list (q 4) + sum_list (q 8) + sum_list (q 12)
      + sum_list (q 16) + sum_list (q 20) + sum_list (q 24) + sum_list (q 28)"
    unfolding dot32_neon_def lp using len by (simp add: sum_add_epi32)
  also have "\<dots> = dot_i8 row col"
    using dot_i8_split [of row col 4] dot_i8_split [of "drop 4 row" "drop 4 col" 4] dot_i8_split [of "drop 8 row" "drop 8 col" 4]
      dot_i8_split [of "drop 12 row" "drop 12 col" 4] dot_i8_split [of "drop 16 row" "drop 16 col" 4]
      dot_i8_split [of "drop 20 row" "drop 20 col" 4] dot_i8_split [of "drop 24 row" "drop 24 col" 4] assms
    by (simp add: q_def sum_vmull add.assoc)
  finally show ?thesis .
qed

lemma v4_transition_with_cong:
  assumes "\<And>row col. length row = 32 \<Longrightarrow> length col = 32 \<Longrightarrow> dot row col = dot_i8 row col"
    and "length src = 1024" "length tile = 1024"
  shows "v4_transition_with dot src tile step = v4_transition_with dot_i8 src tile step"
proof -
  have "dot (slice src (x * 32) 32) (slice tile (j * 32) 32) = dot_i8 (slice src (x * 32) 32) (slice tile (j * 32) 32)"
    if "x < 32" "j < 32" for x j
    using that assms(2,3) by (intro assms(1)) simp_all
  then show ?thesis unfolding v4_transition_with_def by (intro arg_cong [of _ _ concat] map_cong refl) simp
qed

lemma v4_transition_into_eq:
  assumes "length src = 1024" "length tile = 1024"
  shows "v4_transition_into feature src tile step = Some (v4_transition_into_scalar src tile step)"
proof -
  have *: "v4_transition_with dot32_avx2 src tile step = v4_transition_with dot_i8 src tile step"
    "v4_transition_with dot32_sse41 src tile step = v4_transition_with dot_i8 src tile step"
    "v4_transition_with dot32_neon src tile step = v4_transition_with dot_i8 src tile step"
    by (rule v4_transition_with_cong [OF _ assms], simp only: dot32_avx2_eq dot32_sse41_eq dot32_neon_eq)+
  have "\<not> (length src \<noteq> 32 * 32 \<or> length tile \<noteq> 1024)" using assms by simp
  then show ?thesis
    unfolding v4_transition_into_def v4_transition_into_scalar_def *
    by (cases feature) (simp_all only: if_False simd.case)
qed

lemma length_v4_transition [simp]: "length (v4_transition_into_scalar src tile step) = 1024"
  by (simp add: v4_transition_into_scalar_def v4_transition_with_def length_concat comp_def sum_list_triv)

lemma length_row_stream [simp]: "length (row_stream k h) = 4 * k"
  by (induction k arbitrary: h) simp_all

lemma length_v4_initial_state [simp]: "length (v4_initial_state seed) = 1024"
  by (simp add: v4_initial_state_def length_concat comp_def sum_list_triv)

subsection \<open>Tiles of a committed model\<close>

definition tile_at :: "hash list \<Rightarrow> nat \<Rightarrow> bytes" where
  "tile_at cs off = concat (map hash_bytes (slice cs (off * 32) 32))"

definition tile_words :: "bytes \<Rightarrow> hash list" where
  "tile_words tile = map hash_of_bytes (chunks 32 tile)"

lemma length_concat_hash_bytes [simp]: "length (concat (map hash_bytes g)) = 32 * length g"
  by (induction g) simp_all

lemma chunks_concat_hash_bytes [simp]: "chunks 32 (concat (map hash_bytes g)) = map hash_bytes g"
proof (induction g)
  case (Cons c g)
  have "hash_bytes c @ concat (map hash_bytes g) \<noteq> []" by (metis append_is_Nil_conv length_le(4) list.size(3) zero_neq_numeral)
  with Cons show ?case by (simp add: chunks.simps [of 32 "hash_bytes c @ _"])
qed simp

lemma tile_words_concat [simp]: "tile_words (concat (map hash_bytes g)) = g"
  by (simp add: tile_words_def comp_def)

lemma concat_tile_words:
  assumes "length tile = 32 * n"
  shows "concat (map hash_bytes (tile_words tile)) = tile" and "length (tile_words tile) = n"
proof -
  have len: "length (chunks 32 tile) = n" using assms by (simp add: length_chunks)
  then show "length (tile_words tile) = n" by (simp add: tile_words_def)
  have "length (chunks 32 tile ! i) = 32" if "i < n" for i
    using that len assms by (simp add: nth_chunks)
  then have "map hash_bytes (tile_words tile) = chunks 32 tile"
    using len by (intro nth_equalityI) (simp_all add: tile_words_def hash_bytes_hash_of_bytes)
  then show "concat (map hash_bytes (tile_words tile)) = tile" by (simp add: concat_chunks)
qed

lemma tile_root_eq: "length tile = 32 * n \<Longrightarrow> merkle_root B (map (blake B) (chunks 32 tile)) = merkle_root B (chunk_leaves B (tile_words tile))"
  using concat_tile_words(1) [of tile n] chunks_concat_hash_bytes [of "tile_words tile"]
  by (simp add: chunk_leaves_def comp_def)

lemma read_chunks_eq:
  assumes "\<And>i. i < length cs \<Longrightarrow> rd s i = Some (cs ! i)" and "first + count \<le> length cs"
  shows "read_chunks rd s first count = Some (concat (map hash_bytes (slice cs first count)))"
proof -
  have "those (map (\<lambda>c. map_option hash_bytes (rd s (first + c))) [0..<count])
      = Some (map (\<lambda>c. hash_bytes (cs ! (first + c))) [0..<count])"
    using assms by (intro those_map_Some) simp
  moreover have "map (\<lambda>c. hash_bytes (cs ! (first + c))) [0..<count] = map hash_bytes (slice cs first count)"
    using arg_cong [OF map_nth_slice [OF assms(2)], of "map hash_bytes"] by (simp add: comp_def)
  ultimately show ?thesis by (simp add: read_chunks_def)
qed

lemma tile_in_range: "off < n div 32 \<Longrightarrow> (off + 1) * 2 ^ 5 \<le> (n :: nat)"
  using less_eq_div_iff_mult_less_eq [of 32 "off + 1" n] by simp

lemma tile_at_facts:
  assumes "off < length cs div 32"
  shows "length (tile_at cs off) = 1024" and "hash_of_bytes (take 32 (tile_at cs off)) = cs ! (off * 32)"
    and "tile_words (tile_at cs off) = slice cs (off * 32) 32"
proof -
  have le: "off * 32 + 32 \<le> length cs" using tile_in_range [OF assms] by simp
  then show "length (tile_at cs off) = 1024" by (simp add: tile_at_def)
  show "tile_words (tile_at cs off) = slice cs (off * 32) 32" by (simp add: tile_at_def)
  have "slice cs (off * 32) 32 = cs ! (off * 32) # slice cs (off * 32 + 1) 31"
    using le by (simp add: Cons_nth_drop_Suc [symmetric] take_Cons')
  then show "hash_of_bytes (take 32 (tile_at cs off)) = cs ! (off * 32)" by (simp add: tile_at_def)
qed

subsection \<open>v4: honest proofs are accepted, accepted proofs are honest\<close>

definition v4_offset_after :: "u64 \<Rightarrow> nat \<Rightarrow> hash \<Rightarrow> nat \<Rightarrow> nat" where
  "v4_offset_after seed step snippet n_tiles =
     unat (mix64 (seed XOR (word_of_nat (step + 1) * POM_V4_OFFSET_STEP_SALT) XOR snippet_fold snippet)) mod n_tiles"

lemma v4_next_offset_eq: "0 < nt \<Longrightarrow> v4_next_offset seed step sn nt = Some (v4_offset_after seed step sn nt)"
  by (simp add: v4_next_offset_def v4_offset_after_def checked_rem_def)

lemma v4_offset_less: "0 < nt \<Longrightarrow> v4_offset_after seed step sn nt < nt"
  by (simp add: v4_offset_after_def)

text \<open>Reference: \<open>m\<close> steps of the walk over the tiles of \<open>cs\<close>.\<close>

fun v4_ref :: "hash list \<Rightarrow> u64 \<Rightarrow> nat \<Rightarrow> nat \<Rightarrow> bytes \<Rightarrow> nat \<Rightarrow> bytes" where
  "v4_ref cs seed step 0 state off = state"
| "v4_ref cs seed step (Suc m) state off =
     v4_ref cs seed (step + 1) m (v4_transition_into_scalar state (tile_at cs off) step)
       (if step < POM_V4_K then v4_offset_after seed step (cs ! (off * 32)) (length cs div 32) else off)"

definition v4_reference :: "blake3 \<Rightarrow> hash list \<Rightarrow> u64 \<Rightarrow> u64 option" where
  "v4_reference B cs seed = map_option fold64 (v4_state_root B
     (v4_ref cs seed 1 POM_V4_K (v4_initial_state seed)
       (unat (mix64 (seed XOR POM_V4_OFFSET_FIRST_SALT)) mod (length cs div 32))))"

fun v4_inputs :: "blake3 \<Rightarrow> u64 \<Rightarrow> nat \<Rightarrow> nat \<Rightarrow> (bytes \<times> pom_v4_range_proof) list \<Rightarrow> nat \<Rightarrow> bytes set" where
  "v4_inputs B seed nt step [] off = {}"
| "v4_inputs B seed nt step ((tile, rp) # rest) off =
     group_inputs B (tile_words tile) off (range_path rp)
     \<union> v4_inputs B seed nt (step + 1) rest
        (if step < POM_V4_K then v4_offset_after seed step (hash_of_bytes (take 32 tile)) nt else off)"

context chunk_store
begin

lemma v4_build_loop_ok:
  assumes nt: "nt = length cs div 32"
  shows "holds s cs \<Longrightarrow> root_of s = rt0 \<Longrightarrow> off < nt \<Longrightarrow> length state = 1024 \<Longrightarrow>
    \<exists>tiles mk s'. v4_build_loop feature rd pth seed nt step m state off s = Some (tiles, mk, v4_ref cs seed step m state off, s')
      \<and> holds s' cs \<and> length tiles = m \<and> length mk = m
      \<and> v4_verify_loop B feature' seed nt rt0 step (zip tiles mk) state off = Inr (v4_ref cs seed step m state off)"
proof (induction m arbitrary: step state off s)
  case (Suc m)
  have off: "off < length cs div 32" using Suc.prems(3) nt by simp
  note t = tile_at_facts [OF off]
  have nt0: "0 < nt" using Suc.prems(3) by simp
  have rng: "(off + 1) * 2 ^ 5 \<le> length cs" by (rule tile_in_range [OF off])
  obtain p s1 r where p: "pth s (off * 32) = Some (p, s1)" "holds s1 cs" "5 \<le> length p"
    "merkle_root B (chunk_leaves B (slice cs (off * 32) 32)) = Some r" "verify_merkle B r off (drop 5 p) rt0"
    using group_verifies [OF Suc.prems(1) rng] Suc.prems(2) by auto
  have r1: "root_of s1 = rt0" using root_stable [OF Suc.prems(1) p(2)] Suc.prems(2) by simp
  have rdt: "read_chunks rd s (off * 32) 32 = Some (tile_at cs off)"
    using read_chunks_eq [of cs rd s "off * 32" 32] rd_ok [OF Suc.prems(1)] rng by (simp add: tile_at_def)
  let ?st = "v4_transition_into_scalar state (tile_at cs off) step"
  let ?off = "if step < 256 then v4_offset_after seed step (cs ! (off * 32)) nt else off"
  have off': "?off < nt" using Suc.prems(3) v4_offset_less [OF nt0] by simp
  obtain tiles mk s2 where IH: "v4_build_loop feature rd pth seed nt (step + 1) m ?st ?off s1 = Some (tiles, mk, v4_ref cs seed (step + 1) m ?st ?off, s2)"
    "holds s2 cs" "length tiles = m" "length mk = m"
    "v4_verify_loop B feature' seed nt rt0 (step + 1) (zip tiles mk) ?st ?off = Inr (v4_ref cs seed (step + 1) m ?st ?off)"
    using Suc.IH [OF p(2) r1 off', of ?st "step + 1"] by auto
  have tr: "v4_transition_into f state (tile_at cs off) step = Some ?st" for f
    using v4_transition_into_eq Suc.prems(4) t(1) by simp
  have nx: "(if step < 256 then v4_next_offset seed step (hash_of_bytes (take 32 (tile_at cs off))) nt else Some off) = Some ?off"
    using v4_next_offset_eq [OF nt0] by (simp add: t(2))
  have root: "v4_tile_subtree_root B (tile_at cs off) = Some r"
    unfolding v4_tile_subtree_root_def using tile_root_eq [of "tile_at cs off" 32 B] t p(4) by simp
  have b: "v4_build_loop feature rd pth seed nt step (Suc m) state off s
      = Some (tile_at cs off # tiles, \<lparr>range_path = drop 5 p\<rparr> # mk, v4_ref cs seed (step + 1) m ?st ?off, s2)"
    using rdt p(1,3) tr [of feature] nx IH(1) by (simp add: drop_path_def Let_def split del: if_split)
  have v: "v4_verify_loop B feature' seed nt rt0 step (zip (tile_at cs off # tiles) (\<lparr>range_path = drop 5 p\<rparr> # mk)) state off
      = Inr (v4_ref cs seed (step + 1) m ?st ?off)"
    using t(1) root p(5) tr [of feature'] nx IH(5) by (simp split del: if_split)
  show ?case using b v IH(2-4) nt by simp
qed simp

lemma build_proof_v4_ok:
  assumes h: "holds s cs" and n: "0 < length cs div 32"
  shows "\<exists>pf fs s'. build_proof_v4 B feature rd pth (length cs) tr seed s = Inr ((pf, fs), s') \<and> holds s' cs
    \<and> v4_reference B cs seed = Some fs \<and> verify_proof_v4 B feature' seed pf (root_of s) (length cs) = Inr fs"
proof -
  let ?nt = "length cs div 32" and ?off = "unat (mix64 (seed XOR POM_V4_OFFSET_FIRST_SALT)) mod (length cs div 32)"
  let ?st = "v4_ref cs seed 1 256 (v4_initial_state seed) ?off"
  obtain tiles mk s' where b: "v4_build_loop feature rd pth seed ?nt 1 256 (v4_initial_state seed) ?off s = Some (tiles, mk, ?st, s')"
    and s': "holds s' cs" "length tiles = 256" "length mk = 256"
    and v: "v4_verify_loop B feature' seed ?nt (root_of s) 1 (zip tiles mk) (v4_initial_state seed) ?off = Inr ?st"
    using v4_build_loop_ok [where off = ?off and state = "v4_initial_state seed" and seed = seed and step = 1 and m = 256
        and feature = feature and feature' = feature', OF refl h refl] n by auto
  have off: "v4_first_offset seed ?nt = Some ?off" using n by (simp add: v4_first_offset_def checked_rem_def)
  obtain root where root: "v4_state_root B ?st = Some root"
    using merkle_root_eq [of "v4_state_leaves B ?st" B] by (simp add: v4_state_root_def v4_state_leaves_def)
  have n0: "length cs div 32 \<noteq> 0" using n by simp
  have "build_proof_v4 B feature rd pth (length cs) tr seed s
      = Inr ((\<lparr>v4_tier = tr, v4_tiles = tiles, v4_merkle = mk\<rparr>, fold64 root), s')"
    unfolding build_proof_v4_def Let_def if_not_P [OF n0] using b off root by simp
  moreover have "verify_proof_v4 B feature' seed \<lparr>v4_tier = tr, v4_tiles = tiles, v4_merkle = mk\<rparr> (root_of s) (length cs) = Inr (fold64 root)"
    unfolding verify_proof_v4_def Let_def if_not_P [OF n0] using s' v off root by simp
  moreover have "v4_reference B cs seed = Some (fold64 root)" using root by (simp add: v4_reference_def)
  ultimately show ?thesis using s'(1) by blast
qed

end

lemma v4_verify_loop_sound:
  assumes root: "merkle_root B (chunk_leaves B cs) = Some rt0" and nt: "nt = length cs div 32"
  shows "v4_verify_loop B feature seed nt rt0 step tps state off = Inr fin \<Longrightarrow> off < nt \<Longrightarrow> length state = 1024 \<Longrightarrow>
    fin = v4_ref cs seed step (length tps) state off
    \<or> blake_clash B (v4_inputs B seed nt step tps off) (commit_inputs B cs)"
proof (induction tps arbitrary: step state off)
  case (Cons tp tps)
  obtain tile rp where tp: "tp = (tile, rp)" by (cases tp)
  have off: "off < length cs div 32" and nt0: "0 < nt" using Cons.prems(2) nt by auto
  have len: "length tile = 1024" using Cons.prems(1) by (auto simp: tp split: if_splits)
  obtain r where r: "v4_tile_subtree_root B tile = Some r" "verify_merkle B r off (range_path rp) rt0"
    using Cons.prems(1) len by (cases "v4_tile_subtree_root B tile") (auto simp: tp split: if_splits)
  let ?st = "v4_transition_into_scalar state tile step"
  let ?off = "if step < 256 then v4_offset_after seed step (hash_of_bytes (take 32 tile)) nt else off"
  have nx: "(if step < 256 then v4_next_offset seed step (hash_of_bytes (take 32 tile)) nt else Some off) = Some ?off"
    using v4_next_offset_eq [OF nt0] by simp
  have rest: "v4_verify_loop B feature seed nt rt0 (step + 1) tps ?st ?off = Inr fin"
    using Cons.prems(1) len r v4_transition_into_eq [OF Cons.prems(3) len, of feature step] nx
    by (simp add: tp split del: if_split)
  have off': "?off < nt" using Cons.prems(2) v4_offset_less [OF nt0] by simp
  have g: "length (tile_words tile) = 2 ^ 5" "merkle_root B (chunk_leaves B (tile_words tile)) = Some r"
    using concat_tile_words(2) [of tile 32] len r(1) tile_root_eq [of tile 32 B] by (simp_all add: v4_tile_subtree_root_def)
  have "tile_words tile = slice cs (off * 32) 32
      \<or> blake_clash B (group_inputs B (tile_words tile) off (range_path rp)) (commit_inputs B cs)"
    using group_opening_sound [OF root tile_in_range [OF off] g r(2)] by simp
  moreover have "tile = tile_at cs off" if "tile_words tile = slice cs (off * 32) 32"
    using concat_tile_words(1) [of tile 32] len that by (simp add: tile_at_def)
  ultimately show ?case
    using Cons.IH [OF rest off'] tile_at_facts(2) [OF off] nt unfolding tp
    by (auto simp: blake_clash_def)
qed simp

text \<open>C25. The SIMD transitions are bit-identical to the scalar one: whichever CPU feature is found, the
  transition of a state by a tile is the scalar reference.\<close>

theorem simd_transition_matches_scalar:
  assumes "length src = POM_V4_D * POM_V4_D" and "length tile = POM_V4_TILE_BYTES"
  shows "v4_transition_into feature src tile step = Some (v4_transition_into_scalar src tile step)"
  using assms v4_transition_into_eq [of src tile feature step] by simp

text \<open>C13. Completeness of v4 proofs: over the weight index of a model with at least one tile, \<open>build_proof_v4\<close>
  succeeds, its final state is that of the reference walk, and \<open>verify_proof_v4\<close> accepts the proof with the
  same final state on a machine with any CPU feature.\<close>

theorem build_proof_v4_verifies:
  assumes "index_holds B ix cs" and "POM_V4_TILE_CHUNKS \<le> n_chunks ix"
  shows "\<exists>pf fs ix'. build_proof_v4 B feature read_chunk_bytes (merkle_path B on mx) (n_chunks ix) tr seed ix = Inr ((pf, fs), ix')
    \<and> index_holds B ix' cs \<and> v4_reference B cs seed = Some fs
    \<and> verify_proof_v4 B feature' seed pf (r_t ix) (n_chunks ix) = Inr fs"
  using ix_store.build_proof_v4_ok [OF assms(1), of feature on mx tr seed feature'] assms(2)
  by (simp add: index_holdsD(2) [OF assms(1)] div_greater_zero_iff)

text \<open>C12. Soundness of v4 proofs: a final state \<open>verify_proof_v4\<close> derives against the root of the chunks \<open>cs\<close>
  is the one of the reference walk over \<open>cs\<close>, or verifier and committer hashed a collision.\<close>

theorem verify_proof_v4_sound:
  assumes "merkle_root B (chunk_leaves B cs) = Some r"
    and "verify_proof_v4 B feature seed proof r (length cs) = Inr fs"
  shows "v4_reference B cs seed = Some fs
    \<or> blake_clash B (v4_inputs B seed (length cs div 32) 1 (zip (v4_tiles proof) (v4_merkle proof))
          (unat (mix64 (seed XOR POM_V4_OFFSET_FIRST_SALT)) mod (length cs div 32))) (commit_inputs B cs)"
proof -
  let ?nt = "length cs div 32" and ?off = "unat (mix64 (seed XOR POM_V4_OFFSET_FIRST_SALT)) mod (length cs div 32)"
  let ?z = "zip (v4_tiles proof) (v4_merkle proof)"
  have len: "length (v4_tiles proof) = 256" "length (v4_merkle proof) = 256" and nt0: "?nt \<noteq> 0"
    using assms(2) by (auto simp: verify_proof_v4_def Let_def split: if_splits)
  then have off: "v4_first_offset seed ?nt = Some ?off" by (simp add: v4_first_offset_def checked_rem_def)
  obtain st root where st: "v4_verify_loop B feature seed ?nt r 1 ?z (v4_initial_state seed) ?off = Inr st"
    "v4_state_root B st = Some root" "fs = fold64 root"
    using assms(2) len off unfolding verify_proof_v4_def Let_def if_not_P [OF nt0]
    by (auto simp: rbind_Inr no_panic_Inr)
  have "?off < ?nt" using nt0 by simp
  from v4_verify_loop_sound [OF assms(1) refl st(1) this length_v4_initial_state] len st(2,3) show ?thesis
    by (auto simp: v4_reference_def)
qed

theorem simd_transition_matches_scalar_witness:
  "v4_transition_into Avx2 (replicate 1024 0x80) (replicate 1024 0x80) 18
    = Some (v4_transition_into_scalar (replicate 1024 0x80) (replicate 1024 0x80) 18)"
  using simd_transition_matches_scalar [of "replicate 1024 0x80" "replicate 1024 0x80" Avx2 18] by simp

theorem build_proof_v4_verifies_witness:
  "\<exists>ix pf fs ix'. index_holds toy_blake3 ix toy_chunks
    \<and> build_proof_v4 toy_blake3 Avx2 read_chunk_bytes (merkle_path toy_blake3 True 8) 34 1 9 ix = Inr ((pf, fs), ix')
    \<and> verify_proof_v4 toy_blake3 Neon 9 pf (r_t ix) 34 = Inr fs"
proof -
  obtain ix where ix: "index_holds toy_blake3 ix toy_chunks" using toy_index ..
  have "n_chunks ix = 34" using index_holdsD(2) [OF ix] by simp
  with build_proof_v4_verifies [OF ix, of Avx2 True 8 1 9 Neon] ix show ?thesis by auto
qed

theorem verify_proof_v4_sound_witness:
  "\<exists>pf r fs. merkle_root toy_blake3 (chunk_leaves toy_blake3 toy_chunks) = Some r
    \<and> verify_proof_v4 toy_blake3 Scalar 9 pf r 34 = Inr fs
    \<and> (v4_reference toy_blake3 toy_chunks 9 = Some fs
      \<or> blake_clash toy_blake3 (v4_inputs toy_blake3 9 1 1 (zip (v4_tiles pf) (v4_merkle pf)) 0) (commit_inputs toy_blake3 toy_chunks))"
proof -
  obtain ix where ix: "index_holds toy_blake3 ix toy_chunks" using toy_index ..
  obtain pf fs where pf: "verify_proof_v4 toy_blake3 Scalar 9 pf (r_t ix) 34 = Inr fs"
    using ix_store.build_proof_v4_ok [OF ix, of Scalar True 8 1 9 Scalar] by auto
  from verify_proof_v4_sound [OF index_holds_root [OF ix], of Scalar 9 pf fs] pf index_holds_root [OF ix]
  show ?thesis by (intro exI [of _ pf] exI [of _ "r_t ix"] exI [of _ fs]) simp
qed

end
