(* ===== verification/Pom_V5.thy ===== *)
theory Pom_V5
  imports Pom_Tiles
begin

section \<open>PoM v5: the walk over weight tiles and pad tiles\<close>

text \<open>
  Model of \<open>src/pom_v5.rs\<close>. The pad is a table of pseudo-random tiles derived from a per-tier seed by
  an add-rotate-xor permutation; a fixed number of evenly spread steps of the walk reads pad
  tiles, the others weight tiles. The shared \<open>walk\<close> takes the tile source as a closure with a
  state of its own: the prover's closure records tiles and paths, the verifier's closure checks
  them.
\<close>

subsection \<open>The pad\<close>

abbreviation "POM_V5_TILE_ENTRIES \<equiv> 32 :: nat"
abbreviation "POM_V5_P_ROUNDS \<equiv> 1920 :: nat"

definition POM_V5_PAD_TILES_H14 :: "nat list" where
  "POM_V5_PAD_TILES_H14 = [638976, 3213312, 4804608, 6471680, 2450432]"

text \<open>\<open>b"KERYX-POM-V5-PAD"\<close>\<close>

definition PAD_DOMAIN :: bytes where
  "PAD_DOMAIN = [75, 69, 82, 89, 88, 45, 80, 79, 77, 45, 86, 53, 45, 80, 65, 68]"

definition PAD_IV :: "u64 list" where
  "PAD_IV = [0x510e527fade682d1, 0x9b05688c2b3e6c1f, 0x1f83d9abfb41bd6b, 0x5be0cd19137e2179]"

definition v5_pad_seed :: "blake3 \<Rightarrow> u8 \<Rightarrow> hash \<Rightarrow> hash \<Rightarrow> hash" where
  "v5_pad_seed B tr model_id rt = blake B (PAD_DOMAIN @ [tr] @ hash_bytes model_id @ hash_bytes rt)"

definition round4 :: "u64 \<times> u64 \<times> u64 \<times> u64 \<Rightarrow> u64 \<times> u64 \<times> u64 \<times> u64" where
  "round4 = (\<lambda>(a, b, c, d).
     let a = a + b; d = d XOR a; d = word_rotl 32 d;
         c = c + d; b = b XOR c; b = word_rotl 24 b;
         a = a + b; d = d XOR a; d = word_rotl 16 d;
         c = c + d; b = b XOR c; b = word_rotl 63 b
     in (a, b, c, d))"

definition v5_pad_seed_words :: "hash \<Rightarrow> u64 list" where
  "v5_pad_seed_words pad_seed = map (\<lambda>i. le_u64 (slice (hash_bytes pad_seed) (i * 8) 8) XOR PAD_IV ! i) [0..<4]"

definition pad_entry_into :: "u64 list \<Rightarrow> nat \<Rightarrow> bytes" where
  "pad_entry_into words index =
     (case (round4 ^^ POM_V5_P_ROUNDS) (words ! 0, words ! 1 XOR word_of_nat index, words ! 2, words ! 3) of
        (a, b, c, d) \<Rightarrow> u64_le a @ u64_le b @ u64_le c @ u64_le d)"

definition v5_pad_entry :: "hash \<Rightarrow> nat \<Rightarrow> bytes" where
  "v5_pad_entry pad_seed index = pad_entry_into (v5_pad_seed_words pad_seed) index"

definition v5_pad_tile :: "hash \<Rightarrow> nat \<Rightarrow> bytes" where
  "v5_pad_tile pad_seed tile =
     concat (map (\<lambda>k. pad_entry_into (v5_pad_seed_words pad_seed) (tile * POM_V5_TILE_ENTRIES + k)) [0..<POM_V5_TILE_ENTRIES])"

subsection \<open>Step schedule and offsets\<close>

definition v5_pad_steps :: "nat \<Rightarrow> nat \<Rightarrow> nat" where
  "v5_pad_steps weight_tiles pad_tiles =
     (let k = POM_V4_K; n = weight_tiles + pad_tiles
      in min (max ((k * pad_tiles + n div 2) div n) 1) (k - 1))"

definition v5_is_pad_step :: "nat \<Rightarrow> nat \<Rightarrow> bool" where
  "v5_is_pad_step step pad_steps \<longleftrightarrow> (step * pad_steps) div POM_V4_K \<noteq> ((step - 1) * pad_steps) div POM_V4_K"

definition v5_state_fold :: "bytes \<Rightarrow> u64" where
  "v5_state_fold state =
     foldl (\<lambda>h r. h XOR mix64 (le_u64 (slice state (r * POM_V4_D) 8) XOR word_of_nat r)) 0 [0..<POM_V4_D]"

definition v5_first_offset :: "u64 \<Rightarrow> nat \<Rightarrow> nat option" where
  "v5_first_offset seed weight_tiles = v4_first_offset seed weight_tiles"

definition v5_next_offset :: "u64 \<Rightarrow> nat \<Rightarrow> hash \<Rightarrow> u64 \<Rightarrow> nat \<Rightarrow> nat \<Rightarrow> nat \<Rightarrow> nat option" where
  "v5_next_offset seed step snippet state_fold weight_tiles pad_tiles pad_steps =
     (let raw = mix64 (seed XOR (word_of_nat (step + 1) * POM_V4_OFFSET_STEP_SALT) XOR snippet_fold snippet XOR state_fold)
      in if v5_is_pad_step (step + 1) pad_steps then map_option (\<lambda>x. weight_tiles + x) (checked_rem raw pad_tiles)
         else checked_rem raw weight_tiles)"

subsection \<open>The walk, its prover and its verifier\<close>

text \<open>\<open>v4_transition\<close> allocates and calls \<open>v4_transition_into\<close>.\<close>

definition v4_transition :: "simd \<Rightarrow> bytes \<Rightarrow> bytes \<Rightarrow> nat \<Rightarrow> bytes option" where
  "v4_transition feature state tile step = v4_transition_into feature state tile step"

type_synonym 'f fetch = "nat \<Rightarrow> nat \<Rightarrow> 'f \<Rightarrow> proof_error + bytes option \<times> 'f"

fun v5_walk_loop :: "simd \<Rightarrow> 'f fetch \<Rightarrow> u64 \<Rightarrow> nat \<Rightarrow> nat \<Rightarrow> hash \<Rightarrow> nat \<Rightarrow> nat \<Rightarrow> nat \<Rightarrow> bytes \<Rightarrow> nat \<Rightarrow> 'f \<Rightarrow> proof_error + bytes \<times> 'f" where
  "v5_walk_loop feature fetch seed wt pt pad_seed pad_steps step 0 state off f = Inr (state, f)"
| "v5_walk_loop feature fetch seed wt pt pad_seed pad_steps step (Suc m) state off f =
     rbind (fetch (step - 1) off f) (\<lambda>(fetched, f).
       rbind (case fetched of Some t \<Rightarrow> Inr t
              | None \<Rightarrow> if off < wt then Inl Panic else Inr (v5_pad_tile pad_seed (off - wt))) (\<lambda>tile.
         rbind (if step < POM_V4_K
                then (if length tile < 32 then Inl Panic
                      else no_panic (v5_next_offset seed step (hash_of_bytes (take 32 tile)) (v5_state_fold state) wt pt pad_steps))
                else Inr off) (\<lambda>off.
           rbind (no_panic (v4_transition feature state tile step)) (\<lambda>state.
             v5_walk_loop feature fetch seed wt pt pad_seed pad_steps (step + 1) m state off f))))"

definition v5_walk :: "blake3 \<Rightarrow> simd \<Rightarrow> 'f fetch \<Rightarrow> u64 \<Rightarrow> nat \<Rightarrow> nat \<Rightarrow> hash \<Rightarrow> 'f \<Rightarrow> proof_error + u64 \<times> 'f" where
  "v5_walk B feature fetch seed wt pt pad_seed f =
     (if wt = 0 \<or> pt = 0 then Inl NoTileSpace
      else rbind (no_panic (v5_first_offset seed wt)) (\<lambda>off.
        rbind (v5_walk_loop feature fetch seed wt pt pad_seed (v5_pad_steps wt pt) 1 POM_V4_K (v4_initial_state seed) off f) (\<lambda>(state, f).
          rbind (no_panic (v4_state_root B state)) (\<lambda>root. Inr (fold64 root, f)))))"

text \<open>The prover's closure: the proof under construction and the store.\<close>

definition v5_build_fetch :: "('s \<Rightarrow> nat \<Rightarrow> hash option) \<Rightarrow> ('s \<Rightarrow> nat \<Rightarrow> (hash list \<times> 's) option) \<Rightarrow> nat \<Rightarrow> (pom_proof_v4 \<times> 's) fetch" where
  "v5_build_fetch rd pth wt i off = (\<lambda>(pf, s).
     if off < wt then
       no_panic (do { t \<leftarrow> read_chunks rd s (off * POM_V4_TILE_CHUNKS) POM_V4_TILE_CHUNKS;
                      (p, s) \<leftarrow> pth s (off * POM_V4_TILE_CHUNKS);
                      path \<leftarrow> drop_path POM_V4_TILE_SUBTREE_DEPTH p;
                      Some (Some t, pf\<lparr>v4_tiles := v4_tiles pf @ [t], v4_merkle := v4_merkle pf @ [\<lparr>range_path = path\<rparr>]\<rparr>, s) })
     else Inr (None, pf\<lparr>v4_tiles := v4_tiles pf @ [[]], v4_merkle := v4_merkle pf @ [\<lparr>range_path = []\<rparr>]\<rparr>, s))"

definition build_proof_v5 :: "blake3 \<Rightarrow> simd \<Rightarrow> ('s \<Rightarrow> nat \<Rightarrow> hash option) \<Rightarrow> ('s \<Rightarrow> nat \<Rightarrow> (hash list \<times> 's) option) \<Rightarrow> nat
    \<Rightarrow> u8 \<Rightarrow> u64 \<Rightarrow> 's \<Rightarrow> hash \<Rightarrow> nat \<Rightarrow> proof_error + (pom_proof_v4 \<times> u64) \<times> 's" where
  "build_proof_v5 B feature rd pth nch tr seed s pad_seed pad_tiles =
     (let wt = nch div POM_V4_TILE_CHUNKS
      in rbind (v5_walk B feature (v5_build_fetch rd pth wt) seed wt pad_tiles pad_seed (\<lparr>v4_tier = tr, v4_tiles = [], v4_merkle = []\<rparr>, s))
           (\<lambda>(fs, pf, s). Inr ((pf, fs), s)))"

definition v5_verify_fetch :: "blake3 \<Rightarrow> pom_proof_v4 \<Rightarrow> hash \<Rightarrow> nat \<Rightarrow> unit fetch" where
  "v5_verify_fetch B proof rt wt i off f =
     (let tile = v4_tiles proof ! i; path = range_path (v4_merkle proof ! i) in
      if off < wt then
        (if length tile \<noteq> POM_V4_TILE_BYTES then Inl (TileShape (i + 1))
         else rbind (no_panic (v4_tile_subtree_root B tile)) (\<lambda>r.
           if \<not> verify_merkle B r off path rt then Inl (RangeProof (i + 1)) else Inr (Some tile, ())))
      else if tile \<noteq> [] \<or> path \<noteq> [] then Inl (PadNotEmpty (i + 1))
      else Inr (None, ()))"

definition verify_proof_v5 :: "blake3 \<Rightarrow> simd \<Rightarrow> u64 \<Rightarrow> pom_proof_v4 \<Rightarrow> hash \<Rightarrow> nat \<Rightarrow> hash \<Rightarrow> nat \<Rightarrow> proof_error + u64" where
  "verify_proof_v5 B feature seed proof rt nch pad_seed pad_tiles =
     (if length (v4_tiles proof) \<noteq> POM_V4_K \<or> length (v4_merkle proof) \<noteq> POM_V4_K then Inl WrongShape
      else let wt = nch div POM_V4_TILE_CHUNKS
           in rbind (v5_walk B feature (v5_verify_fetch B proof rt wt) seed wt pad_tiles pad_seed ()) (\<lambda>(fs, _). Inr fs))"

subsection \<open>The schedule spreads exactly the chosen number of pad steps\<close>

lemma pad_step_count:
  assumes "p \<le> 256"
  shows "card {s \<in> {1..m}. v5_is_pad_step s p} = (m * p) div 256"
proof (induction m)
  case (Suc m)
  have set: "{s \<in> {1..Suc m}. v5_is_pad_step s p}
      = (if v5_is_pad_step (Suc m) p then insert (Suc m) {s \<in> {1..m}. v5_is_pad_step s p} else {s \<in> {1..m}. v5_is_pad_step s p})"
    by (auto simp: le_Suc_eq)
  have "(Suc m * p) div 256 \<le> (m * p) div 256 + 1"
  proof -
    have "(Suc m * p) div 256 \<le> (m * p + 256) div 256" using assms by (intro div_le_mono) simp
    then show ?thesis by simp
  qed
  moreover have "(m * p) div 256 \<le> (Suc m * p) div 256" by (intro div_le_mono) simp
  ultimately show ?case using Suc unfolding set by (auto simp: v5_is_pad_step_def)
qed simp

lemma v5_pad_steps_bounds: "1 \<le> v5_pad_steps wt pt" "v5_pad_steps wt pt \<le> 255"
  by (simp_all add: v5_pad_steps_def Let_def)

lemma first_step_not_pad: "p < 256 \<Longrightarrow> \<not> v5_is_pad_step 1 p"
  by (simp add: v5_is_pad_step_def)

subsection \<open>Reference walk\<close>

definition v5_tile :: "hash list \<Rightarrow> hash \<Rightarrow> nat \<Rightarrow> bytes" where
  "v5_tile cs pad_seed off =
     (if off < length cs div 32 then tile_at cs off else v5_pad_tile pad_seed (off - length cs div 32))"

definition v5_offset_after :: "u64 \<Rightarrow> nat \<Rightarrow> bytes \<Rightarrow> bytes \<Rightarrow> nat \<Rightarrow> nat \<Rightarrow> nat \<Rightarrow> nat" where
  "v5_offset_after seed step tile state wt pt ps =
     (let raw = mix64 (seed XOR (word_of_nat (step + 1) * POM_V4_OFFSET_STEP_SALT) XOR snippet_fold (hash_of_bytes (take 32 tile)) XOR v5_state_fold state)
      in if v5_is_pad_step (step + 1) ps then wt + unat raw mod pt else unat raw mod wt)"

abbreviation v5_off :: "u64 \<Rightarrow> nat \<Rightarrow> bytes \<Rightarrow> bytes \<Rightarrow> nat \<Rightarrow> nat \<Rightarrow> nat \<Rightarrow> nat \<Rightarrow> nat" where
  "v5_off seed step tile state wt pt ps off \<equiv> (if step < POM_V4_K then v5_offset_after seed step tile state wt pt ps else off)"

fun v5_ref :: "hash list \<Rightarrow> hash \<Rightarrow> nat \<Rightarrow> nat \<Rightarrow> u64 \<Rightarrow> nat \<Rightarrow> nat \<Rightarrow> bytes \<Rightarrow> nat \<Rightarrow> bytes" where
  "v5_ref cs pad_seed pt ps seed step 0 state off = state"
| "v5_ref cs pad_seed pt ps seed step (Suc m) state off =
     v5_ref cs pad_seed pt ps seed (step + 1) m (v4_transition_into_scalar state (v5_tile cs pad_seed off) step)
       (v5_off seed step (v5_tile cs pad_seed off) state (length cs div 32) pt ps off)"

definition v5_reference :: "blake3 \<Rightarrow> hash list \<Rightarrow> hash \<Rightarrow> nat \<Rightarrow> u64 \<Rightarrow> u64 option" where
  "v5_reference B cs pad_seed pt seed = map_option fold64 (v4_state_root B
     (v5_ref cs pad_seed pt (v5_pad_steps (length cs div 32) pt) seed 1 POM_V4_K (v4_initial_state seed)
       (unat (mix64 (seed XOR POM_V4_OFFSET_FIRST_SALT)) mod (length cs div 32))))"

lemma length_pad_entry [simp]: "length (pad_entry_into w i) = 32"
  by (simp add: pad_entry_into_def split: prod.split)

lemma length_pad_tile [simp]: "length (v5_pad_tile ps t) = 1024"
  by (simp add: v5_pad_tile_def length_concat comp_def sum_list_triv)

lemma length_v5_tile: "length (v5_tile cs pad_seed off) = 1024"
  by (simp add: v5_tile_def tile_at_facts(1))

lemma v5_next_offset_eq:
  "0 < wt \<Longrightarrow> 0 < pt \<Longrightarrow> v5_next_offset seed step (hash_of_bytes (take 32 tile)) (v5_state_fold state) wt pt ps
     = Some (v5_offset_after seed step tile state wt pt ps)"
  by (simp add: v5_next_offset_def v5_offset_after_def checked_rem_def Let_def)

text \<open>One iteration of the walk for a tile of the right size.\<close>

lemma v5_walk_step:
  assumes "fetch (step - 1) off f = Inr (fetched, f')" and "0 < wt" "0 < pt" and "length state = 1024"
    and "(case fetched of Some t \<Rightarrow> Inr t | None \<Rightarrow> if off < wt then Inl Panic else Inr (v5_pad_tile pad_seed (off - wt))) = Inr tile"
    and "length tile = 1024"
  shows "v5_walk_loop feature fetch seed wt pt pad_seed ps step (Suc m) state off f
    = v5_walk_loop feature fetch seed wt pt pad_seed ps (step + 1) m (v4_transition_into_scalar state tile step)
        (v5_off seed step tile state wt pt ps off) f'"
proof -
  have "(if step < 256
        then (if length tile < 32 then Inl Panic
              else no_panic (v5_next_offset seed step (hash_of_bytes (take 32 tile)) (v5_state_fold state) wt pt ps))
        else Inr off) = Inr (v5_off seed step tile state wt pt ps off)"
    using assms(6) by (simp add: v5_next_offset_eq [OF assms(2,3)])
  then show ?thesis
    unfolding v5_walk_loop.simps assms(1) v4_transition_def
    using assms(5) v4_transition_into_eq [OF assms(4,6), of feature step] by (simp only: rbind_simps prod.case no_panic_simps)
qed

context chunk_store
begin

lemma v5_build_loop_ok:
  assumes wt: "wt = length cs div 32" "0 < wt" and pt: "0 < pt"
  shows "holds s cs \<Longrightarrow> root_of s = rt0 \<Longrightarrow> length state = 1024 \<Longrightarrow>
    \<exists>tiles mk s'. v5_walk_loop feature (v5_build_fetch rd pth wt) seed wt pt pad_seed ps step m state off (pf, s)
        = Inr (v5_ref cs pad_seed pt ps seed step m state off,
               (pf\<lparr>v4_tiles := v4_tiles pf @ tiles, v4_merkle := v4_merkle pf @ mk\<rparr>, s'))
      \<and> holds s' cs \<and> length tiles = m \<and> length mk = m
      \<and> (\<forall>q. (\<forall>i < m. v4_tiles q ! (step - 1 + i) = tiles ! i \<and> v4_merkle q ! (step - 1 + i) = mk ! i) \<longrightarrow> 1 \<le> step \<longrightarrow>
           v5_walk_loop feature' (v5_verify_fetch B q rt0 wt) seed wt pt pad_seed ps step m state off ()
             = Inr (v5_ref cs pad_seed pt ps seed step m state off, ()))"
proof (induction m arbitrary: step state off s pf)
  case (Suc m)
  let ?tile = "v5_tile cs pad_seed off"
  let ?st = "v4_transition_into_scalar state ?tile step" and ?off = "v5_off seed step ?tile state wt pt ps off"
  note len = length_v5_tile [of cs pad_seed off]
  have "\<exists>t p s1. v5_build_fetch rd pth wt (step - 1) off (pf, s)
        = Inr (if off < wt then Some ?tile else None, (pf\<lparr>v4_tiles := v4_tiles pf @ [t], v4_merkle := v4_merkle pf @ [p]\<rparr>, s1))
      \<and> holds s1 cs
      \<and> (\<forall>q. v4_tiles q ! (step - 1) = t \<and> v4_merkle q ! (step - 1) = p \<longrightarrow>
            v5_verify_fetch B q rt0 wt (step - 1) off () = Inr (if off < wt then Some ?tile else None, ()))"
  proof (cases "off < wt")
    case True
    then have off: "off < length cs div 32" using wt by simp
    note t = tile_at_facts [OF off]
    have rng: "(off + 1) * 2 ^ 5 \<le> length cs" by (rule tile_in_range [OF off])
    obtain p s1 r where p: "pth s (off * 32) = Some (p, s1)" "holds s1 cs" "5 \<le> length p"
      "merkle_root B (chunk_leaves B (slice cs (off * 32) 32)) = Some r" "verify_merkle B r off (drop 5 p) rt0"
      using group_verifies [OF Suc.prems(1) rng] Suc.prems(2) by auto
    have rdt: "read_chunks rd s (off * 32) 32 = Some (tile_at cs off)"
      using read_chunks_eq [of cs rd s "off * 32" 32] rd_ok [OF Suc.prems(1)] rng by (simp add: tile_at_def)
    have root: "v4_tile_subtree_root B (tile_at cs off) = Some r"
      unfolding v4_tile_subtree_root_def using tile_root_eq [of "tile_at cs off" 32 B] t p(4) by simp
    have "v5_build_fetch rd pth wt (step - 1) off (pf, s) = Inr (Some (tile_at cs off),
        (pf\<lparr>v4_tiles := v4_tiles pf @ [tile_at cs off], v4_merkle := v4_merkle pf @ [\<lparr>range_path = drop 5 p\<rparr>]\<rparr>, s1))"
      using True rdt p(1,3) by (simp add: v5_build_fetch_def drop_path_def)
    moreover have "v5_verify_fetch B q rt0 wt (step - 1) off () = Inr (Some (tile_at cs off), ())"
      if "v4_tiles q ! (step - 1) = tile_at cs off" "v4_merkle q ! (step - 1) = \<lparr>range_path = drop 5 p\<rparr>" for q
      using True that t(1) root p(5) by (simp add: v5_verify_fetch_def)
    moreover have "?tile = tile_at cs off" using off by (simp add: v5_tile_def)
    ultimately show ?thesis using True p(2) by auto
  next
    case False
    then show ?thesis
      using Suc.prems(1) by (intro exI [of _ "[]"] exI [of _ "\<lparr>range_path = []\<rparr>"] exI [of _ s]) (simp add: v5_build_fetch_def v5_verify_fetch_def)
  qed
  then obtain t p s1 where bf: "v5_build_fetch rd pth wt (step - 1) off (pf, s)
        = Inr (if off < wt then Some ?tile else None, (pf\<lparr>v4_tiles := v4_tiles pf @ [t], v4_merkle := v4_merkle pf @ [p]\<rparr>, s1))"
    and h1: "holds s1 cs"
    and vf: "\<And>q. v4_tiles q ! (step - 1) = t \<Longrightarrow> v4_merkle q ! (step - 1) = p \<Longrightarrow>
            v5_verify_fetch B q rt0 wt (step - 1) off () = Inr (if off < wt then Some ?tile else None, ())"
    by blast
  let ?pf = "pf\<lparr>v4_tiles := v4_tiles pf @ [t], v4_merkle := v4_merkle pf @ [p]\<rparr>"
  have sel: "(case (if off < wt then Some ?tile else None) of Some t \<Rightarrow> Inr t
      | None \<Rightarrow> if off < wt then Inl Panic else Inr (v5_pad_tile pad_seed (off - wt))) = Inr ?tile"
    using wt by (simp add: v5_tile_def)
  have r1: "root_of s1 = rt0" using root_stable [OF Suc.prems(1) h1] Suc.prems(2) by simp
  obtain tiles mk s2 where IH: "v5_walk_loop feature (v5_build_fetch rd pth wt) seed wt pt pad_seed ps (step + 1) m ?st ?off (?pf, s1)
        = Inr (v5_ref cs pad_seed pt ps seed (step + 1) m ?st ?off,
               (?pf\<lparr>v4_tiles := v4_tiles ?pf @ tiles, v4_merkle := v4_merkle ?pf @ mk\<rparr>, s2))"
    "holds s2 cs" "length tiles = m" "length mk = m"
    and IHv: "\<And>q. (\<forall>i < m. v4_tiles q ! (step + i) = tiles ! i \<and> v4_merkle q ! (step + i) = mk ! i) \<Longrightarrow>
           v5_walk_loop feature' (v5_verify_fetch B q rt0 wt) seed wt pt pad_seed ps (step + 1) m ?st ?off ()
             = Inr (v5_ref cs pad_seed pt ps seed (step + 1) m ?st ?off, ())"
    using Suc.IH [OF h1 r1, of ?st "step + 1" ?off ?pf] by auto
  have b: "v5_walk_loop feature (v5_build_fetch rd pth wt) seed wt pt pad_seed ps step (Suc m) state off (pf, s)
      = Inr (v5_ref cs pad_seed pt ps seed step (Suc m) state off,
             (pf\<lparr>v4_tiles := v4_tiles pf @ t # tiles, v4_merkle := v4_merkle pf @ p # mk\<rparr>, s2))"
    using v5_walk_step [where fetch = "v5_build_fetch rd pth wt" and step = step and off = off, OF bf wt(2) pt Suc.prems(3) sel len] IH(1) wt(1) by simp
  have v: "v5_walk_loop feature' (v5_verify_fetch B q rt0 wt) seed wt pt pad_seed ps step (Suc m) state off ()
      = Inr (v5_ref cs pad_seed pt ps seed step (Suc m) state off, ())"
    if "\<forall>i < Suc m. v4_tiles q ! (step - 1 + i) = (t # tiles) ! i \<and> v4_merkle q ! (step - 1 + i) = (p # mk) ! i" "1 \<le> step" for q
  proof -
    note hyp = that
    have "v4_tiles q ! (step - 1) = t" "v4_merkle q ! (step - 1) = p" using that(1) [rule_format, of 0] by simp_all
    note vf = vf [OF this]
    have "v4_tiles q ! (step + i) = tiles ! i \<and> v4_merkle q ! (step + i) = mk ! i" if "i < m" for i
      using hyp(1) [rule_format, of "Suc i"] hyp(2) that by simp
    from v5_walk_step [where fetch = "v5_verify_fetch B q rt0 wt" and step = step and off = off, OF vf wt(2) pt Suc.prems(3) sel len] IHv [rule_format, OF this] wt(1) show ?thesis by simp
  qed
  show ?case
  proof (intro exI conjI allI impI)
    show "v5_walk_loop feature' (v5_verify_fetch B q rt0 wt) seed wt pt pad_seed ps step (Suc m) state off ()
      = Inr (v5_ref cs pad_seed pt ps seed step (Suc m) state off, ())"
      if "\<forall>i < Suc m. v4_tiles q ! (step - 1 + i) = (t # tiles) ! i \<and> v4_merkle q ! (step - 1 + i) = (p # mk) ! i" "1 \<le> step" for q
      by (rule v [OF that])
  qed (use b IH(2-4) in \<open>simp_all del: v5_walk_loop.simps v5_ref.simps\<close>)
qed simp

lemma build_proof_v5_ok:
  assumes h: "holds s cs" and n: "0 < length cs div 32" and pt: "0 < pt"
  shows "\<exists>pf fs s'. build_proof_v5 B feature rd pth (length cs) tr seed s pad_seed pt = Inr ((pf, fs), s') \<and> holds s' cs
    \<and> v5_reference B cs pad_seed pt seed = Some fs
    \<and> verify_proof_v5 B feature' seed pf (root_of s) (length cs) pad_seed pt = Inr fs"
proof -
  let ?wt = "length cs div 32" and ?off = "unat (mix64 (seed XOR POM_V4_OFFSET_FIRST_SALT)) mod (length cs div 32)"
  let ?ps = "v5_pad_steps ?wt pt" and ?pf0 = "\<lparr>v4_tier = tr, v4_tiles = [], v4_merkle = []\<rparr>"
  let ?st = "v5_ref cs pad_seed pt ?ps seed 1 256 (v4_initial_state seed) ?off"
  obtain tiles mk s' where b: "v5_walk_loop feature (v5_build_fetch rd pth ?wt) seed ?wt pt pad_seed ?ps 1 256 (v4_initial_state seed) ?off (?pf0, s)
        = Inr (?st, (\<lparr>v4_tier = tr, v4_tiles = tiles, v4_merkle = mk\<rparr>, s'))"
    and s': "holds s' cs" "length tiles = 256" "length mk = 256"
    and v: "v5_walk_loop feature' (v5_verify_fetch B \<lparr>v4_tier = tr, v4_tiles = tiles, v4_merkle = mk\<rparr> (root_of s) ?wt) seed ?wt pt pad_seed ?ps 1 256
        (v4_initial_state seed) ?off () = Inr (?st, ())"
    using v5_build_loop_ok [OF refl n pt h refl length_v4_initial_state, where pf = ?pf0 and m = 256 and step = 1 and feature = feature
        and feature' = feature' and seed = seed and pad_seed = pad_seed and ps = ?ps and off = ?off] by fastforce
  have off: "v5_first_offset seed ?wt = Some ?off" using n by (simp add: v5_first_offset_def v4_first_offset_def checked_rem_def)
  obtain root where root: "v4_state_root B ?st = Some root"
    using merkle_root_eq [of "v4_state_leaves B ?st" B] by (simp add: v4_state_root_def v4_state_leaves_def)
  have n0: "\<not> (?wt = 0 \<or> pt = 0)" using n pt by simp
  have "build_proof_v5 B feature rd pth (length cs) tr seed s pad_seed pt
      = Inr ((\<lparr>v4_tier = tr, v4_tiles = tiles, v4_merkle = mk\<rparr>, fold64 root), s')"
    unfolding build_proof_v5_def v5_walk_def Let_def if_not_P [OF n0] using b off root by simp
  moreover have "verify_proof_v5 B feature' seed \<lparr>v4_tier = tr, v4_tiles = tiles, v4_merkle = mk\<rparr> (root_of s) (length cs) pad_seed pt = Inr (fold64 root)"
    unfolding verify_proof_v5_def v5_walk_def Let_def if_not_P [OF n0] using s' v off root by simp
  moreover have "v5_reference B cs pad_seed pt seed = Some (fold64 root)" using root by (simp add: v5_reference_def)
  ultimately show ?thesis using s'(1) by blast
qed

end

subsection \<open>Soundness\<close>

text \<open>The inputs the verifier hashes, following its own walk over the tiles of the proof.\<close>

definition v5_claimed :: "pom_proof_v4 \<Rightarrow> hash \<Rightarrow> nat \<Rightarrow> nat \<Rightarrow> nat \<Rightarrow> bytes" where
  "v5_claimed proof pad_seed wt i off = (if off < wt then v4_tiles proof ! i else v5_pad_tile pad_seed (off - wt))"

fun v5_inputs :: "blake3 \<Rightarrow> pom_proof_v4 \<Rightarrow> hash \<Rightarrow> nat \<Rightarrow> nat \<Rightarrow> nat \<Rightarrow> u64 \<Rightarrow> nat \<Rightarrow> nat \<Rightarrow> bytes \<Rightarrow> nat \<Rightarrow> bytes set" where
  "v5_inputs B proof pad_seed wt pt ps seed step 0 state off = {}"
| "v5_inputs B proof pad_seed wt pt ps seed step (Suc m) state off =
     (if off < wt then group_inputs B (tile_words (v4_tiles proof ! (step - 1))) off (range_path (v4_merkle proof ! (step - 1))) else {})
     \<union> v5_inputs B proof pad_seed wt pt ps seed (step + 1) m
         (v4_transition_into_scalar state (v5_claimed proof pad_seed wt (step - 1) off) step)
         (v5_off seed step (v5_claimed proof pad_seed wt (step - 1) off) state wt pt ps off)"

lemma v5_verify_loop_sound:
  assumes root: "merkle_root B (chunk_leaves B cs) = Some rt0" and wt: "wt = length cs div 32" "0 < wt" and pt: "0 < pt"
  shows "v5_walk_loop feature (v5_verify_fetch B q rt0 wt) seed wt pt pad_seed ps step m state off () = Inr (fin, u) \<Longrightarrow> length state = 1024 \<Longrightarrow>
    fin = v5_ref cs pad_seed pt ps seed step m state off
    \<or> blake_clash B (v5_inputs B q pad_seed wt pt ps seed step m state off) (commit_inputs B cs)"
proof (induction m arbitrary: step state off)
  case (Suc m)
  let ?tile = "v5_claimed q pad_seed wt (step - 1) off" and ?p = "range_path (v4_merkle q ! (step - 1))"
  have vf: "v5_verify_fetch B q rt0 wt (step - 1) off () = Inr (if off < wt then Some ?tile else None, ())"
    and len: "length ?tile = 1024"
    and r: "off < wt \<Longrightarrow> \<exists>r. v4_tile_subtree_root B ?tile = Some r \<and> verify_merkle B r off ?p rt0"
    using Suc.prems(1) by (auto simp: v5_verify_fetch_def v5_claimed_def Let_def rbind_Inr no_panic_Inr split: if_splits)
  have sel: "(case (if off < wt then Some ?tile else None) of Some t \<Rightarrow> Inr t
      | None \<Rightarrow> if off < wt then Inl Panic else Inr (v5_pad_tile pad_seed (off - wt))) = Inr ?tile"
    by (simp add: v5_claimed_def)
  note rest = Suc.prems(1) [unfolded v5_walk_step [where fetch = "v5_verify_fetch B q rt0 wt" and step = step and off = off, OF vf wt(2) pt Suc.prems(2) sel len]]
  have "?tile = v5_tile cs pad_seed off
      \<or> blake_clash B (if off < wt then group_inputs B (tile_words (v4_tiles q ! (step - 1))) off ?p else {}) (commit_inputs B cs)"
  proof (cases "off < wt")
    case True
    then have off: "off < length cs div 32" and t: "?tile = v4_tiles q ! (step - 1)" using wt by (simp_all add: v5_claimed_def)
    obtain r where r: "v4_tile_subtree_root B ?tile = Some r" "verify_merkle B r off ?p rt0" using r [OF True] by blast
    have g: "length (tile_words ?tile) = 2 ^ 5" "merkle_root B (chunk_leaves B (tile_words ?tile)) = Some r"
      using concat_tile_words(2) [of ?tile 32] len r(1) tile_root_eq [of ?tile 32 B] by (simp_all add: v4_tile_subtree_root_def)
    have "?tile = tile_at cs off" if "tile_words ?tile = slice cs (off * 32) 32"
      using concat_tile_words(1) [of ?tile 32] len that by (simp add: tile_at_def)
    then show ?thesis using group_opening_sound [OF root tile_in_range [OF off] g r(2)] True t off by (auto simp: v5_tile_def)
  next
    case False
    then show ?thesis using wt by (simp add: v5_claimed_def v5_tile_def)
  qed
  then show ?case using Suc.IH [OF rest length_v4_transition] wt(1) by (auto simp: blake_clash_def)
qed simp

subsection \<open>Properties\<close>

text \<open>Step schedule of v5: over the 256 steps of a walk exactly \<open>v5_pad_steps\<close> read pad tiles, at least
  one and at most 255 of them, and never the first, whose offset is drawn from the weight tiles.\<close>

theorem v5_pad_schedule:
  "card {s \<in> {1..POM_V4_K}. v5_is_pad_step s (v5_pad_steps weight_tiles pad_tiles)} = v5_pad_steps weight_tiles pad_tiles
    \<and> v5_pad_steps weight_tiles pad_tiles \<in> {1..255} \<and> \<not> v5_is_pad_step 1 (v5_pad_steps weight_tiles pad_tiles)"
  using pad_step_count [of "v5_pad_steps weight_tiles pad_tiles" 256] v5_pad_steps_bounds [of weight_tiles pad_tiles]
    first_step_not_pad [of "v5_pad_steps weight_tiles pad_tiles"] by simp

text \<open>C4. Completeness of v5: with at least one weight tile and one pad tile \<open>build_proof_v5\<close> over the index succeeds,
  its final state is the one of the reference walk over the chunks and the pad, and \<open>verify_proof_v5\<close>, run with any
  CPU feature, derives the same final state.\<close>

theorem build_proof_v5_verifies:
  assumes "index_holds B ix cs" and "POM_V4_TILE_CHUNKS \<le> n_chunks ix" and "0 < pad_tiles"
  shows "\<exists>pf fs ix'. build_proof_v5 B feature read_chunk_bytes (merkle_path B on mx) (n_chunks ix) tr seed ix pad_seed pad_tiles = Inr ((pf, fs), ix')
    \<and> index_holds B ix' cs \<and> v5_reference B cs pad_seed pad_tiles seed = Some fs
    \<and> verify_proof_v5 B feature' seed pf (r_t ix) (n_chunks ix) pad_seed pad_tiles = Inr fs"
  using ix_store.build_proof_v5_ok [OF assms(1) _ assms(3), of feature on mx tr seed pad_seed feature'] assms(2)
  by (simp add: index_holdsD(2) [OF assms(1)] div_greater_zero_iff)

text \<open>C3. Soundness of v5 proofs: a final state \<open>verify_proof_v5\<close> derives against the root of the chunks \<open>cs\<close> is the one
  of the reference walk over \<open>cs\<close> and the pad, or verifier and committer hashed a collision.\<close>

theorem verify_proof_v5_sound:
  assumes "merkle_root B (chunk_leaves B cs) = Some r"
    and "verify_proof_v5 B feature seed proof r (length cs) pad_seed pad_tiles = Inr fs"
  shows "v5_reference B cs pad_seed pad_tiles seed = Some fs
    \<or> blake_clash B (v5_inputs B proof pad_seed (length cs div 32) pad_tiles (v5_pad_steps (length cs div 32) pad_tiles) seed 1 POM_V4_K
          (v4_initial_state seed) (unat (mix64 (seed XOR POM_V4_OFFSET_FIRST_SALT)) mod (length cs div 32))) (commit_inputs B cs)"
proof -
  let ?wt = "length cs div 32" and ?off = "unat (mix64 (seed XOR POM_V4_OFFSET_FIRST_SALT)) mod (length cs div 32)"
  have n0: "\<not> (?wt = 0 \<or> pad_tiles = 0)"
    using assms(2) unfolding verify_proof_v5_def v5_walk_def Let_def by (auto split: if_splits)
  then have off: "v5_first_offset seed ?wt = Some ?off" by (simp add: v5_first_offset_def v4_first_offset_def checked_rem_def)
  obtain st root where st: "v5_walk_loop feature (v5_verify_fetch B proof r ?wt) seed ?wt pad_tiles pad_seed (v5_pad_steps ?wt pad_tiles) 1 256
      (v4_initial_state seed) ?off () = Inr (st, ())" "v4_state_root B st = Some root" "fs = fold64 root"
    using assms(2) off unfolding verify_proof_v5_def v5_walk_def Let_def if_not_P [OF n0]
    by (auto simp: rbind_Inr no_panic_Inr split: if_splits)
  from v5_verify_loop_sound [OF assms(1) refl _ _ st(1) length_v4_initial_state] n0 st(2,3) show ?thesis
    by (auto simp: v5_reference_def)
qed

theorem build_proof_v5_verifies_witness:
  "\<exists>ix pf fs ix'. index_holds toy_blake3 ix toy_chunks
    \<and> build_proof_v5 toy_blake3 Avx2 read_chunk_bytes (merkle_path toy_blake3 True 8) 34 1 9 ix 0 3 = Inr ((pf, fs), ix')
    \<and> verify_proof_v5 toy_blake3 Neon 9 pf (r_t ix) 34 0 3 = Inr fs"
proof -
  obtain ix where ix: "index_holds toy_blake3 ix toy_chunks" using toy_index ..
  have "n_chunks ix = 34" using index_holdsD(2) [OF ix] by simp
  with build_proof_v5_verifies [OF ix, of 3 Avx2 True 8 1 9 0 Neon] ix show ?thesis by auto
qed

theorem verify_proof_v5_sound_witness:
  "\<exists>pf r fs. merkle_root toy_blake3 (chunk_leaves toy_blake3 toy_chunks) = Some r
    \<and> verify_proof_v5 toy_blake3 Scalar 9 pf r 34 0 3 = Inr fs
    \<and> (v5_reference toy_blake3 toy_chunks 0 3 9 = Some fs
      \<or> blake_clash toy_blake3 (v5_inputs toy_blake3 pf 0 1 3 (v5_pad_steps 1 3) 9 1 256 (v4_initial_state 9) 0) (commit_inputs toy_blake3 toy_chunks))"
proof -
  obtain ix where ix: "index_holds toy_blake3 ix toy_chunks" using toy_index ..
  obtain pf fs where pf: "verify_proof_v5 toy_blake3 Scalar 9 pf (r_t ix) 34 0 3 = Inr fs"
    using ix_store.build_proof_v5_ok [OF ix, of 3 Scalar True 8 1 9 0 Scalar] by auto
  from verify_proof_v5_sound [OF index_holds_root [OF ix], of Scalar 9 pf 0 3 fs] pf index_holds_root [OF ix]
  show ?thesis by (intro exI [of _ pf] exI [of _ "r_t ix"] exI [of _ fs]) simp
qed

end
