(* ===== verification/Pom_Gates.thy ===== *)
theory Pom_Gates
  imports Pom_V5 "HOL-Library.AList"
begin

section \<open>Activation gates and the registry of resident indices\<close>

text \<open>
  Model of the gates and of the index registry of \<open>src/pom.rs\<close>. The network selector (the atomic
  \<open>TESTNET_GATES\<close>) is the first argument of every gate. The registry is the hash map behind the
  mutex \<open>POM_INDICES\<close>: an association list in the map's iteration order, \<open>None\<close> once the mutex is
  poisoned. Byte arrays are ordered lexicographically.
\<close>

subsection \<open>Gates\<close>

definition H15_ACTIVATION_DAA :: u64 where "H15_ACTIVATION_DAA = 140115000"
definition TESTNET_H15_ACTIVATION_DAA :: u64 where "TESTNET_H15_ACTIVATION_DAA = 3500"

definition gate :: "bool \<Rightarrow> u64 \<Rightarrow> u64 \<Rightarrow> u64" where
  "gate testnet mainnet_daa testnet_daa = (if testnet then testnet_daa else mainnet_daa)"

definition pom_activation_daa :: "bool \<Rightarrow> u64" where
  "pom_activation_daa t = gate t 37780000 1"
definition pom_level_activation_daa :: "bool \<Rightarrow> u64" where
  "pom_level_activation_daa t = gate t 43450000 1"
definition coin_age_verification_activation_daa :: "bool \<Rightarrow> u64" where
  "coin_age_verification_activation_daa t = gate t 54766000 0"
definition h5_activation_daa :: "bool \<Rightarrow> u64" where
  "h5_activation_daa t = gate t 59009037 0"
definition h5_1_activation_daa :: "bool \<Rightarrow> u64" where
  "h5_1_activation_daa t = gate t 59027921 0"
definition h5_2_activation_daa :: "bool \<Rightarrow> u64" where
  "h5_2_activation_daa t = gate t 59170000 0"
definition pom_v3_activation_daa :: "bool \<Rightarrow> u64" where
  "pom_v3_activation_daa t = gate t 76316623 1"
definition pom_v4_activation_daa :: "bool \<Rightarrow> u64" where
  "pom_v4_activation_daa t = gate t 79210000 1"
definition pom_v5_activation_daa :: "bool \<Rightarrow> u64" where
  "pom_v5_activation_daa t = gate t H15_ACTIVATION_DAA TESTNET_H15_ACTIVATION_DAA"
definition block_task_activation_daa :: u64 where
  "block_task_activation_daa = - 1"
definition attention_activation_daa :: "bool \<Rightarrow> u64" where
  "attention_activation_daa t = gate t H15_ACTIVATION_DAA TESTNET_H15_ACTIVATION_DAA"
definition h10_activation_daa :: "bool \<Rightarrow> u64" where
  "h10_activation_daa t = gate t 87360000 1"
definition reward_routing_activation_daa :: "bool \<Rightarrow> u64" where
  "reward_routing_activation_daa t = gate t 79210000 0"
definition private_inference_activation_daa :: "bool \<Rightarrow> u64" where
  "private_inference_activation_daa t = gate t 121985000 1"
definition verifiable_inference_activation_daa :: "bool \<Rightarrow> u64" where
  "verifiable_inference_activation_daa t = gate t H15_ACTIVATION_DAA TESTNET_H15_ACTIVATION_DAA"
definition trace_prefix_activation_daa :: "bool \<Rightarrow> u64" where
  "trace_prefix_activation_daa t = gate t H15_ACTIVATION_DAA TESTNET_H15_ACTIVATION_DAA"
definition trace_audit_activation_daa :: "bool \<Rightarrow> u64" where
  "trace_audit_activation_daa t = gate t H15_ACTIVATION_DAA TESTNET_H15_ACTIVATION_DAA"
definition trace_chain_activation_daa :: "bool \<Rightarrow> u64" where
  "trace_chain_activation_daa t = gate t H15_ACTIVATION_DAA TESTNET_H15_ACTIVATION_DAA"
definition trace_seed_bind_activation_daa :: "bool \<Rightarrow> u64" where
  "trace_seed_bind_activation_daa t = gate t H15_ACTIVATION_DAA TESTNET_H15_ACTIVATION_DAA"

lemmas gate_defs = gate_def H15_ACTIVATION_DAA_def TESTNET_H15_ACTIVATION_DAA_def
  pom_activation_daa_def pom_level_activation_daa_def coin_age_verification_activation_daa_def h5_activation_daa_def
  h5_1_activation_daa_def h5_2_activation_daa_def pom_v3_activation_daa_def pom_v4_activation_daa_def
  pom_v5_activation_daa_def h10_activation_daa_def private_inference_activation_daa_def

subsection \<open>Registry\<close>

fun bytes_le :: "bytes \<Rightarrow> bytes \<Rightarrow> bool" where
  "bytes_le [] ys = True"
| "bytes_le (x # xs) [] = False"
| "bytes_le (x # xs) (y # ys) = (x < y \<or> x = y \<and> bytes_le xs ys)"

type_synonym 'i pom_indices = "(hash \<times> 'i) list option"

definition set_index :: "hash \<Rightarrow> 'i \<Rightarrow> 'i pom_indices \<Rightarrow> 'i pom_indices" where
  "set_index model_id index g = map_option (AList.update model_id index) g"

definition clear_index :: "hash \<Rightarrow> 'i pom_indices \<Rightarrow> 'i pom_indices" where
  "clear_index model_id g = map_option (AList.delete model_id) g"

definition active_index_for_model :: "hash \<Rightarrow> 'i pom_indices \<Rightarrow> 'i option" where
  "active_index_for_model model_id g = Option.bind g (\<lambda>m. map_of m model_id)"

fun min_by_model :: "(hash \<times> 'i) list \<Rightarrow> (hash \<times> 'i) option" where
  "min_by_model [] = None"
| "min_by_model (x # xs) = (case min_by_model xs of None \<Rightarrow> Some x
     | Some y \<Rightarrow> Some (if bytes_le (hash_bytes (fst x)) (hash_bytes (fst y)) then x else y))"

definition any_active_index :: "'i pom_indices \<Rightarrow> (hash \<times> 'i) option" where
  "any_active_index g = Option.bind g min_by_model"

subsection \<open>Lemmas\<close>

lemma bytes_le_refl [simp]: "bytes_le xs xs"
  by (induction xs) auto

lemma bytes_le_trans: "bytes_le xs ys \<Longrightarrow> bytes_le ys zs \<Longrightarrow> bytes_le xs zs"
proof (induction xs arbitrary: ys zs)
  case (Cons x xs)
  then show ?case by (cases ys; cases zs) auto
qed simp

lemma bytes_le_total: "bytes_le xs ys \<or> bytes_le ys xs"
proof (induction xs arbitrary: ys)
  case (Cons x xs)
  then show ?case by (cases ys) auto
qed simp

lemma min_by_model_None [simp]: "min_by_model xs = None \<longleftrightarrow> xs = []"
  by (cases xs) (auto split: option.split)

lemma min_by_model_Some:
  "min_by_model xs = Some y \<Longrightarrow> y \<in> set xs \<and> (\<forall>z \<in> set xs. bytes_le (hash_bytes (fst y)) (hash_bytes (fst z)))"
proof (induction xs arbitrary: y)
  case (Cons x xs)
  show ?case
  proof (cases "min_by_model xs")
    case None
    with Cons.prems show ?thesis by simp
  next
    case (Some w)
    note w = Cons.IH [OF Some]
    show ?thesis
    proof (cases "bytes_le (hash_bytes (fst x)) (hash_bytes (fst w))")
      case True
      with Cons.prems Some have "y = x" by simp
      with w True show ?thesis using bytes_le_trans by auto
    next
      case False
      with Cons.prems Some have "y = w" by simp
      with w False bytes_le_total show ?thesis by auto
    qed
  qed
qed simp

text \<open>The registry as the client sees it: a partial function from models to indices.\<close>

locale index_registry =
  fixes inv :: "'g \<Rightarrow> bool" and put :: "hash \<Rightarrow> 'i \<Rightarrow> 'g \<Rightarrow> 'g" and del :: "hash \<Rightarrow> 'g \<Rightarrow> 'g"
    and get :: "hash \<Rightarrow> 'g \<Rightarrow> 'i option" and any :: "'g \<Rightarrow> (hash \<times> 'i) option"
  assumes put_inv: "inv g \<Longrightarrow> inv (put m i g)" and del_inv: "inv g \<Longrightarrow> inv (del m g)"
    and get_put: "inv g \<Longrightarrow> get k (put m i g) = (if k = m then Some i else get k g)"
    and get_del: "inv g \<Longrightarrow> get k (del m g) = (if k = m then None else get k g)"
    and any_None: "inv g \<Longrightarrow> any g = None \<longleftrightarrow> (\<forall>k. get k g = None)"
    and any_Some: "inv g \<Longrightarrow> any g = Some (m, i) \<Longrightarrow>
      get m g = Some i \<and> (\<forall>k j. get k g = Some j \<longrightarrow> bytes_le (hash_bytes m) (hash_bytes k))"
begin

lemma retire_then_rebuild: "inv g \<Longrightarrow> get m (put m i (del m g)) = Some i"
  by (simp add: del_inv get_put)

lemma put_comm: "inv g \<Longrightarrow> m \<noteq> n \<Longrightarrow> get k (put m i (put n j g)) = get k (put n j (put m i g))"
  by (simp add: get_put put_inv)

lemma any_after_put: "inv g \<Longrightarrow> \<exists>k j. any (put m i g) = Some (k, j) \<and> get k (put m i g) = Some j"
proof -
  assume g: "inv g"
  have "get m (put m i g) = Some i" using get_put [OF g] by simp
  then obtain k j where "any (put m i g) = Some (k, j)" using any_None [OF put_inv [OF g], of m i] by fastforce
  with any_Some [OF put_inv [OF g]] show ?thesis by blast
qed

end

definition registry_ok :: "'i pom_indices \<Rightarrow> bool" where
  "registry_ok g = (case g of None \<Rightarrow> False | Some m \<Rightarrow> distinct (map fst m))"

interpretation pom_registry: index_registry registry_ok set_index clear_index active_index_for_model any_active_index
proof unfold_locales
  fix g :: "'i pom_indices" and m k i
  assume g: "registry_ok g"
  then obtain a where a: "g = Some a" "distinct (map fst a)" by (auto simp: registry_ok_def split: option.splits)
  show "registry_ok (set_index m i g)" using a by (simp add: registry_ok_def set_index_def distinct_update)
  show "registry_ok (clear_index m g)" using a by (simp add: registry_ok_def clear_index_def distinct_delete)
  show "active_index_for_model k (set_index m i g) = (if k = m then Some i else active_index_for_model k g)"
    using a by (simp add: active_index_for_model_def set_index_def update_conv')
  show "active_index_for_model k (clear_index m g) = (if k = m then None else active_index_for_model k g)"
    using a by (simp add: active_index_for_model_def clear_index_def delete_conv')
  show "any_active_index g = None \<longleftrightarrow> (\<forall>k. active_index_for_model k g = None)"
    using a by (cases a) (auto simp: any_active_index_def active_index_for_model_def simp del: min_by_model.simps)
  show "active_index_for_model m g = Some i \<and> (\<forall>k j. active_index_for_model k g = Some j \<longrightarrow> bytes_le (hash_bytes m) (hash_bytes k))"
    if "any_active_index g = Some (m, i)"
    using a that min_by_model_Some [of a "(m, i)"] map_of_SomeD [of a]
    by (fastforce simp: any_active_index_def active_index_for_model_def)
qed

subsection \<open>Properties\<close>

text \<open>On mainnet the gates open in the order of the hardforks (PoM, H3, H4, H5, H5.1, H5.2, v3, v4, H10,
  private inference, v5), so a template at or after one gate is at or after all earlier ones, and the block task
  stays dormant below the largest DAA score.\<close>

theorem mainnet_gates_ordered:
  "sorted_wrt (<) [pom_activation_daa False, pom_level_activation_daa False, coin_age_verification_activation_daa False,
      h5_activation_daa False, h5_1_activation_daa False, h5_2_activation_daa False, pom_v3_activation_daa False,
      pom_v4_activation_daa False, h10_activation_daa False, private_inference_activation_daa False, pom_v5_activation_daa False]
    \<and> (daa \<ge> block_task_activation_daa \<longleftrightarrow> daa = - 1)"
proof -
  have "(- 1 :: u64) \<le> daa \<longleftrightarrow> daa = - 1" by (metis order_antisym order_refl word_n1_ge)
  then show ?thesis by (simp add: gate_defs block_task_activation_daa_def)
qed

text \<open>The registry of resident indices is a map from models to indices: installing an index makes it the one
  found for its model and changes no other, retiring a model removes exactly its index, and \<open>any_active_index\<close> finds
  an index whenever there is one, the one of the least model id.\<close>

theorem registry_lookup:
  assumes "registry_ok g"
  shows "active_index_for_model k (set_index m i g) = (if k = m then Some i else active_index_for_model k g)
    \<and> active_index_for_model k (clear_index m g) = (if k = m then None else active_index_for_model k g)
    \<and> registry_ok (set_index m i g) \<and> registry_ok (clear_index m g)
    \<and> (\<exists>x. any_active_index (set_index m i g) = Some x)
    \<and> (any_active_index g = Some (m', i') \<longrightarrow> active_index_for_model m' g = Some i'
        \<and> (active_index_for_model k g \<noteq> None \<longrightarrow> bytes_le (hash_bytes m') (hash_bytes k)))"
  using pom_registry.get_put [OF assms] pom_registry.get_del [OF assms] pom_registry.put_inv [OF assms] pom_registry.del_inv [OF assms]
    pom_registry.any_Some [OF assms] pom_registry.any_after_put [OF assms, of m i] by auto

theorem registry_lookup_witness:
  "registry_ok (Some [(5, 50), (7, 70 :: nat)])
    \<and> active_index_for_model 5 (clear_index 7 (Some [(5, 50), (7, 70 :: nat)])) = Some 50
    \<and> active_index_for_model 7 (set_index 7 71 (Some [(5, 50), (7, 70 :: nat)])) = Some 71"
proof -
  have ok: "registry_ok (Some [(5, 50), (7, 70 :: nat)])" by (simp add: registry_ok_def)
  from registry_lookup [OF ok, of 5 7 0] registry_lookup [OF ok, of 7 7 71] ok show ?thesis
    by (simp add: active_index_for_model_def)
qed

end
