(* ===== verification/Pom_Wire.thy ===== *)
theory Pom_Wire
  imports Pom_V5
begin

section \<open>Wire encodings of a proof\<close>

text \<open>
  Model of the era layouts of \<open>PomProof\<close> in \<open>src/pom.rs\<close>: the structs of the older eras, the choice of
  the layout in \<open>to_wire_bytes\<close> and the cascade of decoders in \<open>from_wire_bytes\<close>. The borsh crate is a
  parameter: a codec for every field type, with the documented facts that a struct is the concatenation
  of its fields in order and that \<open>from_slice\<close> rejects trailing bytes. \<open>None\<close> is a decode error.
\<close>

record 'a codec =
  enc :: "'a \<Rightarrow> bytes"
  dec :: "bytes \<Rightarrow> ('a \<times> bytes) option"

record borsh =
  b_u8 :: "u8 codec"
  b_u64 :: "u64 codec"
  b_hash :: "hash codec"
  b_hashes :: "hash list codec"
  b_openings :: "pom_opening list codec"
  b_steps :: "pom_step list option codec"
  b_v3 :: "pom_proof_v3 option codec"
  b_v4 :: "pom_proof_v4 option codec"
  b_task :: "bytes option codec"

subsection \<open>Layouts\<close>

record pom_proof_pre_h4 =
  p_tier :: u8
  p_trace_root :: hash
  p_pow_value :: hash
  p_final_state :: u64
  p_initial_trace_path :: "hash list"
  p_final_trace_path :: "hash list"
  p_openings :: "pom_opening list"

record pom_proof_pre_v3 = pom_proof_pre_h4 +
  p_steps_v2 :: "pom_step list option"

record pom_proof_pre_v4 = pom_proof_pre_v3 +
  p_v3 :: "pom_proof_v3 option"

record pom_proof_pre_task = pom_proof_pre_v4 +
  p_v4 :: "pom_proof_v4 option"

definition from_pre_task :: "pom_proof_pre_task \<Rightarrow> pom_proof" where
  "from_pre_task p = \<lparr>tier = p_tier p, trace_root = p_trace_root p, pow_value = p_pow_value p, final_state = p_final_state p,
     initial_trace_path = p_initial_trace_path p, final_trace_path = p_final_trace_path p, openings = p_openings p,
     steps_v2 = p_steps_v2 p, proof_v3 = p_v3 p, proof_v4 = p_v4 p, task = None\<rparr>"

definition from_pre_v4 :: "pom_proof_pre_v4 \<Rightarrow> pom_proof" where
  "from_pre_v4 p = \<lparr>tier = p_tier p, trace_root = p_trace_root p, pow_value = p_pow_value p, final_state = p_final_state p,
     initial_trace_path = p_initial_trace_path p, final_trace_path = p_final_trace_path p, openings = p_openings p,
     steps_v2 = p_steps_v2 p, proof_v3 = p_v3 p, proof_v4 = None, task = None\<rparr>"

definition from_pre_v3 :: "pom_proof_pre_v3 \<Rightarrow> pom_proof" where
  "from_pre_v3 p = \<lparr>tier = p_tier p, trace_root = p_trace_root p, pow_value = p_pow_value p, final_state = p_final_state p,
     initial_trace_path = p_initial_trace_path p, final_trace_path = p_final_trace_path p, openings = p_openings p,
     steps_v2 = p_steps_v2 p, proof_v3 = None, proof_v4 = None, task = None\<rparr>"

definition from_pre_h4 :: "pom_proof_pre_h4 \<Rightarrow> pom_proof" where
  "from_pre_h4 p = \<lparr>tier = p_tier p, trace_root = p_trace_root p, pow_value = p_pow_value p, final_state = p_final_state p,
     initial_trace_path = p_initial_trace_path p, final_trace_path = p_final_trace_path p, openings = p_openings p,
     steps_v2 = None, proof_v3 = None, proof_v4 = None, task = None\<rparr>"

subsection \<open>Derived codecs\<close>

text \<open>The seven fields all layouts share, then the encodings and decoders \<open>derive\<close> gives the structs.\<close>

definition enc_base :: "borsh \<Rightarrow> 'r pom_proof_pre_h4_scheme \<Rightarrow> bytes" where
  "enc_base B p = enc (b_u8 B) (p_tier p) @ enc (b_hash B) (p_trace_root p) @ enc (b_hash B) (p_pow_value p) @ enc (b_u64 B) (p_final_state p)
     @ enc (b_hashes B) (p_initial_trace_path p) @ enc (b_hashes B) (p_final_trace_path p) @ enc (b_openings B) (p_openings p)"

definition enc_pre_h4 :: "borsh \<Rightarrow> pom_proof_pre_h4 \<Rightarrow> bytes" where
  "enc_pre_h4 B p = enc_base B p"
definition enc_pre_v3 :: "borsh \<Rightarrow> pom_proof_pre_v3 \<Rightarrow> bytes" where
  "enc_pre_v3 B p = enc_base B p @ enc (b_steps B) (p_steps_v2 p)"
definition enc_pre_v4 :: "borsh \<Rightarrow> pom_proof_pre_v4 \<Rightarrow> bytes" where
  "enc_pre_v4 B p = enc_base B p @ enc (b_steps B) (p_steps_v2 p) @ enc (b_v3 B) (p_v3 p)"
definition enc_pre_task :: "borsh \<Rightarrow> pom_proof_pre_task \<Rightarrow> bytes" where
  "enc_pre_task B p = enc_base B p @ enc (b_steps B) (p_steps_v2 p) @ enc (b_v3 B) (p_v3 p) @ enc (b_v4 B) (p_v4 p)"
definition enc_proof :: "borsh \<Rightarrow> pom_proof \<Rightarrow> bytes" where
  "enc_proof B p = enc (b_u8 B) (tier p) @ enc (b_hash B) (trace_root p) @ enc (b_hash B) (pow_value p) @ enc (b_u64 B) (final_state p)
     @ enc (b_hashes B) (initial_trace_path p) @ enc (b_hashes B) (final_trace_path p) @ enc (b_openings B) (openings p)
     @ enc (b_steps B) (steps_v2 p) @ enc (b_v3 B) (proof_v3 p) @ enc (b_v4 B) (proof_v4 p) @ enc (b_task B) (task p)"

definition dec_pre_h4 :: "borsh \<Rightarrow> bytes \<Rightarrow> (pom_proof_pre_h4 \<times> bytes) option" where
  "dec_pre_h4 B bs = do {
     (t, bs) \<leftarrow> dec (b_u8 B) bs; (tr, bs) \<leftarrow> dec (b_hash B) bs; (pw, bs) \<leftarrow> dec (b_hash B) bs; (fs, bs) \<leftarrow> dec (b_u64 B) bs;
     (ip, bs) \<leftarrow> dec (b_hashes B) bs; (fp, bs) \<leftarrow> dec (b_hashes B) bs; (os, bs) \<leftarrow> dec (b_openings B) bs;
     Some (\<lparr>p_tier = t, p_trace_root = tr, p_pow_value = pw, p_final_state = fs, p_initial_trace_path = ip, p_final_trace_path = fp,
            p_openings = os\<rparr>, bs) }"

definition dec_pre_v3 :: "borsh \<Rightarrow> bytes \<Rightarrow> (pom_proof_pre_v3 \<times> bytes) option" where
  "dec_pre_v3 B bs = do { (b, bs) \<leftarrow> dec_pre_h4 B bs; (st, bs) \<leftarrow> dec (b_steps B) bs;
     Some (pom_proof_pre_h4.extend b \<lparr>p_steps_v2 = st\<rparr>, bs) }"

definition dec_pre_v4 :: "borsh \<Rightarrow> bytes \<Rightarrow> (pom_proof_pre_v4 \<times> bytes) option" where
  "dec_pre_v4 B bs = do { (b, bs) \<leftarrow> dec_pre_v3 B bs; (x, bs) \<leftarrow> dec (b_v3 B) bs;
     Some (pom_proof_pre_v3.extend b \<lparr>p_v3 = x\<rparr>, bs) }"

definition dec_pre_task :: "borsh \<Rightarrow> bytes \<Rightarrow> (pom_proof_pre_task \<times> bytes) option" where
  "dec_pre_task B bs = do { (b, bs) \<leftarrow> dec_pre_v4 B bs; (x, bs) \<leftarrow> dec (b_v4 B) bs;
     Some (pom_proof_pre_v4.extend b \<lparr>p_v4 = x\<rparr>, bs) }"

definition dec_proof :: "borsh \<Rightarrow> bytes \<Rightarrow> (pom_proof \<times> bytes) option" where
  "dec_proof B bs = do { (b, bs) \<leftarrow> dec_pre_task B bs; (x, bs) \<leftarrow> dec (b_task B) bs;
     Some ((from_pre_task b)\<lparr>task := x\<rparr>, bs) }"

definition from_slice :: "(bytes \<Rightarrow> ('a \<times> bytes) option) \<Rightarrow> bytes \<Rightarrow> 'a option" where
  "from_slice d bs = (case d bs of Some (x, []) \<Rightarrow> Some x | _ \<Rightarrow> None)"

subsection \<open>The wire functions\<close>

definition pre_task_of :: "pom_proof \<Rightarrow> pom_proof_pre_task" where
  "pre_task_of p = \<lparr>p_tier = tier p, p_trace_root = trace_root p, p_pow_value = pow_value p, p_final_state = final_state p,
     p_initial_trace_path = initial_trace_path p, p_final_trace_path = final_trace_path p, p_openings = openings p,
     p_steps_v2 = steps_v2 p, p_v3 = proof_v3 p, p_v4 = proof_v4 p\<rparr>"

definition pre_v4_of :: "pom_proof \<Rightarrow> pom_proof_pre_v4" where
  "pre_v4_of p = \<lparr>p_tier = tier p, p_trace_root = trace_root p, p_pow_value = pow_value p, p_final_state = final_state p,
     p_initial_trace_path = initial_trace_path p, p_final_trace_path = final_trace_path p, p_openings = openings p,
     p_steps_v2 = steps_v2 p, p_v3 = proof_v3 p\<rparr>"

definition pre_v3_of :: "pom_proof \<Rightarrow> pom_proof_pre_v3" where
  "pre_v3_of p = \<lparr>p_tier = tier p, p_trace_root = trace_root p, p_pow_value = pow_value p, p_final_state = final_state p,
     p_initial_trace_path = initial_trace_path p, p_final_trace_path = final_trace_path p, p_openings = openings p,
     p_steps_v2 = steps_v2 p\<rparr>"

definition pre_h4_of :: "pom_proof \<Rightarrow> pom_proof_pre_h4" where
  "pre_h4_of p = \<lparr>p_tier = tier p, p_trace_root = trace_root p, p_pow_value = pow_value p, p_final_state = final_state p,
     p_initial_trace_path = initial_trace_path p, p_final_trace_path = final_trace_path p, p_openings = openings p\<rparr>"

definition to_wire_bytes :: "borsh \<Rightarrow> pom_proof \<Rightarrow> bytes" where
  "to_wire_bytes B p =
     (if task p \<noteq> None then enc_proof B p
      else if proof_v4 p \<noteq> None then enc_pre_task B (pre_task_of p)
      else if proof_v3 p \<noteq> None then enc_pre_v4 B (pre_v4_of p)
      else if steps_v2 p \<noteq> None then enc_pre_v3 B (pre_v3_of p)
      else enc_pre_h4 B (pre_h4_of p))"

definition or_else :: "'a option \<Rightarrow> 'a option \<Rightarrow> 'a option" where
  "or_else a b = (case a of Some x \<Rightarrow> Some x | None \<Rightarrow> b)"

definition from_wire_bytes :: "borsh \<Rightarrow> bytes \<Rightarrow> pom_proof option" where
  "from_wire_bytes B bs =
     or_else (from_slice (dec_proof B) bs)
    (or_else (map_option from_pre_task (from_slice (dec_pre_task B) bs))
    (or_else (map_option from_pre_v4 (from_slice (dec_pre_v4 B) bs))
    (or_else (map_option from_pre_v3 (from_slice (dec_pre_v3 B) bs))
             (map_option from_pre_h4 (from_slice (dec_pre_h4 B) bs)))))"

subsection \<open>Round trip\<close>

text \<open>Documented behaviour of borsh: a decoder reads back what was encoded and leaves the rest, and an \<open>Option\<close> starts
  with a tag byte, so it is never read from nothing.\<close>

definition codec_ok :: "'a codec \<Rightarrow> bool" where
  "codec_ok c \<longleftrightarrow> (\<forall>x r. dec c (enc c x @ r) = Some (x, r))"

definition borsh_ok :: "borsh \<Rightarrow> bool" where
  "borsh_ok B \<longleftrightarrow> codec_ok (b_u8 B) \<and> codec_ok (b_u64 B) \<and> codec_ok (b_hash B) \<and> codec_ok (b_hashes B) \<and> codec_ok (b_openings B)
     \<and> codec_ok (b_steps B) \<and> codec_ok (b_v3 B) \<and> codec_ok (b_v4 B) \<and> codec_ok (b_task B)
     \<and> dec (b_steps B) [] = None \<and> dec (b_v3 B) [] = None \<and> dec (b_v4 B) [] = None \<and> dec (b_task B) [] = None"

lemma codec_okD: "codec_ok c \<Longrightarrow> dec c (enc c x @ r) = Some (x, r)"
  by (simp add: codec_ok_def)

lemma dec_base:
  assumes "borsh_ok B"
  shows "dec_pre_h4 B (enc_base B (p :: 'r pom_proof_pre_h4_scheme) @ r) = Some (pom_proof_pre_h4.truncate p, r)"
  using assms unfolding borsh_ok_def
  by (simp add: dec_pre_h4_def enc_base_def codec_okD pom_proof_pre_h4.truncate_def)

text \<open>C16. The wire encoding is lossless in every era: whichever extensions a proof carries, \<open>from_wire_bytes\<close> reads what
  \<open>to_wire_bytes\<close> wrote back to the same proof, the decoders of other eras tried first notwithstanding.\<close>

theorem wire_roundtrip:
  assumes "borsh_ok B"
  shows "from_wire_bytes B (to_wire_bytes B p) = Some p"
proof -
  have ok: "codec_ok (b_steps B)" "codec_ok (b_v3 B)" "codec_ok (b_v4 B)" "codec_ok (b_task B)"
    and nil: "dec (b_steps B) [] = None" "dec (b_v3 B) [] = None" "dec (b_v4 B) [] = None" "dec (b_task B) [] = None"
    using assms by (simp_all add: borsh_ok_def)
  note decs = codec_okD [OF ok(1)] codec_okD [OF ok(2)] codec_okD [OF ok(3)] codec_okD [OF ok(4)]
    codec_okD [OF ok(1), of _ "[]", simplified] codec_okD [OF ok(2), of _ "[]", simplified]
    codec_okD [OF ok(3), of _ "[]", simplified] codec_okD [OF ok(4), of _ "[]", simplified] nil
  have full: "enc_proof B p = enc_base B (pre_h4_of p) @ enc (b_steps B) (steps_v2 p) @ enc (b_v3 B) (proof_v3 p)
      @ enc (b_v4 B) (proof_v4 p) @ enc (b_task B) (task p)"
    by (simp add: enc_proof_def enc_base_def pre_h4_of_def)
  have bases: "enc_base B (pre_task_of p) = enc_base B (pre_h4_of p)" "enc_base B (pre_v4_of p) = enc_base B (pre_h4_of p)"
    "enc_base B (pre_v3_of p) = enc_base B (pre_h4_of p)"
    by (simp_all add: enc_base_def pre_task_of_def pre_v4_of_def pre_v3_of_def pre_h4_of_def)
  have sel: "p_steps_v2 (pre_task_of p) = steps_v2 p" "p_v3 (pre_task_of p) = proof_v3 p" "p_v4 (pre_task_of p) = proof_v4 p"
    "p_steps_v2 (pre_v4_of p) = steps_v2 p" "p_v3 (pre_v4_of p) = proof_v3 p" "p_steps_v2 (pre_v3_of p) = steps_v2 p"
    by (simp_all add: pre_task_of_def pre_v4_of_def pre_v3_of_def)
  have base_sel: "p_tier (pre_h4_of p) = tier p" "p_trace_root (pre_h4_of p) = trace_root p" "p_pow_value (pre_h4_of p) = pow_value p"
    "p_final_state (pre_h4_of p) = final_state p" "p_initial_trace_path (pre_h4_of p) = initial_trace_path p"
    "p_final_trace_path (pre_h4_of p) = final_trace_path p" "p_openings (pre_h4_of p) = openings p"
    by (simp_all add: pre_h4_of_def)
  note h4 = dec_base [OF assms, of "pre_h4_of p"] dec_base [OF assms, of "pre_h4_of p" "[]", simplified]
  note unfolds = from_wire_bytes_def from_slice_def or_else_def dec_proof_def dec_pre_task_def dec_pre_v4_def dec_pre_v3_def h4 decs
    from_pre_task_def from_pre_v4_def from_pre_v3_def from_pre_h4_def
    pom_proof_pre_h4.defs pom_proof_pre_v3.defs pom_proof_pre_v4.defs base_sel
  consider "task p \<noteq> None" | "task p = None" "proof_v4 p \<noteq> None" | "task p = None" "proof_v4 p = None" "proof_v3 p \<noteq> None"
    | "task p = None" "proof_v4 p = None" "proof_v3 p = None" "steps_v2 p \<noteq> None"
    | "task p = None" "proof_v4 p = None" "proof_v3 p = None" "steps_v2 p = None" by blast
  then show ?thesis
  proof cases
    case 1
    then have "to_wire_bytes B p = enc_proof B p" by (simp add: to_wire_bytes_def)
    then show ?thesis unfolding full by (simp add: unfolds)
  next
    case 2
    then have "to_wire_bytes B p = enc_pre_task B (pre_task_of p)" by (simp add: to_wire_bytes_def)
    then show ?thesis unfolding enc_pre_task_def bases sel using 2 by (simp add: unfolds)
  next
    case 3
    then have "to_wire_bytes B p = enc_pre_v4 B (pre_v4_of p)" by (simp add: to_wire_bytes_def)
    then show ?thesis unfolding enc_pre_v4_def bases sel using 3 by (simp add: unfolds)
  next
    case 4
    then have "to_wire_bytes B p = enc_pre_v3 B (pre_v3_of p)" by (simp add: to_wire_bytes_def)
    then show ?thesis unfolding enc_pre_v3_def bases sel using 4 by (simp add: unfolds)
  next
    case 5
    then have "to_wire_bytes B p = enc_pre_h4 B (pre_h4_of p)" by (simp add: to_wire_bytes_def)
    then show ?thesis unfolding enc_pre_h4_def using 5 by (simp add: unfolds)
  qed
qed

subsection \<open>Witness\<close>

text \<open>Concrete codecs: words in little-endian order, lists with a unary length, options with a tag.\<close>

definition fix_codec :: "nat \<Rightarrow> 'a::len word codec" where
  "fix_codec n = \<lparr>enc = (\<lambda>w. nat_le n (unat w)), dec = (\<lambda>bs. if n \<le> length bs then Some (word_of_nat (le_nat (take n bs)), drop n bs) else None)\<rparr>"

fun dec_count :: "bytes \<Rightarrow> (nat \<times> bytes) option" where
  "dec_count [] = None"
| "dec_count (b # bs) = (if b = 0 then Some (0, bs) else map_option (map_prod Suc id) (dec_count bs))"

fun dec_many :: "'a codec \<Rightarrow> nat \<Rightarrow> bytes \<Rightarrow> ('a list \<times> bytes) option" where
  "dec_many c 0 bs = Some ([], bs)"
| "dec_many c (Suc n) bs = do { (x, bs) \<leftarrow> dec c bs; (xs, bs) \<leftarrow> dec_many c n bs; Some (x # xs, bs) }"

definition vec_codec :: "'a codec \<Rightarrow> 'a list codec" where
  "vec_codec c = \<lparr>enc = (\<lambda>xs. replicate (length xs) 1 @ [0] @ concat (map (enc c) xs)),
     dec = (\<lambda>bs. do { (n, bs) \<leftarrow> dec_count bs; dec_many c n bs })\<rparr>"

definition opt_codec :: "'a codec \<Rightarrow> 'a option codec" where
  "opt_codec c = \<lparr>enc = (\<lambda>x. case x of None \<Rightarrow> [0] | Some y \<Rightarrow> 1 # enc c y),
     dec = (\<lambda>bs. case bs of [] \<Rightarrow> None | b # r \<Rightarrow> if b = 0 then Some (None, r) else map_option (map_prod Some id) (dec c r))\<rparr>"

definition pair_codec :: "'a codec \<Rightarrow> 'b codec \<Rightarrow> ('a \<times> 'b) codec" where
  "pair_codec c d = \<lparr>enc = (\<lambda>(x, y). enc c x @ enc d y), dec = (\<lambda>bs. do { (x, bs) \<leftarrow> dec c bs; (y, bs) \<leftarrow> dec d bs; Some ((x, y), bs) })\<rparr>"

definition iso_codec :: "('b \<Rightarrow> 'a) \<Rightarrow> ('a \<Rightarrow> 'b) \<Rightarrow> 'a codec \<Rightarrow> 'b codec" where
  "iso_codec f g c = \<lparr>enc = enc c \<circ> f, dec = (\<lambda>bs. map_option (map_prod g id) (dec c bs))\<rparr>"

lemma fix_codec_ok: "LENGTH('a) = 8 * n \<Longrightarrow> codec_ok (fix_codec n :: 'a::len word codec)"
proof -
  assume n: "LENGTH('a) = 8 * n"
  have "(word_of_nat (unat w mod 256 ^ n) :: 'a word) = w" for w :: "'a word"
    using unat_lt [of w] n power_mult [of "2 :: nat" 8 n] by simp
  then show ?thesis by (simp add: codec_ok_def fix_codec_def le_nat_nat_le)
qed

lemma dec_count_replicate: "dec_count (replicate n 1 @ 0 # r) = Some (n, r)"
  by (induction n) auto

lemma dec_many_concat: "codec_ok c \<Longrightarrow> dec_many c (length xs) (concat (map (enc c) xs) @ r) = Some (xs, r)"
  by (induction xs) (auto simp: codec_okD)

lemma vec_codec_ok: "codec_ok c \<Longrightarrow> codec_ok (vec_codec c)"
proof -
  assume c: "codec_ok c"
  have "dec (vec_codec c) (enc (vec_codec c) xs @ r) = Some (xs, r)" for xs r
    by (simp add: vec_codec_def dec_count_replicate dec_many_concat [OF c])
  then show "codec_ok (vec_codec c)" by (simp add: codec_ok_def)
qed

lemma opt_codec_ok: "codec_ok c \<Longrightarrow> codec_ok (opt_codec c)" "dec (opt_codec c) [] = None"
  by (auto simp: codec_ok_def opt_codec_def split: option.split)

lemma pair_codec_ok: "codec_ok c \<Longrightarrow> codec_ok d \<Longrightarrow> codec_ok (pair_codec c d)"
  by (auto simp: codec_ok_def pair_codec_def)

lemma iso_codec_ok: "codec_ok c \<Longrightarrow> (\<And>x. g (f x) = x) \<Longrightarrow> codec_ok (iso_codec f g c)"
  by (auto simp: codec_ok_def iso_codec_def)

lemmas codec_oks = vec_codec_ok opt_codec_ok pair_codec_ok iso_codec_ok

abbreviation "bytes_codec \<equiv> vec_codec (fix_codec 1 :: u8 codec)"
abbreviation "hashes_codec \<equiv> vec_codec (fix_codec 32 :: hash codec)"

definition toy_borsh :: borsh where
  "toy_borsh = \<lparr>b_u8 = fix_codec 1, b_u64 = fix_codec 8, b_hash = fix_codec 32, b_hashes = hashes_codec,
     b_openings = vec_codec (iso_codec (\<lambda>o1. (state_before o1, op_chunk o1, op_weight_path o1, trace_path_before o1, trace_path_after o1))
       (\<lambda>(a, b, c, d, e). \<lparr>state_before = a, op_chunk = b, op_weight_path = c, trace_path_before = d, trace_path_after = e\<rparr>)
       (pair_codec (fix_codec 8) (pair_codec (fix_codec 32) (pair_codec hashes_codec (pair_codec hashes_codec hashes_codec))))),
     b_steps = opt_codec (vec_codec (iso_codec (\<lambda>s. (step_chunk s, step_weight_path s)) (\<lambda>(a, b). \<lparr>step_chunk = a, step_weight_path = b\<rparr>)
       (pair_codec (fix_codec 32) hashes_codec))),
     b_v3 = opt_codec (iso_codec (\<lambda>p. (v3_tier p, v3_roots p, v3_snippets p, v3_checks p))
       (\<lambda>(a, b, c, d). \<lparr>v3_tier = a, v3_roots = b, v3_snippets = c, v3_checks = d\<rparr>)
       (pair_codec (fix_codec 1) (pair_codec hashes_codec (pair_codec hashes_codec (vec_codec
         (iso_codec (\<lambda>o1. (row_before o1, path_before o1, row_after o1, path_after o1, tile_col o1, col_path o1, snippet_path o1))
           (\<lambda>(a, b, c, d, e, f, g). \<lparr>row_before = a, path_before = b, row_after = c, path_after = d, tile_col = e, col_path = f, snippet_path = g\<rparr>)
           (pair_codec bytes_codec (pair_codec hashes_codec (pair_codec bytes_codec (pair_codec hashes_codec
             (pair_codec bytes_codec (pair_codec hashes_codec hashes_codec)))))))))))),
     b_v4 = opt_codec (iso_codec (\<lambda>p. (v4_tier p, v4_tiles p, v4_merkle p)) (\<lambda>(a, b, c). \<lparr>v4_tier = a, v4_tiles = b, v4_merkle = c\<rparr>)
       (pair_codec (fix_codec 1) (pair_codec (vec_codec bytes_codec) (vec_codec (iso_codec range_path (\<lambda>p. \<lparr>range_path = p\<rparr>) hashes_codec))))),
     b_task = opt_codec bytes_codec\<rparr>"

lemma toy_borsh_ok: "borsh_ok toy_borsh"
proof -
  have w: "codec_ok (fix_codec 1 :: u8 codec)" "codec_ok (fix_codec 8 :: u64 codec)" "codec_ok (fix_codec 32 :: hash codec)"
    by (rule fix_codec_ok; simp)+
  show ?thesis
    unfolding borsh_ok_def toy_borsh_def borsh.simps
    by (intro conjI codec_oks w) simp_all
qed

theorem wire_roundtrip_witness:
  "from_wire_bytes toy_borsh (to_wire_bytes toy_borsh
      \<lparr>tier = 1, trace_root = 2, pow_value = 3, final_state = 4, initial_trace_path = [], final_trace_path = [5], openings = [],
       steps_v2 = Some [\<lparr>step_chunk = 6, step_weight_path = [7]\<rparr>], proof_v3 = None, proof_v4 = None, task = None\<rparr>)
    = Some \<lparr>tier = 1, trace_root = 2, pow_value = 3, final_state = 4, initial_trace_path = [], final_trace_path = [5], openings = [],
       steps_v2 = Some [\<lparr>step_chunk = 6, step_weight_path = [7]\<rparr>], proof_v3 = None, proof_v4 = None, task = None\<rparr>"
  by (rule wire_roundtrip [OF toy_borsh_ok])

end
