(* ===== verification/Escrow_Batch.thy ===== *)
theory Escrow_Batch
  imports Pom_Gates
begin

section \<open>Escrow entries and the choice of a claim batch\<close>

text \<open>
  Model of the first part of \<open>src/escrow.rs\<close>: the tracked entry, the CSV window of an era, the
  key of an outpoint and \<open>select_claim_batch\<close>. DAA scores, amounts and counters are words of their
  width and the additions wrap as in the release build.
\<close>

subsection \<open>Constants\<close>

definition CHALLENGE_WINDOW_BLOCKS :: u64 where "CHALLENGE_WINDOW_BLOCKS = 36000"
definition SERVICE_BOND_CSV_WINDOW_BLOCKS :: u64 where "SERVICE_BOND_CSV_WINDOW_BLOCKS = 792000"
definition CLAIM_FEE_SOMPI :: u64 where "CLAIM_FEE_SOMPI = 30000000"
abbreviation "MAX_CLAIM_BATCH \<equiv> 87 :: nat"
abbreviation "MIN_CLAIM_BATCH \<equiv> MAX_CLAIM_BATCH"
definition CAP_EXPIRY_DAA :: u64 where "CAP_EXPIRY_DAA = 36000"
abbreviation "MAX_IN_FLIGHT_CLAIMS \<equiv> 4 :: nat"
definition CLAIM_RESPONSE_TIMEOUT_DAA :: u64 where "CLAIM_RESPONSE_TIMEOUT_DAA = 600"
definition UNKNOWN_RETRY_BASE_COOLDOWN_DAA :: nat where "UNKNOWN_RETRY_BASE_COOLDOWN_DAA = 100"
definition UNKNOWN_RETRY_MAX_COOLDOWN_DAA :: nat where "UNKNOWN_RETRY_MAX_COOLDOWN_DAA = 50000"
definition ORPHAN_RETRY_COOLDOWN_BLOCKS :: u64 where "ORPHAN_RETRY_COOLDOWN_BLOCKS = 100"
definition SEQ_LOCK_RETRY_COOLDOWN_BLOCKS :: u64 where "SEQ_LOCK_RETRY_COOLDOWN_BLOCKS = 20"
definition MAX_ORPHAN_RETRIES :: u8 where "MAX_ORPHAN_RETRIES = 10"

subsection \<open>Entries\<close>

record escrow_entry =
  coinbase_txid :: string
  block_hash :: string
  confirm_daa :: u64
  amount_sompi :: u64
  output_index :: u32
  claimed :: bool
  slashed :: bool
  orphan_slashed :: bool
  orphan_retries :: u8
  orphan_retry_after_daa :: "u64 option"
  submit_retries :: u8
  batch_cap :: u8
  cap_set_daa :: u64
  is_inference :: bool
  csv_window :: u64

definition default_csv_window :: u64 where
  "default_csv_window = CHALLENGE_WINDOW_BLOCKS"

definition csv_window_for_daa :: "bool \<Rightarrow> u64 \<Rightarrow> u64" where
  "csv_window_for_daa testnet daa =
     (if daa \<ge> pom_v3_activation_daa testnet then SERVICE_BOND_CSV_WINDOW_BLOCKS else CHALLENGE_WINDOW_BLOCKS)"

definition default_output_index :: u32 where
  "default_output_index = 1"

text \<open>Decimal digits of a number (\<open>Display\<close>), and the key \<open>"{txid}:{index}"\<close> of an outpoint.\<close>

fun dec_digits :: "nat \<Rightarrow> string" where
  "dec_digits n = (if n < 10 then [char_of (48 + n)] else dec_digits (n div 10) @ [char_of (48 + n mod 10)])"

declare dec_digits.simps [simp del]

definition outpoint_key :: "string \<Rightarrow> u32 \<Rightarrow> string" where
  "outpoint_key txid i = txid @ '':'' @ dec_digits (unat i)"

abbreviation entry_key :: "escrow_entry \<Rightarrow> string" where
  "entry_key e \<equiv> outpoint_key (coinbase_txid e) (output_index e)"

subsection \<open>Selection\<close>

definition mature :: "escrow_entry \<Rightarrow> u64 \<Rightarrow> bool" where
  "mature e daa_score \<longleftrightarrow> daa_score \<ge> confirm_daa e + csv_window e + 10"

definition eligible :: "escrow_entry \<Rightarrow> u64 \<Rightarrow> string set \<Rightarrow> bool" where
  "eligible e daa_score in_flight \<longleftrightarrow> \<not> claimed e \<and> \<not> slashed e \<and> mature e daa_score
     \<and> (case orphan_retry_after_daa e of None \<Rightarrow> True | Some retry_daa \<Rightarrow> daa_score \<ge> retry_daa)
     \<and> entry_key e \<notin> in_flight"

definition in_pass :: "nat \<Rightarrow> u64 \<Rightarrow> escrow_entry \<Rightarrow> bool" where
  "in_pass pass current_window e =
     (let proven_dead = orphan_slashed e in
      if pass = 0 then batch_cap e = 0 \<and> \<not> proven_dead
      else if pass = 1 then batch_cap e \<noteq> 0 \<and> \<not> proven_dead
      else if pass = 2 then batch_cap e = 0 \<and> \<not> proven_dead \<and> csv_window e \<noteq> current_window
      else proven_dead)"

definition entry_cap :: "escrow_entry \<Rightarrow> nat" where
  "entry_cap e = (if batch_cap e = 0 then MAX_CLAIM_BATCH else min (unat (batch_cap e)) MAX_CLAIM_BATCH)"

text \<open>The inner loop over the indices of one candidate: the limit, the window and the batch so far.\<close>

fun fill_batch :: "escrow_entry list \<Rightarrow> u64 \<Rightarrow> string set \<Rightarrow> nat \<Rightarrow> u64 \<Rightarrow> nat list \<Rightarrow> nat \<Rightarrow> u64 option \<Rightarrow> nat list \<Rightarrow> nat list" where
  "fill_batch entries daa_score in_flight pass current_window [] limit batch_window batch = batch"
| "fill_batch entries daa_score in_flight pass current_window (i # rest) limit batch_window batch =
     (let e = entries ! i in
      if \<not> in_pass pass current_window e then fill_batch entries daa_score in_flight pass current_window rest limit batch_window batch
      else if \<not> eligible e daa_score in_flight then fill_batch entries daa_score in_flight pass current_window rest limit batch_window batch
      else if (case batch_window of None \<Rightarrow> False | Some w \<Rightarrow> w \<noteq> csv_window e)
        then fill_batch entries daa_score in_flight pass current_window rest limit batch_window batch
      else let cap = entry_cap e in
        if min cap limit < length batch + 1 then fill_batch entries daa_score in_flight pass current_window rest limit batch_window batch
        else let limit = min limit cap; batch_window = Some (csv_window e); batch = batch @ [i] in
          if length batch \<ge> limit then batch
          else fill_batch entries daa_score in_flight pass current_window rest limit batch_window batch)"

definition candidate_indices :: "escrow_entry list \<Rightarrow> nat \<Rightarrow> nat list" where
  "candidate_indices entries pass =
     (if pass = 0 then sort_key (\<lambda>i. \<not> is_inference (entries ! i)) [0..<length entries] else [0..<length entries])"

definition releasable :: "nat \<Rightarrow> nat list \<Rightarrow> bool" where
  "releasable pass batch = (if pass = 0 then length batch \<ge> MIN_CLAIM_BATCH else batch \<noteq> [])"

text \<open>\<open>sort_unstable_by_key\<close> with the key \<open>(w != current_window, w)\<close>, as one number, then \<open>dedup\<close>.\<close>

definition window_order :: "u64 \<Rightarrow> u64 \<Rightarrow> nat" where
  "window_order current_window w = (if w \<noteq> current_window then 2 ^ 64 else 0) + unat w"

definition batch_candidates :: "escrow_entry list \<Rightarrow> u64 \<Rightarrow> (nat \<times> u64 option) list" where
  "batch_candidates entries current_window =
     map (\<lambda>w. (0, Some w)) (remdups_adj (sort_key (window_order current_window) (map csv_window entries)))
     @ [(1, None), (2, None), (3, None)]"

fun try_candidates :: "escrow_entry list \<Rightarrow> u64 \<Rightarrow> string set \<Rightarrow> u64 \<Rightarrow> (nat \<times> u64 option) list \<Rightarrow> nat list" where
  "try_candidates entries daa_score in_flight current_window [] = []"
| "try_candidates entries daa_score in_flight current_window ((pass, forced_window) # cs) =
     (let batch = fill_batch entries daa_score in_flight pass current_window (candidate_indices entries pass) MAX_CLAIM_BATCH forced_window []
      in if releasable pass batch then batch else try_candidates entries daa_score in_flight current_window cs)"

definition select_claim_batch :: "bool \<Rightarrow> escrow_entry list \<Rightarrow> u64 \<Rightarrow> string set \<Rightarrow> nat list" where
  "select_claim_batch testnet entries daa_score in_flight =
     (let current_window = csv_window_for_daa testnet daa_score
      in try_candidates entries daa_score in_flight current_window (batch_candidates entries current_window))"

subsection \<open>Outpoint keys identify outpoints\<close>

lemma dec_digits_no_colon: "CHR '':'' \<notin> set (dec_digits n)"
proof (induction n rule: dec_digits.induct)
  case (1 n)
  have d: "char_of (48 + k) \<noteq> CHR '':''" if "k < 10" for k :: nat
  proof
    assume "char_of (48 + k) = CHR '':''"
    then have "of_char (char_of (48 + k) :: char) = (of_char CHR '':'' :: nat)" by simp
    with that show False by (simp add: of_char_of)
  qed
  show ?case using 1 d [of n] d [of "n mod 10"] by (subst dec_digits.simps) auto
qed

fun undec :: "string \<Rightarrow> nat" where
  "undec s = foldl (\<lambda>a c. a * 10 + (of_char c - 48)) 0 s"

lemma undec_dec_digits: "undec (dec_digits n) = n"
proof (induction n rule: dec_digits.induct)
  case (1 n)
  then show ?case by (subst dec_digits.simps) (simp add: of_char_of)
qed

lemma split_at_last:
  assumes "a @ x # b = c @ x # d" and "x \<notin> set b" and "x \<notin> set d"
  shows "a = c \<and> b = d"
  using assms by (auto simp: append_eq_append_conv2 append_eq_Cons_conv Cons_eq_append_conv)

lemma outpoint_key_inject [simp]: "outpoint_key t i = outpoint_key t' i' \<longleftrightarrow> t = t' \<and> i = i'"
proof
  assume "outpoint_key t i = outpoint_key t' i'"
  then have "t @ CHR '':'' # dec_digits (unat i) = t' @ CHR '':'' # dec_digits (unat i')" by (simp add: outpoint_key_def)
  from split_at_last [OF this dec_digits_no_colon dec_digits_no_colon] have "t = t'" "dec_digits (unat i) = dec_digits (unat i')" by simp_all
  then show "t = t' \<and> i = i'" by (metis undec_dec_digits word_unat_eq_iff)
qed simp

subsection \<open>The inner loop\<close>

text \<open>What every batch satisfies: indices in range, each entry in the pass, eligible and with room for
  the whole batch, one CSV window.\<close>

definition batch_ok :: "escrow_entry list \<Rightarrow> u64 \<Rightarrow> string set \<Rightarrow> nat \<Rightarrow> u64 \<Rightarrow> nat list \<Rightarrow> bool" where
  "batch_ok es daa infl pass cw b \<longleftrightarrow> distinct b \<and> length b \<le> MAX_CLAIM_BATCH
     \<and> (\<forall>i \<in> set b. i < length es \<and> in_pass pass cw (es ! i) \<and> eligible (es ! i) daa infl \<and> length b \<le> entry_cap (es ! i))
     \<and> (\<forall>i \<in> set b. \<forall>j \<in> set b. csv_window (es ! i) = csv_window (es ! j))"

lemma entry_cap_bounds: "1 \<le> entry_cap e" "entry_cap e \<le> 87"
proof -
  have "0 < unat (batch_cap e)" if "batch_cap e \<noteq> 0" using that by (simp add: unat_gt_0)
  then show "1 \<le> entry_cap e" "entry_cap e \<le> 87" by (auto simp: entry_cap_def)
qed

text \<open>One iteration: the entry joins or is skipped.\<close>

definition joins :: "escrow_entry list \<Rightarrow> u64 \<Rightarrow> string set \<Rightarrow> nat \<Rightarrow> u64 \<Rightarrow> nat \<Rightarrow> u64 option \<Rightarrow> nat list \<Rightarrow> nat \<Rightarrow> bool" where
  "joins es daa infl pass cw limit win batch i \<longleftrightarrow> in_pass pass cw (es ! i) \<and> eligible (es ! i) daa infl
     \<and> (\<forall>w. win = Some w \<longrightarrow> w = csv_window (es ! i)) \<and> length batch + 1 \<le> min (entry_cap (es ! i)) limit"

lemma fill_batch_skip:
  "\<not> joins es daa infl pass cw limit win batch i \<Longrightarrow>
    fill_batch es daa infl pass cw (i # ks) limit win batch = fill_batch es daa infl pass cw ks limit win batch"
  by (cases win) (auto simp: joins_def Let_def not_le less_Suc_eq_le min_less_iff_disj not_less)

lemma fill_batch_join:
  "joins es daa infl pass cw limit win batch i \<Longrightarrow>
    fill_batch es daa infl pass cw (i # ks) limit win batch =
      (if min limit (entry_cap (es ! i)) \<le> length batch + 1 then batch @ [i]
       else fill_batch es daa infl pass cw ks (min limit (entry_cap (es ! i))) (Some (csv_window (es ! i))) (batch @ [i]))"
proof -
  assume j: "joins es daa infl pass cw limit win batch i"
  then have "\<not> min (entry_cap (es ! i)) limit < length batch + 1" "\<not> (case win of None \<Rightarrow> False | Some w \<Rightarrow> w \<noteq> csv_window (es ! i))"
    by (auto simp: joins_def split: option.splits)
  with j show ?thesis unfolding fill_batch.simps(2) Let_def joins_def by (simp only: if_False if_True simp_thms length_append_singleton Suc_eq_plus1)
qed

declare fill_batch.simps(2) [simp del]

lemma fill_batch_ok:
  assumes "distinct (batch @ ks)" and "\<forall>i \<in> set (batch @ ks). i < length es" and "length batch \<le> limit" and "limit \<le> 87"
    and "\<forall>i \<in> set batch. in_pass pass cw (es ! i) \<and> eligible (es ! i) daa infl \<and> limit \<le> entry_cap (es ! i) \<and> win = Some (csv_window (es ! i))"
  shows "batch_ok es daa infl pass cw (fill_batch es daa infl pass cw ks limit win batch)"
  using assms
proof (induction ks arbitrary: limit win batch)
  case Nil
  then have "\<forall>i \<in> set batch. length batch \<le> entry_cap (es ! i)" by (meson le_trans)
  moreover have "\<forall>i \<in> set batch. \<forall>j \<in> set batch. csv_window (es ! i) = csv_window (es ! j)" 
  proof (intro ballI)
    fix i j
    assume "i \<in> set batch" "j \<in> set batch"
    then have "win = Some (csv_window (es ! i))" "win = Some (csv_window (es ! j))" using Nil.prems(5) by blast+
    then show "csv_window (es ! i) = csv_window (es ! j)" by simp
  qed
  moreover have "\<forall>i \<in> set batch. in_pass pass cw (es ! i) \<and> eligible (es ! i) daa infl" using Nil.prems(5) by blast
  moreover have "distinct batch" "length batch \<le> 87" "\<forall>i \<in> set batch. i < length es" using Nil.prems(1-4) by simp_all
  ultimately show ?case unfolding batch_ok_def fill_batch.simps by blast
next
  case (Cons i ks)
  let ?e = "es ! i"
  show ?case
  proof (cases "joins es daa infl pass cw limit win batch i")
    case False
    have "batch_ok es daa infl pass cw (fill_batch es daa infl pass cw ks limit win batch)"
      by (rule Cons.IH) (use Cons.prems in auto)
    then show ?thesis by (simp add: fill_batch_skip [OF False])
  next
    case True
    let ?l = "min limit (entry_cap ?e)"
    have len: "length (batch @ [i]) \<le> ?l" using True by (simp add: joins_def)
    have mem: "\<forall>j \<in> set (batch @ [i]). in_pass pass cw (es ! j) \<and> eligible (es ! j) daa infl \<and> ?l \<le> entry_cap (es ! j)
        \<and> Some (csv_window ?e) = Some (csv_window (es ! j))"
      using True Cons.prems(5) by (auto simp: joins_def)
    then have "\<forall>j \<in> set (batch @ [i]). length (batch @ [i]) \<le> entry_cap (es ! j)" using len by (meson le_trans)
    moreover have "csv_window (es ! j) = csv_window (es ! k)" if "j \<in> set (batch @ [i])" "k \<in> set (batch @ [i])" for j k
      using mem that by (metis option.inject)
    moreover have "distinct (batch @ [i])" "length (batch @ [i]) \<le> 87" "\<forall>j \<in> set (batch @ [i]). j < length es"
      using len Cons.prems(1,2,4) by auto
    ultimately have full: "batch_ok es daa infl pass cw (batch @ [i])"
      using mem unfolding batch_ok_def by blast
    have "batch_ok es daa infl pass cw (fill_batch es daa infl pass cw ks ?l (Some (csv_window ?e)) (batch @ [i]))"
      by (rule Cons.IH) (use Cons.prems(1,2,4) len mem in auto)
    then show ?thesis using full by (simp add: fill_batch_join [OF True])
  qed
qed

lemma fill_batch_keeps: "set batch \<subseteq> set (fill_batch es daa infl pass cw ks limit win batch)"
proof (induction ks arbitrary: limit win batch)
  case (Cons i ks)
  show ?case
  proof (cases "joins es daa infl pass cw limit win batch i")
    case True
    then show ?thesis using Cons [of "batch @ [i]"] by (auto simp: fill_batch_join)
  next
    case False
    then show ?thesis using Cons by (simp add: fill_batch_skip)
  qed
qed simp

text \<open>An empty candidate has no eligible entry in its pass and window.\<close>

lemma fill_batch_empty:
  assumes "fill_batch es daa infl pass cw ks 87 win [] = []" and "i \<in> set ks"
    and "in_pass pass cw (es ! i)" and "\<And>w. win = Some w \<Longrightarrow> w = csv_window (es ! i)"
  shows "\<not> eligible (es ! i) daa infl"
  using assms(1,2)
proof (induction ks)
  case (Cons j ks)
  show ?case
  proof (cases "joins es daa infl pass cw 87 win [] j")
    case True
    have "j \<in> set (fill_batch es daa infl pass cw (j # ks) 87 win [])"
      using fill_batch_keeps [of "[j]" es daa infl pass cw ks] by (auto simp: fill_batch_join [OF True])
    with Cons.prems(1) show ?thesis by simp
  next
    case False
    then have "fill_batch es daa infl pass cw ks 87 win [] = []" using Cons.prems(1) by (simp add: fill_batch_skip)
    moreover have "\<not> eligible (es ! i) daa infl" if "j = i"
      using False that assms(3,4) entry_cap_bounds [of "es ! i"] by (auto simp: joins_def)
    ultimately show ?thesis using Cons by auto
  qed
qed simp

text \<open>The nominal candidate of a window takes the first 87 entries that qualify.\<close>

abbreviation nominal :: "escrow_entry list \<Rightarrow> u64 \<Rightarrow> string set \<Rightarrow> u64 \<Rightarrow> nat \<Rightarrow> bool" where
  "nominal es daa infl w i \<equiv> batch_cap (es ! i) = 0 \<and> \<not> orphan_slashed (es ! i) \<and> eligible (es ! i) daa infl \<and> csv_window (es ! i) = w"

lemma joins_nominal:
  "length batch < 87 \<Longrightarrow> joins es daa infl 0 cw 87 (Some w) batch i \<longleftrightarrow> nominal es daa infl w i"
  by (auto simp: joins_def in_pass_def entry_cap_def)

lemma fill_batch_nominal:
  assumes "length batch < 87"
  shows "fill_batch es daa infl 0 cw ks 87 (Some w) batch = take 87 (batch @ filter (nominal es daa infl w) ks)"
  using assms
proof (induction ks arbitrary: batch)
  case (Cons i ks)
  note j = joins_nominal [OF Cons.prems, of es daa infl cw w i]
  show ?case
  proof (cases "nominal es daa infl w i")
    case False
    have "fill_batch es daa infl 0 cw (i # ks) 87 (Some w) batch = fill_batch es daa infl 0 cw ks 87 (Some w) batch"
      by (rule fill_batch_skip) (use j False in blast)
    with Cons.IH [OF Cons.prems] False show ?thesis by auto
  next
    case True
    then have cap: "entry_cap (es ! i) = 87" and w: "csv_window (es ! i) = w" by (auto simp: entry_cap_def)
    have st: "fill_batch es daa infl 0 cw (i # ks) 87 (Some w) batch = (if 87 \<le> length batch + 1 then batch @ [i]
        else fill_batch es daa infl 0 cw ks 87 (Some w) (batch @ [i]))"
      using fill_batch_join [of es daa infl 0 cw 87 "Some w" batch i ks] j True by (simp add: cap w)
    show ?thesis
    proof (cases "length batch + 1 < 87")
      case lt: True
      then show ?thesis using st Cons.IH [of "batch @ [i]"] True by auto
    next
      case False
      then have "length batch = 86" using Cons.prems by simp
      then show ?thesis using st True by simp
    qed
  qed
qed simp

lemma sort_key_bool: "sort_key (\<lambda>i. \<not> P i) xs = filter P xs @ filter (\<lambda>i. \<not> P i) xs"
proof (induction xs)
  case (Cons x xs)
  have ins: "insort_key (\<lambda>i. \<not> P i) x (as @ bs) = (if P x then x # as @ bs else as @ x # bs)"
    if "\<forall>a \<in> set as. P a" "\<forall>b \<in> set bs. \<not> P b" for as bs
    using that
  proof (induction as)
    case Nil
    then show ?case by (cases bs) auto
  qed auto
  have "sort_key (\<lambda>i. \<not> P i) (x # xs) = insort_key (\<lambda>i. \<not> P i) x (filter P xs @ filter (\<lambda>i. \<not> P i) xs)"
    by (simp only: sort_key_simps Cons)
  also have "\<dots> = filter P (x # xs) @ filter (\<lambda>i. \<not> P i) (x # xs)"
    by (subst ins) simp_all
  finally show ?case .
qed simp

lemma set_candidate_indices [simp]: "set (candidate_indices es pass) = {0..<length es}"
  by (simp add: candidate_indices_def)

lemma distinct_candidate_indices [simp]: "distinct (candidate_indices es pass)"
  by (simp add: candidate_indices_def)

lemma length_filter_candidates: "length (filter P (candidate_indices es pass)) = length (filter P [0..<length es])"
proof -
  have "length (filter P (filter Q xs @ filter (\<lambda>x. \<not> Q x) xs)) = length (filter P xs)" for Q xs
    by (induction xs) auto
  then show ?thesis by (simp add: candidate_indices_def sort_key_bool)
qed

lemma candidate_ok:
  "batch_ok es daa infl pass cw (fill_batch es daa infl pass cw (candidate_indices es pass) 87 win [])"
  by (rule fill_batch_ok) auto

subsection \<open>The candidates\<close>

lemma try_candidates_result:
  "try_candidates es daa infl cw cs = [] \<or> (\<exists>pass win. (pass, win) \<in> set cs \<and> releasable pass (try_candidates es daa infl cw cs)
     \<and> try_candidates es daa infl cw cs = fill_batch es daa infl pass cw (candidate_indices es pass) 87 win [])"
proof (induction cs)
  case (Cons c cs)
  then show ?case by (cases c) (auto simp: Let_def)
qed simp

lemma try_candidates_empty:
  assumes "try_candidates es daa infl cw cs = []" and "(pass, win) \<in> set cs"
  shows "\<not> releasable pass (fill_batch es daa infl pass cw (candidate_indices es pass) 87 win [])"
  using assms
proof (induction cs)
  case (Cons c cs)
  then show ?case by (cases c) (auto simp: Let_def releasable_def split: if_splits)
qed simp

lemma windows_member: "(0, Some w) \<in> set (batch_candidates es cw) \<longleftrightarrow> w \<in> csv_window ` set es"
  by (auto simp: batch_candidates_def)

lemma candidate_passes: "(pass, win) \<in> set (batch_candidates es cw) \<Longrightarrow> pass = 0 \<and> (\<exists>w. win = Some w) \<or> pass \<in> {1, 2, 3} \<and> win = None"
  by (auto simp: batch_candidates_def)

lemma current_window_first:
  assumes "cw \<in> set ws"
  shows "\<exists>r. remdups_adj (sort_key (window_order cw) ws) = cw # r"
proof -
  let ?s = "sort_key (window_order cw) ws"
  have cw: "cw \<in> set ?s" and sd: "sorted (map (window_order cw) ?s)" using assms by simp_all
  then obtain y ys where s: "?s = y # ys" by (cases ?s) auto
  have "y = cw"
  proof (rule ccontr)
    assume "y \<noteq> cw"
    then have "cw \<in> set ys" using cw s by auto
    then have "window_order cw y \<le> window_order cw cw" using sd unfolding s by simp
    with \<open>y \<noteq> cw\<close> show False using unat_lt [of cw] by (simp add: window_order_def)
  qed
  then have "hd (remdups_adj ?s) = cw" "remdups_adj ?s \<noteq> []" using s by (simp_all add: hd_remdups_adj)
  then show ?thesis by (cases "remdups_adj ?s") auto
qed

lemma try_candidates_head:
  "releasable pass b \<Longrightarrow> b = fill_batch es daa infl pass cw (candidate_indices es pass) 87 win [] \<Longrightarrow>
    try_candidates es daa infl cw ((pass, win) # cs) = b"
  by (simp add: Let_def)

subsection \<open>Properties\<close>

text \<open>C2. Every batch \<open>select_claim_batch\<close> returns is safe to sign as one transaction: distinct indices of
  tracked entries, at most 87 and no more than the bisection cap of any member, every member unclaimed, not
  slashed, mature, out of its cooldown and not in flight, all with one CSV window, and live entries never mixed
  with known-dead ones nor capped entries with uncapped ones. An uncapped batch of the current window is full.\<close>

theorem claim_batch_safe:
  assumes "b = select_claim_batch testnet es daa infl" and "i \<in> set b" and "j \<in> set b"
  shows "distinct b \<and> length b \<le> MAX_CLAIM_BATCH \<and> i < length es \<and> eligible (es ! i) daa infl
    \<and> length b \<le> entry_cap (es ! i) \<and> csv_window (es ! i) = csv_window (es ! j)
    \<and> orphan_slashed (es ! i) = orphan_slashed (es ! j)
    \<and> (\<not> orphan_slashed (es ! i) \<longrightarrow> (batch_cap (es ! i) = 0) = (batch_cap (es ! j) = 0))
    \<and> (\<not> orphan_slashed (es ! i) \<and> batch_cap (es ! i) = 0 \<and> csv_window (es ! i) = csv_window_for_daa testnet daa \<longrightarrow> length b = MAX_CLAIM_BATCH)"
proof -
  let ?cw = "csv_window_for_daa testnet daa"
  have b: "b = try_candidates es daa infl ?cw (batch_candidates es ?cw)" using assms(1) by (simp add: select_claim_batch_def Let_def)
  then obtain pass win where p: "(pass, win) \<in> set (batch_candidates es ?cw)" "releasable pass b"
    and eq: "b = fill_batch es daa infl pass ?cw (candidate_indices es pass) 87 win []"
    using try_candidates_result [of es daa infl ?cw "batch_candidates es ?cw"] assms(2) by auto
  have ok: "batch_ok es daa infl pass ?cw b" unfolding eq by (rule candidate_ok)
  have pass: "pass = 0 \<or> pass = 1 \<or> pass = 2 \<or> pass = 3" using candidate_passes [OF p(1)] by auto
  have ip: "in_pass pass ?cw (es ! i)" "in_pass pass ?cw (es ! j)" using ok assms(2,3) unfolding batch_ok_def by blast+
  have "pass = 0 \<Longrightarrow> length b = 87" using p(2) ok by (simp add: releasable_def batch_ok_def)
  moreover have "orphan_slashed (es ! i) = orphan_slashed (es ! j)"
    "\<not> orphan_slashed (es ! i) \<Longrightarrow> (batch_cap (es ! i) = 0) = (batch_cap (es ! j) = 0)"
    "\<not> orphan_slashed (es ! i) \<Longrightarrow> batch_cap (es ! i) = 0 \<Longrightarrow> csv_window (es ! i) = ?cw \<Longrightarrow> pass = 0"
    using ip pass by (auto simp: in_pass_def)
  ultimately show ?thesis using ok assms(2,3) unfolding batch_ok_def by blast
qed

text \<open>C30. No claimable work is starved: when \<open>select_claim_batch\<close> returns nothing, no capped, known-dead or
  old-window entry is eligible, and of every CSV window fewer than 87 live uncapped entries are.\<close>

theorem claim_batch_complete:
  assumes "select_claim_batch testnet es daa infl = []"
  shows "(\<forall>i < length es. eligible (es ! i) daa infl \<longrightarrow>
      \<not> orphan_slashed (es ! i) \<and> batch_cap (es ! i) = 0 \<and> csv_window (es ! i) = csv_window_for_daa testnet daa)
    \<and> length (filter (nominal es daa infl w) [0..<length es]) < MAX_CLAIM_BATCH"
proof
  let ?cw = "csv_window_for_daa testnet daa"
  have no: "\<not> releasable pass (fill_batch es daa infl pass ?cw (candidate_indices es pass) 87 win [])"
    if "(pass, win) \<in> set (batch_candidates es ?cw)" for pass win
    using try_candidates_empty [OF _ that] assms by (simp add: select_claim_batch_def Let_def)
  have empty: "fill_batch es daa infl p ?cw (candidate_indices es p) 87 None [] = []" if "p \<in> {1, 2, 3}" for p
    using no [of p None] that by (auto simp: releasable_def batch_candidates_def)
  show "\<forall>i < length es. eligible (es ! i) daa infl \<longrightarrow>
      \<not> orphan_slashed (es ! i) \<and> batch_cap (es ! i) = 0 \<and> csv_window (es ! i) = ?cw"
  proof (intro allI impI)
    fix i
    assume i: "i < length es" "eligible (es ! i) daa infl"
    have "\<not> in_pass p ?cw (es ! i)" if "p \<in> {1, 2, 3}" for p
      using fill_batch_empty [OF empty [OF that], of i] i by auto
    from this [of 1] this [of 2] this [of 3]
    show "\<not> orphan_slashed (es ! i) \<and> batch_cap (es ! i) = 0 \<and> csv_window (es ! i) = ?cw" by (auto simp: in_pass_def)
  qed
  show "length (filter (nominal es daa infl w) [0..<length es]) < 87"
  proof (rule ccontr)
    let ?P = "nominal es daa infl w"
    assume "\<not> ?thesis"
    then have big: "87 \<le> length (filter ?P [0..<length es])" by simp
    then obtain i where "i \<in> set (filter ?P [0..<length es])" by (cases "filter ?P [0..<length es]") auto
    then have "(0, Some w) \<in> set (batch_candidates es ?cw)" unfolding windows_member by auto
    note no [OF this]
    moreover have "length (filter ?P (candidate_indices es 0)) = length (filter ?P [0..<length es])"
      by (rule length_filter_candidates)
    ultimately show False using big fill_batch_nominal [of "[]" es daa infl ?cw "candidate_indices es 0" w]
      by (simp add: releasable_def)
  qed
qed

text \<open>Nominal service order: with at least 87 claimable live uncapped entries of the current window the batch
  is the first 87 of them, inference escrows before coinbase escrows and each kind in queue order.\<close>

theorem claim_batch_nominal:
  assumes "cw = csv_window_for_daa testnet daa" and "MAX_CLAIM_BATCH \<le> length (filter (nominal es daa infl cw) [0..<length es])"
  shows "select_claim_batch testnet es daa infl = take MAX_CLAIM_BATCH
    (filter (nominal es daa infl cw) (filter (\<lambda>i. is_inference (es ! i)) [0..<length es] @ filter (\<lambda>i. \<not> is_inference (es ! i)) [0..<length es]))"
proof -
  let ?P = "nominal es daa infl cw"
  let ?b = "fill_batch es daa infl 0 cw (candidate_indices es 0) 87 (Some cw) []"
  obtain i where "i \<in> set (filter ?P [0..<length es])" using assms(2) by (cases "filter ?P [0..<length es]") auto
  then have "cw \<in> set (map csv_window es)" by auto
  then obtain r where r: "remdups_adj (sort_key (window_order cw) (map csv_window es)) = cw # r"
    using current_window_first by blast
  have b: "?b = take 87 (filter ?P (candidate_indices es 0))" by (simp add: fill_batch_nominal)
  have "length (filter ?P (candidate_indices es 0)) = length (filter ?P [0..<length es])"
    by (rule length_filter_candidates)
  then have "releasable 0 ?b" using assms(2) b by (simp add: releasable_def)
  from try_candidates_head [OF this refl] have "select_claim_batch testnet es daa infl = ?b"
    by (simp add: select_claim_batch_def batch_candidates_def r assms(1) [symmetric] Let_def)
  also have "candidate_indices es 0 = filter (\<lambda>i. is_inference (es ! i)) [0..<length es] @ filter (\<lambda>i. \<not> is_inference (es ! i)) [0..<length es]"
    by (simp add: candidate_indices_def sort_key_bool)
  finally show ?thesis using fill_batch_nominal [of "[]"] by simp
qed

subsection \<open>Witnesses\<close>

definition toy_entry :: "string \<Rightarrow> bool \<Rightarrow> u8 \<Rightarrow> escrow_entry" where
  "toy_entry txid ai cap = \<lparr>coinbase_txid = txid, block_hash = ''b0'', confirm_daa = 100, amount_sompi = 50000000, output_index = 1,
     claimed = False, slashed = False, orphan_slashed = False, orphan_retries = 0, orphan_retry_after_daa = None, submit_retries = 0,
     batch_cap = cap, cap_set_daa = 0, is_inference = ai, csv_window = 36000\<rparr>"

lemma toy_entry_eligible [simp]: "eligible (toy_entry t b c) 40000 {}"
  by (simp add: eligible_def mature_def toy_entry_def)

lemma toy_entry_sel [simp]: "batch_cap (toy_entry t b c) = c" "orphan_slashed (toy_entry t b c) = False"
  "csv_window (toy_entry t b c) = 36000" "is_inference (toy_entry t b c) = b"
  by (simp_all add: toy_entry_def)

lemma toy_window [simp]: "csv_window_for_daa False 40000 = 36000"
  by (simp add: csv_window_for_daa_def pom_v3_activation_daa_def gate_def CHALLENGE_WINDOW_BLOCKS_def)

text \<open>Two capped entries and an uncapped one: the repair pass ships the capped pair.\<close>

abbreviation "toy_repair \<equiv> [toy_entry ''aa'' False 2, toy_entry ''bb'' False 0, toy_entry ''cc'' False 2]"

lemma toy_repair_batch: "select_claim_batch False toy_repair 40000 {} = [0, 2]"
  by (simp add: select_claim_batch_def batch_candidates_def candidate_indices_def sort_key_bool releasable_def upt_rec
      fill_batch.simps(2) in_pass_def entry_cap_def Let_def)

theorem claim_batch_safe_witness:
  "select_claim_batch False toy_repair 40000 {} = [0, 2] \<and> eligible (toy_repair ! 2) 40000 {} \<and> (2 :: nat) \<le> entry_cap (toy_repair ! 2)"
  using claim_batch_safe [OF refl, of 2 False toy_repair 40000 "{}" 0] unfolding toy_repair_batch by simp

theorem claim_batch_complete_witness:
  "select_claim_batch False [toy_entry ''bb'' False 0] 40000 {} = []
    \<and> length (filter (nominal [toy_entry ''bb'' False 0] 40000 {} 36000) [0..<1]) < MAX_CLAIM_BATCH"
proof -
  have "select_claim_batch False [toy_entry ''bb'' False 0] 40000 {} = []"
    by (simp add: select_claim_batch_def batch_candidates_def candidate_indices_def releasable_def
        fill_batch.simps(2) in_pass_def entry_cap_def Let_def)
  with claim_batch_complete [OF this, of 36000] show ?thesis by simp
qed

theorem claim_batch_nominal_witness:
  "select_claim_batch False (replicate 87 (toy_entry ''aa'' False 0) @ [toy_entry ''bb'' True 0]) 40000 {} = 87 # [0..<86]"
proof -
  let ?es = "replicate 87 (toy_entry ''aa'' False 0) @ [toy_entry ''bb'' True 0]"
  have nom: "filter (nominal ?es 40000 {} 36000) xs = xs" if "set xs \<subseteq> {0..<88}" for xs
    using that by (intro filter_True) (auto simp: nth_append)
  have inf: "filter (\<lambda>i. is_inference (?es ! i)) [0..<88] = [87]" "filter (\<lambda>i. \<not> is_inference (?es ! i)) [0..<88] = [0..<87]"
  proof -
    have split: "[0..<88] = [0..<87] @ [87]" using upt_Suc_append [of 0 87] by simp
    show "filter (\<lambda>i. is_inference (?es ! i)) [0..<88] = [87]" "filter (\<lambda>i. \<not> is_inference (?es ! i)) [0..<88] = [0..<87]"
      unfolding split by (auto simp: nth_append filter_empty_conv intro!: filter_True)
  qed
  have "select_claim_batch False ?es 40000 {} = take 87 (87 # [0..<87])"
    using claim_batch_nominal [of 36000 False 40000 ?es "{}"] nom [of "[0..<88]"] nom [of "87 # [0..<87]"] inf
    by simp
  also have "\<dots> = 87 # [0..<86]" by (simp add: take_Cons')
  finally show ?thesis .
qed

end
