(* ===== verification/Escrow_Claim.thy ===== *)
theory Escrow_Claim
  imports Escrow_Batch
begin

section \<open>Escrow scripts, addresses and claim transactions\<close>

text \<open>
  Model of the script builders, the sighash and transaction id, the address decoder, the delegation
  certificates and \<open>build_claim_tx\<close> of \<open>src/escrow.rs\<close>. The crates the code calls are the fields of
  \<open>crypto\<close>: keyed BLAKE2b-256, hex encoding and the secp256k1 operations. Byte strings of fixed size
  keep the size of their Rust type by the function that produces them.
\<close>

subsection \<open>Crates\<close>

record crypto =
  blake2b_keyed :: "bytes \<Rightarrow> bytes \<Rightarrow> hash"
  hex_encode :: "bytes \<Rightarrow> string"
  hex_decode :: "string \<Rightarrow> bytes option"
  secret_valid :: "bytes \<Rightarrow> bool"
  x_only_public_key :: "bytes \<Rightarrow> hash"
  sign_schnorr :: "bytes \<Rightarrow> hash \<Rightarrow> bytes"
  xonly_valid :: "hash \<Rightarrow> bool"
  verify_schnorr :: "bytes \<Rightarrow> hash \<Rightarrow> hash \<Rightarrow> bool"

subsection \<open>Transactions\<close>

record rpc_outpoint =
  op_transaction_id :: string
  op_index :: u32

record rpc_transaction_input =
  previous_outpoint :: "rpc_outpoint option"
  signature_script :: string
  sequence :: u64
  sig_op_count :: u32

record rpc_script_public_key =
  spk_version :: u32
  spk_script :: string

record rpc_transaction_output =
  out_amount :: u64
  script_public_key :: "rpc_script_public_key option"

record rpc_transaction =
  tx_version :: u32
  tx_inputs :: "rpc_transaction_input list"
  tx_outputs :: "rpc_transaction_output list"
  lock_time :: u64
  subnetwork_id :: string
  gas :: u64
  tx_payload :: string
  tx_mass :: u64
  tx_id :: "string option"

definition NATIVE_SUBNETWORK :: string where
  "NATIVE_SUBNETWORK = replicate 40 CHR ''0''"

definition OP_CSV :: u8 where "OP_CSV = 0xb1"
definition OP_CHECKSIG :: u8 where "OP_CHECKSIG = 0xac"
definition SIG_HASH_ALL :: u8 where "SIG_HASH_ALL = 0x01"

definition str_bytes :: "string \<Rightarrow> bytes" where
  "str_bytes s = map of_char s"

subsection \<open>Script builders\<close>

definition build_escrow_script :: "hash \<Rightarrow> u64 \<Rightarrow> bytes" where
  "build_escrow_script pubkey csv =
     (let le = u64_le csv;
          trimmed_len = 8 - length (takeWhile (\<lambda>b. b = 0) (rev le));
          seq_bytes = take trimmed_len le
      in [word_of_nat (length seq_bytes)] @ seq_bytes @ [OP_CSV, 0x20] @ hash_bytes pubkey @ [OP_CHECKSIG])"

definition build_p2pk_script :: "hash \<Rightarrow> bytes" where
  "build_p2pk_script pubkey = [0x20] @ hash_bytes pubkey @ [OP_CHECKSIG]"

subsection \<open>Sighash and transaction id\<close>

type_synonym claim_input = "hash \<times> u32 \<times> u64"

definition sighash_hasher :: "crypto \<Rightarrow> bytes \<Rightarrow> hash" where
  "sighash_hasher X = blake2b_keyed X (str_bytes ''TransactionSigningHash'')"

record sighash_reused =
  prev_out_hash :: hash
  seqs_hash :: hash
  sigops_hash :: hash
  outs_hash :: hash

definition sighash_reused_new :: "crypto \<Rightarrow> claim_input list \<Rightarrow> u64 \<Rightarrow> u16 \<Rightarrow> bytes \<Rightarrow> u64 \<Rightarrow> sighash_reused" where
  "sighash_reused_new X inputs payout_amount spk_ver spk csv =
     \<lparr>prev_out_hash = sighash_hasher X (concat (map (\<lambda>(txid, index, _). hash_bytes txid @ u32_le index) inputs)),
      seqs_hash = sighash_hasher X (concat (map (\<lambda>_. u64_le csv) inputs)),
      sigops_hash = sighash_hasher X (concat (map (\<lambda>_. [1]) inputs)),
      outs_hash = sighash_hasher X (u64_le payout_amount @ u16_le spk_ver @ u64_le (word_of_nat (length spk)) @ spk)\<rparr>"

definition compute_sighash :: "crypto \<Rightarrow> claim_input \<Rightarrow> bytes \<Rightarrow> sighash_reused \<Rightarrow> u64 \<Rightarrow> hash" where
  "compute_sighash X inp escrow_script reused csv = (case inp of (txid, index, amount) \<Rightarrow>
     sighash_hasher X
       (u16_le 0 @ hash_bytes (prev_out_hash reused) @ hash_bytes (seqs_hash reused) @ hash_bytes (sigops_hash reused)
        @ hash_bytes txid @ u32_le index @ u16_le 0 @ u64_le (word_of_nat (length escrow_script)) @ escrow_script
        @ u64_le amount @ u64_le csv @ [1] @ hash_bytes (outs_hash reused) @ u64_le 0 @ replicate 20 0 @ u64_le 0
        @ replicate 32 0 @ [SIG_HASH_ALL]))"

definition claim_txid_preimage :: "claim_input list \<Rightarrow> u64 \<Rightarrow> u16 \<Rightarrow> bytes \<Rightarrow> u64 \<Rightarrow> bytes" where
  "claim_txid_preimage inputs payout_amount spk_ver spk csv =
     u16_le 0 @ u64_le (word_of_nat (length inputs))
     @ concat (map (\<lambda>(txid, index, _). hash_bytes txid @ u32_le index @ u64_le 0 @ u64_le csv) inputs)
     @ u64_le 1 @ u64_le payout_amount @ u16_le spk_ver @ u64_le (word_of_nat (length spk)) @ spk
     @ u64_le 0 @ replicate 20 0 @ u64_le 0 @ u64_le 0"

definition compute_claim_txid :: "crypto \<Rightarrow> claim_input list \<Rightarrow> u64 \<Rightarrow> u16 \<Rightarrow> bytes \<Rightarrow> u64 \<Rightarrow> string" where
  "compute_claim_txid X inputs payout_amount spk_ver spk csv =
     hex_encode X (hash_bytes (blake2b_keyed X (str_bytes ''TransactionID'') (claim_txid_preimage inputs payout_amount spk_ver spk csv)))"

subsection \<open>Claim transaction\<close>

text \<open>The key and payout fields of \<open>EscrowWatcher\<close>.\<close>

record escrow_keys =
  secret_key :: bytes
  pubkey_bytes :: hash
  escrow_script_hex :: string
  escrow_script_bonded_hex :: string
  payout_spk_version :: u16
  payout_spk_script :: bytes
  payout_spk_script_hex :: string

datatype claim_error = EmptyBatch | MixedWindows | AmountTooSmall | BadTxid | TxidLength

fun decode_inputs :: "crypto \<Rightarrow> escrow_entry list \<Rightarrow> claim_error + claim_input list" where
  "decode_inputs X [] = Inr []"
| "decode_inputs X (e # es) =
     (case hex_decode X (coinbase_txid e) of None \<Rightarrow> Inl BadTxid
      | Some bs \<Rightarrow> if length bs \<noteq> 32 then Inl TxidLength
          else rbind (decode_inputs X es) (\<lambda>r. Inr ((hash_of_bytes bs, output_index e, amount_sompi e) # r)))"

definition sign_input :: "crypto \<Rightarrow> escrow_keys \<Rightarrow> bytes \<Rightarrow> sighash_reused \<Rightarrow> u64 \<Rightarrow> escrow_entry \<Rightarrow> claim_input \<Rightarrow> rpc_transaction_input" where
  "sign_input X k escrow_script reused csv e meta =
     (let sighash = compute_sighash X meta escrow_script reused csv;
          sig = sign_schnorr X (secret_key k) sighash;
          sig_script = [0x41] @ sig @ [SIG_HASH_ALL]
      in \<lparr>previous_outpoint = Some \<lparr>op_transaction_id = coinbase_txid e, op_index = output_index e\<rparr>,
          signature_script = hex_encode X sig_script, sequence = csv, sig_op_count = 1\<rparr>)"

text \<open>\<open>entries.iter().map(..).sum()\<close> in the release build.\<close>

definition total_in :: "escrow_entry list \<Rightarrow> u64" where
  "total_in es = sum_list (map amount_sompi es)"

definition build_claim_tx :: "crypto \<Rightarrow> escrow_keys \<Rightarrow> escrow_entry list \<Rightarrow> claim_error + string \<times> rpc_transaction" where
  "build_claim_tx X k es =
     (case es of [] \<Rightarrow> Inl EmptyBatch
      | e0 # _ \<Rightarrow>
        let csv = csv_window e0 in
        if list_ex (\<lambda>e. csv_window e \<noteq> csv) es then Inl MixedWindows
        else let escrow_script = build_escrow_script (pubkey_bytes k) csv in
        if total_in es < CLAIM_FEE_SOMPI \<or> \<not> total_in es - CLAIM_FEE_SOMPI > 0 then Inl AmountTooSmall
        else let amount_out = total_in es - CLAIM_FEE_SOMPI in
        rbind (decode_inputs X es) (\<lambda>inputs_meta.
          let reused = sighash_reused_new X inputs_meta amount_out (payout_spk_version k) (payout_spk_script k) csv;
              inputs = map (\<lambda>(e, meta). sign_input X k escrow_script reused csv e meta) (zip es inputs_meta);
              claim_txid = compute_claim_txid X inputs_meta amount_out (payout_spk_version k) (payout_spk_script k) csv
          in Inr (claim_txid,
               \<lparr>tx_version = 0, tx_inputs = inputs,
                tx_outputs = [\<lparr>out_amount = amount_out,
                  script_public_key = Some \<lparr>spk_version = ucast (payout_spk_version k), spk_script = payout_spk_script_hex k\<rparr>\<rparr>],
                lock_time = 0, subnetwork_id = NATIVE_SUBNETWORK, gas = 0, tx_payload = [], tx_mass = 0, tx_id = None\<rparr>)))"

subsection \<open>Addresses\<close>

definition CHARSET :: string where
  "CHARSET = ''qpzry9x8gf2tvdw0s3jn54khce6mua7l''"

datatype address_error = MissingColon | TooShort | InvalidChar | FewBytes nat

text \<open>\<open>rev[c]\<close> of the reverse table, \<open>None\<close> for 0xff; \<open>addr.find(':')\<close>.\<close>

fun index_of :: "'a \<Rightarrow> 'a list \<Rightarrow> nat option" where
  "index_of c [] = None"
| "index_of c (x # xs) = (if x = c then Some 0 else map_option Suc (index_of c xs))"

fun data5_of :: "string \<Rightarrow> address_error + u8 list" where
  "data5_of [] = Inr []"
| "data5_of (c # cs) = (case index_of c CHARSET of None \<Rightarrow> Inl InvalidChar
     | Some i \<Rightarrow> rbind (data5_of cs) (\<lambda>r. Inr (word_of_nat i # r)))"

fun regroup :: "u8 list \<Rightarrow> u32 \<Rightarrow> nat \<Rightarrow> bytes" where
  "regroup [] buf bits = []"
| "regroup (b # bs) buf bits =
     (let buf = (push_bit 5 buf) OR ucast b; bits = bits + 5 in
      if bits \<ge> 8 then ucast (drop_bit (bits - 8) buf) # regroup bs buf (bits - 8)
      else regroup bs buf bits)"

definition decode_address :: "string \<Rightarrow> address_error + u16 \<times> hash" where
  "decode_address addr =
     (case index_of CHR '':'' addr of None \<Rightarrow> Inl MissingColon
      | Some colon \<Rightarrow>
        let data_with_checksum = drop (colon + 1) addr in
        if length data_with_checksum < 9 then Inl TooShort
        else let data_str = take (length data_with_checksum - 8) data_with_checksum in
          rbind (data5_of data_str) (\<lambda>data5.
            let bs = regroup data5 0 0 in
            if length bs < 33 then Inl (FewBytes (length bs))
            else Inr (ucast (bs ! 0), hash_of_bytes (slice bs 1 32))))"

subsection \<open>Delegation certificates and signatures\<close>

datatype cert_error = CertAddress address_error | CertVersion u16 | EscrowPubkeyHex | CertHex | PayoutKey | CertMismatch
  | CertRead | CertLength nat

definition escrow_delegation_message :: "crypto \<Rightarrow> hash \<Rightarrow> hash" where
  "escrow_delegation_message X escrow_pubkey = blake2b_keyed X [] (str_bytes ''KeryxEscrowDelegationV1'' @ hash_bytes escrow_pubkey)"

definition map_err :: "('e \<Rightarrow> 'f) \<Rightarrow> 'e + 'a \<Rightarrow> 'f + 'a" where
  "map_err f r = (case r of Inl e \<Rightarrow> Inl (f e) | Inr x \<Rightarrow> Inr x)"

definition service_identity_hex :: "crypto \<Rightarrow> string \<Rightarrow> cert_error + string" where
  "service_identity_hex X payout_address =
     rbind (map_err CertAddress (decode_address payout_address)) (\<lambda>(version, payout_key).
       if version \<noteq> 0 then Inl (CertVersion version)
       else Inr (hex_encode X (hash_bytes (blake2b_keyed X (str_bytes ''TransactionHash'') (u16_le version @ build_p2pk_script payout_key)))))"

definition decode_fixed :: "crypto \<Rightarrow> nat \<Rightarrow> string \<Rightarrow> bytes option" where
  "decode_fixed X n s = (case hex_decode X s of Some bs \<Rightarrow> if length bs = n then Some bs else None | None \<Rightarrow> None)"

definition verify_escrow_cert :: "crypto \<Rightarrow> string \<Rightarrow> string \<Rightarrow> string \<Rightarrow> cert_error + unit" where
  "verify_escrow_cert X payout_address escrow_pubkey_hex cert_hex =
     rbind (map_err CertAddress (decode_address payout_address)) (\<lambda>(version, payout_key).
       if version \<noteq> 0 then Inl (CertVersion version)
       else case decode_fixed X 32 escrow_pubkey_hex of None \<Rightarrow> Inl EscrowPubkeyHex
       | Some escrow_pubkey \<Rightarrow> (case decode_fixed X 64 cert_hex of None \<Rightarrow> Inl CertHex
         | Some sig \<Rightarrow> if \<not> xonly_valid X payout_key then Inl PayoutKey
             else if verify_schnorr X sig (escrow_delegation_message X (hash_of_bytes escrow_pubkey)) payout_key then Inr ()
             else Inl CertMismatch))"

definition self_sign_cert :: "crypto \<Rightarrow> string \<Rightarrow> string \<Rightarrow> string option" where
  "self_sign_cert X privkey_hex payout_address =
     (case decode_address payout_address of Inl _ \<Rightarrow> None
      | Inr (version, payout_key) \<Rightarrow> (case hex_decode X privkey_hex of None \<Rightarrow> None
        | Some privkey_bytes \<Rightarrow> if \<not> secret_valid X privkey_bytes then None
            else let pubkey = x_only_public_key X privkey_bytes in
              if version \<noteq> 0 \<or> payout_key \<noteq> pubkey then None
              else Some (hex_encode X (sign_schnorr X privkey_bytes (escrow_delegation_message X pubkey)))))"

text \<open>ASCII \<open>trim\<close> and \<open>to_ascii_lowercase\<close>.\<close>

definition is_space :: "char \<Rightarrow> bool" where
  "is_space c \<longleftrightarrow> c \<in> {CHR 0x20, CHR 0x09, CHR 0x0A, CHR 0x0B, CHR 0x0C, CHR 0x0D}"

definition trim :: "string \<Rightarrow> string" where
  "trim s = rev (dropWhile is_space (rev (dropWhile is_space s)))"

definition lower_char :: "char \<Rightarrow> char" where
  "lower_char c = (let n = (of_char c :: nat) in if 65 \<le> n \<and> n \<le> 90 then char_of (n + 32) else c)"

definition to_lower :: "string \<Rightarrow> string" where
  "to_lower s = map lower_char s"

text \<open>\<open>contents\<close> is what reading the file gives, \<open>None\<close> an error.\<close>

definition load_cert :: "crypto \<Rightarrow> string option \<Rightarrow> string \<Rightarrow> string \<Rightarrow> cert_error + string" where
  "load_cert X contents payout_address escrow_pubkey_hex =
     (case contents of None \<Rightarrow> Inl CertRead
      | Some raw \<Rightarrow> let cert = to_lower (trim raw) in
          if length cert \<noteq> 128 then Inl (CertLength (length cert))
          else rbind (verify_escrow_cert X payout_address escrow_pubkey_hex cert) (\<lambda>_. Inr cert))"

text \<open>The result of \<open>save_cert\<close> with the new contents of the file; \<open>failed\<close> is \<open>None\<close> when the write succeeds
  and what it leaves in the file when it fails.\<close>

definition save_cert :: "string option \<Rightarrow> string \<Rightarrow> string option option \<Rightarrow> bool option \<times> string option" where
  "save_cert contents cert_hex failed =
     (if (case contents of Some existing \<Rightarrow> to_lower (trim existing) = to_lower cert_hex | None \<Rightarrow> False) then (Some False, contents)
      else case failed of None \<Rightarrow> (Some True, Some cert_hex) | Some left \<Rightarrow> (None, left))"

definition sign_responder :: "crypto \<Rightarrow> escrow_keys \<Rightarrow> bytes \<Rightarrow> hash \<times> bytes" where
  "sign_responder X k signed_bytes =
     (pubkey_bytes k, sign_schnorr X (secret_key k) (blake2b_keyed X [] (str_bytes ''KeryxServiceResponderV1'' @ signed_bytes)))"

definition opening_signature_message :: "crypto \<Rightarrow> bytes \<Rightarrow> hash" where
  "opening_signature_message X body = blake2b_keyed X [] (str_bytes ''KeryxTraceOpeningV1'' @ body)"

definition sign_opening :: "crypto \<Rightarrow> escrow_keys \<Rightarrow> bytes \<Rightarrow> bytes" where
  "sign_opening X k body = body @ hash_bytes (pubkey_bytes k) @ sign_schnorr X (secret_key k) (opening_signature_message X body)"

subsection \<open>Script and identifier encodings are injective\<close>

lemma append_same_length: "length a = length c \<Longrightarrow> a @ b = c @ d \<longleftrightarrow> a = c \<and> b = d"
  by simp

lemma takeWhile_all_take: "take (length (takeWhile P xs)) xs = takeWhile P xs"
  by (metis append_eq_conv_conj takeWhile_dropWhile_id)

text \<open>Trimming the high zero bytes loses nothing.\<close>

lemma trimmed_padding:
  assumes "n = length (takeWhile (\<lambda>b. b = 0) (rev xs))"
  shows "xs = take (length xs - n) xs @ replicate n (0 :: u8)"
proof -
  have "takeWhile (\<lambda>b. b = 0) (rev xs) = replicate n 0"
    unfolding assms by (rule replicate_eqI [symmetric, THEN sym]) (auto dest: set_takeWhileD)
  moreover have "take n (rev xs) = takeWhile (\<lambda>b. b = 0) (rev xs)" unfolding assms by (rule takeWhile_all_take)
  ultimately have "rev (drop (length xs - n) xs) = replicate n 0" by (simp add: take_rev)
  then have "drop (length xs - n) xs = replicate n 0" by (metis rev_replicate rev_swap)
  then show ?thesis by (metis append_take_drop_id)
qed

definition trimmed :: "u64 \<Rightarrow> bytes" where
  "trimmed csv = take (8 - length (takeWhile (\<lambda>b. b = 0) (rev (u64_le csv)))) (u64_le csv)"

lemma trimmed_inject: "trimmed a = trimmed b \<longleftrightarrow> a = b"
proof
  let ?n = "\<lambda>c. length (takeWhile (\<lambda>b. b = 0) (rev (u64_le c)))"
  assume eq: "trimmed a = trimmed b"
  have le: "?n c \<le> 8" for c using length_takeWhile_le [of "\<lambda>b. b = 0" "rev (u64_le c)"] by simp
  have pad: "u64_le c = trimmed c @ replicate (?n c) 0" for c
    using trimmed_padding [of "?n c" "u64_le c"] by (simp add: trimmed_def)
  have "length (trimmed c) = 8 - ?n c" for c by (simp add: trimmed_def)
  then have "?n a = ?n b" using eq le [of a] le [of b] by (metis diff_diff_cancel)
  then have "u64_le a = u64_le b" using pad [of a] pad [of b] eq by simp
  then show "a = b" by simp
qed simp

lemma length_trimmed: "length (trimmed c) < 256"
  by (simp add: trimmed_def)

lemma build_escrow_script_eq:
  "build_escrow_script pk csv = word_of_nat (length (trimmed csv)) # trimmed csv @ [OP_CSV, 0x20] @ hash_bytes pk @ [OP_CHECKSIG]"
  by (simp add: build_escrow_script_def trimmed_def Let_def)

lemma length_inputs_enc:
  "length (concat (map (\<lambda>(txid, index, _). hash_bytes txid @ u32_le index @ u64_le 0 @ u64_le csv) ins)) = 52 * length (ins :: claim_input list)"
  by (induction ins) auto

lemma inputs_enc_inject:
  assumes "length ins = length ins'"
    and "concat (map (\<lambda>(txid, index, _). hash_bytes txid @ u32_le index @ u64_le 0 @ u64_le csv) ins)
       = concat (map (\<lambda>(txid, index, _). hash_bytes txid @ u32_le index @ u64_le 0 @ u64_le csv') ins')"
  shows "map (\<lambda>(txid, index, _). (txid, index)) ins = map (\<lambda>(txid, index, _). (txid, index)) (ins' :: claim_input list)
    \<and> (ins \<noteq> [] \<longrightarrow> csv = csv')"
  using assms
proof (induction ins ins' rule: list_induct2)
  case (Cons x xs y ys)
  then show ?case by (cases x; cases y) (auto simp: append_same_length)
qed simp

subsection \<open>The claim transaction\<close>

lemma decode_inputs_length: "decode_inputs X es = Inr ins \<Longrightarrow> length ins = length es"
  by (induction es arbitrary: ins) (auto simp: rbind_Inr split: option.splits if_splits)

text \<open>The parts of a transaction that was built.\<close>

lemma build_claim_txE:
  assumes "build_claim_tx X k es = Inr (txid, tx)"
  obtains e0 r ins where "es = e0 # r" "\<forall>e \<in> set es. csv_window e = csv_window e0" "\<not> total_in es < CLAIM_FEE_SOMPI" "total_in es - CLAIM_FEE_SOMPI > 0"
    "length ins = length es" "tx_outputs tx = [\<lparr>out_amount = total_in es - CLAIM_FEE_SOMPI,
        script_public_key = Some \<lparr>spk_version = ucast (payout_spk_version k), spk_script = payout_spk_script_hex k\<rparr>\<rparr>]"
    "tx_inputs tx = map (\<lambda>(e, meta). sign_input X k (build_escrow_script (pubkey_bytes k) (csv_window e0))
        (sighash_reused_new X ins (total_in es - CLAIM_FEE_SOMPI) (payout_spk_version k) (payout_spk_script k) (csv_window e0)) (csv_window e0) e meta) (zip es ins)"
proof -
  obtain e0 r where es: "es = e0 # r" using assms by (cases es) (auto simp: build_claim_tx_def)
  show ?thesis
    using assms that [OF es] decode_inputs_length [of X es]
    by (auto simp: build_claim_tx_def es Let_def list_ex_iff rbind_Inr split: if_splits)
qed

lemma claim_tx_inputs:
  assumes "build_claim_tx X k es = Inr (txid, tx)"
  shows "map (\<lambda>i. (previous_outpoint i, sequence i)) (tx_inputs tx)
        = map (\<lambda>e. (Some \<lparr>op_transaction_id = coinbase_txid e, op_index = output_index e\<rparr>, csv_window e)) es"
proof (rule build_claim_txE [OF assms])
  fix e0 r ins
  assume win: "\<forall>e \<in> set es. csv_window e = csv_window e0" and len: "length ins = length es"
    and inp: "tx_inputs tx = map (\<lambda>(e, meta). sign_input X k (build_escrow_script (pubkey_bytes k) (csv_window e0))
        (sighash_reused_new X ins (total_in es - CLAIM_FEE_SOMPI) (payout_spk_version k) (payout_spk_script k) (csv_window e0)) (csv_window e0) e meta) (zip es ins)"
  show ?thesis unfolding inp using len win by (intro nth_equalityI) (auto simp: sign_input_def Let_def)
qed

lemma unat_total_in: "(\<Sum>e\<leftarrow>es. unat (amount_sompi e)) < 2 ^ 64 \<Longrightarrow> unat (total_in es) = (\<Sum>e\<leftarrow>es. unat (amount_sompi e))"
  unfolding total_in_def by (induction es) (simp_all add: unat_add_lem [THEN iffD1])

subsection \<open>Properties\<close>

text \<open>C17. A claim transaction conserves value: when \<open>build_claim_tx\<close> succeeds the batch is not empty and has one
  window, every entry is spent by one input with its outpoint and that window as sequence, and the single output
  pays the payout script the sum of the inputs less exactly one claim fee. The sum is exact while it fits 64 bits.\<close>

theorem claim_tx_conserves:
  assumes "build_claim_tx X k es = Inr (txid, tx)"
  shows "es \<noteq> [] \<and> (\<forall>e \<in> set es. csv_window e = csv_window (hd es))
    \<and> map (\<lambda>i. (previous_outpoint i, sequence i)) (tx_inputs tx)
        = map (\<lambda>e. (Some \<lparr>op_transaction_id = coinbase_txid e, op_index = output_index e\<rparr>, csv_window e)) es
    \<and> (\<exists>out. tx_outputs tx = [out] \<and> out_amount out + CLAIM_FEE_SOMPI = total_in es \<and> out_amount out > 0 \<and> CLAIM_FEE_SOMPI \<le> total_in es
        \<and> ((\<Sum>e\<leftarrow>es. unat (amount_sompi e)) < 2 ^ 64 \<longrightarrow> unat (out_amount out) + 30000000 = (\<Sum>e\<leftarrow>es. unat (amount_sompi e))))"
proof (rule build_claim_txE [OF assms])
  fix e0 r ins
  assume es: "es = e0 # r" and win: "\<forall>e \<in> set es. csv_window e = csv_window e0"
    and amt: "\<not> total_in es < CLAIM_FEE_SOMPI" "total_in es - CLAIM_FEE_SOMPI > 0"
    and outs: "tx_outputs tx = [\<lparr>out_amount = total_in es - CLAIM_FEE_SOMPI,
        script_public_key = Some \<lparr>spk_version = ucast (payout_spk_version k), spk_script = payout_spk_script_hex k\<rparr>\<rparr>]"
  have fee: "unat (total_in es - CLAIM_FEE_SOMPI) = unat (total_in es) - 30000000" "30000000 \<le> unat (total_in es)"
    using amt(1) by (simp_all add: not_less unat_sub CLAIM_FEE_SOMPI_def word_le_nat_alt)
  have "es \<noteq> []" "hd es = e0" using es by simp_all
  moreover have "\<exists>out. tx_outputs tx = [out] \<and> out_amount out + CLAIM_FEE_SOMPI = total_in es \<and> out_amount out > 0 \<and> CLAIM_FEE_SOMPI \<le> total_in es
        \<and> ((\<Sum>e\<leftarrow>es. unat (amount_sompi e)) < 2 ^ 64 \<longrightarrow> unat (out_amount out) + 30000000 = (\<Sum>e\<leftarrow>es. unat (amount_sompi e)))"
    using outs amt unat_total_in [of es] fee by (auto simp: not_less)
  moreover have "\<forall>e \<in> set es. csv_window e = csv_window (hd es)" unfolding \<open>hd es = e0\<close> by (rule win)
  ultimately show ?thesis using claim_tx_inputs [OF assms] by blast
qed

text \<open>C32. A claim txid identifies the claim: equal preimages mean the same outpoints in the same order, the same
  window, payout amount, version and script; only signatures and input amounts are left out.\<close>

theorem claim_txid_binds:
  assumes "claim_txid_preimage ins amt ver spk csv = claim_txid_preimage ins' amt' ver' spk' csv'"
    and "length ins < 2 ^ 64" and "length ins' < 2 ^ 64"
  shows "map (\<lambda>(t, i, _). (t, i)) ins = map (\<lambda>(t, i, _). (t, i)) ins' \<and> (ins \<noteq> [] \<longrightarrow> csv = csv') \<and> amt = amt' \<and> ver = ver' \<and> spk = spk'"
proof -
  have "word_of_nat (length ins) = (word_of_nat (length ins') :: u64)"
    using assms(1) by (simp add: claim_txid_preimage_def append_same_length)
  then have len: "length ins = length ins'" using assms(2,3) by (simp add: word_of_nat_eq_iff take_bit_nat_eq_self)
  note enc = length_inputs_enc
  have parts: "concat (map (\<lambda>(txid, index, _). hash_bytes txid @ u32_le index @ u64_le 0 @ u64_le csv) ins)
       = concat (map (\<lambda>(txid, index, _). hash_bytes txid @ u32_le index @ u64_le 0 @ u64_le csv') ins')"
    "u64_le amt = u64_le amt'" "u16_le ver = u16_le ver'" "spk @ u64_le 0 @ replicate 20 0 @ u64_le 0 @ u64_le 0 = spk' @ u64_le 0 @ replicate 20 0 @ u64_le 0 @ u64_le 0"
    using assms(1) len enc [of csv ins] enc [of csv' ins'] unfolding claim_txid_preimage_def by (simp_all add: append_same_length)
  moreover have "spk = spk'" using parts(4) by simp
  moreover have "ver = ver'" using parts(3) by (metis le_u16_u16_le)
  ultimately show ?thesis using inputs_enc_inject [OF len parts(1)] by simp
qed

text \<open>The escrow script identifies the window and the key, so an output recognised by the script of one era is
  spendable with the sequence of that era and of no other.\<close>

theorem escrow_script_inject:
  "build_escrow_script pk csv = build_escrow_script pk' csv' \<longleftrightarrow> pk = pk' \<and> csv = csv'"
proof
  assume eq: "build_escrow_script pk csv = build_escrow_script pk' csv'"
  then have "(word_of_nat (length (trimmed csv)) :: u8) = word_of_nat (length (trimmed csv'))" by (simp add: build_escrow_script_eq)
  then have "length (trimmed csv) = length (trimmed csv')"
    using length_trimmed [of csv] length_trimmed [of csv'] by (simp add: word_of_nat_eq_iff take_bit_nat_eq_self)
  with eq have "trimmed csv = trimmed csv'" "hash_bytes pk = hash_bytes pk'" by (auto simp: build_escrow_script_eq append_same_length)
  then show "pk = pk' \<and> csv = csv'" by (simp add: trimmed_inject)
qed simp

text \<open>The decoder of payout addresses never looks at the checksum: whatever the last eight characters are, an
  address decodes to the same version and key, so a mistyped address is not detected.\<close>

theorem address_checksum_ignored:
  assumes "length chk = 8" and "length chk' = 8" and "CHR '':'' \<notin> set prefix"
  shows "decode_address (prefix @ '':'' @ payload @ chk) = decode_address (prefix @ '':'' @ payload @ chk')"
proof -
  have "index_of CHR '':'' (prefix @ '':'' @ rest) = Some (length prefix)" for rest
    using assms(3) by (induction prefix) auto
  then show ?thesis using assms(1,2) unfolding decode_address_def Let_def by simp
qed

text \<open>Self-signed certificates are accepted: with a signature scheme that verifies its own signatures and a hex
  codec that decodes what it encodes, the certificate \<open>self_sign_cert\<close> makes for the key's own address passes
  \<open>verify_escrow_cert\<close>, and written by \<open>save_cert\<close> it is what \<open>load_cert\<close> returns.\<close>

theorem self_signed_cert_verifies:
  assumes hex: "\<And>bs. hex_decode X (hex_encode X bs) = Some bs" "\<And>bs. length (hex_encode X bs) = 2 * length bs"
      "\<And>bs. to_lower (trim (hex_encode X bs)) = hex_encode X bs"
    and schnorr: "\<And>sk m. secret_valid X sk \<Longrightarrow> verify_schnorr X (sign_schnorr X sk m) m (x_only_public_key X sk)"
      "\<And>sk m. length (sign_schnorr X sk m) = 64" "\<And>sk. secret_valid X sk \<Longrightarrow> xonly_valid X (x_only_public_key X sk)"
    and cert: "self_sign_cert X privkey_hex addr = Some cert" "hex_decode X privkey_hex = Some sk"
  shows "verify_escrow_cert X addr (hex_encode X (hash_bytes (x_only_public_key X sk))) cert = Inr ()
    \<and> save_cert None cert None = (Some True, Some cert)
    \<and> load_cert X (Some cert) addr (hex_encode X (hash_bytes (x_only_public_key X sk))) = Inr cert"
proof -
  have addr: "decode_address addr = Inr (0, x_only_public_key X sk)" and sk: "secret_valid X sk"
    and c: "cert = hex_encode X (sign_schnorr X sk (escrow_delegation_message X (x_only_public_key X sk)))"
    using cert by (auto simp: self_sign_cert_def Let_def split: sum.splits if_splits)
  have v: "verify_escrow_cert X addr (hex_encode X (hash_bytes (x_only_public_key X sk))) cert = Inr ()"
    using addr sk schnorr hex(1) by (simp add: verify_escrow_cert_def c map_err_def decode_fixed_def)
  moreover have "length cert = 128" "to_lower (trim cert) = cert" using hex(2,3) schnorr(2) by (simp_all add: c)
  ultimately show ?thesis by (simp add: load_cert_def save_cert_def)
qed

subsection \<open>Witnesses\<close>

text \<open>A toy instance of the crates: one hex digit per half byte, a key is its own public key and a signature repeats
  the key and the message.\<close>

definition toy_digit :: "nat \<Rightarrow> char" where
  "toy_digit n = ''0123456789abcdef'' ! n"

definition toy_hex :: "bytes \<Rightarrow> string" where
  "toy_hex bs = concat (map (\<lambda>b. [toy_digit (unat b div 16), toy_digit (unat b mod 16)]) bs)"

fun toy_unhex :: "string \<Rightarrow> bytes option" where
  "toy_unhex [] = Some []"
| "toy_unhex [c] = None"
| "toy_unhex (c # d # s) =
     (case (index_of c ''0123456789abcdef'', index_of d ''0123456789abcdef'') of
        (Some i, Some j) \<Rightarrow> map_option (Cons (word_of_nat (16 * i + j))) (toy_unhex s) | _ \<Rightarrow> None)"

definition toy_crypto :: crypto where
  "toy_crypto = \<lparr>blake2b_keyed = (\<lambda>k m. word_of_nat (le_nat (k @ m))), hex_encode = toy_hex, hex_decode = toy_unhex,
     secret_valid = (\<lambda>sk. length sk = 32), x_only_public_key = hash_of_bytes,
     sign_schnorr = (\<lambda>sk m. hash_bytes (hash_of_bytes sk) @ hash_bytes m), xonly_valid = (\<lambda>_. True),
     verify_schnorr = (\<lambda>sig m pk. sig = hash_bytes pk @ hash_bytes m)\<rparr>"

lemma toy_digits: "list_all (\<lambda>n. index_of (toy_digit n) ''0123456789abcdef'' = Some n \<and> lower_char (toy_digit n) = toy_digit n
    \<and> \<not> is_space (toy_digit n)) [0..<16]"
  by code_simp

lemma toy_digit_facts:
  "n < 16 \<Longrightarrow> index_of (toy_digit n) ''0123456789abcdef'' = Some n" "n < 16 \<Longrightarrow> lower_char (toy_digit n) = toy_digit n"
  "n < 16 \<Longrightarrow> \<not> is_space (toy_digit n)"
  using toy_digits by (simp_all add: list_all_iff)

lemma toy_byte_halves: "unat (b :: u8) div 16 < 16" "unat b mod 16 < 16"
  using unat_lt [of b] by simp_all

lemma toy_hex_Cons: "toy_hex (b # bs) = toy_digit (unat b div 16) # toy_digit (unat b mod 16) # toy_hex bs"
  by (simp add: toy_hex_def)

lemma toy_hex_facts:
  "toy_unhex (toy_hex bs) = Some bs" "length (toy_hex bs) = 2 * length bs" "to_lower (toy_hex bs) = toy_hex bs"
  "\<forall>c \<in> set (toy_hex bs). \<not> is_space c"
proof -
  have nil: "toy_hex [] = []" by (simp add: toy_hex_def)
  show "toy_unhex (toy_hex bs) = Some bs"
    by (induction bs) (simp_all add: nil toy_hex_Cons toy_digit_facts(1) toy_byte_halves del: index_of.simps)
  show "length (toy_hex bs) = 2 * length bs" by (induction bs) (simp_all add: nil toy_hex_Cons)
  show "to_lower (toy_hex bs) = toy_hex bs"
    by (induction bs) (simp_all add: nil toy_hex_Cons to_lower_def toy_digit_facts(2) toy_byte_halves)
  show "\<forall>c \<in> set (toy_hex bs). \<not> is_space c"
    by (induction bs) (simp_all add: nil toy_hex_Cons toy_digit_facts(3) toy_byte_halves)
qed

lemma trim_no_space: "\<forall>c \<in> set s. \<not> is_space c \<Longrightarrow> trim s = s"
proof -
  assume s: "\<forall>c \<in> set s. \<not> is_space c"
  have "dropWhile is_space t = t" if "\<forall>c \<in> set t. \<not> is_space c" for t using that by (cases t) auto
  from this [of s] this [of "rev s"] show ?thesis using s by (simp add: trim_def)
qed

definition toy_keys :: escrow_keys where
  "toy_keys = \<lparr>secret_key = replicate 32 1, pubkey_bytes = 1, escrow_script_hex = ''01'', escrow_script_bonded_hex = ''02'',
     payout_spk_version = 0, payout_spk_script = [3], payout_spk_script_hex = ''03''\<rparr>"

theorem claim_tx_conserves_witness:
  "\<exists>txid tx out. build_claim_tx toy_crypto toy_keys [toy_entry (toy_hex (replicate 32 7)) False 0, toy_entry (toy_hex (replicate 32 8)) True 0] = Inr (txid, tx)
    \<and> tx_outputs tx = [out] \<and> unat (out_amount out) = 70000000"
proof -
  let ?es = "[toy_entry (toy_hex (replicate 32 7)) False 0, toy_entry (toy_hex (replicate 32 8)) True 0]"
  have sel: "coinbase_txid (toy_entry t b c) = t" "amount_sompi (toy_entry t b c) = 50000000" for t b c by (simp_all add: toy_entry_def)
  have "\<exists>ins. decode_inputs toy_crypto ?es = Inr ins" by (simp add: sel toy_crypto_def toy_hex_facts)
  then obtain txid tx where b: "build_claim_tx toy_crypto toy_keys ?es = Inr (txid, tx)"
    by (auto simp: build_claim_tx_def Let_def total_in_def sel CLAIM_FEE_SOMPI_def)
  from claim_tx_conserves [OF this] b show ?thesis by (auto simp: sel)
qed

theorem claim_txid_binds_witness:
  "claim_txid_preimage [(1, 2, 3)] 4 0 [5] 36000 = claim_txid_preimage [(1, 2, 9)] 4 0 [5] 36000
    \<and> map (\<lambda>(t, i, _). (t, i)) [(1 :: hash, 2 :: u32, 3 :: u64)] = map (\<lambda>(t, i, _). (t, i)) [(1 :: hash, 2 :: u32, 9 :: u64)]"
proof -
  have "claim_txid_preimage [(1, 2, 3)] 4 0 [5] 36000 = claim_txid_preimage [(1, 2, 9)] 4 0 [5] 36000"
    by (simp add: claim_txid_preimage_def)
  with claim_txid_binds [OF this] show ?thesis by simp
qed

lemma toy_address: "decode_address (''keryx'' @ '':'' @ replicate 53 CHR ''q'' @ ''qqqqqqqq'') = Inr (0, 0)"
  by code_simp

theorem address_checksum_ignored_witness:
  "decode_address (''keryx'' @ '':'' @ replicate 53 CHR ''q'' @ ''qqqqqqqq'') = decode_address (''keryx'' @ '':'' @ replicate 53 CHR ''q'' @ ''llllllll'')
    \<and> decode_address (''keryx'' @ '':'' @ replicate 53 CHR ''q'' @ ''qqqqqqqq'') = Inr (0, 0)"
  using address_checksum_ignored [of "''qqqqqqqq''" "''llllllll''" "''keryx''" "replicate 53 CHR ''q''"] toy_address
  by (simp only: list.size list.set simp_thms) simp

theorem self_signed_cert_verifies_witness:
  "\<exists>addr cert. verify_escrow_cert toy_crypto addr (toy_hex (hash_bytes 0)) cert = Inr () \<and> load_cert toy_crypto (Some cert) addr (toy_hex (hash_bytes 0)) = Inr cert"
proof -
  let ?addr = "''keryx'' @ '':'' @ replicate 53 CHR ''q'' @ ''qqqqqqqq''" and ?sk = "replicate 32 0 :: bytes"
  note addr = toy_address
  have sk: "hash_of_bytes ?sk = 0" by (simp add: hash_of_bytes_def numeral_eq_Suc)
  obtain cert where cert: "self_sign_cert toy_crypto (toy_hex ?sk) ?addr = Some cert"
    unfolding self_sign_cert_def addr using sk by (simp add: toy_crypto_def toy_hex_facts Let_def)
  have "hex_decode toy_crypto (toy_hex ?sk) = Some ?sk" by (simp add: toy_crypto_def toy_hex_facts)
  then have "verify_escrow_cert toy_crypto ?addr (hex_encode toy_crypto (hash_bytes (x_only_public_key toy_crypto ?sk))) cert = Inr ()
      \<and> load_cert toy_crypto (Some cert) ?addr (hex_encode toy_crypto (hash_bytes (x_only_public_key toy_crypto ?sk))) = Inr cert"
    using self_signed_cert_verifies [OF _ _ _ _ _ _ cert]
    by (simp add: toy_crypto_def toy_hex_facts trim_no_space hash_bytes_hash_of_bytes)
  then show ?thesis using sk by (auto simp: toy_crypto_def)
qed

end
