(* ===== verification/Escrow_Watcher.thy ===== *)
theory Escrow_Watcher
  imports Escrow_Claim
begin

section \<open>The escrow watcher\<close>

text \<open>
  Model of \<open>EscrowWatcher\<close> of \<open>src/escrow.rs\<close>: the tracked entries with their indexes, the claims in
  flight, the boot-time validation and the persistence by snapshot and journal. Every public operation
  is a function on the watcher and the disk. The hash map of claims in flight is an association list in
  the map's iteration order, hash sets that are searched are lists without duplicates. JSON
  serialisation is the parameter \<open>json\<close>; the clock and the faults of the file system that an operation
  meets are its argument \<open>io\<close>.
\<close>

subsection \<open>State\<close>

record escrow_state =
  entries :: "escrow_entry list"
  state_seq :: u64

record in_flight_claim =
  outpoints :: "(string \<times> u32) list"
  submit_daa :: u64

record escrow_watcher =
  keys :: escrow_keys
  wstate :: escrow_state
  in_flight :: "(string \<times> in_flight_claim) list"
  in_flight_outpoints :: "string set"
  last_daa_score :: u64
  outpoint_set :: "string set"
  block_index :: "string \<rightharpoonup> nat list"
  journal_pending :: bytes
  journal_seq :: u64
  journal_bytes_since_snapshot :: nat
  last_journal_write :: nat
  snapshot_due :: bool
  last_snapshot :: nat
  blocks_since_compact :: nat
  blocks_since_status :: nat
  validation_pending :: "string list"
  validation_purged :: nat
  validation_unknown :: nat

abbreviation ents :: "escrow_watcher \<Rightarrow> escrow_entry list" where
  "ents w \<equiv> entries (wstate w)"

abbreviation set_ents :: "escrow_entry list \<Rightarrow> escrow_watcher \<Rightarrow> escrow_watcher" where
  "set_ents es w \<equiv> w\<lparr>wstate := (wstate w)\<lparr>entries := es\<rparr>\<rparr>"

record json =
  line_to_vec :: "u64 \<times> escrow_entry \<Rightarrow> bytes option"
  line_from_str :: "bytes \<Rightarrow> (u64 \<times> escrow_entry) option"
  state_to_vec :: "escrow_state \<Rightarrow> bytes option"
  state_from_str :: "bytes \<Rightarrow> escrow_state option"

datatype file_content = NotFound | Unreadable | Contents bytes

record disk =
  snapshot_file :: file_content
  journal_file :: file_content

datatype replace_result = Replaced | NotReplaced | ReplacedUnsynced

text \<open>\<open>append_fault = Some k\<close>: the append or its sync fails once \<open>k\<close> bytes are in the file.\<close>

record io =
  now :: nat
  append_fault :: "nat option"
  replace_result :: replace_result
  empty_fault :: "file_content option"

definition COMPACT_EVERY_BLOCKS :: nat where "COMPACT_EVERY_BLOCKS = 2000"
definition STATUS_EVERY_BLOCKS :: nat where "STATUS_EVERY_BLOCKS = 1000"
definition STATE_SAVE_INTERVAL :: nat where "STATE_SAVE_INTERVAL = 2"
definition SNAPSHOT_INTERVAL :: nat where "SNAPSHOT_INTERVAL = 600"
definition JOURNAL_SNAPSHOT_BYTES :: nat where "JOURNAL_SNAPSHOT_BYTES = 32 * 1024 * 1024"

subsection \<open>Indexes and journal\<close>

definition append_journal_line :: "json \<Rightarrow> escrow_entry \<Rightarrow> escrow_watcher \<Rightarrow> escrow_watcher" where
  "append_journal_line J e w =
     (let w = w\<lparr>journal_seq := journal_seq w + 1\<rparr>
      in case line_to_vec J (journal_seq w, e) of None \<Rightarrow> w
         | Some line \<Rightarrow> w\<lparr>journal_pending := journal_pending w @ line @ [0x0A]\<rparr>)"

text \<open>An entry changed in place and journalled, the step all updates share.\<close>

definition modify_entry :: "json \<Rightarrow> nat \<Rightarrow> (escrow_entry \<Rightarrow> escrow_entry) \<Rightarrow> escrow_watcher \<Rightarrow> escrow_watcher" where
  "modify_entry J i f w = append_journal_line J (f (ents w ! i)) (set_ents ((ents w)[i := f (ents w ! i)]) w)"

definition index_push :: "string \<Rightarrow> nat \<Rightarrow> escrow_watcher \<Rightarrow> escrow_watcher" where
  "index_push h i w = w\<lparr>block_index := (block_index w)(h \<mapsto> (case block_index w h of None \<Rightarrow> [] | Some is \<Rightarrow> is) @ [i])\<rparr>"

fun rebuild_loop :: "nat \<Rightarrow> escrow_entry list \<Rightarrow> escrow_watcher \<Rightarrow> escrow_watcher" where
  "rebuild_loop i [] w = w"
| "rebuild_loop i (e # es) w =
     (let w = w\<lparr>outpoint_set := insert (entry_key e) (outpoint_set w)\<rparr>;
          w = (if block_hash e \<noteq> [] then index_push (block_hash e) i w else w)
      in rebuild_loop (i + 1) es w)"

definition rebuild_indexes :: "escrow_watcher \<Rightarrow> escrow_watcher" where
  "rebuild_indexes w = rebuild_loop 0 (ents w) (w\<lparr>outpoint_set := {}, block_index := Map.empty\<rparr>)"

definition compact :: "escrow_watcher \<Rightarrow> escrow_watcher" where
  "compact w =
     (let before = length (ents w);
          w = set_ents (filter (\<lambda>e. \<not> claimed e \<and> \<not> slashed e) (ents w)) w
      in if length (ents w) \<noteq> before then (rebuild_indexes w)\<lparr>snapshot_due := True\<rparr> else w)"

subsection \<open>Persistence\<close>

definition append_file :: "bytes \<Rightarrow> file_content \<Rightarrow> file_content" where
  "append_file bs f = (case f of Contents c \<Rightarrow> Contents (c @ bs) | _ \<Rightarrow> Contents bs)"

definition write_journal :: "io \<Rightarrow> escrow_watcher \<times> disk \<Rightarrow> bool \<times> escrow_watcher \<times> disk" where
  "write_journal io = (\<lambda>(w, d).
     let w = w\<lparr>last_journal_write := now io\<rparr> in
     if journal_pending w = [] then (True, w, d)
     else case append_fault io of
       Some k \<Rightarrow> (False, w, d\<lparr>journal_file := append_file (take k (journal_pending w)) (journal_file d)\<rparr>)
     | None \<Rightarrow> (True,
         w\<lparr>journal_bytes_since_snapshot := journal_bytes_since_snapshot w + length (journal_pending w), journal_pending := []\<rparr>,
         d\<lparr>journal_file := append_file (journal_pending w) (journal_file d)\<rparr>))"

definition save_state_atomic :: "json \<Rightarrow> io \<Rightarrow> escrow_state \<Rightarrow> disk \<Rightarrow> bool \<times> disk" where
  "save_state_atomic J io s d =
     (case state_to_vec J s of None \<Rightarrow> (False, d)
      | Some json \<Rightarrow> (case replace_result io of
          NotReplaced \<Rightarrow> (False, d)
        | ReplacedUnsynced \<Rightarrow> (False, d\<lparr>snapshot_file := Contents json\<rparr>)
        | Replaced \<Rightarrow> (let d = d\<lparr>snapshot_file := Contents json\<rparr> in
            if journal_file d = NotFound then (True, d)
            else case empty_fault io of None \<Rightarrow> (True, d\<lparr>journal_file := Contents []\<rparr>)
                 | Some left \<Rightarrow> (False, d\<lparr>journal_file := left\<rparr>))))"

definition write_snapshot :: "json \<Rightarrow> io \<Rightarrow> escrow_watcher \<times> disk \<Rightarrow> bool \<times> escrow_watcher \<times> disk" where
  "write_snapshot J io = (\<lambda>(w, d).
     let w = w\<lparr>wstate := (wstate w)\<lparr>state_seq := journal_seq w\<rparr>\<rparr> in
     case save_state_atomic J io (wstate w) d of (ok, d) \<Rightarrow>
       if \<not> ok then (False, w, d)
       else (True, w\<lparr>journal_pending := [], journal_bytes_since_snapshot := 0, snapshot_due := False,
                     last_snapshot := now io, last_journal_write := now io\<rparr>, d))"

definition maybe_flush :: "json \<Rightarrow> io \<Rightarrow> escrow_watcher \<times> disk \<Rightarrow> escrow_watcher \<times> disk" where
  "maybe_flush J io = (\<lambda>(w, d).
     let journal_grown = journal_bytes_since_snapshot w + length (journal_pending w) in
     if snapshot_due w \<or> journal_grown \<ge> JOURNAL_SNAPSHOT_BYTES
        \<or> (journal_grown > 0 \<and> now io - last_snapshot w \<ge> SNAPSHOT_INTERVAL)
     then snd (write_snapshot J io (w, d))
     else if journal_pending w \<noteq> [] \<and> now io - last_journal_write w \<ge> STATE_SAVE_INTERVAL
     then snd (write_journal io (w, d))
     else (w, d))"

definition flush_state :: "json \<Rightarrow> io \<Rightarrow> escrow_watcher \<times> disk \<Rightarrow> bool \<times> escrow_watcher \<times> disk" where
  "flush_state J io = (\<lambda>(w, d).
     if snapshot_due w \<or> journal_bytes_since_snapshot w > 0 \<or> journal_pending w \<noteq> [] then write_snapshot J io (w, d)
     else (True, w, d))"

subsection \<open>Tracking and the claim pipeline\<close>

record rpc_block_verbose =
  verbose_hash :: string
  merge_set_reds_hashes :: "string list"
  is_chain_block :: bool

record rpc_block =
  header_daa_score :: "u64 option"
  transactions :: "rpc_transaction list"
  block_verbose :: "rpc_block_verbose option"

definition new_entry :: "string \<Rightarrow> string \<Rightarrow> u64 \<Rightarrow> u64 \<Rightarrow> u32 \<Rightarrow> bool \<Rightarrow> u64 \<Rightarrow> escrow_entry" where
  "new_entry txid bh daa amount i inference csv =
     \<lparr>coinbase_txid = txid, block_hash = bh, confirm_daa = daa, amount_sompi = amount, output_index = i, claimed = False,
      slashed = False, orphan_slashed = False, orphan_retries = 0, orphan_retry_after_daa = None, submit_retries = 0,
      batch_cap = 0, cap_set_daa = 0, is_inference = inference, csv_window = csv\<rparr>"

definition script_window :: "escrow_watcher \<Rightarrow> string \<Rightarrow> u64 option" where
  "script_window w script =
     (if script = escrow_script_hex (keys w) then Some CHALLENGE_WINDOW_BLOCKS
      else if script = escrow_script_bonded_hex (keys w) then Some SERVICE_BOND_CSV_WINDOW_BLOCKS else None)"

text \<open>A coinbase has far fewer than \<open>2 ^ 32\<close> outputs, so the key printed from the \<open>usize\<close> position is the key of the
  stored \<open>u32\<close> index.\<close>

definition track_output :: "json \<Rightarrow> string \<Rightarrow> string \<Rightarrow> u64 \<Rightarrow> nat \<Rightarrow> rpc_transaction_output \<Rightarrow> escrow_watcher \<Rightarrow> escrow_watcher" where
  "track_output J txid bh daa out_idx out w =
     (case script_public_key out of None \<Rightarrow> w
      | Some spk \<Rightarrow>
        (let key = outpoint_key txid (word_of_nat out_idx) in
         case script_window w (to_lower (spk_script spk)) of None \<Rightarrow> w
         | Some csv \<Rightarrow>
           if \<not> (spk_version spk = 0 \<and> key \<notin> outpoint_set w) then w
           else let idx = length (ents w);
                    e = new_entry txid bh daa (out_amount out) (word_of_nat out_idx) False csv;
                    w = set_ents (ents w @ [e]) w;
                    w = w\<lparr>outpoint_set := insert key (outpoint_set w)\<rparr>;
                    w = (if bh \<noteq> [] then index_push bh idx w else w)
                in append_journal_line J e w))"

fun track_outputs :: "json \<Rightarrow> string \<Rightarrow> string \<Rightarrow> u64 \<Rightarrow> nat \<Rightarrow> rpc_transaction_output list \<Rightarrow> escrow_watcher \<Rightarrow> escrow_watcher" where
  "track_outputs J txid bh daa i [] w = w"
| "track_outputs J txid bh daa i (out # outs) w = track_outputs J txid bh daa (i + 1) outs (track_output J txid bh daa i out w)"

definition track_block_escrows :: "json \<Rightarrow> rpc_block \<Rightarrow> u64 \<Rightarrow> string \<Rightarrow> escrow_watcher \<Rightarrow> escrow_watcher" where
  "track_block_escrows J block daa bh w =
     (case List.find (\<lambda>tx. tx_inputs tx = []) (transactions block) of None \<Rightarrow> w
      | Some coinbase \<Rightarrow> (case tx_id coinbase of None \<Rightarrow> w
        | Some txid \<Rightarrow> if txid = [] then w else track_outputs J txid bh daa 0 (tx_outputs coinbase) w))"

definition pending_escrow :: "escrow_watcher \<Rightarrow> nat \<times> u64" where
  "pending_escrow w =
     (let live = filter (\<lambda>e. \<not> claimed e \<and> \<not> slashed e \<and> \<not> orphan_slashed e \<and> orphan_retries e = 0) (ents w)
      in (length live, sum_list (map amount_sompi live)))"

definition release :: "string \<Rightarrow> escrow_watcher \<Rightarrow> escrow_watcher" where
  "release txid w =
     (case map_of (in_flight w) txid of None \<Rightarrow> w
      | Some claim \<Rightarrow> w\<lparr>in_flight := AList.delete txid (in_flight w),
          in_flight_outpoints := in_flight_outpoints w - set (map (\<lambda>(t, i). outpoint_key t i) (outpoints claim))\<rparr>)"

definition expire_in_flight :: "u64 \<Rightarrow> escrow_watcher \<Rightarrow> escrow_watcher" where
  "expire_in_flight daa w =
     (let expired = map fst (filter (\<lambda>(_, c). daa \<ge> submit_daa c + CLAIM_RESPONSE_TIMEOUT_DAA) (in_flight w))
      in fold release expired w)"

definition slash_red :: "json \<Rightarrow> nat \<Rightarrow> escrow_watcher \<Rightarrow> escrow_watcher" where
  "slash_red J i w =
     (if i < length (ents w) then
        let e = ents w ! i in
        if \<not> claimed e \<and> \<not> slashed e \<and> \<not> is_inference e \<and> block_hash e \<noteq> []
        then modify_entry J i (\<lambda>e. e\<lparr>slashed := True\<rparr>) w else w
      else w)"

definition slash_reds :: "json \<Rightarrow> string list \<Rightarrow> escrow_watcher \<Rightarrow> escrow_watcher" where
  "slash_reds J reds w = fold (\<lambda>h w. case block_index w h of None \<Rightarrow> w | Some is \<Rightarrow> fold (slash_red J) is w) reds w"

definition saturating_mul_u64 :: "u64 \<Rightarrow> u64 \<Rightarrow> u64" where
  "saturating_mul_u64 a b = (if unat a * unat b \<ge> 2 ^ 64 then - 1 else a * b)"

definition saturating_add_word :: "u64 \<Rightarrow> u64 \<Rightarrow> u64" where
  "saturating_add_word a b = (if unat a + unat b \<ge> 2 ^ 64 then - 1 else a + b)"

text \<open>The two forgiveness rules of \<open>find_claim\<close> on one entry, with whether it healed.\<close>

definition heal :: "u64 \<Rightarrow> escrow_entry \<Rightarrow> escrow_entry \<times> bool" where
  "heal daa e =
     (let (e, healed) = (if batch_cap e \<noteq> 0 \<and> daa \<ge> cap_set_daa e + CAP_EXPIRY_DAA then (e\<lparr>batch_cap := 0\<rparr>, True) else (e, False));
          holdoff = saturating_mul_u64 CAP_EXPIRY_DAA (push_bit (unat (min (orphan_retries e) 10)) 1)
      in if orphan_slashed e \<and> (case orphan_retry_after_daa e of None \<Rightarrow> True | Some retry_daa \<Rightarrow> daa \<ge> saturating_add_word retry_daa holdoff)
         then (e\<lparr>orphan_slashed := False\<rparr>, True) else (e, healed))"

fun heal_loop :: "json \<Rightarrow> u64 \<Rightarrow> nat list \<Rightarrow> escrow_watcher \<Rightarrow> escrow_watcher" where
  "heal_loop J daa [] w = w"
| "heal_loop J daa (i # is) w =
     heal_loop J daa is (if snd (heal daa (ents w ! i)) then modify_entry J i (\<lambda>e. fst (heal daa e)) w else w)"

definition find_claim :: "crypto \<Rightarrow> json \<Rightarrow> bool \<Rightarrow> u64 \<Rightarrow> escrow_watcher \<Rightarrow> rpc_transaction option \<times> escrow_watcher" where
  "find_claim X J testnet daa w =
     (if length (in_flight w) \<ge> MAX_IN_FLIGHT_CLAIMS then (None, w)
      else if validation_pending w \<noteq> [] then (None, w)
      else
        let w = heal_loop J daa [0..<length (ents w)] w;
            batch = select_claim_batch testnet (ents w) daa (in_flight_outpoints w) in
        if batch = [] then (None, w)
        else let es = map (\<lambda>i. ents w ! i) batch in
          case build_claim_tx X (keys w) es of
            Inl _ \<Rightarrow> (None, w)
          | Inr (claim_txid, tx) \<Rightarrow>
              let ops = map (\<lambda>e. (coinbase_txid e, output_index e)) es
              in (Some tx, w\<lparr>in_flight_outpoints := in_flight_outpoints w \<union> set (map (\<lambda>(t, i). outpoint_key t i) ops),
                             in_flight := AList.update claim_txid \<lparr>outpoints = ops, submit_daa = daa\<rparr> (in_flight w)\<rparr>))"

text \<open>The bookkeeping at the head of \<open>handle_block\<close>; the status line only logs, its counter is kept.\<close>

definition begin_block :: "u64 \<Rightarrow> escrow_watcher \<Rightarrow> escrow_watcher" where
  "begin_block daa w =
     (let w = w\<lparr>last_daa_score := daa\<rparr>;
          w = expire_in_flight daa w;
          w = w\<lparr>blocks_since_compact := blocks_since_compact w + 1\<rparr>;
          w = (if blocks_since_compact w \<ge> COMPACT_EVERY_BLOCKS then compact (w\<lparr>blocks_since_compact := 0\<rparr>) else w);
          w = w\<lparr>blocks_since_status := blocks_since_status w + 1\<rparr>
      in if blocks_since_status w \<ge> STATUS_EVERY_BLOCKS then w\<lparr>blocks_since_status := 0\<rparr> else w)"

definition scan_block :: "json \<Rightarrow> rpc_block \<Rightarrow> u64 \<Rightarrow> escrow_watcher \<Rightarrow> escrow_watcher" where
  "scan_block J block daa w =
     (case block_verbose block of None \<Rightarrow> w
      | Some v \<Rightarrow> let w = slash_reds J (merge_set_reds_hashes v) w
                  in if is_chain_block v then track_block_escrows J block daa (verbose_hash v) w else w)"

definition handle_block :: "crypto \<Rightarrow> json \<Rightarrow> bool \<Rightarrow> io \<Rightarrow> rpc_block \<Rightarrow> escrow_watcher \<times> disk \<Rightarrow> rpc_transaction option \<times> escrow_watcher \<times> disk" where
  "handle_block X J testnet io block = (\<lambda>(w, d).
     case header_daa_score block of None \<Rightarrow> (None, w, d)
     | Some daa \<Rightarrow>
       (case find_claim X J testnet daa (scan_block J block daa (begin_block daa w)) of
          (claim, w) \<Rightarrow> (claim, maybe_flush J io (w, d))))"

subsection \<open>Boot-time validation and reorgs\<close>

definition start_state_validation :: "escrow_watcher \<Rightarrow> string list \<times> escrow_watcher" where
  "start_state_validation w =
     (let hashes = remdups (map block_hash (filter (\<lambda>e. \<not> claimed e \<and> \<not> slashed e \<and> block_hash e \<noteq> []) (ents w)))
      in (hashes, w\<lparr>validation_pending := hashes, validation_purged := 0, validation_unknown := 0\<rparr>))"

definition validation_in_progress :: "escrow_watcher \<Rightarrow> bool" where
  "validation_in_progress w \<longleftrightarrow> validation_pending w \<noteq> []"

definition finish_validation_if_done :: "json \<Rightarrow> io \<Rightarrow> escrow_watcher \<times> disk \<Rightarrow> escrow_watcher \<times> disk" where
  "finish_validation_if_done J io wd = (if validation_pending (fst wd) \<noteq> [] then wd else maybe_flush J io wd)"

text \<open>The loops below index \<open>state.entries\<close> and panic (\<open>None\<close>) out of range.\<close>

fun purge_loop :: "json \<Rightarrow> nat list \<Rightarrow> escrow_watcher \<Rightarrow> escrow_watcher option" where
  "purge_loop J [] w = Some w"
| "purge_loop J (i # is) w =
     (if i \<ge> length (ents w) then None
      else if \<not> claimed (ents w ! i) \<and> \<not> slashed (ents w ! i)
      then purge_loop J is (modify_entry J i (\<lambda>e. e\<lparr>slashed := True\<rparr>) (w\<lparr>validation_purged := validation_purged w + 1\<rparr>))
      else purge_loop J is w)"

definition on_block_validated :: "json \<Rightarrow> io \<Rightarrow> string \<Rightarrow> bool \<Rightarrow> escrow_watcher \<times> disk \<Rightarrow> (escrow_watcher \<times> disk) option" where
  "on_block_validated J io h exists = (\<lambda>(w, d).
     if h \<notin> set (validation_pending w) then Some (w, d)
     else let w = w\<lparr>validation_pending := remove1 h (validation_pending w)\<rparr> in
       map_option (\<lambda>w. finish_validation_if_done J io (w, d))
         (if \<not> exists then (case block_index w h of None \<Rightarrow> Some w | Some is \<Rightarrow> purge_loop J is w) else Some w))"

definition consume_validation_ok :: "json \<Rightarrow> io \<Rightarrow> string \<Rightarrow> bool \<Rightarrow> escrow_watcher \<times> disk \<Rightarrow> (bool \<times> escrow_watcher \<times> disk) option" where
  "consume_validation_ok J io h chain wd =
     (if h \<in> set (validation_pending (fst wd)) then map_option (Pair True) (on_block_validated J io h chain wd)
      else Some (False, wd))"

definition str_contains :: "string \<Rightarrow> string \<Rightarrow> bool" where
  "str_contains s p = list_ex (\<lambda>i. take (length p) (drop i s) = p) [0..<length s + 1]"

definition on_block_validation_error :: "json \<Rightarrow> io \<Rightarrow> string \<Rightarrow> escrow_watcher \<times> disk \<Rightarrow> bool \<times> escrow_watcher \<times> disk" where
  "on_block_validation_error J io msg = (\<lambda>(w, d).
     case List.find (str_contains msg) (validation_pending w) of None \<Rightarrow> (False, w, d)
     | Some h \<Rightarrow> (True, finish_validation_if_done J io
         (w\<lparr>validation_pending := remove1 h (validation_pending w), validation_unknown := validation_unknown w + 1\<rparr>, d)))"

fun reorg_loop :: "json \<Rightarrow> nat list \<Rightarrow> escrow_watcher \<times> nat \<Rightarrow> (escrow_watcher \<times> nat) option" where
  "reorg_loop J [] wp = Some wp"
| "reorg_loop J (i # is) (w, purged) =
     (if i \<ge> length (ents w) then None
      else if claimed (ents w ! i) \<or> slashed (ents w ! i) then reorg_loop J is (w, purged)
      else reorg_loop J is
        (modify_entry J i (\<lambda>e. e\<lparr>slashed := True\<rparr>) (w\<lparr>outpoint_set := outpoint_set w - {entry_key (ents w ! i)}\<rparr>), purged + 1))"

fun reorg_hashes :: "json \<Rightarrow> string list \<Rightarrow> escrow_watcher \<times> nat \<Rightarrow> (escrow_watcher \<times> nat) option" where
  "reorg_hashes J [] wp = Some wp"
| "reorg_hashes J (h # hs) (w, purged) =
     (case block_index w h of None \<Rightarrow> reorg_hashes J hs (w, purged)
      | Some is \<Rightarrow> Option.bind (reorg_loop J is (w\<lparr>block_index := (block_index w)(h := None)\<rparr>, purged)) (reorg_hashes J hs))"

definition on_chain_blocks_removed :: "json \<Rightarrow> io \<Rightarrow> string list \<Rightarrow> escrow_watcher \<times> disk \<Rightarrow> (escrow_watcher \<times> disk) option" where
  "on_chain_blocks_removed J io hashes = (\<lambda>(w, d).
     map_option (\<lambda>(w, purged). if purged > 0 then maybe_flush J io (w, d) else (w, d)) (reorg_hashes J hashes (w, 0)))"

subsection \<open>Responses to submitted claims\<close>

datatype submit_response_outcome = NotOurs | Handled | Accepted nat u64

text \<open>\<open>entries.iter_mut().find(..)\<close> by outpoint.\<close>

definition find_outpoint :: "escrow_entry list \<Rightarrow> string \<times> u32 \<Rightarrow> nat option" where
  "find_outpoint es op = List.find (\<lambda>i. (coinbase_txid (es ! i), output_index (es ! i)) = op) [0..<length es]"

definition mark_claimed :: "json \<Rightarrow> string \<times> u32 \<Rightarrow> escrow_watcher \<times> u64 \<Rightarrow> escrow_watcher \<times> u64" where
  "mark_claimed J op = (\<lambda>(w, total_sompi).
     case find_outpoint (ents w) op of None \<Rightarrow> (w, total_sompi)
     | Some i \<Rightarrow> (modify_entry J i (\<lambda>e. e\<lparr>claimed := True\<rparr>) w,
         if \<not> claimed (ents w ! i) then total_sompi + amount_sompi (ents w ! i) else total_sompi))"

definition mark_entries_claimed :: "json \<Rightarrow> (string \<times> u32) list \<Rightarrow> escrow_watcher \<Rightarrow> escrow_watcher \<times> u64" where
  "mark_entries_claimed J ops w = fold (mark_claimed J) ops (w, 0)"

text \<open>\<open>rsplit_once\<close>, \<open>split_whitespace\<close>, \<open>split_once(':')\<close> and \<open>u32::parse\<close> on ASCII text.\<close>

definition rsplit_after :: "string \<Rightarrow> string \<Rightarrow> string option" where
  "rsplit_after s p = map_option (\<lambda>i. drop (i + length p) s)
     (List.find (\<lambda>i. take (length p) (drop i s) = p) (rev [0..<length s + 1]))"

fun words_acc :: "string \<Rightarrow> string \<Rightarrow> string list" where
  "words_acc [] acc = (if acc = [] then [] else [acc])"
| "words_acc (c # cs) acc =
     (if is_space c then (if acc = [] then words_acc cs [] else acc # words_acc cs []) else words_acc cs (acc @ [c]))"

definition is_digit :: "char \<Rightarrow> bool" where
  "is_digit c \<longleftrightarrow> 48 \<le> (of_char c :: nat) \<and> (of_char c :: nat) \<le> 57"

definition parse_u32 :: "string \<Rightarrow> u32 option" where
  "parse_u32 s =
     (let ds = (case s of c # cs \<Rightarrow> if c = CHR ''+'' \<and> cs \<noteq> [] then cs else s | [] \<Rightarrow> [])
      in if ds = [] \<or> \<not> list_all is_digit ds \<or> undec ds \<ge> 2 ^ 32 then None else Some (word_of_nat (undec ds)))"

definition parse_burned :: "string \<Rightarrow> (string \<times> u32) option" where
  "parse_burned tok =
     (case index_of CHR '':'' tok of None \<Rightarrow> None
      | Some c \<Rightarrow> map_option (Pair (to_lower (take c tok))) (parse_u32 (drop (c + 1) tok)))"

definition burned_set :: "string \<Rightarrow> (string \<times> u32) set" where
  "burned_set msg = (case rsplit_after msg ''burned escrow outpoints: '' of None \<Rightarrow> {}
     | Some lst \<Rightarrow> set (List.map_filter parse_burned (words_acc lst [])))"

definition is_duplicate :: "string \<Rightarrow> bool" where
  "is_duplicate msg \<longleftrightarrow> str_contains msg ''already in the mempool'' \<or> str_contains msg ''already accepted''"

definition halved_cap :: "nat \<Rightarrow> u8" where
  "halved_cap n_outputs = word_of_nat (min (max (n_outputs div 2) 1) 255)"

definition saturating_inc_u8 :: "u8 \<Rightarrow> u8" where
  "saturating_inc_u8 x = (if x = - 1 then x else x + 1)"

text \<open>The update of one entry by a rejection.\<close>

definition reject_entry :: "string \<Rightarrow> nat \<Rightarrow> u64 \<Rightarrow> string \<times> u32 \<Rightarrow> escrow_entry \<Rightarrow> escrow_entry" where
  "reject_entry msg n_outputs last_daa op e =
     (let batch_rejected = n_outputs > 1;
          capped = e\<lparr>batch_cap := halved_cap n_outputs, cap_set_daa := last_daa\<rparr> in
      if str_contains msg ''orphan'' then
        (if batch_rejected then capped
         else let e = e\<lparr>orphan_retries := orphan_retries e + 1\<rparr> in
           if orphan_retries e \<ge> MAX_ORPHAN_RETRIES then e\<lparr>orphan_slashed := False, slashed := True\<rparr>
           else e\<lparr>orphan_slashed := True, orphan_retry_after_daa := Some (last_daa + ORPHAN_RETRY_COOLDOWN_BLOCKS)\<rparr>)
      else if str_contains msg ''sequence lock'' then
        e\<lparr>orphan_retry_after_daa := Some (last_daa + SEQ_LOCK_RETRY_COOLDOWN_BLOCKS)\<rparr>
      else if str_contains msg ''burned escrow outpoint'' then
        (if burned_set msg \<noteq> {} then (if (to_lower (fst op), snd op) \<in> burned_set msg then e\<lparr>slashed := True\<rparr> else e)
         else if batch_rejected then capped
         else e\<lparr>slashed := True\<rparr>)
      else
        let e = (if batch_rejected then capped else e);
            e = e\<lparr>submit_retries := saturating_inc_u8 (submit_retries e)\<rparr>;
            cooldown = min (UNKNOWN_RETRY_BASE_COOLDOWN_DAA * 2 ^ min (unat (submit_retries e)) 9) UNKNOWN_RETRY_MAX_COOLDOWN_DAA
        in e\<lparr>orphan_retry_after_daa := Some (last_daa + word_of_nat cooldown)\<rparr>)"

definition reject_outpoint :: "json \<Rightarrow> string \<Rightarrow> nat \<Rightarrow> string \<times> u32 \<Rightarrow> escrow_watcher \<Rightarrow> escrow_watcher" where
  "reject_outpoint J msg n_outputs op w =
     (case find_outpoint (ents w) op of None \<Rightarrow> w
      | Some i \<Rightarrow> modify_entry J i (reject_entry msg n_outputs (last_daa_score w) op) w)"

definition match_response :: "escrow_watcher \<Rightarrow> string \<Rightarrow> string option \<Rightarrow> string option" where
  "match_response w response_txid error =
     (if map_of (in_flight w) response_txid \<noteq> None then Some response_txid
      else case error of Some msg \<Rightarrow> List.find (str_contains msg) (map fst (in_flight w)) | None \<Rightarrow> None)"

definition on_submit_response :: "json \<Rightarrow> io \<Rightarrow> string \<Rightarrow> string option \<Rightarrow> escrow_watcher \<times> disk \<Rightarrow> submit_response_outcome \<times> escrow_watcher \<times> disk" where
  "on_submit_response J io response_txid error = (\<lambda>(w, d).
     case match_response w response_txid error of None \<Rightarrow> (NotOurs, w, d)
     | Some claim_txid \<Rightarrow>
       let ops = (case map_of (in_flight w) claim_txid of Some c \<Rightarrow> outpoints c | None \<Rightarrow> []);
           w = release claim_txid w;
           n_outputs = length ops
       in if (case error of None \<Rightarrow> True | Some msg \<Rightarrow> is_duplicate msg)
          then (case mark_entries_claimed J ops w of (w, amount) \<Rightarrow> (Accepted n_outputs amount, maybe_flush J io (w, d)))
          else (Handled, maybe_flush J io (fold (reject_outpoint J (the error) n_outputs) ops w, d)))"

subsection \<open>Inference escrows, start-up\<close>

definition track_inference_escrow :: "json \<Rightarrow> io \<Rightarrow> string \<Rightarrow> u64 \<Rightarrow> u64 \<Rightarrow> escrow_watcher \<times> disk \<Rightarrow> escrow_watcher \<times> disk" where
  "track_inference_escrow J io txid daa amount = (\<lambda>(w, d).
     if amount = 0 then (w, d)
     else if outpoint_key txid 1 \<in> outpoint_set w then (w, d)
     else let e = new_entry txid [] daa amount 1 True CHALLENGE_WINDOW_BLOCKS;
              w = set_ents (ents w @ [e]) w;
              w = w\<lparr>outpoint_set := insert (outpoint_key txid 1) (outpoint_set w)\<rparr>
          in maybe_flush J io (append_journal_line J e w, d))"

datatype load_error = StateCorrupt | StateUnreadable | JournalUnreadable

text \<open>\<open>BufRead::lines\<close>: pieces between line feeds, without a trailing carriage return; the piece after the last
  line feed counts only when it is not empty.\<close>

fun split_lines :: "bytes \<Rightarrow> bytes \<Rightarrow> bytes list" where
  "split_lines [] acc = (if acc = [] then [] else [acc])"
| "split_lines (b # bs) acc =
     (if b = 0x0A then (if acc \<noteq> [] \<and> last acc = 0x0D then butlast acc else acc) # split_lines bs [] else split_lines bs (acc @ [b]))"

definition is_blank :: "bytes \<Rightarrow> bool" where
  "is_blank line \<longleftrightarrow> list_all (\<lambda>b. is_space (char_of (unat b))) line"

text \<open>The map \<open>index\<close> gives a key its last position; each applied line updates that position or appends.\<close>

definition last_position :: "string \<Rightarrow> escrow_entry list \<Rightarrow> nat option" where
  "last_position key es = List.find (\<lambda>i. entry_key (es ! i) = key) (rev [0..<length es])"

definition upsert :: "escrow_entry \<Rightarrow> escrow_entry list \<Rightarrow> escrow_entry list" where
  "upsert e es = (case last_position (entry_key e) es of Some i \<Rightarrow> es[i := e] | None \<Rightarrow> es @ [e])"

definition replay_line :: "json \<Rightarrow> bytes \<Rightarrow> escrow_state \<Rightarrow> escrow_state" where
  "replay_line J line s =
     (if is_blank line then s
      else case line_from_str J line of None \<Rightarrow> s
      | Some (q, e) \<Rightarrow> if q \<le> state_seq s then s else s\<lparr>state_seq := q, entries := upsert e (entries s)\<rparr>)"

definition replay_journal :: "json \<Rightarrow> file_content \<Rightarrow> escrow_state \<Rightarrow> load_error + escrow_state" where
  "replay_journal J f s = (case f of NotFound \<Rightarrow> Inr s | Unreadable \<Rightarrow> Inl JournalUnreadable
     | Contents bs \<Rightarrow> if list_all is_utf8 (split_lines bs []) then Inr (fold (replay_line J) (split_lines bs []) s) else Inl JournalUnreadable)"

definition load_state :: "json \<Rightarrow> disk \<Rightarrow> load_error + escrow_state" where
  "load_state J d =
     rbind (case snapshot_file d of
              NotFound \<Rightarrow> Inr \<lparr>entries = [], state_seq = 0\<rparr>
            | Unreadable \<Rightarrow> Inl StateUnreadable
            | Contents bs \<Rightarrow> if \<not> is_utf8 bs then Inl StateUnreadable else (case state_from_str J bs of None \<Rightarrow> Inl StateCorrupt | Some s \<Rightarrow> Inr s))
       (replay_journal J (journal_file d))"

datatype new_error = PrivkeyHex | PrivkeyLength nat | PrivkeyInvalid | PayoutAddress address_error | StateError load_error

definition new_watcher :: "crypto \<Rightarrow> json \<Rightarrow> nat \<Rightarrow> string \<Rightarrow> string \<Rightarrow> disk \<Rightarrow> new_error + escrow_watcher" where
  "new_watcher X J start privkey_hex mining_address d =
     (case hex_decode X privkey_hex of None \<Rightarrow> Inl PrivkeyHex
      | Some sk \<Rightarrow> if length sk \<noteq> 32 then Inl (PrivkeyLength (length sk))
        else if \<not> secret_valid X sk then Inl PrivkeyInvalid
        else let pk = x_only_public_key X sk in
          rbind (map_err PayoutAddress (decode_address mining_address)) (\<lambda>(ver, spk).
            rbind (map_err StateError (load_state J d)) (\<lambda>s.
              Inr (rebuild_indexes
                \<lparr>keys = \<lparr>secret_key = sk, pubkey_bytes = pk,
                    escrow_script_hex = hex_encode X (build_escrow_script pk CHALLENGE_WINDOW_BLOCKS),
                    escrow_script_bonded_hex = hex_encode X (build_escrow_script pk SERVICE_BOND_CSV_WINDOW_BLOCKS),
                    payout_spk_version = ver, payout_spk_script = build_p2pk_script spk,
                    payout_spk_script_hex = hex_encode X (build_p2pk_script spk)\<rparr>,
                 wstate = s, in_flight = [], in_flight_outpoints = {}, last_daa_score = 0, outpoint_set = {}, block_index = Map.empty,
                 journal_pending = [], journal_seq = state_seq s, journal_bytes_since_snapshot = 0, last_journal_write = start,
                 snapshot_due = False, last_snapshot = start, blocks_since_compact = 0, blocks_since_status = 0,
                 validation_pending = [], validation_purged = 0, validation_unknown = 0\<rparr>))))"

end
