(* ===== verification/Escrow_Invariant.thy ===== *)
theory Escrow_Invariant
  imports Escrow_Watcher
begin

section \<open>Invariants of the escrow watcher\<close>

text \<open>
  The operations of the watcher as a step relation on watcher and disk, the states reachable from a
  start, and what holds in all of them: no outpoint is in two claims, at most four claims of at most 87
  outputs are in flight, the block index stays inside the entries so that no operation panics, and the
  entries that are not slashed have different outpoints, all known to \<open>outpoint_set\<close>.
\<close>

subsection \<open>The invariant\<close>

definition claim_keys :: "in_flight_claim \<Rightarrow> string list" where
  "claim_keys c = map (\<lambda>(t, i). outpoint_key t i) (outpoints c)"

definition flight_keys :: "(string \<times> in_flight_claim) list \<Rightarrow> string list" where
  "flight_keys fl = concat (map (\<lambda>(_, c). claim_keys c) fl)"

definition inv_flight :: "escrow_watcher \<Rightarrow> bool" where
  "inv_flight w \<longleftrightarrow> distinct (map fst (in_flight w)) \<and> distinct (flight_keys (in_flight w))
     \<and> set (flight_keys (in_flight w)) \<subseteq> in_flight_outpoints w \<and> length (in_flight w) \<le> MAX_IN_FLIGHT_CLAIMS
     \<and> (\<forall>(t, c) \<in> set (in_flight w). outpoints c \<noteq> [] \<and> length (outpoints c) \<le> MAX_CLAIM_BATCH)"

definition inv_index :: "escrow_watcher \<Rightarrow> bool" where
  "inv_index w \<longleftrightarrow> (\<forall>h is. block_index w h = Some is \<longrightarrow> (\<forall>i \<in> set is. i < length (ents w) \<and> block_hash (ents w ! i) = h))"

definition inv_live :: "escrow_watcher \<Rightarrow> bool" where
  "inv_live w \<longleftrightarrow> (\<forall>i < length (ents w). \<not> slashed (ents w ! i) \<longrightarrow> entry_key (ents w ! i) \<in> outpoint_set w)
     \<and> (\<forall>i < length (ents w). \<forall>j < length (ents w). \<not> slashed (ents w ! i) \<longrightarrow> \<not> slashed (ents w ! j) \<longrightarrow>
          entry_key (ents w ! i) = entry_key (ents w ! j) \<longrightarrow> i = j)"

definition winv :: "escrow_watcher \<Rightarrow> bool" where
  "winv w \<longleftrightarrow> inv_flight w \<and> inv_index w \<and> inv_live w"

subsection \<open>Tame changes\<close>

text \<open>Updates in place that keep outpoints and blocks of the entries, never lift a slash and leave the indexes and the
  claims in flight alone.\<close>

definition tame :: "escrow_watcher \<Rightarrow> escrow_watcher \<Rightarrow> bool" where
  "tame w w' \<longleftrightarrow> in_flight w' = in_flight w \<and> in_flight_outpoints w' = in_flight_outpoints w \<and> outpoint_set w' = outpoint_set w
     \<and> block_index w' = block_index w \<and> keys w' = keys w \<and> length (ents w') = length (ents w)
     \<and> (\<forall>i < length (ents w). entry_key (ents w' ! i) = entry_key (ents w ! i) \<and> block_hash (ents w' ! i) = block_hash (ents w ! i)
          \<and> (slashed (ents w ! i) \<longrightarrow> slashed (ents w' ! i)))"

lemma tame_refl [simp]: "tame w w"
  by (simp add: tame_def)

lemma tame_trans: "tame u v \<Longrightarrow> tame v w \<Longrightarrow> tame u w"
  unfolding tame_def by auto

lemma tame_length: "tame w w' \<Longrightarrow> length (ents w') = length (ents w)"
  by (simp add: tame_def)

lemma tame_winv: "tame w w' \<Longrightarrow> winv w \<Longrightarrow> winv w'"
proof -
  assume t: "tame w w'" and inv: "winv w"
  have f: "in_flight w' = in_flight w" "in_flight_outpoints w' = in_flight_outpoints w" "outpoint_set w' = outpoint_set w"
    "block_index w' = block_index w" "length (ents w') = length (ents w)"
    using t by (simp_all add: tame_def)
  have e: "entry_key (ents w' ! i) = entry_key (ents w ! i)" "block_hash (ents w' ! i) = block_hash (ents w ! i)"
    "\<not> slashed (ents w' ! i) \<Longrightarrow> \<not> slashed (ents w ! i)" if "i < length (ents w)" for i
    using t that unfolding tame_def by blast+
  have "inv_flight w'" using inv by (simp add: winv_def inv_flight_def f)
  moreover have "inv_index w'" using inv e(2) unfolding winv_def inv_index_def f by metis
  moreover have "inv_live w'" using inv e(1,3) unfolding winv_def inv_live_def f by metis
  ultimately show "winv w'" by (simp add: winv_def)
qed

lemma tame_fold:
  assumes "\<And>x w. tame w (f x w)"
  shows "tame w (fold f xs w)"
  by (induction xs arbitrary: w) (auto intro: tame_trans assms)

lemma append_journal_sel [simp]:
  "in_flight (append_journal_line J e w) = in_flight w" "in_flight_outpoints (append_journal_line J e w) = in_flight_outpoints w"
  "outpoint_set (append_journal_line J e w) = outpoint_set w" "block_index (append_journal_line J e w) = block_index w"
  "wstate (append_journal_line J e w) = wstate w" "keys (append_journal_line J e w) = keys w"
  "last_daa_score (append_journal_line J e w) = last_daa_score w" "validation_pending (append_journal_line J e w) = validation_pending w"
  by (auto simp: append_journal_line_def Let_def split: option.split)

definition keeps_entry :: "(escrow_entry \<Rightarrow> escrow_entry) \<Rightarrow> bool" where
  "keeps_entry f \<longleftrightarrow> (\<forall>e. coinbase_txid (f e) = coinbase_txid e \<and> output_index (f e) = output_index e \<and> block_hash (f e) = block_hash e
     \<and> (slashed e \<longrightarrow> slashed (f e)))"

lemma modify_entry_sel [simp]:
  "in_flight (modify_entry J i f w) = in_flight w" "in_flight_outpoints (modify_entry J i f w) = in_flight_outpoints w"
  "outpoint_set (modify_entry J i f w) = outpoint_set w" "block_index (modify_entry J i f w) = block_index w"
  "ents (modify_entry J i f w) = (ents w)[i := f (ents w ! i)]" "keys (modify_entry J i f w) = keys w"
  "last_daa_score (modify_entry J i f w) = last_daa_score w" "validation_pending (modify_entry J i f w) = validation_pending w"
  by (simp_all add: modify_entry_def)

lemma tame_modify: "keeps_entry f \<Longrightarrow> tame w (modify_entry J i f w)"
  by (cases "i < length (ents w)") (auto simp: tame_def keeps_entry_def nth_list_update)

lemma keeps_entry_simps [simp]:
  "keeps_entry (\<lambda>e. e\<lparr>slashed := True\<rparr>)" "keeps_entry (\<lambda>e. e\<lparr>claimed := True\<rparr>)"
  "keeps_entry (\<lambda>e. fst (heal daa e))" "keeps_entry (reject_entry msg n daa op)"
  by (auto simp: keeps_entry_def heal_def reject_entry_def Let_def)

lemma tame_write_journal: "write_journal io (w, d) = (ok, w', d') \<Longrightarrow> tame w w'"
  by (auto simp: write_journal_def tame_def Let_def split: if_splits option.splits)

lemma tame_write_snapshot: "write_snapshot J io (w, d) = (ok, w', d') \<Longrightarrow> tame w w'"
  by (auto simp: write_snapshot_def tame_def Let_def split: if_splits prod.splits)

lemma tame_maybe_flush: "tame w (fst (maybe_flush J io (w, d)))"
proof -
  have "tame w (fst (snd (write_snapshot J io (w, d))))" "tame w (fst (snd (write_journal io (w, d))))"
    using tame_write_snapshot [of J io w d] tame_write_journal [of io w d] by (metis prod.collapse)+
  then show ?thesis by (simp add: maybe_flush_def Let_def)
qed

lemma tame_finish: "tame w (fst (finish_validation_if_done J io (w, d)))"
  using tame_maybe_flush by (simp add: finish_validation_if_done_def)

lemma tame_slash_reds: "tame w (slash_reds J reds w)"
proof -
  have "tame w (slash_red J i w)" for i w by (simp add: slash_red_def Let_def tame_modify)
  then have "tame w (fold (slash_red J) is w)" for "is" w by (rule tame_fold)
  then have "tame w (case block_index w h of None \<Rightarrow> w | Some is \<Rightarrow> fold (slash_red J) is w)" for h w by (simp split: option.split)
  then show ?thesis unfolding slash_reds_def by (rule tame_fold)
qed

lemma tame_heal: "tame w (heal_loop J daa is w)"
proof (induction "is" arbitrary: w)
  case (Cons i js)
  have "tame w (if snd (heal daa (ents w ! i)) then modify_entry J i (\<lambda>e. fst (heal daa e)) w else w)" by (simp add: tame_modify)
  then show ?case unfolding heal_loop.simps by (rule tame_trans [OF _ Cons])
qed simp

lemma tame_reject: "tame w (fold (reject_outpoint J msg n) ops w)"
  by (rule tame_fold) (simp add: reject_outpoint_def tame_modify split: option.split)

lemma tame_mark: "tame w (fst (mark_entries_claimed J ops w))"
proof -
  have "tame w (fst (fold (mark_claimed J) ops (w, t)))" for w t
  proof (induction ops arbitrary: w t)
    case (Cons op ops)
    have "tame w (fst (mark_claimed J op (w, t)))" by (simp add: mark_claimed_def tame_modify split: option.split)
    from tame_trans [OF this Cons [of _ "snd (mark_claimed J op (w, t))"]] show ?case by simp
  qed simp
  then show ?thesis by (simp add: mark_entries_claimed_def)
qed

subsection \<open>Changes of the indexes\<close>

lemma index_push_sel [simp]:
  "in_flight (index_push h i w) = in_flight w" "in_flight_outpoints (index_push h i w) = in_flight_outpoints w"
  "outpoint_set (index_push h i w) = outpoint_set w" "wstate (index_push h i w) = wstate w" "keys (index_push h i w) = keys w"
  by (simp_all add: index_push_def)

lemma index_push_member:
  "(\<exists>is. block_index (index_push h i w) g = Some is \<and> j \<in> set is) \<longleftrightarrow> (g = h \<and> j = i) \<or> (\<exists>is. block_index w g = Some is \<and> j \<in> set is)"
  by (auto simp: index_push_def split: option.split)

lemma inv_index_alt: "inv_index w \<longleftrightarrow> (\<forall>g j. (\<exists>is. block_index w g = Some is \<and> j \<in> set is) \<longrightarrow> j < length (ents w) \<and> block_hash (ents w ! j) = g)"
  by (auto simp: inv_index_def)

lemma rebuild_loop_facts:
  "in_flight (rebuild_loop k es w) = in_flight w \<and> in_flight_outpoints (rebuild_loop k es w) = in_flight_outpoints w
    \<and> wstate (rebuild_loop k es w) = wstate w \<and> keys (rebuild_loop k es w) = keys w
    \<and> outpoint_set (rebuild_loop k es w) = outpoint_set w \<union> entry_key ` set es
    \<and> (\<forall>g j. (\<exists>is. block_index (rebuild_loop k es w) g = Some is \<and> j \<in> set is) \<longrightarrow>
          (\<exists>is. block_index w g = Some is \<and> j \<in> set is) \<or> (k \<le> j \<and> j < k + length es \<and> block_hash (es ! (j - k)) = g))"
proof (induction es arbitrary: k w)
  case (Cons e es)
  let ?w1 = "w\<lparr>outpoint_set := insert (entry_key e) (outpoint_set w)\<rparr>"
  let ?w = "if block_hash e \<noteq> [] then index_push (block_hash e) k ?w1 else ?w1"
  have mem: "(\<exists>is. block_index ?w g = Some is \<and> j \<in> set is) \<Longrightarrow> (g = block_hash e \<and> j = k) \<or> (\<exists>is. block_index w g = Some is \<and> j \<in> set is)" for g j
    using index_push_member [of "block_hash e" k ?w1 g j] by (simp split: if_splits)
  have eq: "rebuild_loop k (e # es) w = rebuild_loop (k + 1) es ?w" by (simp add: Let_def)
  note IH = Cons [of "k + 1" ?w]
  have idx: "(\<exists>is. block_index w g = Some is \<and> j \<in> set is) \<or> (k \<le> j \<and> j < k + length (e # es) \<and> block_hash ((e # es) ! (j - k)) = g)"
    if "\<exists>is. block_index (rebuild_loop (k + 1) es ?w) g = Some is \<and> j \<in> set is" for g j
  proof -
    from IH that have "(\<exists>is. block_index ?w g = Some is \<and> j \<in> set is) \<or> (k + 1 \<le> j \<and> j < k + 1 + length es \<and> block_hash (es ! (j - (k + 1))) = g)"
      by blast
    then show ?thesis
    proof
      assume "\<exists>is. block_index ?w g = Some is \<and> j \<in> set is"
      from mem [OF this] show ?thesis by auto
    next
      assume "k + 1 \<le> j \<and> j < k + 1 + length es \<and> block_hash (es ! (j - (k + 1))) = g"
      moreover then have "(e # es) ! (j - k) = es ! (j - (k + 1))" by (simp add: nth_Cons')
      ultimately show ?thesis by auto
    qed
  qed
  have sel: "in_flight ?w = in_flight w" "in_flight_outpoints ?w = in_flight_outpoints w" "wstate ?w = wstate w" "keys ?w = keys w"
    "outpoint_set ?w = insert (entry_key e) (outpoint_set w)" by simp_all
  show ?case unfolding eq using IH idx unfolding sel by auto
qed simp

lemma rebuild_winv:
  assumes "inv_flight w"
    and live: "\<And>i j. i < length (ents w) \<Longrightarrow> j < length (ents w) \<Longrightarrow> \<not> slashed (ents w ! i) \<Longrightarrow> \<not> slashed (ents w ! j) \<Longrightarrow>
        entry_key (ents w ! i) = entry_key (ents w ! j) \<Longrightarrow> i = j"
  shows "winv (rebuild_indexes w)"
proof -
  let ?r = "rebuild_indexes w"
  note f = rebuild_loop_facts [of 0 "ents w" "w\<lparr>outpoint_set := {}, block_index := Map.empty\<rparr>", folded rebuild_indexes_def]
  have sel: "in_flight ?r = in_flight w" "in_flight_outpoints ?r = in_flight_outpoints w" "wstate ?r = wstate w"
    "outpoint_set ?r = entry_key ` set (ents w)" using f by simp_all
  have "inv_index ?r" using f unfolding inv_index_alt sel by auto
  moreover have "inv_live ?r" using live unfolding inv_live_def sel by auto
  moreover have "inv_flight ?r" using assms(1) by (simp add: inv_flight_def sel)
  ultimately show ?thesis by (simp add: winv_def)
qed

lemma filter_nth_inj:
  assumes "\<And>i j. i < length xs \<Longrightarrow> j < length xs \<Longrightarrow> P (xs ! i) \<Longrightarrow> P (xs ! j) \<Longrightarrow> f (xs ! i) = f (xs ! j) \<Longrightarrow> i = j"
  shows "distinct (map f (filter P xs))"
  using assms
proof (induction xs)
  case (Cons x xs)
  have "distinct (map f (filter P xs))"
    by (rule Cons.IH) (use Cons.prems [of "Suc _" "Suc _"] in auto)
  moreover have "f x \<notin> f ` set (filter P xs)" if "P x"
  proof
    assume "f x \<in> f ` set (filter P xs)"
    then obtain j where "j < length xs" "P (xs ! j)" "f x = f (xs ! j)" by (auto simp: in_set_conv_nth)
    with Cons.prems [of 0 "Suc j"] that show False by simp
  qed
  ultimately show ?case by auto
qed simp

lemma winv_compact:
  assumes "winv w"
  shows "winv (compact w)"
proof -
  let ?es = "filter (\<lambda>e. \<not> claimed e \<and> \<not> slashed e) (ents w)"
  show ?thesis
  proof (cases "length ?es = length (ents w)")
    case True
    then have "?es = ents w" by (metis filter_id_conv length_filter_less less_irrefl)
    then have "compact w = w" by (simp add: compact_def)
    then show ?thesis using assms by simp
  next
    case False
    have "distinct (map entry_key (filter (\<lambda>e. \<not> slashed e) (ents w)))"
      by (rule filter_nth_inj) (use assms in \<open>auto simp: winv_def inv_live_def\<close>)
    then have "distinct (map entry_key (filter (\<lambda>e. \<not> claimed e) (filter (\<lambda>e. \<not> slashed e) (ents w))))" by (rule distinct_map_filter)
    then have d: "distinct (map entry_key ?es)" by (simp add: conj_commute)
    have "winv (rebuild_indexes (set_ents ?es w))"
    proof (rule rebuild_winv)
      show "inv_flight (set_ents ?es w)" using assms by (simp add: winv_def inv_flight_def)
      show "i = j" if "i < length (ents (set_ents ?es w))" "j < length (ents (set_ents ?es w))"
        "entry_key (ents (set_ents ?es w) ! i) = entry_key (ents (set_ents ?es w) ! j)" for i j
        using that nth_eq_iff_index_eq [OF d, of i j] by simp
    qed
    moreover have "compact w = (rebuild_indexes (set_ents ?es w))\<lparr>snapshot_due := True\<rparr>" using False by (simp add: compact_def Let_def)
    ultimately show ?thesis by (simp add: winv_def inv_flight_def inv_index_def inv_live_def)
  qed
qed

text \<open>A fresh entry at the end.\<close>

lemma winv_push:
  assumes inv: "winv w" and fresh: "entry_key e \<notin> outpoint_set w" and h: "block_hash e = h"
    and w': "in_flight w' = in_flight w" "in_flight_outpoints w' = in_flight_outpoints w" "ents w' = ents w @ [e]"
      "outpoint_set w' = insert (entry_key e) (outpoint_set w)"
      "block_index w' = block_index w \<or> block_index w' = block_index (index_push h (length (ents w)) w)"
  shows "winv w'"
proof -
  have "inv_flight w'" using inv by (simp add: winv_def inv_flight_def w')
  moreover have "inv_index w'"
  unfolding inv_index_alt
  proof (intro allI impI)
    fix g j
    assume "\<exists>is. block_index w' g = Some is \<and> j \<in> set is"
    then have "(g = h \<and> j = length (ents w)) \<or> (\<exists>is. block_index w g = Some is \<and> j \<in> set is)"
      using w'(5) index_push_member [of h "length (ents w)" w g j] by auto
    moreover have "j < length (ents w) \<and> block_hash (ents w ! j) = g" if "\<exists>is. block_index w g = Some is \<and> j \<in> set is"
      using inv that unfolding winv_def inv_index_alt by blast
    ultimately show "j < length (ents w') \<and> block_hash (ents w' ! j) = g" using h by (auto simp: w'(3) nth_append)
  qed
  moreover have "inv_live w'"
    using inv fresh unfolding winv_def inv_live_def w'(3,4) by (auto simp: nth_append less_Suc_eq)
  ultimately show ?thesis by (simp add: winv_def)
qed

lemma winv_track_output:
  assumes "winv w"
  shows "winv (track_output J txid bh daa i out w)"
proof (cases "script_public_key out")
  case None
  then show ?thesis using assms by (simp add: track_output_def)
next
  case (Some spk)
  let ?key = "outpoint_key txid (word_of_nat i)"
  show ?thesis
  proof (cases "script_window w (to_lower (spk_script spk)) = None \<or> \<not> (spk_version spk = 0 \<and> ?key \<notin> outpoint_set w)")
    case True
    then show ?thesis using assms Some by (auto simp: track_output_def Let_def split: option.split)
  next
    case False
    then obtain csv where csv: "script_window w (to_lower (spk_script spk)) = Some csv" and k: "spk_version spk = 0" "?key \<notin> outpoint_set w" by auto
    let ?e = "new_entry txid bh daa (out_amount out) (word_of_nat i) False csv"
    have e: "entry_key ?e = ?key" "block_hash ?e = bh" by (simp_all add: new_entry_def)
    show ?thesis
      by (rule winv_push [OF assms _ e(2)]) (use Some csv k e in \<open>auto simp: track_output_def Let_def index_push_def\<close>)
  qed
qed

lemma winv_track_outputs: "winv w \<Longrightarrow> winv (track_outputs J txid bh daa i outs w)"
  by (induction outs arbitrary: i w) (auto intro: winv_track_output)

lemma winv_track_block: "winv w \<Longrightarrow> winv (track_block_escrows J b daa bh w)"
  by (simp add: track_block_escrows_def winv_track_outputs split: option.split)

lemma winv_cong:
  assumes "winv w" and "in_flight w' = in_flight w" "in_flight_outpoints w' = in_flight_outpoints w" "outpoint_set w' = outpoint_set w"
    "block_index w' = block_index w" "ents w' = ents w"
  shows "winv w'"
  using assms by (simp add: winv_def inv_flight_def inv_index_def inv_live_def)

subsection \<open>Claims in flight\<close>

lemma flight_keys_simps [simp]:
  "flight_keys [] = []" "flight_keys ((t, c) # fl) = claim_keys c @ flight_keys fl"
  by (simp_all add: flight_keys_def)

lemma flight_keys_delete: "set (flight_keys (AList.delete t fl)) \<subseteq> set (flight_keys fl)"
  by (induction fl) auto

lemma flight_keys_update: "set (flight_keys (AList.update t c fl)) \<subseteq> set (flight_keys fl) \<union> set (claim_keys c)"
  by (induction fl) auto

lemma distinct_flight_delete: "distinct (flight_keys fl) \<Longrightarrow> distinct (flight_keys (AList.delete t fl))"
proof (induction fl)
  case (Cons x fl)
  then show ?case using flight_keys_delete [of t fl] by (cases x) auto
qed simp

lemma distinct_flight_update:
  "distinct (flight_keys fl) \<Longrightarrow> distinct (claim_keys c) \<Longrightarrow> set (claim_keys c) \<inter> set (flight_keys fl) = {} \<Longrightarrow>
    distinct (flight_keys (AList.update t c fl))"
proof (induction fl)
  case (Cons x fl)
  then show ?case using flight_keys_update [of t c fl] by (cases x) auto
qed simp

lemma flight_keys_removed:
  "map_of fl t = Some c \<Longrightarrow> distinct (map fst fl) \<Longrightarrow> distinct (flight_keys fl) \<Longrightarrow>
    set (flight_keys (AList.delete t fl)) = set (flight_keys fl) - set (claim_keys c)"
proof (induction fl)
  case (Cons x fl)
  obtain t' c' where x: "x = (t', c')" by (cases x)
  show ?case
  proof (cases "t' = t")
    case True
    then have "t \<notin> fst ` set fl" "c' = c" using Cons.prems x by auto
    moreover from this(1) have "AList.delete t fl = fl" by (induction fl) auto
    ultimately show ?thesis using True Cons.prems(3) x by auto
  next
    case False
    then have c: "map_of fl t = Some c" using Cons.prems(1) x by simp
    then have "set (claim_keys c) \<subseteq> set (flight_keys fl)" by (auto simp: flight_keys_def dest!: map_of_SomeD)
    then show ?thesis using False Cons.IH [OF c] Cons.prems(2,3) x by auto
  qed
qed simp

lemma winv_release:
  assumes "winv w"
  shows "winv (release t w)"
proof (cases "map_of (in_flight w) t")
  case None
  then show ?thesis using assms by (simp add: release_def)
next
  case (Some c)
  let ?w = "release t w"
  have w: "?w = w\<lparr>in_flight := AList.delete t (in_flight w), in_flight_outpoints := in_flight_outpoints w - set (claim_keys c)\<rparr>"
    using Some by (simp add: release_def claim_keys_def)
  have inv: "inv_flight w" "inv_index w" "inv_live w" using assms by (simp_all add: winv_def)
  have sub: "set (AList.delete t (in_flight w)) \<subseteq> set (in_flight w)" by (auto simp: AList.delete_eq)
  have "inv_flight ?w"
    unfolding inv_flight_def w
    using inv(1) distinct_flight_delete [of "in_flight w" t] flight_keys_removed [OF Some] sub
      order_trans [OF length_delete_le, of "in_flight w" 4 t]
    unfolding inv_flight_def by (auto simp: distinct_delete)
  moreover have "inv_index ?w" "inv_live ?w" using inv(2,3) by (simp_all add: inv_index_def inv_live_def w)
  ultimately show ?thesis by (simp add: winv_def)
qed

lemma winv_expire: "winv w \<Longrightarrow> winv (expire_in_flight daa w)"
proof -
  have "winv w \<Longrightarrow> winv (fold release ts w)" for ts by (induction ts arbitrary: w) (auto intro: winv_release)
  then show "winv w \<Longrightarrow> winv (expire_in_flight daa w)" by (simp add: expire_in_flight_def Let_def)
qed

text \<open>The keys of a selected batch are different and not in flight.\<close>

lemma batch_keys_fresh:
  assumes "inv_live w" and b: "b = select_claim_batch testnet (ents w) daa (in_flight_outpoints w)"
  shows "distinct (map (\<lambda>i. entry_key (ents w ! i)) b)" and "(\<lambda>i. entry_key (ents w ! i)) ` set b \<inter> in_flight_outpoints w = {}"
    and "length b \<le> 87"
proof -
  note safe = claim_batch_safe [OF b]
  have e: "i < length (ents w)" "\<not> slashed (ents w ! i)" "entry_key (ents w ! i) \<notin> in_flight_outpoints w" if "i \<in> set b" for i
    using safe [OF that that] by (simp_all add: eligible_def)
  have "distinct b \<and> length b \<le> 87"
  proof (cases b)
    case (Cons i ks)
    then have "i \<in> set b" by simp
    from safe [OF this this] show ?thesis by simp
  qed simp
  moreover have "inj_on (\<lambda>i. entry_key (ents w ! i)) (set b)"
    using assms(1) e unfolding inv_live_def inj_on_def by blast
  ultimately show "distinct (map (\<lambda>i. entry_key (ents w ! i)) b)" "length b \<le> 87" by (simp_all only: distinct_map simp_thms)
  show "(\<lambda>i. entry_key (ents w ! i)) ` set b \<inter> in_flight_outpoints w = {}" using e(3) by auto
qed

lemma length_alist_update: "length (AList.update k v al) \<le> Suc (length al)"
  by (induction al) auto

lemma set_alist_update: "set (AList.update k v al) \<subseteq> insert (k, v) (set al)"
  by (induction al) auto

text \<open>Either \<open>find_claim\<close> heals some entries at most, or it puts a new claim in flight.\<close>

abbreviation batch_claim :: "escrow_entry list \<Rightarrow> nat list \<Rightarrow> u64 \<Rightarrow> in_flight_claim" where
  "batch_claim es b daa \<equiv> \<lparr>outpoints = map (\<lambda>i. (coinbase_txid (es ! i), output_index (es ! i))) b, submit_daa = daa\<rparr>"

lemma batch_claim_keys: "claim_keys (batch_claim es b daa) = map (\<lambda>i. entry_key (es ! i)) b"
  by (simp add: claim_keys_def)

lemma find_claimE:
  assumes "find_claim X J testnet daa w = (c, w')"
  obtains (unchanged) "c = None" "tame w w'" "w' = w \<or> w' = heal_loop J daa [0..<length (ents w)] w"
  | (claim) v b t tx where "c = Some tx" "tame w v" "length (in_flight w) < 4" "validation_pending w = []"
      "b = select_claim_batch testnet (ents v) daa (in_flight_outpoints v)" "b \<noteq> []"
      "build_claim_tx X (keys v) (map (\<lambda>i. ents v ! i) b) = Inr (t, tx)"
      "w' = v\<lparr>in_flight_outpoints := in_flight_outpoints v \<union> set (claim_keys (batch_claim (ents v) b daa)),
             in_flight := AList.update t (batch_claim (ents v) b daa) (in_flight v)\<rparr>"
      "v = heal_loop J daa [0..<length (ents w)] w"
proof (cases "4 \<le> length (in_flight w) \<or> validation_pending w \<noteq> []")
  case True
  then have "find_claim X J testnet daa w = (None, w)" by (elim disjE) (simp_all add: find_claim_def)
  then show ?thesis using assms unchanged by simp
next
  case False
  define v where "v = heal_loop J daa [0..<length (ents w)] w"
  define b where "b = select_claim_batch testnet (ents v) daa (in_flight_outpoints v)"
  have tm: "tame w v" unfolding v_def by (rule tame_heal)
  have fc: "find_claim X J testnet daa w = (if b = [] then (None, v) else case build_claim_tx X (keys v) (map (\<lambda>i. ents v ! i) b) of Inl _ \<Rightarrow> (None, v)
      | Inr (t, tx) \<Rightarrow> (Some tx, v\<lparr>in_flight_outpoints := in_flight_outpoints v \<union> set (claim_keys (batch_claim (ents v) b daa)),
             in_flight := AList.update t (batch_claim (ents v) b daa) (in_flight v)\<rparr>))"
    using False unfolding find_claim_def Let_def v_def [symmetric] b_def [symmetric] by (simp add: claim_keys_def comp_def split: sum.split prod.split)
  show ?thesis
  proof (cases "b = []")
    case True
    then show ?thesis using assms fc unchanged tm v_def by simp
  next
    case ne: False
    show ?thesis
    proof (cases "build_claim_tx X (keys v) (map (\<lambda>i. ents v ! i) b)")
      case (Inl e)
      then have "find_claim X J testnet daa w = (None, v)" using fc ne by simp
      then show ?thesis using assms unchanged tm v_def by simp
    next
      case (Inr r)
      then obtain t tx where r: "build_claim_tx X (keys v) (map (\<lambda>i. ents v ! i) b) = Inr (t, tx)" by (cases r) simp
      have "(c, w') = (Some tx, v\<lparr>in_flight_outpoints := in_flight_outpoints v \<union> set (claim_keys (batch_claim (ents v) b daa)),
             in_flight := AList.update t (batch_claim (ents v) b daa) (in_flight v)\<rparr>)"
        unfolding assms [symmetric] fc r using ne by simp
      then show ?thesis using claim [OF _ tm _ _ b_def ne r _ v_def] False by simp
    qed
  qed
qed


lemma winv_find_claim:
  assumes "winv w" and "find_claim X J testnet daa w = (c, w')"
  shows "winv w'"
  using assms(2)
proof (cases rule: find_claimE)
  case unchanged
  then show ?thesis using tame_winv assms(1) by blast
next
  case (claim v b t tx)
  let ?c = "batch_claim (ents v) b daa"
  have inv: "winv v" by (rule tame_winv [OF claim(2) assms(1)])
  have live: "inv_live v" and flight: "inv_flight v" using inv by (simp_all add: winv_def)
  note b = batch_keys_fresh [OF live claim(5)]
  have fl: "in_flight v = in_flight w" using claim(2) by (simp add: tame_def)
  have len: "length (AList.update t ?c (in_flight v)) \<le> 4"
    using length_alist_update [of t ?c "in_flight v"] claim(3) fl by simp
  have "\<forall>(t, c) \<in> set (AList.update t ?c (in_flight v)). outpoints c \<noteq> [] \<and> length (outpoints c) \<le> 87"
    using set_alist_update [of t ?c "in_flight v"] flight claim(6) b(3) unfolding inv_flight_def by fastforce
  moreover have "set (flight_keys (AList.update t ?c (in_flight v))) \<subseteq> in_flight_outpoints v \<union> set (claim_keys ?c)"
    using flight_keys_update [of t ?c "in_flight v"] flight unfolding inv_flight_def by blast
  moreover have "distinct (flight_keys (AList.update t ?c (in_flight v)))"
  proof (rule distinct_flight_update)
    show "set (claim_keys ?c) \<inter> set (flight_keys (in_flight v)) = {}"
      using b(2) flight unfolding batch_claim_keys inv_flight_def by auto
  qed (use flight b(1) batch_claim_keys in \<open>simp_all add: inv_flight_def\<close>)
  ultimately have "inv_flight w'" using flight len unfolding inv_flight_def claim(8) by (simp add: distinct_update)
  moreover have "inv_index w'" "inv_live w'" using inv by (simp_all add: winv_def inv_index_def inv_live_def claim(8))
  ultimately show ?thesis by (simp add: winv_def)
qed

subsection \<open>Purges\<close>

lemma purge_loop_ok:
  assumes "winv w" and "\<forall>i \<in> set ks. i < length (ents w)"
  shows "\<exists>w'. purge_loop J ks w = Some w' \<and> tame w w' \<and> validation_pending w' = validation_pending w"
  using assms
proof (induction ks arbitrary: w)
  case (Cons i ks)
  let ?w = "modify_entry J i (\<lambda>e. e\<lparr>slashed := True\<rparr>) (w\<lparr>validation_purged := validation_purged w + 1\<rparr>)"
  have "tame w (w\<lparr>validation_purged := validation_purged w + 1\<rparr>)" by (simp add: tame_def)
  then have t: "tame w ?w" using tame_modify tame_trans keeps_entry_simps(1) by blast
  have sel: "validation_pending ?w = validation_pending w" by simp
  show ?case
  proof (cases "\<not> claimed (ents w ! i) \<and> \<not> slashed (ents w ! i)")
    case True
    have "\<exists>w'. purge_loop J ks ?w = Some w' \<and> tame ?w w' \<and> validation_pending w' = validation_pending ?w"
      by (rule Cons.IH) (use Cons.prems tame_winv [OF t] in auto)
    then show ?thesis using True Cons.prems(2) tame_trans [OF t] sel by auto
  next
    case False
    then show ?thesis using Cons by auto
  qed
qed simp

lemma winv_reorg_slash:
  assumes inv: "winv w" and i: "i < length (ents w)" "\<not> slashed (ents w ! i)"
  shows "winv (modify_entry J i (\<lambda>e. e\<lparr>slashed := True\<rparr>) (w\<lparr>outpoint_set := outpoint_set w - {entry_key (ents w ! i)}\<rparr>))" (is "winv ?w")
proof -
  have f: "in_flight ?w = in_flight w" "in_flight_outpoints ?w = in_flight_outpoints w" "block_index ?w = block_index w"
    "ents ?w = (ents w)[i := (ents w ! i)\<lparr>slashed := True\<rparr>]" "outpoint_set ?w = outpoint_set w - {entry_key (ents w ! i)}"
    by simp_all
  have "inv_flight ?w" using inv unfolding winv_def inv_flight_def f by simp
  moreover have "inv_index ?w" using inv i unfolding winv_def inv_index_def f by (auto simp: nth_list_update)
  moreover have "inv_live ?w"
    using inv i unfolding winv_def inv_live_def f by (auto simp: nth_list_update split: if_splits)
  ultimately show ?thesis by (simp add: winv_def)
qed

lemma reorg_loop_ok:
  assumes "winv w" and "\<forall>i \<in> set ks. i < length (ents w)"
  shows "\<exists>w' n'. reorg_loop J ks (w, n) = Some (w', n') \<and> winv w' \<and> length (ents w') = length (ents w)"
  using assms
proof (induction ks arbitrary: w n)
  case (Cons i ks)
  let ?w = "modify_entry J i (\<lambda>e. e\<lparr>slashed := True\<rparr>) (w\<lparr>outpoint_set := outpoint_set w - {entry_key (ents w ! i)}\<rparr>)"
  show ?case
  proof (cases "claimed (ents w ! i) \<or> slashed (ents w ! i)")
    case True
    then show ?thesis using Cons by simp
  next
    case False
    have len: "length (ents ?w) = length (ents w)" by simp
    have inv: "winv ?w" by (rule winv_reorg_slash [OF Cons.prems(1)]) (use Cons.prems(2) False in auto)
    have "\<exists>w' n'. reorg_loop J ks (?w, n + 1) = Some (w', n') \<and> winv w' \<and> length (ents w') = length (ents ?w)"
      by (rule Cons.IH [OF inv]) (use Cons.prems(2) len in simp)
    moreover have "reorg_loop J (i # ks) (w, n) = reorg_loop J ks (?w, n + 1)" using False Cons.prems(2) by simp
    ultimately show ?thesis using len by auto
  qed
qed simp

lemma reorg_hashes_ok:
  assumes "winv w"
  shows "\<exists>w' n'. reorg_hashes J hs (w, n) = Some (w', n') \<and> winv w'"
  using assms
proof (induction hs arbitrary: w n)
  case (Cons h hs)
  show ?case
  proof (cases "block_index w h")
    case None
    then show ?thesis using Cons by simp
  next
    case (Some ks)
    let ?w = "w\<lparr>block_index := (block_index w)(h := None)\<rparr>"
    have "winv ?w" using Cons.prems by (simp add: winv_def inv_flight_def inv_index_def inv_live_def)
    moreover have "\<forall>i \<in> set ks. i < length (ents ?w)" using Cons.prems Some by (auto simp: winv_def inv_index_def)
    ultimately obtain w' n' where "reorg_loop J ks (?w, n) = Some (w', n')" "winv w'" using reorg_loop_ok by blast
    then show ?thesis using Cons.IH [of w' n'] Some by simp
  qed
qed simp

subsection \<open>Operations\<close>

lemma winv_maybe_flush: "winv w \<Longrightarrow> winv (fst (maybe_flush J io (w, d)))"
  by (rule tame_winv [OF tame_maybe_flush])

lemma winv_begin_block:
  assumes "winv w"
  shows "winv (begin_block daa w)"
proof -
  define w1 where "w1 = expire_in_flight daa (w\<lparr>last_daa_score := daa\<rparr>)"
  define w2 where "w2 = w1\<lparr>blocks_since_compact := blocks_since_compact w1 + 1\<rparr>"
  define w3 where "w3 = (if blocks_since_compact w2 \<ge> COMPACT_EVERY_BLOCKS then compact (w2\<lparr>blocks_since_compact := 0\<rparr>) else w2)"
  have "winv (w\<lparr>last_daa_score := daa\<rparr>)" using assms by (rule winv_cong) simp_all
  then have "winv w1" unfolding w1_def by (rule winv_expire)
  then have "winv w2" "winv (w2\<lparr>blocks_since_compact := 0\<rparr>)" by (rule winv_cong; simp add: w2_def)+
  then have "winv w3" by (simp add: w3_def winv_compact)
  then have "winv (w3\<lparr>blocks_since_status := k\<rparr>)" for k by (rule winv_cong) simp_all
  then show ?thesis unfolding begin_block_def Let_def w1_def [symmetric] w2_def [symmetric] w3_def [symmetric] by simp
qed

lemma winv_scan_block: "winv w \<Longrightarrow> winv (scan_block J b daa w)"
  using tame_winv [OF tame_slash_reds, of w J] by (simp add: scan_block_def Let_def winv_track_block split: option.split)

lemma winv_handle_block:
  assumes "winv w"
  shows "winv (fst (snd (handle_block X J testnet io b (w, d))))"
proof -
  have "winv (snd (find_claim X J testnet daa (scan_block J b daa (begin_block daa w))))" for daa
    using winv_find_claim [OF winv_scan_block [OF winv_begin_block [OF assms]]] by (metis prod.collapse)
  then show ?thesis using assms winv_maybe_flush by (simp add: handle_block_def case_prod_beta split: option.split)
qed

lemma winv_on_submit_response:
  assumes "winv w"
  shows "winv (fst (snd (on_submit_response J io txid err (w, d))))"
proof -
  have rel: "winv (release t w)" for t by (rule winv_release [OF assms])
  have "winv (fst (maybe_flush J io (fst (mark_entries_claimed J ops (release t w)), d)))" for t ops
    by (intro winv_maybe_flush tame_winv [OF tame_mark rel])
  moreover have "winv (fst (maybe_flush J io (fold (reject_outpoint J msg n) ops (release t w), d)))" for t ops msg n
    by (intro winv_maybe_flush tame_winv [OF tame_reject rel])
  ultimately show ?thesis using assms by (simp add: on_submit_response_def Let_def case_prod_beta split: option.split)
qed

lemma winv_track_inference:
  assumes "winv w"
  shows "winv (fst (track_inference_escrow J io txid daa amt (w, d)))"
proof (cases "amt = 0 \<or> outpoint_key txid 1 \<in> outpoint_set w")
  case True
  then show ?thesis using assms by (auto simp: track_inference_escrow_def)
next
  case False
  let ?e = "new_entry txid [] daa amt 1 True CHALLENGE_WINDOW_BLOCKS"
  let ?w = "append_journal_line J ?e ((set_ents (ents w @ [?e]) w)\<lparr>outpoint_set := insert (outpoint_key txid 1) (outpoint_set w)\<rparr>)"
  have e: "entry_key ?e = outpoint_key txid 1" by (simp add: new_entry_def)
  have "winv ?w" by (rule winv_push [OF assms _ refl]) (use False e in auto)
  then have "winv (fst (maybe_flush J io (?w, d)))" by (rule winv_maybe_flush)
  then show ?thesis using False by (simp add: track_inference_escrow_def Let_def)
qed

lemma on_block_validated_ok:
  assumes "winv w"
  shows "\<exists>wd'. on_block_validated J io h ex (w, d) = Some wd' \<and> winv (fst wd')"
proof (cases "h \<in> set (validation_pending w)")
  case False
  then show ?thesis using assms by (simp add: on_block_validated_def)
next
  case True
  let ?w = "w\<lparr>validation_pending := remove1 h (validation_pending w)\<rparr>"
  have inv: "winv ?w" using assms by (rule winv_cong) simp_all
  have "\<exists>w'. (if \<not> ex then (case block_index ?w h of None \<Rightarrow> Some ?w | Some ks \<Rightarrow> purge_loop J ks ?w) else Some ?w) = Some w' \<and> winv w'"
  proof (cases "block_index ?w h")
    case None
    then show ?thesis using inv by simp
  next
    case (Some ks)
    have "\<forall>i \<in> set ks. i < length (ents ?w)" using inv Some by (auto simp: winv_def inv_index_def)
    then obtain w' where "purge_loop J ks ?w = Some w'" "tame ?w w'" using purge_loop_ok [OF inv] by blast
    then show ?thesis using Some inv tame_winv by (cases ex) auto
  qed
  then obtain w' where "(if \<not> ex then (case block_index ?w h of None \<Rightarrow> Some ?w | Some ks \<Rightarrow> purge_loop J ks ?w) else Some ?w) = Some w'" "winv w'"
    by blast
  then show ?thesis using True tame_winv [OF tame_finish, of w' J io d] unfolding on_block_validated_def
    by (simp only: prod.case Let_def if_False simp_thms option.map) simp
qed

lemma on_chain_blocks_removed_ok:
  assumes "winv w"
  shows "\<exists>wd'. on_chain_blocks_removed J io hs (w, d) = Some wd' \<and> winv (fst wd')"
proof -
  obtain w' n' where "reorg_hashes J hs (w, 0) = Some (w', n')" "winv w'" using reorg_hashes_ok [OF assms] by blast
  then show ?thesis using winv_maybe_flush by (simp add: on_chain_blocks_removed_def)
qed

subsection \<open>Steps and reachable states\<close>

text \<open>One call of a public operation, under the clock and the faults \<open>io\<close>. \<open>start\<close> says how a state comes from a fresh watcher: the entries it loads that are
  not slashed have different outpoints.\<close>

inductive watcher_step :: "crypto \<Rightarrow> json \<Rightarrow> bool \<Rightarrow> io \<Rightarrow> escrow_watcher \<times> disk \<Rightarrow> escrow_watcher \<times> disk \<Rightarrow> bool" for X J testnet where
  block: "handle_block X J testnet io b (w, d) = (c, wd') \<Longrightarrow> watcher_step X J testnet io (w, d) wd'"
| response: "on_submit_response J io txid err (w, d) = (outcome, wd') \<Longrightarrow> watcher_step X J testnet io (w, d) wd'"
| inference: "track_inference_escrow J io txid daa amt (w, d) = wd' \<Longrightarrow> watcher_step X J testnet io (w, d) wd'"
| validation: "start_state_validation w = (hs, w') \<Longrightarrow> watcher_step X J testnet io (w, d) (w', d)"
| validated: "on_block_validated J io h ex (w, d) = Some wd' \<Longrightarrow> watcher_step X J testnet io (w, d) wd'"
| consumed: "consume_validation_ok J io h chain (w, d) = Some (r, wd') \<Longrightarrow> watcher_step X J testnet io (w, d) wd'"
| validation_error: "on_block_validation_error J io msg (w, d) = (r, wd') \<Longrightarrow> watcher_step X J testnet io (w, d) wd'"
| reorg: "on_chain_blocks_removed J io hs (w, d) = Some wd' \<Longrightarrow> watcher_step X J testnet io (w, d) wd'"
| flush: "flush_state J io (w, d) = (ok, wd') \<Longrightarrow> watcher_step X J testnet io (w, d) wd'"

definition distinct_live :: "escrow_entry list \<Rightarrow> bool" where
  "distinct_live es \<longleftrightarrow> distinct (map entry_key (filter (\<lambda>e. \<not> slashed e) es))"

inductive reachable :: "crypto \<Rightarrow> json \<Rightarrow> bool \<Rightarrow> escrow_watcher \<times> disk \<Rightarrow> bool" for X J testnet where
  start: "new_watcher X J t privkey addr d = Inr w \<Longrightarrow> distinct_live (ents w) \<Longrightarrow> reachable X J testnet (w, d)"
| step: "reachable X J testnet wd \<Longrightarrow> watcher_step X J testnet io wd wd' \<Longrightarrow> reachable X J testnet wd'"

lemma distinct_filter_nth:
  assumes "distinct (map f (filter P xs))" "i < length xs" "j < length xs" "P (xs ! i)" "P (xs ! j)" "f (xs ! i) = f (xs ! j)"
  shows "i = j"
  using assms
proof (induction xs arbitrary: i j)
  case (Cons x xs)
  have no: "f x \<noteq> f (xs ! k)" "f (xs ! k) \<noteq> f x" if "P x" "k < length xs" "P (xs ! k)" for k
    using Cons.prems(1) that by (auto simp: image_iff)
  show ?case using Cons no by (cases i; cases j) (auto split: if_splits)
qed simp

lemma winv_new:
  assumes "new_watcher X J t privkey addr d = Inr w" and "distinct_live (ents w)"
  shows "winv w"
proof -
  obtain v where w: "w = rebuild_indexes v" and v: "in_flight v = []" "in_flight_outpoints v = {}"
    using assms(1) by (auto simp: new_watcher_def Let_def rbind_Inr split: option.splits if_splits)
  have e: "ents w = ents v"
    using rebuild_loop_facts [of 0 "ents v" "v\<lparr>outpoint_set := {}, block_index := Map.empty\<rparr>"] by (simp add: w rebuild_indexes_def)
  show ?thesis unfolding w
  proof (rule rebuild_winv)
    show "inv_flight v" by (simp add: inv_flight_def v)
    show "i = j" if "i < length (ents v)" "j < length (ents v)" "\<not> slashed (ents v ! i)" "\<not> slashed (ents v ! j)"
      "entry_key (ents v ! i) = entry_key (ents v ! j)" for i j
      using distinct_filter_nth [of entry_key "\<lambda>e. \<not> slashed e" "ents v" i j] assms(2) that e by (simp add: distinct_live_def)
  qed
qed

lemma winv_step: "watcher_step X J testnet io wd wd' \<Longrightarrow> winv (fst wd) \<Longrightarrow> winv (fst wd')"
proof (induction rule: watcher_step.induct)
  case (block io b w d c wd')
  then show ?case using winv_handle_block [of w X J testnet io b d] by simp
next
  case (response io txid err w d outcome wd')
  then show ?case using winv_on_submit_response [of w J io txid err d] by simp
next
  case (inference io txid daa amt w d wd')
  then show ?case using winv_track_inference [of w J io txid daa amt d] by simp
next
  case (validation w hs w' io d)
  then have "tame w w'" by (auto simp: start_state_validation_def tame_def Let_def)
  then show ?case using validation tame_winv by simp
next
  case (validated io h ex w d wd')
  then show ?case using on_block_validated_ok [of w J io h ex d] by auto
next
  case (consumed io h chain w d r wd')
  then show ?case using on_block_validated_ok [of w J io h chain d] by (auto simp: consume_validation_ok_def split: if_splits)
next
  case (validation_error io msg w d r wd')
  have w: "winv w" using validation_error(2) by simp
  have "winv (w\<lparr>validation_pending := p, validation_unknown := u\<rparr>)" for p u by (rule winv_cong [OF w]) simp_all
  then have "winv (fst (finish_validation_if_done J io (w\<lparr>validation_pending := p, validation_unknown := u\<rparr>, d)))" for p u
    by (rule tame_winv [OF tame_finish])
  then show ?case using validation_error by (auto simp: on_block_validation_error_def split: option.splits)
next
  case (reorg io hs w d wd')
  then show ?case using on_chain_blocks_removed_ok [of w J io hs d] by auto
next
  case (flush io w d ok wd')
  have "tame w (fst (snd (write_snapshot J io (w, d))))" using tame_write_snapshot by (metis prod.collapse)
  moreover have "fst wd' = w \<or> wd' = snd (write_snapshot J io (w, d))" using flush(1) by (auto simp: flush_state_def split: if_splits)
  ultimately have "fst wd' = w \<or> tame w (fst wd')" by blast
  then show ?case using flush(2) tame_winv [of w "fst wd'"] by (elim disjE) simp_all
qed

lemma reachable_winv: "reachable X J testnet wd \<Longrightarrow> winv (fst wd)"
  by (induction rule: reachable.induct) (auto intro: winv_new winv_step)

inductive_cases watcher_stepE: "watcher_step X J testnet io wd wd'"

subsection \<open>Caps of the entries in flight\<close>

text \<open>An entry that is not slashed and whose outpoint is in a claim in flight allows the size of that claim.\<close>

definition caps_ok :: "(string \<times> in_flight_claim) list \<Rightarrow> escrow_entry list \<Rightarrow> bool" where
  "caps_ok fl es \<longleftrightarrow> (\<forall>(t, c) \<in> set fl. \<forall>e \<in> set es. \<not> slashed e \<longrightarrow> entry_key e \<in> set (claim_keys c) \<longrightarrow> length (outpoints c) \<le> entry_cap e)"

definition inv_caps :: "escrow_watcher \<Rightarrow> bool" where
  "inv_caps w \<longleftrightarrow> caps_ok (in_flight w) (ents w)"

definition keeps_cap :: "(escrow_entry \<Rightarrow> escrow_entry) \<Rightarrow> bool" where
  "keeps_cap f \<longleftrightarrow> (\<forall>e. entry_key (f e) = entry_key e \<and> (\<not> slashed (f e) \<longrightarrow> \<not> slashed e \<and> entry_cap e \<le> entry_cap (f e)))"

lemma keeps_cap_simps [simp]:
  "keeps_cap (\<lambda>e. e\<lparr>slashed := True\<rparr>)" "keeps_cap (\<lambda>e. e\<lparr>claimed := True\<rparr>)" "keeps_cap (\<lambda>e. fst (heal daa e))"
  by (auto simp: keeps_cap_def heal_def entry_cap_def Let_def)

lemma caps_ok_mono: "caps_ok fl es \<Longrightarrow> set fl' \<subseteq> set fl \<Longrightarrow> set es' \<subseteq> set es \<Longrightarrow> caps_ok fl' es'"
  unfolding caps_ok_def by blast

lemma caps_ok_add:
  assumes "caps_ok fl es" and "\<And>t c. (t, c) \<in> set fl \<Longrightarrow> \<not> slashed e \<Longrightarrow> entry_key e \<in> set (claim_keys c) \<Longrightarrow> length (outpoints c) \<le> entry_cap e"
    and "set es' \<subseteq> insert e (set es)"
  shows "caps_ok fl es'"
  using assms unfolding caps_ok_def by blast

lemma inv_caps_modify [intro]:
  assumes "inv_caps w" and "keeps_cap f"
  shows "inv_caps (modify_entry J i f w)"
  unfolding inv_caps_def
proof (cases "i < length (ents w)")
  case True
  have "length (outpoints c) \<le> entry_cap (f (ents w ! i))"
    if "(t, c) \<in> set (in_flight w)" "\<not> slashed (f (ents w ! i))" "entry_key (f (ents w ! i)) \<in> set (claim_keys c)" for t c
  proof -
    have "entry_key (f (ents w ! i)) = entry_key (ents w ! i)" "\<not> slashed (ents w ! i)" "entry_cap (ents w ! i) \<le> entry_cap (f (ents w ! i))"
      using assms(2) that(2) unfolding keeps_cap_def by blast+
    moreover from this have "length (outpoints c) \<le> entry_cap (ents w ! i)"
      using assms(1) that(1,3) True unfolding inv_caps_def caps_ok_def by (metis (no_types, lifting) case_prodD nth_mem)
    ultimately show ?thesis by linarith
  qed
  from caps_ok_add [OF assms(1) [unfolded inv_caps_def] this]
  show "caps_ok (in_flight (modify_entry J i f w)) (ents (modify_entry J i f w))" by (simp add: set_update_subset_insert)
qed (use assms(1) in \<open>simp add: inv_caps_def list_update_beyond not_less\<close>)

lemma inv_caps_cong: "inv_caps w \<Longrightarrow> in_flight w' = in_flight w \<Longrightarrow> ents w' = ents w \<Longrightarrow> inv_caps w'"
  by (simp add: inv_caps_def)

lemma inv_caps_fold: "(\<And>x w. inv_caps w \<Longrightarrow> inv_caps (f x w)) \<Longrightarrow> inv_caps w \<Longrightarrow> inv_caps (fold f xs w)"
  by (induction xs arbitrary: w) auto

lemma ents_maybe_flush: "ents (fst (maybe_flush J io (w, d))) = ents w"
  by (auto simp: maybe_flush_def write_snapshot_def write_journal_def Let_def split: prod.split option.split)

lemma inv_caps_flush: "inv_caps w \<Longrightarrow> inv_caps (fst (maybe_flush J io (w, d)))"
  using tame_maybe_flush [of w J io d] by (rule_tac inv_caps_cong) (simp_all add: ents_maybe_flush tame_def)

lemma inv_caps_slash_reds: "inv_caps w \<Longrightarrow> inv_caps (slash_reds J reds w)"
  unfolding slash_reds_def
  by (rule inv_caps_fold) (auto simp: slash_red_def Let_def inv_caps_modify intro!: inv_caps_fold split: option.split)

lemma inv_caps_heal: "inv_caps w \<Longrightarrow> inv_caps (heal_loop J daa ks w)"
  by (induction ks arbitrary: w) (auto simp: inv_caps_modify)

lemma inv_caps_mark: "inv_caps w \<Longrightarrow> inv_caps (fst (mark_entries_claimed J ops w))"
proof -
  have "inv_caps w \<Longrightarrow> inv_caps (fst (fold (mark_claimed J) ops (w, s)))" for w s
  proof (induction ops arbitrary: w s)
    case (Cons op ops)
    have "inv_caps (fst (mark_claimed J op (w, s)))" using Cons.prems by (auto simp: mark_claimed_def inv_caps_modify split: option.split)
    then show ?case using Cons.IH [of "fst (mark_claimed J op (w, s))" "snd (mark_claimed J op (w, s))"] by simp
  qed simp
  then show "inv_caps w \<Longrightarrow> ?thesis" by (simp add: mark_entries_claimed_def)
qed

lemma inv_caps_release: "inv_caps w \<Longrightarrow> inv_caps (release t w)"
  by (auto simp: inv_caps_def release_def AList.delete_eq split: option.split elim!: caps_ok_mono)

lemma inv_caps_compact: "inv_caps w \<Longrightarrow> inv_caps (compact w)"
proof -
  let ?es = "filter (\<lambda>e. \<not> claimed e \<and> \<not> slashed e) (ents w)"
  assume "inv_caps w"
  then have c: "caps_ok (in_flight w) ?es" unfolding inv_caps_def by (rule caps_ok_mono) auto
  have "in_flight (rebuild_indexes (set_ents ?es w)) = in_flight w" "ents (rebuild_indexes (set_ents ?es w)) = ?es"
    using rebuild_loop_facts [of 0 ?es "(set_ents ?es w)\<lparr>outpoint_set := {}, block_index := Map.empty\<rparr>"] by (simp_all add: rebuild_indexes_def)
  with c \<open>inv_caps w\<close> show ?thesis by (simp add: compact_def inv_caps_def Let_def)
qed

lemma inv_caps_push:
  assumes "inv_caps w" and "inv_flight w" and "batch_cap e = 0" and "in_flight w' = in_flight w" and "ents w' = ents w @ [e]"
  shows "inv_caps w'"
proof -
  have "length (outpoints c) \<le> entry_cap e" if "(t, c) \<in> set (in_flight w)" for t c
    using that assms(2,3) by (auto simp: inv_flight_def entry_cap_def)
  from caps_ok_add [OF assms(1) [unfolded inv_caps_def] this] show ?thesis unfolding inv_caps_def assms(4,5) by simp
qed

lemma inv_caps_track_output: "winv w \<Longrightarrow> inv_caps w \<Longrightarrow> inv_caps (track_output J txid bh daa i out w)"
proof -
  assume a: "winv w" "inv_caps w"
  have "track_output J txid bh daa i out w = w \<or> (\<exists>e. batch_cap e = 0 \<and> in_flight (track_output J txid bh daa i out w) = in_flight w
      \<and> ents (track_output J txid bh daa i out w) = ents w @ [e])"
    by (auto simp: track_output_def Let_def index_push_def new_entry_def split: option.split)
  then show ?thesis using a inv_caps_push [of w] by (auto simp: winv_def)
qed

lemma inv_caps_track_outputs: "winv w \<Longrightarrow> inv_caps w \<Longrightarrow> inv_caps (track_outputs J txid bh daa i outs w)"
  by (induction outs arbitrary: i w) (auto intro: winv_track_output inv_caps_track_output)

lemma inv_caps_scan_block: "winv w \<Longrightarrow> inv_caps w \<Longrightarrow> inv_caps (scan_block J b daa w)"
  using tame_winv [OF tame_slash_reds, of w J] inv_caps_slash_reds [of w J]
  by (simp add: scan_block_def track_block_escrows_def Let_def inv_caps_track_outputs split: option.split)

lemma inv_caps_begin_block: "inv_caps w \<Longrightarrow> inv_caps (begin_block daa w)"
proof -
  assume w: "inv_caps w"
  define w1 where "w1 = expire_in_flight daa (w\<lparr>last_daa_score := daa\<rparr>)"
  have c: "inv_caps w1" unfolding w1_def expire_in_flight_def Let_def by (rule inv_caps_fold) (use w in \<open>simp_all add: inv_caps_release inv_caps_def [of "_\<lparr>last_daa_score := _\<rparr>"] inv_caps_def [of w, symmetric]\<close>)
  have "inv_caps (compact (w1\<lparr>blocks_since_compact := k\<rparr>))" for k by (rule inv_caps_compact) (use c in \<open>simp add: inv_caps_def\<close>)
  with c show ?thesis unfolding begin_block_def Let_def w1_def [symmetric] by (simp add: inv_caps_def)
qed

lemma inv_caps_find_claim:
  assumes "winv w" and "inv_caps w" and "find_claim X J testnet daa w = (c, w')"
  shows "inv_caps w'"
  using assms(3)
proof (cases rule: find_claimE)
  case unchanged
  then show ?thesis using assms(2) inv_caps_heal by blast
next
  case (claim v b t tx)
  let ?c = "batch_claim (ents v) b daa"
  have v: "inv_caps v" unfolding claim(9) by (rule inv_caps_heal [OF assms(2)])
  have live: "inv_live v" using tame_winv [OF claim(2) assms(1)] by (simp add: winv_def)
  have new: "length (outpoints ?c) \<le> entry_cap e" if e: "e \<in> set (ents v)" "\<not> slashed e" "entry_key e \<in> set (claim_keys ?c)" for e
  proof -
    obtain i where i: "i \<in> set b" "entry_key e = entry_key (ents v ! i)" using e(3) unfolding batch_claim_keys by auto
    obtain j where j: "j < length (ents v)" "e = ents v ! j" using e(1) by (metis in_set_conv_nth)
    note safe = claim_batch_safe [OF claim(5) i(1) i(1)]
    then have "j = i" using live e(2) i(2) j unfolding inv_live_def by (simp add: eligible_def)
    then show ?thesis using safe j by simp
  qed
  have "caps_ok (AList.update t ?c (in_flight v)) (ents v)"
    using v new set_alist_update [of t ?c "in_flight v"] unfolding inv_caps_def caps_ok_def by fastforce
  then show ?thesis unfolding inv_caps_def claim(8) by simp
qed

lemma inv_caps_reject:
  assumes "inv_caps w" and "\<forall>(t, i) \<in> set ops. outpoint_key t i \<notin> set (flight_keys (in_flight w))"
  shows "inv_caps (fold (reject_outpoint J msg n) ops w)"
  using assms
proof (induction ops arbitrary: w)
  case (Cons op ops)
  let ?w = "reject_outpoint J msg n op w"
  have fl: "in_flight ?w = in_flight w" by (simp add: reject_outpoint_def split: option.split)
  have "inv_caps ?w"
  proof (cases "find_outpoint (ents w) op")
    case (Some i)
    let ?e = "reject_entry msg n (last_daa_score w) op (ents w ! i)"
    have "(coinbase_txid (ents w ! i), output_index (ents w ! i)) = op" using Some by (auto simp: find_outpoint_def find_Some_iff)
    moreover have "entry_key ?e = entry_key (ents w ! i)" using keeps_entry_simps(4) unfolding keeps_entry_def by simp
    ultimately have "entry_key ?e \<notin> set (flight_keys (in_flight w))" using Cons.prems(2) by auto
    then have no: "entry_key ?e \<notin> set (claim_keys c)" if "(t, c) \<in> set (in_flight w)" for t c
      using that by (auto simp: flight_keys_def)
    have "caps_ok (in_flight w) ((ents w)[i := ?e])"
      by (rule caps_ok_add [OF Cons.prems(1) [unfolded inv_caps_def], of ?e]) (use no set_update_subset_insert [of "ents w" i ?e] in blast)+
    then show ?thesis using Some by (simp add: inv_caps_def reject_outpoint_def)
  qed (use Cons.prems(1) in \<open>simp add: reject_outpoint_def\<close>)
  then show ?case using Cons.IH [of ?w] Cons.prems(2) fl by simp
qed simp

lemma match_response_in_flight:
  assumes "match_response w txid err = Some t"
  shows "\<exists>c. map_of (in_flight w) t = Some c"
proof -
  have "t \<in> fst ` set (in_flight w)"
  proof (cases "map_of (in_flight w) txid = None")
    case True
    then obtain msg where "List.find (str_contains msg) (map fst (in_flight w)) = Some t"
      using assms by (auto simp: match_response_def split: option.splits)
    then show ?thesis by (auto simp: find_Some_iff)
  next
    case False
    then show ?thesis using assms by (auto simp: match_response_def map_of_eq_None_iff)
  qed
  then show ?thesis by (metis map_of_eq_None_iff not_None_eq)
qed

lemma inv_caps_response:
  assumes "winv w" and "inv_caps w"
  shows "inv_caps (fst (snd (on_submit_response J io txid err (w, d))))"
proof (cases "match_response w txid err")
  case None
  then show ?thesis using assms(2) by (simp add: on_submit_response_def)
next
  case (Some t)
  obtain c where c: "map_of (in_flight w) t = Some c" using match_response_in_flight [OF Some] by blast
  have "in_flight (release t w) = AList.delete t (in_flight w)" using c by (simp add: release_def)
  then have fr: "\<forall>(x, i) \<in> set (outpoints c). outpoint_key x i \<notin> set (flight_keys (in_flight (release t w)))"
    using flight_keys_removed [OF c] assms(1) by (auto simp: winv_def inv_flight_def claim_keys_def)
  have "inv_caps (fold (reject_outpoint J msg n) (outpoints c) (release t w))" for msg n
    by (rule inv_caps_reject [OF inv_caps_release [OF assms(2)] fr])
  moreover have "inv_caps (fst (mark_entries_claimed J ops (release t w)))" for ops
    by (rule inv_caps_mark [OF inv_caps_release [OF assms(2)]])
  ultimately show ?thesis using Some c
    by (simp add: on_submit_response_def Let_def case_prod_beta inv_caps_flush)
qed

lemma inv_caps_purge: "inv_caps w \<Longrightarrow> purge_loop J ks w = Some w' \<Longrightarrow> inv_caps w'"
proof (induction ks arbitrary: w)
  case (Cons i ks)
  have "inv_caps (w\<lparr>validation_purged := k\<rparr>)" for k using Cons.prems(1) by (simp add: inv_caps_def)
  then have "inv_caps (modify_entry J i (\<lambda>e. e\<lparr>slashed := True\<rparr>) (w\<lparr>validation_purged := validation_purged w + 1\<rparr>))" by (simp add: inv_caps_modify)
  then show ?case using Cons.IH Cons.prems by (auto split: if_splits)
qed simp

lemma inv_caps_reorg_loop: "inv_caps w \<Longrightarrow> reorg_loop J ks (w, n) = Some (w', n') \<Longrightarrow> inv_caps w'"
proof (induction ks arbitrary: w n)
  case (Cons i ks)
  have "inv_caps (w\<lparr>outpoint_set := s\<rparr>)" for s using Cons.prems(1) by (simp add: inv_caps_def)
  then have "inv_caps (modify_entry J i (\<lambda>e. e\<lparr>slashed := True\<rparr>) (w\<lparr>outpoint_set := s\<rparr>))" for s by (simp add: inv_caps_modify)
  then show ?case using Cons.IH Cons.prems by (auto split: if_splits)
qed simp

lemma inv_caps_reorg_hashes: "inv_caps w \<Longrightarrow> reorg_hashes J hs (w, n) = Some (w', n') \<Longrightarrow> inv_caps w'"
proof (induction hs arbitrary: w n)
  case (Cons h hs)
  show ?case
  proof (cases "block_index w h")
    case (Some ks)
    let ?w = "w\<lparr>block_index := (block_index w)(h := None)\<rparr>"
    have "inv_caps ?w" using Cons.prems(1) by (simp add: inv_caps_def)
    moreover obtain v m where v: "reorg_loop J ks (?w, n) = Some (v, m)" "reorg_hashes J hs (v, m) = Some (w', n')"
      using Cons.prems(2) Some by (auto split: bind_splits)
    ultimately have "inv_caps v" using inv_caps_reorg_loop by blast
    then show ?thesis using Cons.IH v(2) by blast
  qed (use Cons in auto)
qed simp

lemma inv_caps_finish: "inv_caps w \<Longrightarrow> inv_caps (fst (finish_validation_if_done J io (w, d)))"
  by (simp add: finish_validation_if_done_def inv_caps_flush)

lemma inv_caps_validated: "inv_caps w \<Longrightarrow> on_block_validated J io h ex (w, d) = Some wd' \<Longrightarrow> inv_caps (fst wd')"
proof -
  assume w: "inv_caps w" and s: "on_block_validated J io h ex (w, d) = Some wd'"
  have "inv_caps (w\<lparr>validation_pending := p\<rparr>)" for p using w by (simp add: inv_caps_def)
  then have "inv_caps v" if "purge_loop J ks (w\<lparr>validation_pending := p\<rparr>) = Some v" for ks p v
    using inv_caps_purge that by blast
  moreover have "inv_caps (w\<lparr>validation_pending := p\<rparr>)" for p using w by (simp add: inv_caps_def)
  ultimately show ?thesis using s w by (auto simp: on_block_validated_def Let_def intro!: inv_caps_finish split: if_splits option.splits)
qed

lemma inv_caps_step: "watcher_step X J testnet io wd wd' \<Longrightarrow> winv (fst wd) \<Longrightarrow> inv_caps (fst wd) \<Longrightarrow> inv_caps (fst wd')"
proof (induction rule: watcher_step.induct)
  case (block io b w d c wd')
  have "inv_caps (snd (find_claim X J testnet daa (scan_block J b daa (begin_block daa w))))" for daa
    using block(2,3) inv_caps_find_claim [OF winv_scan_block [OF winv_begin_block] inv_caps_scan_block [OF winv_begin_block inv_caps_begin_block]]
    by (metis fst_conv prod.collapse)
  then show ?case using block by (auto simp: handle_block_def case_prod_beta inv_caps_flush split: option.splits)
next
  case (response io txid err w d outcome wd')
  then show ?case using inv_caps_response [of w J io txid err d] by simp
next
  case (inference io txid daa amt w d wd')
  let ?e = "new_entry txid [] daa amt 1 True CHALLENGE_WINDOW_BLOCKS"
  let ?w = "append_journal_line J ?e ((set_ents (ents w @ [?e]) w)\<lparr>outpoint_set := insert (outpoint_key txid 1) (outpoint_set w)\<rparr>)"
  have "inv_caps ?w" by (rule inv_caps_push [of w ?e]) (use inference in \<open>simp_all add: winv_def new_entry_def\<close>)
  then show ?case using inference inv_caps_flush [of ?w J io d] by (auto simp: track_inference_escrow_def Let_def split: if_splits)
next
  case (validation w hs w' io d)
  then show ?case by (auto simp: start_state_validation_def inv_caps_def Let_def)
next
  case (validated io h ex w d wd')
  then show ?case using inv_caps_validated by simp
next
  case (consumed io h chain w d r wd')
  then show ?case using inv_caps_validated by (auto simp: consume_validation_ok_def split: if_splits)
next
  case (validation_error io msg w d r wd')
  have "inv_caps (w\<lparr>validation_pending := p, validation_unknown := u\<rparr>)" for p u using validation_error(3) by (simp add: inv_caps_def)
  then have "inv_caps (fst (finish_validation_if_done J io (w\<lparr>validation_pending := p, validation_unknown := u\<rparr>, d)))" for p u
    by (rule inv_caps_finish)
  then show ?case using validation_error by (auto simp: on_block_validation_error_def split: option.splits)
next
  case (reorg io hs w d wd')
  then show ?case using inv_caps_reorg_hashes inv_caps_flush by (auto simp: on_chain_blocks_removed_def split: if_splits)
next
  case (flush io w d ok wd')
  have "in_flight (fst (snd (write_snapshot J io (w, d)))) = in_flight w" "ents (fst (snd (write_snapshot J io (w, d)))) = ents w"
    by (auto simp: write_snapshot_def Let_def split: prod.split)
  then show ?case using flush by (auto simp: flush_state_def inv_caps_def split: if_splits)
qed

lemma reachable_caps: "reachable X J testnet wd \<Longrightarrow> inv_caps (fst wd)"
proof (induction rule: reachable.induct)
  case (start t privkey addr d w)
  then have "in_flight w = []"
    using rebuild_loop_facts by (auto simp: new_watcher_def Let_def rbind_Inr rebuild_indexes_def split: option.splits if_splits)
  then show ?case by (simp add: inv_caps_def caps_ok_def)
qed (use inv_caps_step reachable_winv in blast)

subsection \<open>Rejections\<close>

lemma unat_halved_cap: "unat (halved_cap n) = min (max (n div 2) 1) 255"
  by (simp add: halved_cap_def unat_of_nat)

lemma entry_cap_halved: "batch_cap e = halved_cap n \<Longrightarrow> entry_cap e = min (max (n div 2) 1) 87"
proof -
  assume e: "batch_cap e = halved_cap n"
  have "0 < unat (halved_cap n)" by (simp add: unat_halved_cap)
  then have "halved_cap n \<noteq> 0" by (metis less_irrefl unat_0)
  then show "entry_cap e = min (max (n div 2) 1) 87" by (simp add: entry_cap_def unat_halved_cap e)
qed

abbreviation outpoint_of :: "escrow_entry \<Rightarrow> string \<times> u32" where
  "outpoint_of e \<equiv> (coinbase_txid e, output_index e)"

lemma find_outpoint_iff: "find_outpoint es op = Some i \<longleftrightarrow> i < length es \<and> outpoint_of (es ! i) = op \<and> (\<forall>j < i. outpoint_of (es ! j) \<noteq> op)"
  by (auto simp: find_outpoint_def find_Some_iff)

lemma find_outpoint_cong: "map outpoint_of es = map outpoint_of es' \<Longrightarrow> find_outpoint es op = find_outpoint es' op"
proof -
  assume eq: "map outpoint_of es = map outpoint_of es'"
  have len: "length es = length es'" using arg_cong [OF eq, of length] by simp
  have o: "outpoint_of (es ! j) = outpoint_of (es' ! j)" if "j < length es'" for j
    using arg_cong [OF eq, of "\<lambda>l. l ! j"] that len by simp
  show "find_outpoint es op = find_outpoint es' op"
    unfolding find_outpoint_def len by (rule find_cong) (use o in auto)
qed

text \<open>A rejection updates, for each outpoint of the claim, the first entry with that outpoint, and no other entry.\<close>

definition first_entry :: "escrow_entry list \<Rightarrow> nat \<Rightarrow> bool" where
  "first_entry es i \<longleftrightarrow> (\<forall>j < i. outpoint_of (es ! j) \<noteq> outpoint_of (es ! i))"

lemma reject_outpoint_nth:
  assumes "i < length (ents w)"
  shows "ents (reject_outpoint J msg n op w) ! i = (if outpoint_of (ents w ! i) = op \<and> first_entry (ents w) i
      then reject_entry msg n (last_daa_score w) op (ents w ! i) else ents w ! i)"
proof (cases "find_outpoint (ents w) op")
  case None
  then have "outpoint_of (ents w ! i) \<noteq> op" using assms by (auto simp: find_outpoint_def find_None_iff)
  then show ?thesis using None by (simp add: reject_outpoint_def)
next
  case (Some k)
  then have k: "outpoint_of (ents w ! k) = op" "k < length (ents w)" "\<And>j. j < k \<Longrightarrow> outpoint_of (ents w ! j) \<noteq> op" by (simp_all add: find_outpoint_iff)
  have "(outpoint_of (ents w ! i) = op \<and> first_entry (ents w) i) = (i = k)"
    using k unfolding first_entry_def by (metis linorder_neqE_nat)
  then show ?thesis using Some k(2) by (simp add: reject_outpoint_def nth_list_update)
qed

lemma reject_keeps_outpoints: "map outpoint_of (ents (reject_outpoint J msg n op w)) = map outpoint_of (ents w)"
proof (cases "find_outpoint (ents w) op")
  case (Some k)
  let ?e = "reject_entry msg n (last_daa_score w) op (ents w ! k)"
  have "outpoint_of ?e = outpoint_of (ents w ! k)" using keeps_entry_simps(4) unfolding keeps_entry_def by simp
  then have "map outpoint_of ((ents w)[k := ?e]) = map outpoint_of (ents w)"
    using Some by (intro nth_equalityI) (auto simp: find_outpoint_iff nth_list_update)
  then show ?thesis using Some by (simp add: reject_outpoint_def)
qed (simp add: reject_outpoint_def)

lemma reject_batch_nth:
  assumes "distinct ops" and "i < length (ents w)"
  shows "ents (fold (reject_outpoint J msg n) ops w) ! i = (if outpoint_of (ents w ! i) \<in> set ops \<and> first_entry (ents w) i
      then reject_entry msg n (last_daa_score w) (outpoint_of (ents w ! i)) (ents w ! i) else ents w ! i)"
  using assms
proof (induction ops arbitrary: w)
  case (Cons op ops)
  let ?w = "reject_outpoint J msg n op w"
  note m = reject_keeps_outpoints [of J msg n op w]
  have len: "length (ents ?w) = length (ents w)" using arg_cong [OF m, of length] by simp
  have o: "outpoint_of (ents ?w ! j) = outpoint_of (ents w ! j)" if "j < length (ents w)" for j
    using arg_cong [OF m, of "\<lambda>l. l ! j"] that len by simp
  have f: "first_entry (ents ?w) i = first_entry (ents w) i" using o Cons.prems(2) by (simp add: first_entry_def)
  have d: "last_daa_score ?w = last_daa_score w" by (simp add: reject_outpoint_def split: option.split)
  have "ents (fold (reject_outpoint J msg n) ops ?w) ! i = (if outpoint_of (ents ?w ! i) \<in> set ops \<and> first_entry (ents ?w) i
      then reject_entry msg n (last_daa_score ?w) (outpoint_of (ents ?w ! i)) (ents ?w ! i) else ents ?w ! i)"
    by (rule Cons.IH) (use Cons.prems len in auto)
  then show ?case using Cons.prems unfolding d f o [OF Cons.prems(2)] by (auto simp: reject_outpoint_nth)
qed simp

text \<open>What one rejection does to the cap of an entry.\<close>

lemma reject_entry_caps:
  assumes "1 < n" and "n \<le> 87"
    and "str_contains msg ''orphan'' \<or> \<not> str_contains msg ''sequence lock'' \<and> (\<not> str_contains msg ''burned escrow outpoint'' \<or> burned_set msg = {})"
  shows "entry_cap (reject_entry msg n daa op e) = max (n div 2) 1" "slashed (reject_entry msg n daa op e) = slashed e"
proof -
  have "entry_cap (reject_entry msg n daa op e) = min (max (n div 2) 1) 87"
    by (rule entry_cap_halved) (use assms(1,3) in \<open>auto simp: reject_entry_def Let_def\<close>)
  then show "entry_cap (reject_entry msg n daa op e) = max (n div 2) 1" using assms(1,2) by auto
  show "slashed (reject_entry msg n daa op e) = slashed e" using assms(1,3) by (auto simp: reject_entry_def Let_def)
qed

subsection \<open>Properties\<close>

text \<open>C1. In every reachable state of the watcher, whatever blocks, responses, reorgs, validations and file system faults
  led to it, no outpoint is spent by two claims in flight, every outpoint in flight is excluded from selection, at most
  four claims of at most 87 outputs are in flight, and the entries not slashed have different outpoints.\<close>

theorem escrow_claims_disjoint:
  assumes "reachable X J testnet (w, d)"
  shows "distinct (flight_keys (in_flight w)) \<and> set (flight_keys (in_flight w)) \<subseteq> in_flight_outpoints w
    \<and> length (in_flight w) \<le> MAX_IN_FLIGHT_CLAIMS \<and> (\<forall>(t, c) \<in> set (in_flight w). outpoints c \<noteq> [] \<and> length (outpoints c) \<le> MAX_CLAIM_BATCH)
    \<and> distinct_live (ents w)"
proof -
  have inv: "winv w" using reachable_winv [OF assms] by simp
  then have "distinct_live (ents w)" unfolding distinct_live_def by (intro filter_nth_inj) (auto simp: winv_def inv_live_def)
  with inv show ?thesis by (simp add: winv_def inv_flight_def)
qed

text \<open>C33. No operation of a reachable watcher panics: the positions \<open>on_block_validated\<close>, \<open>consume_validation_ok\<close> and
  \<open>on_chain_blocks_removed\<close> take from the block index are always positions of entries.\<close>

theorem escrow_no_panic:
  assumes "reachable X J testnet (w, d)"
  shows "on_block_validated J io h ex (w, d) \<noteq> None \<and> consume_validation_ok J io h ex (w, d) \<noteq> None
    \<and> on_chain_blocks_removed J io hs (w, d) \<noteq> None"
proof -
  have inv: "winv w" using reachable_winv [OF assms] by simp
  show ?thesis
    using on_block_validated_ok [OF inv, of J io h ex d] on_chain_blocks_removed_ok [OF inv, of J io hs d]
    by (auto simp: consume_validation_ok_def)
qed

text \<open>C14. A submitted claim is sound: \<open>find_claim\<close> builds a transaction only outside validation and with fewer than four
  claims in flight; the outpoints it spends are those of different, unclaimed, unslashed, mature entries of the same
  window, none of them in flight before, and all of them in flight afterwards.\<close>

theorem submitted_claim_sound:
  assumes "reachable X J testnet (w, d)" and "find_claim X J testnet daa w = (Some tx, w')"
  shows "validation_pending w = [] \<and> length (in_flight w) < MAX_IN_FLIGHT_CLAIMS \<and>
    (\<exists>es. set es \<subseteq> set (ents w') \<and> distinct (map entry_key es) \<and> es \<noteq> [] \<and> length es \<le> MAX_CLAIM_BATCH
      \<and> (\<forall>e \<in> set es. eligible e daa (in_flight_outpoints w) \<and> entry_key e \<in> in_flight_outpoints w')
      \<and> map previous_outpoint (tx_inputs tx) = map (\<lambda>e. Some \<lparr>op_transaction_id = coinbase_txid e, op_index = output_index e\<rparr>) es)"
  using assms(2)
proof (cases rule: find_claimE)
  case unchanged
  then show ?thesis by simp
next
  case (claim v b t tx')
  let ?es = "map (\<lambda>i. ents v ! i) b"
  have tx: "tx' = tx" using claim(1) by simp
  have live: "inv_live v" using tame_winv [OF claim(2)] reachable_winv [OF assms(1)] by (simp add: winv_def)
  have fo: "in_flight_outpoints v = in_flight_outpoints w" using claim(2) by (simp add: tame_def)
  have el: "i < length (ents v)" "eligible (ents v ! i) daa (in_flight_outpoints w)" if "i \<in> set b" for i
    using claim_batch_safe [OF claim(5) that that] fo by simp_all
  note b = batch_keys_fresh [OF live claim(5)]
  have w': "ents w' = ents v" "in_flight_outpoints w' = in_flight_outpoints w \<union> entry_key ` set ?es"
    using claim(8) batch_claim_keys [of "ents v" b daa] fo by auto
  have "map fst (map (\<lambda>i. (previous_outpoint i, sequence i)) (tx_inputs tx))
      = map fst (map (\<lambda>e. (Some \<lparr>op_transaction_id = coinbase_txid e, op_index = output_index e\<rparr>, csv_window e)) ?es)"
    unfolding claim_tx_inputs [OF claim(7) [unfolded tx]] ..
  then have "map previous_outpoint (tx_inputs tx) = map (\<lambda>e. Some \<lparr>op_transaction_id = coinbase_txid e, op_index = output_index e\<rparr>) ?es"
    by (simp add: comp_def)
  moreover have "set ?es \<subseteq> set (ents w')" using el(1) w'(1) by auto
  moreover have "distinct (map entry_key ?es)" using b(1) by (simp add: comp_def)
  moreover have "\<forall>e \<in> set ?es. eligible e daa (in_flight_outpoints w) \<and> entry_key e \<in> in_flight_outpoints w'" using el(2) w'(2) by auto
  moreover have "?es \<noteq> []" "length ?es \<le> 87" using claim(6) b(3) by simp_all
  ultimately show ?thesis using claim(3,4) by blast
qed

text \<open>C28. Bisection makes progress: let a reachable watcher's claim of \<open>n > 1\<close> outputs be rejected, by a message that is no
  duplicate report, for an orphan, for a burn the message does not list, or for an unknown reason. For every outpoint of the claim the first entry with that outpoint
  gets the cap \<open>max (n div 2) 1\<close>, below \<open>n\<close>; if it is not slashed, its old cap allowed \<open>n\<close>, so its cap falls strictly.
  Nothing is slashed and no other entry changes; in particular an entry tracked again after a reorg, behind the slashed
  copy of its outpoint, keeps its cap.\<close>

theorem bisection_progress:
  assumes "reachable X J testnet (w, d)" and "match_response w txid (Some msg) = Some t" and "map_of (in_flight w) t = Some c"
    and "n = length (outpoints c)" and "1 < n" and "\<not> is_duplicate msg"
    and "str_contains msg ''orphan'' \<or> \<not> str_contains msg ''sequence lock'' \<and> (\<not> str_contains msg ''burned escrow outpoint'' \<or> burned_set msg = {})"
    and "on_submit_response J io txid (Some msg) (w, d) = (outcome, w', d')"
  shows "outcome = Handled \<and> length (ents w') = length (ents w) \<and> (\<forall>i < length (ents w). let e = ents w ! i; e' = ents w' ! i in
      if outpoint_of e \<in> set (outpoints c) \<and> first_entry (ents w) i
      then entry_cap e' = max (n div 2) 1 \<and> entry_cap e' < n \<and> slashed e' = slashed e \<and> (\<not> slashed e \<longrightarrow> n \<le> entry_cap e \<and> entry_cap e' < entry_cap e)
      else e' = e)"
proof -
  have w: "winv w" "inv_caps w" using reachable_winv [OF assms(1)] reachable_caps [OF assms(1)] by simp_all
  have mem: "(t, c) \<in> set (in_flight w)" by (rule map_of_SomeD [OF assms(3)])
  have flight: "distinct (flight_keys (in_flight w))" "n \<le> 87" using w(1) mem assms(4) by (auto simp: winv_def inv_flight_def)
  have "distinct (claim_keys c)" using flight(1) mem by (induction "in_flight w") (auto simp: flight_keys_def distinct_concat_iff)
  then have ops: "distinct (outpoints c)" unfolding claim_keys_def distinct_map by blast
  let ?r = "release t w"
  let ?v = "fold (reject_outpoint J msg n) (outpoints c) ?r"
  have r: "ents ?r = ents w" by (simp add: release_def split: option.split)
  have res: "outcome = Handled" "(w', d') = maybe_flush J io (?v, d)"
    using assms(2,3,4,6,8) by (auto simp: on_submit_response_def Let_def)
  have e': "ents w' = ents ?v" using ents_maybe_flush [of J io ?v d] by (simp add: res(2) [symmetric])
  have len: "length (ents ?v) = length (ents w)" using tame_reject [of ?r J msg n "outpoints c"] r by (simp add: tame_def)
  have main: "ents w' ! i = (if outpoint_of (ents w ! i) \<in> set (outpoints c) \<and> first_entry (ents w) i
      then reject_entry msg n (last_daa_score ?r) (outpoint_of (ents w ! i)) (ents w ! i) else ents w ! i)" if "i < length (ents w)" for i
    unfolding e' using reject_batch_nth [OF ops, of i ?r J msg n] that unfolding r by blast
  have cap: "n \<le> entry_cap (ents w ! i)" if "i < length (ents w)" "outpoint_of (ents w ! i) \<in> set (outpoints c)" "\<not> slashed (ents w ! i)" for i
  proof -
    have "entry_key (ents w ! i) \<in> set (claim_keys c)" using that(2) by (force simp: claim_keys_def)
    then show ?thesis using w(2) mem that(1,3) assms(4) unfolding inv_caps_def caps_ok_def by fastforce
  qed
  have half: "max (n div 2) 1 < n" using assms(5) by auto
  show ?thesis using main cap half res(1) len reject_entry_caps [OF assms(5) flight(2) assms(7)] unfolding e' [symmetric]
    by (auto simp: Let_def dest!: cap intro: less_le_trans)
qed

text \<open>C29. A rejection slashes an entry only for good reason: the message names an orphan, the entry was claimed alone and this is
  its tenth such rejection, or the message reports a burn and either lists this outpoint or, with no list, the claim had no
  other output. In particular an unrecognised rejection never slashes.\<close>

theorem rejection_slash_reason:
  assumes "\<not> slashed e" and "slashed (reject_entry msg n daa op e)"
  shows "str_contains msg ''orphan'' \<and> n \<le> 1 \<and> MAX_ORPHAN_RETRIES \<le> orphan_retries e + 1
    \<or> str_contains msg ''burned escrow outpoint'' \<and>
        ((to_lower (fst op), snd op) \<in> burned_set msg \<or> burned_set msg = {} \<and> n \<le> 1)"
  using assms by (auto simp: reject_entry_def Let_def split: if_splits)

text \<open>C27. A response that matches no claim in flight changes nothing, and any other response takes exactly one claim out of
  flight and frees its outpoints for selection.\<close>

theorem response_releases_claim:
  assumes "reachable X J testnet (w, d)" and "on_submit_response J io txid err (w, d) = (outcome, w', d')"
  shows "(outcome = NotOurs \<and> w' = w \<and> d' = d \<and> map_of (in_flight w) txid = None)
    \<or> (\<exists>t c. map_of (in_flight w) t = Some c \<and> (map_of (in_flight w) txid \<noteq> None \<longrightarrow> t = txid)
        \<and> in_flight w' = AList.delete t (in_flight w)
        \<and> in_flight_outpoints w' = in_flight_outpoints w - set (claim_keys c)
        \<and> set (flight_keys (in_flight w')) = set (flight_keys (in_flight w)) - set (claim_keys c)
        \<and> (outcome = Handled \<or> (\<exists>amt. outcome = Accepted (length (outpoints c)) amt)))"
proof (cases "match_response w txid err")
  case None
  then show ?thesis using assms(2) by (auto simp: on_submit_response_def match_response_def split: if_splits)
next
  case (Some t)
  then obtain c where c: "map_of (in_flight w) t = Some c" using match_response_in_flight by blast
  have rel: "release t w = w\<lparr>in_flight := AList.delete t (in_flight w), in_flight_outpoints := in_flight_outpoints w - set (claim_keys c)\<rparr>"
    using c by (simp add: release_def claim_keys_def)
  define v where "v = (if (case err of None \<Rightarrow> True | Some msg \<Rightarrow> is_duplicate msg) then fst (mark_entries_claimed J (outpoints c) (release t w))
    else fold (reject_outpoint J (the err) (length (outpoints c))) (outpoints c) (release t w))"
  have "tame (release t w) v" by (simp add: v_def tame_mark tame_reject)
  then have "tame (release t w) (fst (maybe_flush J io (v, d)))" using tame_maybe_flush tame_trans by blast
  moreover have "(w', d') = maybe_flush J io (v, d)" and out: "outcome = Handled \<or> (\<exists>amt. outcome = Accepted (length (outpoints c)) amt)"
    using assms(2) Some c by (auto simp: on_submit_response_def v_def Let_def case_prod_beta split: if_splits)
  ultimately have "tame (release t w) w'" by (metis fst_conv)
  then have f: "in_flight w' = AList.delete t (in_flight w)" "in_flight_outpoints w' = in_flight_outpoints w - set (claim_keys c)"
    by (simp_all add: tame_def rel)
  have "inv_flight w" using reachable_winv [OF assms(1)] by (simp add: winv_def)
  then have "set (flight_keys (in_flight w')) = set (flight_keys (in_flight w)) - set (claim_keys c)"
    using flight_keys_removed [OF c] by (simp add: f inv_flight_def)
  moreover have "map_of (in_flight w) txid \<noteq> None \<longrightarrow> t = txid" using Some by (auto simp: match_response_def)
  ultimately show ?thesis using c f out by blast
qed

subsection \<open>Witnesses\<close>

text \<open>A start from a snapshot with one mature entry that carries a bisection cap.\<close>

definition toy_live :: escrow_entry where
  "toy_live = (toy_entry (toy_hex (replicate 32 7)) False 2)\<lparr>cap_set_daa := 20000\<rparr>"

definition toy_store :: "escrow_entry list \<Rightarrow> json" where
  "toy_store es = \<lparr>line_to_vec = (\<lambda>_. None), line_from_str = (\<lambda>_. None), state_to_vec = (\<lambda>_. Some []),
     state_from_str = (\<lambda>_. Some \<lparr>entries = es, state_seq = 0\<rparr>)\<rparr>"

definition toy_json :: json where
  "toy_json = toy_store [toy_live]"

definition toy_disk :: disk where
  "toy_disk = \<lparr>snapshot_file = Contents [], journal_file = NotFound\<rparr>"

definition toy_io :: io where
  "toy_io = \<lparr>now = 5, append_fault = None, replace_result = Replaced, empty_fault = None\<rparr>"

lemma rebuild_loop_counters:
  "validation_pending (rebuild_loop k es w) = validation_pending w \<and> blocks_since_compact (rebuild_loop k es w) = blocks_since_compact w"
  by (induction es arbitrary: k w) (simp_all add: Let_def index_push_def)

lemma toy_start:
  assumes "distinct_live es"
  shows "\<exists>w. reachable toy_crypto (toy_store es) False (w, toy_disk) \<and> ents w = es \<and> in_flight w = [] \<and> in_flight_outpoints w = {}
     \<and> validation_pending w = [] \<and> blocks_since_compact w = 0 \<and> pubkey_bytes (keys w) = 0"
proof -
  let ?sk = "replicate 32 0 :: bytes" and ?addr = "''keryx'' @ '':'' @ replicate 53 CHR ''q'' @ ''qqqqqqqq''"
  have sk: "hex_decode toy_crypto (toy_hex ?sk) = Some ?sk" "secret_valid toy_crypto ?sk" "x_only_public_key toy_crypto ?sk = 0"
    by (simp_all add: toy_crypto_def toy_hex_facts hash_of_bytes_def numeral_eq_Suc)
  have ld: "load_state (toy_store es) toy_disk = Inr \<lparr>entries = es, state_seq = 0\<rparr>"
    by (simp add: load_state_def toy_disk_def toy_store_def replay_journal_def)
  obtain w where w: "new_watcher toy_crypto (toy_store es) 0 (toy_hex ?sk) ?addr toy_disk = Inr w"
    and f: "ents w = es" "in_flight w = []" "in_flight_outpoints w = {}" "pubkey_bytes (keys w) = 0" "validation_pending w = []"
      "blocks_since_compact w = 0"
    unfolding new_watcher_def ld toy_address using sk rebuild_loop_facts rebuild_loop_counters
    by (simp add: map_err_def rebuild_indexes_def Let_def)
  have "reachable toy_crypto (toy_store es) False (w, toy_disk)" by (rule reachable.start [OF w]) (simp add: assms f)
  then show ?thesis using f by blast
qed

lemma toy_reachable:
  "\<exists>w. reachable toy_crypto toy_json False (w, toy_disk) \<and> ents w = [toy_live] \<and> in_flight w = [] \<and> in_flight_outpoints w = {}
     \<and> validation_pending w = [] \<and> pubkey_bytes (keys w) = 0"
proof -
  have "distinct_live [toy_live]" by (simp add: distinct_live_def)
  from toy_start [OF this] show ?thesis unfolding toy_json_def by blast
qed

lemma toy_live_sel:
  "coinbase_txid toy_live = toy_hex (replicate 32 7)" "amount_sompi toy_live = 50000000" "batch_cap toy_live = 2" "orphan_slashed toy_live = False"
  "csv_window toy_live = 36000" "cap_set_daa toy_live = 20000" "slashed toy_live = False"
  by (simp_all add: toy_live_def toy_entry_def)

lemma toy_live_batch: "select_claim_batch False [toy_live] 40000 {} = [0]"
proof -
  have "eligible toy_live 40000 {}" by (simp add: toy_live_def eligible_def mature_def toy_entry_def)
  then show ?thesis
    by (simp add: select_claim_batch_def batch_candidates_def candidate_indices_def sort_key_bool releasable_def
        fill_batch.simps(2) in_pass_def entry_cap_def Let_def toy_live_sel)
qed

lemma toy_live_claim: "\<exists>t tx. build_claim_tx toy_crypto k [toy_live] = Inr (t, tx)"
  by (simp add: build_claim_tx_def toy_live_sel total_in_def CLAIM_FEE_SOMPI_def Let_def toy_crypto_def toy_hex_facts)

definition toy_other :: escrow_entry where
  "toy_other = toy_live\<lparr>coinbase_txid := toy_hex (replicate 32 8)\<rparr>"

definition toy_tip :: rpc_block where
  "toy_tip = \<lparr>header_daa_score = Some 40000, transactions = [], block_verbose = None\<rparr>"

lemma toy_other_sel:
  "coinbase_txid toy_other = toy_hex (replicate 32 8)" "amount_sompi toy_other = 50000000" "batch_cap toy_other = 2" "orphan_slashed toy_other = False"
  "csv_window toy_other = 36000" "cap_set_daa toy_other = 20000" "slashed toy_other = False"
  by (simp_all add: toy_other_def toy_live_def toy_entry_def)

lemma toy_txids_differ: "toy_hex (replicate 32 8) \<noteq> toy_hex (replicate 32 7)"
proof
  assume "toy_hex (replicate 32 8) = toy_hex (replicate 32 7)"
  then have "Some (replicate 32 8 :: bytes) = Some (replicate 32 7)" using toy_hex_facts(1) by metis
  then show False by (simp add: replicate_eq_replicate)
qed

lemma toy_pair_batch: "select_claim_batch False [toy_live, toy_other] 40000 {} = [0, 1]"
proof -
  have "eligible toy_live 40000 {}" "eligible toy_other 40000 {}"
    by (simp_all add: toy_other_def toy_live_def eligible_def mature_def toy_entry_def)
  then show ?thesis
    by (simp add: select_claim_batch_def batch_candidates_def candidate_indices_def sort_key_bool releasable_def upt_rec
        fill_batch.simps(2) in_pass_def entry_cap_def Let_def toy_live_sel toy_other_sel)
qed

lemma toy_pair_tx: "\<exists>t tx. build_claim_tx toy_crypto k [toy_live, toy_other] = Inr (t, tx)"
  by (simp add: build_claim_tx_def toy_live_sel toy_other_sel total_in_def CLAIM_FEE_SOMPI_def Let_def toy_crypto_def toy_hex_facts)

lemma begin_block_quiet:
  assumes "in_flight w = []" and "blocks_since_compact w = 0"
  shows "ents (begin_block daa w) = ents w" "in_flight (begin_block daa w) = []" "in_flight_outpoints (begin_block daa w) = in_flight_outpoints w"
    "validation_pending (begin_block daa w) = validation_pending w"
  using assms by (simp_all add: begin_block_def expire_in_flight_def COMPACT_EVERY_BLOCKS_def Let_def)

text \<open>A block at height 40000 puts both entries in flight in one claim.\<close>

lemma toy_pair_in_flight:
  "\<exists>w d t. reachable toy_crypto (toy_store [toy_live, toy_other]) False (w, d) \<and> ents w = [toy_live, toy_other]
     \<and> in_flight w = [(t, batch_claim [toy_live, toy_other] [0, 1] 40000)]"
proof -
  let ?J = "toy_store [toy_live, toy_other]"
  have "distinct_live [toy_live, toy_other]" using toy_txids_differ by (simp add: distinct_live_def toy_live_sel toy_other_sel)
  from toy_start [OF this] obtain u where u: "reachable toy_crypto ?J False (u, toy_disk)" "ents u = [toy_live, toy_other]" "in_flight u = []"
    "in_flight_outpoints u = {}" "validation_pending u = []" "blocks_since_compact u = 0" by blast
  define v where "v = begin_block 40000 u"
  have v: "ents v = [toy_live, toy_other]" "in_flight v = []" "in_flight_outpoints v = {}" "validation_pending v = []"
    using begin_block_quiet [OF u(3,6), of 40000] u by (simp_all add: v_def)
  have h: "heal_loop ?J 40000 [0..<length (ents v)] v = v"
    by (simp add: v(1) upt_rec heal_def toy_live_sel toy_other_sel CAP_EXPIRY_DAA_def Let_def)
  obtain t tx where b: "build_claim_tx toy_crypto (keys v) [toy_live, toy_other] = Inr (t, tx)" using toy_pair_tx by blast
  have "\<exists>x. find_claim toy_crypto ?J False 40000 v = (Some tx, x) \<and> ents x = [toy_live, toy_other]
      \<and> in_flight x = [(t, batch_claim [toy_live, toy_other] [0, 1] 40000)]"
    using h b toy_pair_batch v by (simp add: find_claim_def Let_def)
  then obtain x where x: "find_claim toy_crypto ?J False 40000 v = (Some tx, x)" "ents x = [toy_live, toy_other]"
    "in_flight x = [(t, batch_claim [toy_live, toy_other] [0, 1] 40000)]" by blast
  obtain w d where wd: "maybe_flush ?J toy_io (x, toy_disk) = (w, d)" by fastforce
  have "handle_block toy_crypto ?J False toy_io toy_tip (u, toy_disk) = (Some tx, w, d)"
    using x(1) wd by (simp add: handle_block_def toy_tip_def scan_block_def v_def)
  then have "reachable toy_crypto ?J False (w, d)" using reachable.step [OF u(1) watcher_step.block] by blast
  moreover have "ents w = ents x" using ents_maybe_flush [of ?J toy_io x toy_disk] wd by simp
  moreover have "in_flight w = in_flight x" using tame_maybe_flush [of x ?J toy_io toy_disk] wd by (simp add: tame_def)
  ultimately show ?thesis using x(2,3) by auto
qed

theorem escrow_claims_disjoint_witness:
  "\<exists>w. reachable toy_crypto toy_json False (w, toy_disk) \<and> ents w = [toy_live] \<and> distinct_live (ents w) \<and> length (in_flight w) \<le> 4"
  using toy_reachable escrow_claims_disjoint by blast

theorem escrow_no_panic_witness:
  "\<exists>w. reachable toy_crypto toy_json False (w, toy_disk) \<and> ents w = [toy_live] \<and> on_chain_blocks_removed toy_json toy_io [''b0''] (w, toy_disk) \<noteq> None"
  using toy_reachable escrow_no_panic by blast

theorem submitted_claim_sound_witness:
  "\<exists>w w' tx. reachable toy_crypto toy_json False (w, toy_disk) \<and> find_claim toy_crypto toy_json False 40000 w = (Some tx, w')
    \<and> (\<exists>es. es \<noteq> [] \<and> (\<forall>e \<in> set es. eligible e 40000 (in_flight_outpoints w) \<and> entry_key e \<in> in_flight_outpoints w'))"
proof -
  obtain w where w: "reachable toy_crypto toy_json False (w, toy_disk)" "ents w = [toy_live]" "in_flight w = []" "in_flight_outpoints w = {}"
    "validation_pending w = []"
    using toy_reachable by blast
  have "heal_loop toy_json 40000 [0..<length (ents w)] w = w"
    by (simp add: w(2) heal_def toy_live_sel CAP_EXPIRY_DAA_def Let_def)
  moreover obtain t tx where "build_claim_tx toy_crypto (keys w) [toy_live] = Inr (t, tx)" using toy_live_claim by blast
  ultimately have "\<exists>w'. find_claim toy_crypto toy_json False 40000 w = (Some tx, w')"
    using toy_live_batch w by (simp add: find_claim_def Let_def)
  then obtain w' where "find_claim toy_crypto toy_json False 40000 w = (Some tx, w')" by blast
  with submitted_claim_sound [OF w(1) this] w(1) show ?thesis by blast
qed

theorem bisection_progress_witness:
  "\<exists>w d t outcome w' d'. reachable toy_crypto (toy_store [toy_live, toy_other]) False (w, d) \<and> ents w = [toy_live, toy_other]
    \<and> on_submit_response (toy_store [toy_live, toy_other]) toy_io t (Some ''orphan'') (w, d) = (Handled, w', d')
    \<and> length (ents w') = 2 \<and> entry_cap (ents w ! 0) = 2 \<and> entry_cap (ents w' ! 0) = 1 \<and> entry_cap (ents w' ! 1) = 1 \<and> \<not> slashed (ents w' ! 1)"
proof -
  let ?J = "toy_store [toy_live, toy_other]" and ?c = "batch_claim [toy_live, toy_other] [0, 1] 40000"
  obtain w d t where w: "reachable toy_crypto ?J False (w, d)" "ents w = [toy_live, toy_other]" "in_flight w = [(t, ?c)]"
    using toy_pair_in_flight by blast
  obtain outcome w' d' where s: "on_submit_response ?J toy_io t (Some ''orphan'') (w, d) = (outcome, w', d')" by (metis prod.collapse)
  have o: "str_contains ''orphan'' ''orphan''" "\<not> is_duplicate ''orphan''" by (simp_all add: is_duplicate_def str_contains_def)
  have m: "match_response w t (Some ''orphan'') = Some t" "map_of (in_flight w) t = Some ?c" by (simp_all add: match_response_def w(3))
  have f: "first_entry [toy_live, toy_other] 0" "first_entry [toy_live, toy_other] (Suc 0)"
    using toy_txids_differ by (simp_all add: first_entry_def toy_live_sel toy_other_sel)
  have n: "2 = length (outpoints ?c)" "1 < (2 :: nat)" by simp_all
  note p = bisection_progress [OF w(1) m n o(2) disjI1 [OF o(1)] s, unfolded w(2)]
  then have p: "outcome = Handled" "length (ents w') = 2" "\<And>i. i < 2 \<Longrightarrow> outpoint_of ([toy_live, toy_other] ! i) \<in> set (outpoints ?c) \<Longrightarrow>
      first_entry [toy_live, toy_other] i \<Longrightarrow> entry_cap (ents w' ! i) = max (2 div 2) 1 \<and> slashed (ents w' ! i) = slashed ([toy_live, toy_other] ! i)"
    by (auto simp: Let_def)
  have "outcome = Handled" "length (ents w') = 2" "entry_cap (ents w' ! 0) = 1" "entry_cap (ents w' ! 1) = 1" "\<not> slashed (ents w' ! 1)"
    using p(1,2) p(3) [of 0] p(3) [of 1] f by (simp_all add: toy_other_sel)
  moreover have "entry_cap (ents w ! 0) = 2" by (simp add: w(2) entry_cap_def toy_live_sel)
  ultimately show ?thesis using w(1,2) s by blast
qed

theorem rejection_slash_reason_witness:
  "slashed (reject_entry ''orphan'' 1 40000 (''aa'', 1) ((toy_entry ''aa'' False 0)\<lparr>orphan_retries := 9\<rparr>)) \<and> MAX_ORPHAN_RETRIES \<le> (9 :: u8) + 1"
proof -
  let ?e = "(toy_entry ''aa'' False 0)\<lparr>orphan_retries := 9\<rparr>"
  have "\<not> slashed ?e" "slashed (reject_entry ''orphan'' 1 40000 (''aa'', 1) ?e)"
    by (simp_all add: toy_entry_def reject_entry_def str_contains_def MAX_ORPHAN_RETRIES_def)
  with rejection_slash_reason [OF this] show ?thesis by (simp add: str_contains_def toy_entry_def)
qed

theorem response_releases_claim_witness:
  "\<exists>w. reachable toy_crypto toy_json False (w, toy_disk) \<and> on_submit_response toy_json toy_io ''ff'' None (w, toy_disk) = (NotOurs, w, toy_disk)
    \<and> map_of (in_flight w) ''ff'' = None"
proof -
  obtain w where w: "reachable toy_crypto toy_json False (w, toy_disk)" "in_flight w = []" using toy_reachable by blast
  have "on_submit_response toy_json toy_io ''ff'' None (w, toy_disk) = (NotOurs, w, toy_disk)"
    by (simp add: on_submit_response_def match_response_def w(2))
  with response_releases_claim [OF w(1) this] w show ?thesis by auto
qed

end
