(* ===== verification/Escrow_Journal.thy ===== *)
theory Escrow_Journal
  imports Escrow_Invariant
begin

section \<open>Crash recovery of the escrow state\<close>

text \<open>
  What a restart loads. Under the round trip of the JSON codec (\<open>json_ok\<close>: every line and every state
  is serialised, a line has no line feed, is not blank and is valid UTF-8) the journal on disk and the
  pending lines are sequences of updates. \<open>backed\<close> says how disk and pending lines describe the memory; every
  operation writes few journal lines and flushes at most once (\<open>journal_step\<close>), so \<open>backed\<close> holds in
  every state of a run (\<open>escrow_run\<close>), restarts included.
\<close>

definition json_ok :: "json \<Rightarrow> bool" where
  "json_ok J \<longleftrightarrow>
     (\<forall>l. \<exists>bs. line_to_vec J l = Some bs \<and> line_from_str J bs = Some l \<and> bs \<noteq> [] \<and> \<not> is_blank bs \<and> 0x0A \<notin> set bs
        \<and> last bs \<noteq> 0x0D \<and> is_utf8 bs)
     \<and> (\<forall>s. \<exists>bs. state_to_vec J s = Some bs \<and> state_from_str J bs = Some s \<and> is_utf8 bs)"

abbreviation line_of :: "json \<Rightarrow> u64 \<times> escrow_entry \<Rightarrow> bytes" where
  "line_of J l \<equiv> the (line_to_vec J l)"

definition journal_bytes :: "json \<Rightarrow> (u64 \<times> escrow_entry) list \<Rightarrow> bytes" where
  "journal_bytes J ls = concat (map (\<lambda>l. line_of J l @ [0x0A]) ls)"

definition apply_line :: "u64 \<times> escrow_entry \<Rightarrow> escrow_state \<Rightarrow> escrow_state" where
  "apply_line l s = (if fst l \<le> state_seq s then s else s\<lparr>state_seq := fst l, entries := upsert (snd l) (entries s)\<rparr>)"

lemma json_line:
  assumes "json_ok J"
  shows "line_to_vec J l = Some (line_of J l)" "line_from_str J (line_of J l) = Some l" "line_of J l \<noteq> []" "\<not> is_blank (line_of J l)"
    "0x0A \<notin> set (line_of J l)" "last (line_of J l) \<noteq> 0x0D" "is_utf8 (line_of J l)"
proof -
  obtain bs where "line_to_vec J l = Some bs" "line_from_str J bs = Some l" "bs \<noteq> []" "\<not> is_blank bs" "0x0A \<notin> set bs"
    "last bs \<noteq> 0x0D" "is_utf8 bs"
    using assms unfolding json_ok_def by blast
  then show "line_to_vec J l = Some (line_of J l)" "line_from_str J (line_of J l) = Some l" "line_of J l \<noteq> []" "\<not> is_blank (line_of J l)"
    "0x0A \<notin> set (line_of J l)" "last (line_of J l) \<noteq> 0x0D" "is_utf8 (line_of J l)" by simp_all
qed

subsection \<open>Lines of the journal\<close>

lemma split_lines_no_feed: "0x0A \<notin> set l \<Longrightarrow> split_lines (l @ r) acc = split_lines r (acc @ l)"
  by (induction l arbitrary: acc) auto

lemma split_lines_line:
  assumes "json_ok J"
  shows "split_lines (line_of J l @ 0x0A # r) [] = line_of J l # split_lines r []"
  using split_lines_no_feed [OF json_line(5) [OF assms], of l "0x0A # r" "[]"] json_line(3,6) [OF assms, of l] by simp

lemma split_lines_journal:
  assumes "json_ok J"
  shows "split_lines (journal_bytes J ls @ r) [] = map (line_of J) ls @ split_lines r []"
  using split_lines_line [OF assms] by (induction ls) (simp_all add: journal_bytes_def)

lemma journal_bytes_append: "journal_bytes J (ls @ ls') = journal_bytes J ls @ journal_bytes J ls'"
  by (simp add: journal_bytes_def)

lemma journal_bytes_Nil [simp]: "journal_bytes J ls = [] \<longleftrightarrow> ls = []"
  by (cases ls) (simp_all add: journal_bytes_def)

lemma replay_lines:
  assumes "json_ok J"
  shows "fold (replay_line J) (map (line_of J) ls) s = fold apply_line ls s"
proof (induction ls arbitrary: s)
  case (Cons l ls)
  have "replay_line J (line_of J l) s = apply_line l s"
    using json_line(2,4) [OF assms, of l] by (cases l) (simp add: replay_line_def apply_line_def)
  then show ?case using Cons by simp
qed simp

definition load_snapshot :: "json \<Rightarrow> disk \<Rightarrow> load_error + escrow_state" where
  "load_snapshot J d = (case snapshot_file d of
      NotFound \<Rightarrow> Inr \<lparr>entries = [], state_seq = 0\<rparr>
    | Unreadable \<Rightarrow> Inl StateUnreadable
    | Contents bs \<Rightarrow> if \<not> is_utf8 bs then Inl StateUnreadable else (case state_from_str J bs of None \<Rightarrow> Inl StateCorrupt | Some s \<Rightarrow> Inr s))"

definition holds_journal :: "json \<Rightarrow> disk \<Rightarrow> (u64 \<times> escrow_entry) list \<Rightarrow> bool" where
  "holds_journal J d ls \<longleftrightarrow> journal_file d = Contents (journal_bytes J ls) \<or> journal_file d = NotFound \<and> ls = []"

lemma load_state_eq:
  assumes "json_ok J" and "load_snapshot J d = Inr s" and "holds_journal J d ls"
  shows "load_state J d = Inr (fold apply_line ls s)"
proof -
  have "split_lines (journal_bytes J ls) [] = map (line_of J) ls" using split_lines_journal [OF assms(1), of ls "[]"] by simp
  moreover have "list_all is_utf8 (map (line_of J) ls)" using json_line(7) [OF assms(1)] by (simp add: list_all_iff)
  ultimately have "replay_journal J (journal_file d) s = Inr (fold apply_line ls s)"
    using assms(3) replay_lines [OF assms(1)] by (auto simp: replay_journal_def holds_journal_def)
  then show ?thesis using assms(2) by (simp add: load_state_def load_snapshot_def)
qed

subsection \<open>Updates in memory and in the journal\<close>

abbreviation all_distinct :: "escrow_watcher \<Rightarrow> bool" where
  "all_distinct w \<equiv> distinct (map entry_key (ents w))"

lemma last_position_SomeD: "last_position key es = Some i \<Longrightarrow> i < length es \<and> entry_key (es ! i) = key"
proof -
  have "List.find P xs = Some x \<Longrightarrow> x \<in> set xs \<and> P x" for P and xs :: "nat list" and x by (induction xs) (auto split: if_splits)
  from this [of "\<lambda>i. entry_key (es ! i) = key" "rev [0..<length es]" i] show "last_position key es = Some i \<Longrightarrow> ?thesis"
    by (auto simp: last_position_def)
qed

lemma last_position_distinct:
  assumes "distinct (map entry_key es)" "i < length es"
  shows "last_position (entry_key (es ! i)) es = Some i"
proof -
  have only: "j = i" if "j < length es" "entry_key (es ! j) = entry_key (es ! i)" for j
    using nth_eq_iff_index_eq [OF assms(1), of j i] that assms(2) by simp
  show ?thesis
  proof (cases "last_position (entry_key (es ! i)) es")
    case None
    then show ?thesis using assms(2) by (auto simp: last_position_def find_None_iff)
  next
    case (Some j)
    then show ?thesis using only [of j] last_position_SomeD by blast
  qed
qed

lemma upsert_present:
  "distinct (map entry_key es) \<Longrightarrow> i < length es \<Longrightarrow> entry_key e = entry_key (es ! i) \<Longrightarrow> upsert e es = es[i := e]"
  by (simp add: upsert_def last_position_distinct)

lemma upsert_new: "entry_key e \<notin> entry_key ` set es \<Longrightarrow> upsert e es = es @ [e]"
proof -
  assume new: "entry_key e \<notin> entry_key ` set es"
  have "last_position (entry_key e) es = None"
  proof (rule ccontr)
    assume "last_position (entry_key e) es \<noteq> None"
    then obtain i where i: "i < length es" "entry_key (es ! i) = entry_key e" using last_position_SomeD by blast
    have "entry_key (es ! i) \<in> entry_key ` set es" by (rule imageI) (simp add: i(1))
    then show False using new unfolding i(2) by blast
  qed
  then show "upsert e es = es @ [e]" by (simp add: upsert_def)
qed

lemma append_journal_eq:
  assumes "json_ok J"
  shows "journal_pending (append_journal_line J e w) = journal_pending w @ line_of J (journal_seq w + 1, e) @ [0x0A]"
    "journal_seq (append_journal_line J e w) = journal_seq w + 1"
proof -
  obtain bs where "line_to_vec J (journal_seq w + 1, e) = Some bs" using json_line(1) [OF assms] by blast
  then show "journal_pending (append_journal_line J e w) = journal_pending w @ line_of J (journal_seq w + 1, e) @ [0x0A]"
    "journal_seq (append_journal_line J e w) = journal_seq w + 1"
    by (simp_all add: append_journal_line_def Let_def)
qed

lemma seq_after: "(\<forall>l \<in> set ls. fst l \<le> state_seq (fold apply_line ls s)) \<and> state_seq s \<le> state_seq (fold apply_line ls s)"
proof (induction ls arbitrary: s)
  case (Cons l ls)
  have "fst l \<le> state_seq (apply_line l s)" "state_seq s \<le> state_seq (apply_line l s)" by (auto simp: apply_line_def not_le)
  then show ?case using Cons [of "apply_line l s"] by auto
qed simp

lemma stale_lines: "\<forall>l \<in> set ls. fst l \<le> state_seq s \<Longrightarrow> fold apply_line ls s = s"
  by (induction ls) (simp_all add: apply_line_def)

text \<open>What disk and pending lines say about the memory in every state of a run. The entries replayed are exactly those in memory
  unless a compaction still waits for its snapshot or two entries share an outpoint.\<close>

definition backed :: "json \<Rightarrow> escrow_watcher \<Rightarrow> disk \<Rightarrow> bool" where
  "backed J w d \<longleftrightarrow> (\<exists>s D P. load_snapshot J d = Inr s \<and> holds_journal J d D \<and> journal_pending w = journal_bytes J P
     \<and> state_seq s \<le> journal_seq w \<and> (\<forall>l \<in> set (D @ P). fst l \<le> journal_seq w)
     \<and> (snapshot_due w \<or> \<not> all_distinct w \<or> fold apply_line (D @ P) s = \<lparr>entries = ents w, state_seq = journal_seq w\<rparr>))"

text \<open>\<open>n\<close> journal lines lead from one watcher to another: entries changed in place and new entries, each with its line, and
  compactions, which mark a snapshot as due.\<close>

inductive journalled :: "json \<Rightarrow> nat \<Rightarrow> escrow_watcher \<Rightarrow> escrow_watcher \<Rightarrow> bool" for J where
  idle: "journalled J 0 u u"
| other: "journalled J n u v \<Longrightarrow> snapshot_due w \<or> \<not> snapshot_due v \<and> ents w = ents v \<Longrightarrow>
    journal_pending w = journal_pending v \<Longrightarrow> journal_seq w = journal_seq v \<Longrightarrow> journalled J n u w"
| modify: "journalled J n u v \<Longrightarrow> i < length (ents v) \<Longrightarrow> keeps_entry f \<Longrightarrow> w = modify_entry J i f v \<Longrightarrow> journalled J (Suc n) u w"
| push: "journalled J n u v \<Longrightarrow> ents v' = ents v @ [e] \<Longrightarrow> journal_pending v' = journal_pending v \<Longrightarrow> journal_seq v' = journal_seq v \<Longrightarrow>
    snapshot_due v' = snapshot_due v \<Longrightarrow> w = append_journal_line J e v' \<Longrightarrow> journalled J (Suc n) u w"

lemma journalled_seq: "journalled J n u w \<Longrightarrow> json_ok J \<Longrightarrow> journal_seq w = journal_seq u + word_of_nat n"
  by (induction rule: journalled.induct) (simp_all add: modify_entry_def append_journal_eq)

lemma append_journal_due [simp]: "snapshot_due (append_journal_line J e w) = snapshot_due w"
  by (auto simp: append_journal_line_def Let_def split: option.split)

lemma modify_entry_due [simp]: "snapshot_due (modify_entry J i f w) = snapshot_due w"
  by (simp add: modify_entry_def)

text \<open>One more line, whose upsert is the change in memory when the outpoints differ.\<close>

lemma backed_line:
  assumes J: "json_ok J" and b: "backed J u d" and up: "all_distinct w \<Longrightarrow> all_distinct u \<and> ents w = upsert e (ents u)"
    and p: "journal_pending w = journal_pending u @ line_of J (journal_seq u + 1, e) @ [0x0A]"
    and q: "journal_seq w = journal_seq u + 1" and due: "snapshot_due w = snapshot_due u" and wrap: "unat (journal_seq u) + 1 < 2 ^ 64"
  shows "backed J w d"
proof -
  let ?l = "(journal_seq u + 1, e)"
  obtain s D P where s: "load_snapshot J d = Inr s" "holds_journal J d D" "journal_pending u = journal_bytes J P"
    "state_seq s \<le> journal_seq u" "\<forall>l \<in> set (D @ P). fst l \<le> journal_seq u"
    "snapshot_due u \<or> \<not> all_distinct u \<or> fold apply_line (D @ P) s = \<lparr>entries = ents u, state_seq = journal_seq u\<rparr>"
    using b unfolding backed_def by blast
  have n: "unat (journal_seq u + 1) = unat (journal_seq u) + 1"
    using wrap unat_add_lem [of "journal_seq u" "1 :: u64"] by simp
  then have lt: "journal_seq u < journal_seq u + 1" by (simp add: word_less_nat_alt)
  then have le: "x \<le> journal_seq u \<Longrightarrow> x \<le> journal_seq w" for x unfolding q by (meson le_less_trans less_imp_le)
  have "fold apply_line (D @ (P @ [?l])) s = \<lparr>entries = ents w, state_seq = journal_seq w\<rparr>"
    if "\<not> snapshot_due w" "all_distinct w"
  proof -
    have "fold apply_line (D @ P) s = \<lparr>entries = ents u, state_seq = journal_seq u\<rparr>" using s(6) up that due by blast
    moreover have "\<not> journal_seq u + 1 \<le> journal_seq u" using lt by simp
    ultimately show ?thesis using up [OF that(2)] by (simp add: apply_line_def q)
  qed
  moreover have "journal_pending w = journal_bytes J (P @ [?l])"
    unfolding p journal_bytes_append s(3) by (simp add: journal_bytes_def)
  moreover have "\<forall>l \<in> set (D @ (P @ [?l])). fst l \<le> journal_seq w" using s(5) le by (auto simp: q)
  ultimately show ?thesis unfolding backed_def using s(1,2) le [OF s(4)] by blast
qed

lemma backed_journalled:
  assumes J: "json_ok J" and "journalled J n u w" and "backed J u d" and "unat (journal_seq u) + n < 2 ^ 64"
  shows "backed J w d \<and> unat (journal_seq w) = unat (journal_seq u) + n"
  using assms(2-)
proof (induction rule: journalled.induct)
  case (idle u)
  then show ?case by simp
next
  case (other n u v w)
  then have v: "backed J v d" "unat (journal_seq v) = unat (journal_seq u) + n" by simp_all
  obtain s D P where s: "load_snapshot J d = Inr s" "holds_journal J d D" "journal_pending v = journal_bytes J P"
    "state_seq s \<le> journal_seq v" "\<forall>l \<in> set (D @ P). fst l \<le> journal_seq v"
    "snapshot_due v \<or> \<not> all_distinct v \<or> fold apply_line (D @ P) s = \<lparr>entries = ents v, state_seq = journal_seq v\<rparr>"
    using v(1) unfolding backed_def by blast
  have "snapshot_due w \<or> \<not> all_distinct w \<or> fold apply_line (D @ P) s = \<lparr>entries = ents w, state_seq = journal_seq w\<rparr>"
    using s(6) other(2,4) by auto
  then have "backed J w d" unfolding backed_def other(3,4) using s(1-5) by blast
  then show ?case using v(2) other(4) by simp
next
  case (modify n u v i f w)
  have v: "backed J v d" "unat (journal_seq v) = unat (journal_seq u) + n" using modify by simp_all
  let ?e = "f (ents v ! i)"
  have key: "entry_key ?e = entry_key (ents v ! i)" using modify(3) by (simp add: keeps_entry_def)
  have e: "ents w = (ents v)[i := ?e]" unfolding modify(4) by simp
  have keys: "map entry_key (ents w) = map entry_key (ents v)"
    by (rule nth_equalityI) (use key modify(2) in \<open>auto simp: e nth_list_update\<close>)
  have up: "all_distinct v \<and> ents w = upsert ?e (ents v)" if "all_distinct w"
  proof -
    have v: "all_distinct v" using that unfolding keys .
    then show ?thesis using upsert_present [OF v modify(2) key] e by simp
  qed
  have w: "journal_pending w = journal_pending v @ line_of J (journal_seq v + 1, ?e) @ [0x0A]" "journal_seq w = journal_seq v + 1"
    "snapshot_due w = snapshot_due v" using append_journal_eq [OF J] by (simp_all add: modify(4) modify_entry_def)
  have "unat (journal_seq v) + 1 < 2 ^ 64" using modify.prems v(2) by simp
  then show ?case using backed_line [OF J v(1) up w] unat_add_lem [of "journal_seq v" "1 :: u64"] v(2) w(2) by simp
next
  case (push n u v v' e w)
  have v: "backed J v d" "unat (journal_seq v) = unat (journal_seq u) + n" using push by simp_all
  have e: "ents w = ents v @ [e]" unfolding push(6) using push(2) by simp
  have up: "all_distinct v \<and> ents w = upsert e (ents v)" if "all_distinct w"
    using that upsert_new [of e "ents v"] unfolding e by simp
  have w: "journal_pending w = journal_pending v @ line_of J (journal_seq v + 1, e) @ [0x0A]" "journal_seq w = journal_seq v + 1"
    "snapshot_due w = snapshot_due v" using append_journal_eq [OF J] push(3-5) by (simp_all add: push(6))
  have "unat (journal_seq v) + 1 < 2 ^ 64" using push.prems v(2) by simp
  then show ?case using backed_line [OF J v(1) up w] unat_add_lem [of "journal_seq v" "1 :: u64"] v(2) w(2) by simp
qed

subsection \<open>Flushes\<close>

definition io_ok :: "io \<Rightarrow> bool" where
  "io_ok io \<longleftrightarrow> append_fault io = None \<and> empty_fault io = None"

lemma backed_write_journal:
  assumes "io_ok io" and "backed J w d" and "write_journal io (w, d) = (ok, w', d')"
  shows "backed J w' d'"
proof -
  obtain s D P where s: "load_snapshot J d = Inr s" "holds_journal J d D" "journal_pending w = journal_bytes J P"
    "state_seq s \<le> journal_seq w" "\<forall>l \<in> set (D @ P). fst l \<le> journal_seq w"
    "snapshot_due w \<or> \<not> all_distinct w \<or> fold apply_line (D @ P) s = \<lparr>entries = ents w, state_seq = journal_seq w\<rparr>"
    using assms(2) unfolding backed_def by blast
  have w': "ents w' = ents w" "journal_seq w' = journal_seq w" "snapshot_due w' = snapshot_due w" "journal_pending w' = []" "snapshot_file d' = snapshot_file d"
    "holds_journal J d' (D @ P)"
    using assms(1,3) s(2,3) by (auto simp: write_journal_def io_ok_def Let_def holds_journal_def append_file_def journal_bytes_append split: if_splits)
  have "load_snapshot J d' = Inr s" using s(1) w'(5) by (simp add: load_snapshot_def)
  moreover have "journal_pending w' = journal_bytes J []" using w'(4) by (simp add: journal_bytes_def)
  moreover have "\<forall>l \<in> set ((D @ P) @ []). fst l \<le> journal_seq w'" "state_seq s \<le> journal_seq w'" using s(4,5) by (simp_all add: w'(2))
  moreover have "snapshot_due w' \<or> \<not> all_distinct w' \<or> fold apply_line ((D @ P) @ []) s = \<lparr>entries = ents w', state_seq = journal_seq w'\<rparr>"
    using s(6) by (simp add: w'(1-3))
  ultimately show ?thesis using w'(6) unfolding backed_def by blast
qed

text \<open>An installed snapshot makes every line of the journal and every pending line stale.\<close>

lemma write_snapshot_installed:
  assumes "json_ok J" and "backed J w d" and "empty_fault io = None" and "replace_result io \<noteq> NotReplaced"
    and "write_snapshot J io (w, d) = (ok, w', d')"
  shows "load_snapshot J d' = Inr \<lparr>entries = ents w, state_seq = journal_seq w\<rparr> \<and> ents w' = ents w \<and> journal_seq w' = journal_seq w
    \<and> (\<exists>D P. holds_journal J d' D \<and> journal_pending w' = journal_bytes J P \<and> (\<forall>l \<in> set (D @ P). fst l \<le> journal_seq w))"
proof -
  let ?mem = "\<lparr>entries = ents w, state_seq = journal_seq w\<rparr>"
  obtain D P where s: "holds_journal J d D" "journal_pending w = journal_bytes J P" "\<forall>l \<in> set (D @ P). fst l \<le> journal_seq w"
    using assms(2) unfolding backed_def by blast
  obtain bs where bs: "state_to_vec J ((wstate w)\<lparr>state_seq := journal_seq w\<rparr>) = Some bs"
    "state_from_str J bs = Some ((wstate w)\<lparr>state_seq := journal_seq w\<rparr>)" "is_utf8 bs"
    using assms(1) unfolding json_ok_def by blast
  have mem: "(wstate w)\<lparr>state_seq := journal_seq w\<rparr> = ?mem" by simp
  have f: "snapshot_file d' = Contents bs" "ents w' = ents w" "journal_seq w' = journal_seq w"
    and j: "(journal_file d' = Contents [] \<or> journal_file d' = journal_file d) \<and> journal_pending w' \<in> {[], journal_pending w}"
    using assms(3-5) bs(1) by (auto simp: write_snapshot_def save_state_atomic_def Let_def split: replace_result.splits if_splits)
  obtain D' where D': "holds_journal J d' D'" "set D' \<subseteq> set D"
  proof (cases "journal_file d' = Contents []")
    case True
    then have "holds_journal J d' []" by (simp add: holds_journal_def journal_bytes_def)
    then show ?thesis using that [of "[]"] by simp
  next
    case False
    then have "holds_journal J d' D" using j s(1) by (simp add: holds_journal_def)
    then show ?thesis using that [of D] by simp
  qed
  obtain P' where P': "journal_pending w' = journal_bytes J P'" "set P' \<subseteq> set P"
  proof (cases "journal_pending w' = []")
    case True
    then show ?thesis using that [of "[]"] by (simp add: journal_bytes_def)
  next
    case False
    then show ?thesis using that [of P] j s(2) by simp
  qed
  have "\<forall>l \<in> set (D' @ P'). fst l \<le> journal_seq w" using s(3) D'(2) P'(2) by auto
  then have "\<exists>D P. holds_journal J d' D \<and> journal_pending w' = journal_bytes J P \<and> (\<forall>l \<in> set (D @ P). fst l \<le> journal_seq w)"
    using D'(1) P'(1) by blast
  then show ?thesis using f bs(2,3) mem by (simp add: load_snapshot_def)
qed

lemma backed_write_snapshot:
  assumes "json_ok J" and "io_ok io" and "backed J w d" and "write_snapshot J io (w, d) = (ok, w', d')"
  shows "backed J w' d'"
proof (cases "replace_result io = NotReplaced")
  case True
  obtain bs where "state_to_vec J ((wstate w)\<lparr>state_seq := journal_seq w\<rparr>) = Some bs" using assms(1) unfolding json_ok_def by blast
  then have "d' = d" "ents w' = ents w" "journal_seq w' = journal_seq w" "snapshot_due w' = snapshot_due w" "journal_pending w' = journal_pending w"
    using assms(4) True by (auto simp: write_snapshot_def save_state_atomic_def Let_def)
  then show ?thesis using assms(3) by (simp add: backed_def)
next
  case False
  let ?mem = "\<lparr>entries = ents w, state_seq = journal_seq w\<rparr>"
  obtain D P where f: "load_snapshot J d' = Inr ?mem" "ents w' = ents w" "journal_seq w' = journal_seq w" "holds_journal J d' D"
    "journal_pending w' = journal_bytes J P" "\<forall>l \<in> set (D @ P). fst l \<le> journal_seq w"
    using write_snapshot_installed [OF assms(1,3) _ False assms(4)] assms(2) by (auto simp: io_ok_def)
  have "fold apply_line (D @ P) ?mem = ?mem" by (rule stale_lines) (use f(6) in simp)
  moreover have "state_seq ?mem \<le> journal_seq w" by simp
  ultimately show ?thesis unfolding backed_def f(2,3) using f(1,4,5,6) by blast
qed

lemma backed_maybe_flush:
  assumes "json_ok J" and "io_ok io" and "backed J w d" and "maybe_flush J io (w, d) = (w', d')"
  shows "backed J w' d'"
proof -
  have "maybe_flush J io (w, d) \<in> {snd (write_snapshot J io (w, d)), snd (write_journal io (w, d)), (w, d)}"
    by (simp add: maybe_flush_def Let_def)
  moreover have "backed J w' d'" if "snd (write_snapshot J io (w, d)) = (w', d')"
    using backed_write_snapshot [OF assms(1-3)] that by (metis prod.collapse)
  moreover have "backed J w' d'" if "snd (write_journal io (w, d)) = (w', d')"
    using backed_write_journal [OF assms(2,3)] that by (metis prod.collapse)
  ultimately show ?thesis using assms(3,4) by auto
qed

subsection \<open>The lines of an operation\<close>

definition journals :: "json \<Rightarrow> nat \<Rightarrow> escrow_watcher \<Rightarrow> escrow_watcher \<Rightarrow> bool" where
  "journals J N u w \<longleftrightarrow> (\<exists>n \<le> N. journalled J n u w)"

lemma journalled_trans: "journalled J m v w \<Longrightarrow> journalled J n u v \<Longrightarrow> journalled J (n + m) u w"
  by (induction arbitrary: n rule: journalled.induct) (auto intro: journalled.intros)

lemma journals_trans [trans]: "journals J M u v \<Longrightarrow> journals J N v w \<Longrightarrow> journals J (M + N) u w"
  unfolding journals_def using journalled_trans by (meson add_mono)

lemma journals_mono: "journals J M u w \<Longrightarrow> M \<le> N \<Longrightarrow> journals J N u w"
  unfolding journals_def using le_trans by blast

lemma journals_refl [simp]: "journals J N w w"
  unfolding journals_def using journalled.idle by blast

lemma journals_other:
  "snapshot_due w \<or> \<not> snapshot_due v \<and> ents w = ents v \<Longrightarrow> journal_pending w = journal_pending v \<Longrightarrow> journal_seq w = journal_seq v \<Longrightarrow> journals J N v w"
  unfolding journals_def using journalled.other [OF journalled.idle] by blast

lemma journals_same:
  "ents w = ents v \<Longrightarrow> snapshot_due w = snapshot_due v \<Longrightarrow> journal_pending w = journal_pending v \<Longrightarrow> journal_seq w = journal_seq v \<Longrightarrow> journals J N v w"
  by (rule journals_other) auto

lemma journals_modify: "i < length (ents w) \<Longrightarrow> keeps_entry f \<Longrightarrow> journals J (Suc 0) w (modify_entry J i f w)"
  unfolding journals_def using journalled.modify [OF journalled.idle] by fastforce

lemma journals_fold:
  assumes "\<And>x w. journals J (Suc 0) w (f x w)"
  shows "journals J (length xs) w (fold f xs w)"
proof (induction xs arbitrary: w)
  case (Cons x xs)
  from journals_trans [OF assms Cons] show ?case by (simp add: add.commute)
qed simp

lemma find_outpoint_less: "find_outpoint es op = Some i \<Longrightarrow> i < length es"
  by (simp add: find_outpoint_iff)

lemma journals_reject: "journals J (length ops) w (fold (reject_outpoint J msg k) ops w)"
  by (rule journals_fold) (simp add: reject_outpoint_def journals_modify find_outpoint_less split: option.split)

lemma journals_mark: "journals J (length ops) w (fst (mark_entries_claimed J ops w))"
proof -
  have "journals J (length ops) w (fst (fold (mark_claimed J) ops (w, s)))" for w s
  proof (induction ops arbitrary: w s)
    case (Cons op ops)
    let ?m = "mark_claimed J op (w, s)"
    have "journals J (Suc 0) w (fst ?m)" by (simp add: mark_claimed_def journals_modify find_outpoint_less split: option.split)
    from journals_trans [OF this Cons [of "fst ?m" "snd ?m"]] show ?case by simp
  qed simp
  then show ?thesis by (simp add: mark_entries_claimed_def)
qed

lemma journals_heal: "\<forall>i \<in> set ks. i < length (ents w) \<Longrightarrow> journals J (length ks) w (heal_loop J daa ks w)"
proof (induction ks arbitrary: w)
  case (Cons i ks)
  let ?w = "if snd (heal daa (ents w ! i)) then modify_entry J i (\<lambda>e. fst (heal daa e)) w else w"
  have "journals J (Suc 0) w ?w" using Cons.prems by (simp add: journals_modify)
  moreover have "journals J (length ks) ?w (heal_loop J daa ks ?w)" by (rule Cons.IH) (use Cons.prems in auto)
  ultimately have "journals J (Suc 0 + length ks) w (heal_loop J daa ks ?w)" by (rule journals_trans)
  then show ?case by simp
qed simp

text \<open>Slashing writes at most one line per entry that was not slashed.\<close>

definition unslashed :: "escrow_watcher \<Rightarrow> nat" where
  "unslashed w = length (filter (\<lambda>e. \<not> slashed e) (ents w))"

definition slashing :: "json \<Rightarrow> escrow_watcher \<Rightarrow> escrow_watcher \<Rightarrow> bool" where
  "slashing J u w \<longleftrightarrow> (\<exists>n. journalled J n u w \<and> n + unslashed w \<le> unslashed u) \<and> length (ents w) = length (ents u)"

lemma slashing_refl [simp]: "slashing J w w"
  unfolding slashing_def using journalled.idle by (metis add_0 le_refl)

lemma slashing_trans: "slashing J u v \<Longrightarrow> slashing J v w \<Longrightarrow> slashing J u w"
proof -
  assume "slashing J u v" "slashing J v w"
  then obtain m n where "journalled J m u v" "m + unslashed v \<le> unslashed u" "journalled J n v w" "n + unslashed w \<le> unslashed v"
    and l: "length (ents w) = length (ents u)" unfolding slashing_def by auto
  then have "journalled J (m + n) u w" "m + n + unslashed w \<le> unslashed u" using journalled_trans by auto
  with l show "slashing J u w" unfolding slashing_def by blast
qed

lemma slashing_journals: "slashing J u w \<Longrightarrow> journals J (length (ents w)) u w"
  unfolding slashing_def journals_def unslashed_def by (metis add_leD1 le_trans length_filter_le)

lemma slashing_same:
  "ents w = ents v \<Longrightarrow> snapshot_due w = snapshot_due v \<Longrightarrow> journal_pending w = journal_pending v \<Longrightarrow> journal_seq w = journal_seq v \<Longrightarrow> slashing J v w"
proof -
  assume a: "ents w = ents v" "snapshot_due w = snapshot_due v" "journal_pending w = journal_pending v" "journal_seq w = journal_seq v"
  then have "journalled J 0 v w" by (intro journalled.other [OF journalled.idle]) auto
  then show "slashing J v w" using a(1) unfolding slashing_def unslashed_def by (metis add_0 le_refl)
qed

lemma length_filter_update: "i < length xs \<Longrightarrow> P (xs ! i) \<Longrightarrow> \<not> P y \<Longrightarrow> Suc (length (filter P (xs[i := y]))) = length (filter P xs)"
  by (induction xs arbitrary: i) (auto split: nat.split)

lemma slashing_modify:
  "i < length (ents w) \<Longrightarrow> \<not> slashed (ents w ! i) \<Longrightarrow> slashing J w (modify_entry J i (\<lambda>e. e\<lparr>slashed := True\<rparr>) w)"
proof -
  assume i: "i < length (ents w)" "\<not> slashed (ents w ! i)"
  let ?w = "modify_entry J i (\<lambda>e. e\<lparr>slashed := True\<rparr>) w"
  have "journalled J 1 w ?w" using journalled.modify [OF journalled.idle i(1) keeps_entry_simps(1) refl] by simp
  moreover have "1 + unslashed ?w \<le> unslashed w"
    using length_filter_update [of i "ents w" "\<lambda>e. \<not> slashed e" "(ents w ! i)\<lparr>slashed := True\<rparr>"] i by (simp add: unslashed_def)
  ultimately show "slashing J w ?w" unfolding slashing_def by auto
qed

lemma slashing_fold: "(\<And>x w. slashing J w (f x w)) \<Longrightarrow> slashing J w (fold f xs w)"
  by (induction xs arbitrary: w) (auto intro: slashing_trans)

lemma slashing_reds: "slashing J w (slash_reds J reds w)"
  unfolding slash_reds_def
  by (rule slashing_fold) (auto simp: slash_red_def Let_def slashing_modify intro!: slashing_fold split: option.split)

lemma slashing_purge: "purge_loop J ks w = Some w' \<Longrightarrow> slashing J w w' \<and> in_flight w' = in_flight w"
proof (induction ks arbitrary: w)
  case (Cons i ks)
  let ?u = "w\<lparr>validation_purged := validation_purged w + 1\<rparr>"
  let ?w = "modify_entry J i (\<lambda>e. e\<lparr>slashed := True\<rparr>) ?u"
  show ?case
  proof (cases "\<not> claimed (ents w ! i) \<and> \<not> slashed (ents w ! i)")
    case True
    then have p: "i < length (ents w)" "purge_loop J ks ?w = Some w'" using Cons.prems by (auto split: if_splits)
    have "slashing J w ?u" by (rule slashing_same) simp_all
    moreover have "slashing J ?u ?w" using p(1) True by (intro slashing_modify) simp_all
    ultimately have "slashing J w ?w" by (rule slashing_trans)
    moreover have "slashing J ?w w'" "in_flight w' = in_flight ?w" using Cons.IH [OF p(2)] by blast+
    ultimately show ?thesis using slashing_trans by simp
  next
    case False
    then show ?thesis using Cons by (auto split: if_splits)
  qed
qed simp

lemma slashing_reorg_loop: "reorg_loop J ks (w, n) = Some (w', n') \<Longrightarrow> slashing J w w' \<and> in_flight w' = in_flight w"
proof (induction ks arbitrary: w n)
  case (Cons i ks)
  let ?u = "w\<lparr>outpoint_set := outpoint_set w - {entry_key (ents w ! i)}\<rparr>"
  let ?w = "modify_entry J i (\<lambda>e. e\<lparr>slashed := True\<rparr>) ?u"
  show ?case
  proof (cases "claimed (ents w ! i) \<or> slashed (ents w ! i)")
    case False
    then have p: "i < length (ents w)" "reorg_loop J ks (?w, n + 1) = Some (w', n')" using Cons.prems by (auto split: if_splits)
    have "slashing J w ?u" by (rule slashing_same) simp_all
    moreover have "slashing J ?u ?w" using p(1) False by (intro slashing_modify) simp_all
    ultimately have "slashing J w ?w" by (rule slashing_trans)
    moreover have "slashing J ?w w'" "in_flight w' = in_flight ?w" using Cons.IH [OF p(2)] by blast+
    ultimately show ?thesis using slashing_trans by simp
  next
    case True
    then show ?thesis using Cons by (auto split: if_splits)
  qed
qed simp

lemma slashing_reorg_hashes: "reorg_hashes J hs (w, n) = Some (w', n') \<Longrightarrow> slashing J w w' \<and> in_flight w' = in_flight w"
proof (induction hs arbitrary: w n)
  case (Cons h hs)
  show ?case
  proof (cases "block_index w h")
    case (Some ks)
    let ?w = "w\<lparr>block_index := (block_index w)(h := None)\<rparr>"
    obtain v m where v: "reorg_loop J ks (?w, n) = Some (v, m)" "reorg_hashes J hs (v, m) = Some (w', n')"
      using Cons.prems Some by (auto split: bind_splits)
    have "slashing J w ?w" by (rule slashing_same) simp_all
    moreover have "slashing J ?w v" "in_flight v = in_flight ?w" using slashing_reorg_loop [OF v(1)] by blast+
    ultimately show ?thesis using Cons.IH [OF v(2)] slashing_trans by auto
  qed (use Cons in auto)
qed simp

text \<open>Tracking writes one line per new entry.\<close>

definition tracking :: "json \<Rightarrow> escrow_watcher \<Rightarrow> escrow_watcher \<Rightarrow> bool" where
  "tracking J u w \<longleftrightarrow> (\<exists>k. length (ents w) = length (ents u) + k \<and> journals J k u w) \<and> in_flight w = in_flight u"

lemma tracking_trans: "tracking J u v \<Longrightarrow> tracking J v w \<Longrightarrow> tracking J u w"
proof -
  assume "tracking J u v" "tracking J v w"
  then obtain m n where "length (ents v) = length (ents u) + m" "journals J m u v" "length (ents w) = length (ents v) + n" "journals J n v w"
    and f: "in_flight w = in_flight u" unfolding tracking_def by auto
  then have "length (ents w) = length (ents u) + (m + n)" "journals J (m + n) u w" using journals_trans by auto
  with f show ?thesis unfolding tracking_def by blast
qed

lemma tracking_refl [simp]: "tracking J w w"
  by (auto simp: tracking_def intro!: exI [of _ 0])

lemma tracking_output: "tracking J w (track_output J txid bh daa i out w)"
proof -
  have "journals J (Suc 0) w (append_journal_line J e v)"
    if "ents v = ents w @ [e]" "journal_pending v = journal_pending w" "journal_seq v = journal_seq w" "snapshot_due v = snapshot_due w" for e v
    unfolding journals_def using journalled.push [OF journalled.idle that refl] by auto
  then show ?thesis
    by (auto simp: track_output_def tracking_def index_push_def Let_def split: option.split)
qed

lemma tracking_block: "tracking J w (track_block_escrows J b daa bh w)"
proof -
  have "tracking J w (track_outputs J txid bh daa i outs w)" for txid i outs w
    by (induction outs arbitrary: i w) (auto intro: tracking_trans [OF tracking_output])
  then show ?thesis by (simp add: track_block_escrows_def split: option.split)
qed

subsection \<open>Steps\<close>

definition small_claims :: "escrow_watcher \<Rightarrow> bool" where
  "small_claims w \<longleftrightarrow> (\<forall>(t, c) \<in> set (in_flight w). length (outpoints c) \<le> 87)"

lemma small_claims_mono: "small_claims w \<Longrightarrow> set (in_flight w') \<subseteq> set (in_flight w) \<Longrightarrow> small_claims w'"
  unfolding small_claims_def by blast

lemma release_journals: "journals J 0 w (release t w) \<and> set (in_flight (release t w)) \<subseteq> set (in_flight w)"
proof -
  have "journals J 0 w (release t w)" by (rule journals_same) (simp_all add: release_def split: option.split)
  then show ?thesis by (auto simp: release_def AList.delete_eq split: option.split)
qed

lemma rebuild_loop_journal:
  "journal_pending (rebuild_loop k es w) = journal_pending w \<and> journal_seq (rebuild_loop k es w) = journal_seq w
     \<and> snapshot_due (rebuild_loop k es w) = snapshot_due w"
  by (induction es arbitrary: k w) (simp_all add: Let_def index_push_def)

lemma compact_journals: "journals J 0 w (compact w) \<and> in_flight (compact w) = in_flight w"
proof -
  let ?es = "filter (\<lambda>e. \<not> claimed e \<and> \<not> slashed e) (ents w)"
  have f: "in_flight (rebuild_indexes (set_ents ?es w)) = in_flight w"
    "journal_pending (rebuild_indexes (set_ents ?es w)) = journal_pending w" "journal_seq (rebuild_indexes (set_ents ?es w)) = journal_seq w"
    using rebuild_loop_facts [of 0 ?es "(set_ents ?es w)\<lparr>outpoint_set := {}, block_index := Map.empty\<rparr>"]
      rebuild_loop_journal [of 0 ?es "(set_ents ?es w)\<lparr>outpoint_set := {}, block_index := Map.empty\<rparr>"] by (simp_all add: rebuild_indexes_def)
  show ?thesis
  proof (cases "length ?es = length (ents w)")
    case True
    then have "?es = ents w" by (metis filter_id_conv length_filter_less less_irrefl)
    then show ?thesis by (simp add: compact_def)
  next
    case False
    then have c: "compact w = (rebuild_indexes (set_ents ?es w))\<lparr>snapshot_due := True\<rparr>" by (simp add: compact_def Let_def)
    have "journals J 0 w (compact w)" unfolding c by (rule journals_other) (simp_all add: f)
    then show ?thesis using f unfolding c by simp
  qed
qed

lemma begin_block_journals: "journals J 0 w (begin_block daa w) \<and> set (in_flight (begin_block daa w)) \<subseteq> set (in_flight w)"
proof -
  define w1 where "w1 = expire_in_flight daa (w\<lparr>last_daa_score := daa\<rparr>)"
  define w2 where "w2 = w1\<lparr>blocks_since_compact := blocks_since_compact w1 + 1\<rparr>"
  define w3 where "w3 = (if blocks_since_compact w2 \<ge> COMPACT_EVERY_BLOCKS then compact (w2\<lparr>blocks_since_compact := 0\<rparr>) else w2)"
  note z = journals_trans [of J 0 _ _ 0, simplified]
  have fold: "journals J 0 v (fold release ts v) \<and> set (in_flight (fold release ts v)) \<subseteq> set (in_flight v)" for ts v
  proof (induction ts arbitrary: v)
    case (Cons t ts)
    then show ?case using release_journals [of J v t] z by fastforce
  qed simp
  have 0: "journals J 0 w (w\<lparr>last_daa_score := daa\<rparr>)" by (rule journals_same) simp_all
  have 1: "journals J 0 w w1" "set (in_flight w1) \<subseteq> set (in_flight w)"
    using z [OF 0] fold [of "w\<lparr>last_daa_score := daa\<rparr>"] by (simp_all add: w1_def expire_in_flight_def Let_def)
  have "journals J 0 w1 (w1\<lparr>blocks_since_compact := k\<rparr>)" for k by (rule journals_same) simp_all
  then have 2: "journals J 0 w (w1\<lparr>blocks_since_compact := k\<rparr>)" for k using z [OF 1(1)] by blast
  have c: "journals J 0 w (compact (w1\<lparr>blocks_since_compact := k\<rparr>))" for k using z [OF 2] compact_journals by blast
  have 3: "journals J 0 w w3" "set (in_flight w3) \<subseteq> set (in_flight w)"
    using 2 c compact_journals 1(2) by (simp_all add: w3_def w2_def)
  have "journals J 0 w3 (w3\<lparr>blocks_since_status := k\<rparr>)" for k by (rule journals_same) simp_all
  then have "journals J 0 w (w3\<lparr>blocks_since_status := k\<rparr>)" for k using z [OF 3(1)] by blast
  then show ?thesis using 3(2) unfolding begin_block_def Let_def w1_def [symmetric] w2_def [symmetric] w3_def [symmetric] by simp
qed

lemma find_claim_journals:
  assumes "find_claim X J testnet daa w = (c, w')"
  shows "journals J (length (ents w)) w w' \<and> length (ents w') = length (ents w) \<and> (small_claims w \<longrightarrow> small_claims w')"
proof -
  have heal: "journals J (length (ents w)) w (heal_loop J daa [0..<length (ents w)] w)"
    using journals_heal [of "[0..<length (ents w)]" w J daa] by simp
  show ?thesis using assms
  proof (cases rule: find_claimE)
    case unchanged
    then show ?thesis using heal by (auto simp: tame_def small_claims_def)
  next
    case (claim v b t tx)
    have "journals J 0 v w'" by (rule journals_same) (simp_all add: claim(8))
    then have "journals J (length (ents w)) w w'" using journals_trans [OF heal] claim(9) by fastforce
    moreover have "length b \<le> 87" using claim(6) claim_batch_safe [OF claim(5)] by (cases b) fastforce+
    then have "small_claims w \<longrightarrow> small_claims w'"
      using set_alist_update [of t "batch_claim (ents v) b daa" "in_flight v"] claim(2) unfolding small_claims_def tame_def claim(8) by fastforce
    ultimately show ?thesis using claim(2,8) by (simp add: tame_def)
  qed
qed

text \<open>An operation changes the memory by so many lines and ends with at most one flush.\<close>

definition flushed :: "json \<Rightarrow> io \<Rightarrow> escrow_watcher \<times> disk \<Rightarrow> escrow_watcher \<times> disk \<Rightarrow> bool" where
  "flushed J io vd wd \<longleftrightarrow> wd = vd \<or> wd = maybe_flush J io vd \<or> wd = snd (write_snapshot J io vd)"

lemma flushed_sel:
  assumes "flushed J io (v, d) (w, d')"
  shows "ents w = ents v" "journal_seq w = journal_seq v" "in_flight w = in_flight v"
proof -
  have "ents (fst (snd (write_snapshot J io (v, d)))) = ents v" "journal_seq (fst (snd (write_snapshot J io (v, d)))) = journal_seq v"
    "in_flight (fst (snd (write_snapshot J io (v, d)))) = in_flight v"
    "ents (fst (snd (write_journal io (v, d)))) = ents v" "journal_seq (fst (snd (write_journal io (v, d)))) = journal_seq v"
    "in_flight (fst (snd (write_journal io (v, d)))) = in_flight v"
    by (auto simp: write_snapshot_def write_journal_def Let_def split: prod.split option.split)
  moreover from this have "ents (fst (maybe_flush J io (v, d))) = ents v" "journal_seq (fst (maybe_flush J io (v, d))) = journal_seq v"
    "in_flight (fst (maybe_flush J io (v, d))) = in_flight v" by (simp_all add: maybe_flush_def Let_def)
  ultimately show "ents w = ents v" "journal_seq w = journal_seq v" "in_flight w = in_flight v"
    using assms unfolding flushed_def by (metis fst_conv)+
qed

lemma backed_flushed:
  assumes "json_ok J" and "io_ok io" and "backed J v d" and "flushed J io (v, d) (w, d')"
  shows "backed J w d'"
  using assms(4) backed_maybe_flush [OF assms(1-3)] backed_write_snapshot [OF assms(1-3)] assms(3)
  unfolding flushed_def by (metis prod.collapse prod.inject)

definition journal_step :: "json \<Rightarrow> io \<Rightarrow> escrow_watcher \<times> disk \<Rightarrow> escrow_watcher \<times> disk \<Rightarrow> bool" where
  "journal_step J io wd wd' \<longleftrightarrow> (\<exists>v. journals J (2 * length (ents v) + 87) (fst wd) v \<and> flushed J io (v, snd wd) wd' \<and> small_claims v)"

lemma journal_stepI: "journals J N w v \<Longrightarrow> N \<le> 2 * length (ents v) + 87 \<Longrightarrow> flushed J io (v, d) wd' \<Longrightarrow> small_claims v \<Longrightarrow> journal_step J io (w, d) wd'"
  unfolding journal_step_def using journals_mono [of J N w v "2 * length (ents v) + 87"] by (intro exI [of _ v]) simp

lemma journal_step_block:
  assumes "small_claims w" and "handle_block X J testnet io b (w, d) = (c, wd')"
  shows "journal_step J io (w, d) wd'"
proof (cases "header_daa_score b")
  case None
  then show ?thesis using assms by (intro journal_stepI [of J 0 w w]) (auto simp: handle_block_def flushed_def)
next
  case (Some daa)
  define v1 where "v1 = begin_block daa w"
  define v2 where "v2 = scan_block J b daa v1"
  obtain cl v3 where fc: "find_claim X J testnet daa v2 = (cl, v3)" by (cases "find_claim X J testnet daa v2")
  have wd: "wd' = maybe_flush J io (v3, d)" using assms(2) Some fc by (auto simp: handle_block_def v1_def v2_def)
  have j1: "journals J 0 w v1" and f1: "set (in_flight v1) \<subseteq> set (in_flight w)" using begin_block_journals by (auto simp: v1_def)
  have j2: "\<exists>k. journals J (length (ents v1) + k) v1 v2 \<and> length (ents v2) = length (ents v1) + k \<and> in_flight v2 = in_flight v1"
  proof (cases "block_verbose b")
    case None
    then have "v2 = v1" by (simp add: v2_def scan_block_def)
    then show ?thesis by (intro exI [of _ 0]) simp
  next
    case V: (Some v)
    let ?s = "slash_reds J (merge_set_reds_hashes v) v1"
    have "slashing J v1 ?s" by (rule slashing_reds)
    then have s: "journals J (length (ents v1)) v1 ?s" "length (ents ?s) = length (ents v1)"
      using slashing_journals [of J v1 ?s] by (simp_all add: slashing_def)
    have sf: "in_flight ?s = in_flight v1" using tame_slash_reds [of v1 J] by (simp add: tame_def)
    have "tracking J ?s v2" using V tracking_block by (simp add: v2_def scan_block_def Let_def)
    then obtain k where "length (ents v2) = length (ents ?s) + k" "journals J k ?s v2" "in_flight v2 = in_flight ?s"
      unfolding tracking_def by blast
    then show ?thesis using journals_trans [OF s(1)] s(2) sf by auto
  qed
  then obtain k where k: "journals J (length (ents v1) + k) v1 v2" "length (ents v2) = length (ents v1) + k" "in_flight v2 = in_flight v1" by blast
  have sm: "small_claims v2" using small_claims_mono [OF assms(1)] f1 k(3) by simp
  have j3: "journals J (length (ents v2)) v2 v3" "length (ents v3) = length (ents v2)" "small_claims v3"
    using find_claim_journals [OF fc] sm by blast+
  have "journals J (0 + (length (ents v1) + k) + length (ents v2)) w v3" by (rule journals_trans [OF journals_trans [OF j1 k(1)] j3(1)])
  then show ?thesis by (rule journal_stepI) (use k(2) j3(2,3) wd in \<open>simp_all add: flushed_def\<close>)
qed

lemma journal_step_response:
  assumes "small_claims w" and "on_submit_response J io txid err (w, d) = (outcome, wd')"
  shows "journal_step J io (w, d) wd'"
proof (cases "match_response w txid err")
  case None
  then show ?thesis using assms by (intro journal_stepI [of J 0 w w]) (auto simp: on_submit_response_def flushed_def)
next
  case (Some t)
  obtain c where c: "map_of (in_flight w) t = Some c" using match_response_in_flight [OF Some] by blast
  have len: "length (outpoints c) \<le> 87" using assms(1) map_of_SomeD [OF c] by (auto simp: small_claims_def)
  let ?r = "release t w"
  have r: "journals J 0 w ?r" "small_claims ?r" using release_journals small_claims_mono [OF assms(1)] by blast+
  define v where "v = (if (case err of None \<Rightarrow> True | Some msg \<Rightarrow> is_duplicate msg) then fst (mark_entries_claimed J (outpoints c) ?r)
    else fold (reject_outpoint J (the err) (length (outpoints c))) (outpoints c) ?r)"
  have "journals J (length (outpoints c)) ?r v" by (simp add: v_def journals_mark journals_reject)
  then have "journals J (0 + length (outpoints c)) w v" by (rule journals_trans [OF r(1)])
  moreover have "wd' = maybe_flush J io (v, d)"
    using assms(2) Some c by (auto simp: on_submit_response_def v_def Let_def case_prod_beta split: if_splits)
  moreover have "tame ?r v" by (simp add: v_def tame_mark tame_reject)
  then have "small_claims v" using r(2) by (simp add: tame_def small_claims_def)
  moreover have "0 + length (outpoints c) \<le> 2 * length (ents v) + 87" using len by linarith
  ultimately show ?thesis by (intro journal_stepI [of J _ w v]) (simp_all add: flushed_def)
qed

lemma journal_step_same:
  assumes "small_claims w" and "in_flight v = in_flight w" and "slashing J w v" and "flushed J io (v, d) wd'"
  shows "journal_step J io (w, d) wd'"
proof -
  have "small_claims v" using assms(1,2) by (simp add: small_claims_def)
  moreover have "length (ents v) \<le> 2 * length (ents v) + 87" by linarith
  ultimately show ?thesis using journal_stepI [OF slashing_journals [OF assms(3)]] assms(4) by blast
qed

lemma journal_step_validated:
  assumes "small_claims w" and "on_block_validated J io h ex (w, d) = Some wd'"
  shows "journal_step J io (w, d) wd'"
proof (cases "h \<in> set (validation_pending w)")
  case False
  then show ?thesis using assms by (intro journal_step_same [of w w]) (auto simp: on_block_validated_def flushed_def)
next
  case True
  let ?w = "w\<lparr>validation_pending := remove1 h (validation_pending w)\<rparr>"
  have s: "slashing J w ?w" by (rule slashing_same) simp_all
  obtain v where v: "v = ?w \<or> (\<exists>ks. purge_loop J ks ?w = Some v)" "wd' = finish_validation_if_done J io (v, d)"
    using assms(2) True by (auto simp: on_block_validated_def Let_def split: if_splits option.splits)
  have "slashing J ?w v \<and> in_flight v = in_flight ?w" using v(1) slashing_purge by auto
  then have "slashing J w v" "in_flight v = in_flight w" using slashing_trans [OF s] by simp_all
  then show ?thesis using assms(1) v(2) by (intro journal_step_same [of w v]) (auto simp: finish_validation_if_done_def flushed_def)
qed

lemma watcher_journal_step: "watcher_step X J testnet io wd wd' \<Longrightarrow> small_claims (fst wd) \<Longrightarrow> journal_step J io wd wd'"
proof (induction rule: watcher_step.induct)
  case (block io b w d c wd')
  then show ?case using journal_step_block by simp
next
  case (response io txid err w d outcome wd')
  then show ?case using journal_step_response by simp
next
  case (inference io txid daa amt w d wd')
  let ?e = "new_entry txid [] daa amt 1 True CHALLENGE_WINDOW_BLOCKS"
  let ?v = "(set_ents (ents w @ [?e]) w)\<lparr>outpoint_set := insert (outpoint_key txid 1) (outpoint_set w)\<rparr>"
  have "journalled J (Suc 0) w (append_journal_line J ?e ?v)" by (rule journalled.push [OF journalled.idle, of ?v w ?e]) simp_all
  then have "journals J (Suc 0) w (append_journal_line J ?e ?v)" unfolding journals_def by blast
  moreover have "wd' = (w, d) \<or> wd' = maybe_flush J io (append_journal_line J ?e ?v, d)"
    using inference(1) by (auto simp: track_inference_escrow_def Let_def)
  ultimately show ?case using inference(2) journal_stepI [of J "Suc 0" w "append_journal_line J ?e ?v" io d wd'] journal_stepI [of J 0 w w io d wd']
    by (auto simp: flushed_def small_claims_def)
next
  case (validation w hs w' io d)
  then have "slashing J w w'" by (intro slashing_same) (auto simp: start_state_validation_def Let_def)
  then show ?case using validation by (intro journal_step_same [of w w']) (auto simp: start_state_validation_def flushed_def Let_def)
next
  case (validated io h ex w d wd')
  then show ?case using journal_step_validated by simp
next
  case (consumed io h chain w d r wd')
  then show ?case using journal_step_validated [of w J io h chain d] journal_step_same [of w w J io d wd']
    by (auto simp: consume_validation_ok_def flushed_def split: if_splits)
next
  case (validation_error io msg w d r wd')
  obtain v where v: "v = w \<or> (\<exists>p u. v = w\<lparr>validation_pending := p, validation_unknown := u\<rparr>)" "wd' = (v, d) \<or> wd' = finish_validation_if_done J io (v, d)"
    using validation_error(1) by (auto simp: on_block_validation_error_def split: option.splits)
  have "slashing J w v" by (rule slashing_same) (use v(1) in auto)
  moreover have "in_flight v = in_flight w" using v(1) by auto
  ultimately show ?case using validation_error(2) v(2)
    by (intro journal_step_same [of w v]) (auto simp: finish_validation_if_done_def flushed_def)
next
  case (reorg io hs w d wd')
  then obtain v k where v: "reorg_hashes J hs (w, 0) = Some (v, k)" "wd' = maybe_flush J io (v, d) \<or> wd' = (v, d)"
    by (auto simp: on_chain_blocks_removed_def split: if_splits)
  then show ?case using reorg(2) slashing_reorg_hashes [OF v(1)] by (intro journal_step_same [of w v]) (auto simp: flushed_def)
next
  case (flush io w d ok wd')
  then have "flushed J io (w, d) wd'" by (auto simp: flush_state_def flushed_def split: if_splits)
  then show ?case using flush(2) by (intro journal_step_same [of w w]) simp_all
qed

subsection \<open>Runs\<close>

text \<open>A run starts on an empty disk and consists of operations and restarts. A restart may follow any operation and stands for a crash
  as well: it sees the disk only. Appends to the journal and its truncation succeed, snapshots may fail. The sequence
  number, a \<open>u64\<close>, does not wrap, and there are fewer than \<open>2 ^ 62\<close> entries.\<close>

abbreviation empty_disk :: disk where
  "empty_disk \<equiv> \<lparr>snapshot_file = NotFound, journal_file = NotFound\<rparr>"

inductive escrow_run :: "crypto \<Rightarrow> json \<Rightarrow> bool \<Rightarrow> escrow_watcher \<times> disk \<Rightarrow> bool" for X J testnet where
  start: "new_watcher X J t privkey addr empty_disk = Inr w \<Longrightarrow> escrow_run X J testnet (w, empty_disk)"
| step: "escrow_run X J testnet (w, d) \<Longrightarrow> watcher_step X J testnet io (w, d) (w', d') \<Longrightarrow> io_ok io \<Longrightarrow>
    journal_seq w \<le> journal_seq w' \<Longrightarrow> length (ents w') < 2 ^ 62 \<Longrightarrow> escrow_run X J testnet (w', d')"
| restart: "escrow_run X J testnet (w, d) \<Longrightarrow> new_watcher X J t privkey addr d = Inr w' \<Longrightarrow> escrow_run X J testnet (w', d)"

lemma no_wrap:
  fixes a b :: u64
  assumes "b = a + word_of_nat n" and "a \<le> b" and "n < 2 ^ 64"
  shows "unat a + n < 2 ^ 64"
proof (rule ccontr)
  assume big: "\<not> unat a + n < 2 ^ 64"
  have u: "unat (word_of_nat n :: u64) = n" using assms(3) by (simp add: unat_of_nat)
  have "unat b = (unat a + n) mod 2 ^ 64" unfolding assms(1) by (simp add: unat_word_ariths u)
  moreover have "unat a < 2 ^ 64" using unat_lt [of a] by simp
  ultimately have "unat b = unat a + n - 2 ^ 64" using big assms(3) by (simp add: mod_if)
  then have "unat b < unat a" using assms(3) big by linarith
  then show False using assms(2) by (simp add: word_le_nat_alt)
qed

lemma new_watcher_state:
  assumes "new_watcher X J t privkey addr d = Inr w"
  shows "load_state J d = Inr \<lparr>entries = ents w, state_seq = journal_seq w\<rparr> \<and> journal_pending w = [] \<and> \<not> snapshot_due w \<and> in_flight w = []"
proof -
  obtain st k where w: "load_state J d = Inr st" "w = rebuild_indexes \<lparr>keys = k, wstate = st, in_flight = [], in_flight_outpoints = {}, last_daa_score = 0,
      outpoint_set = {}, block_index = Map.empty, journal_pending = [], journal_seq = state_seq st, journal_bytes_since_snapshot = 0,
      last_journal_write = t, snapshot_due = False, last_snapshot = t, blocks_since_compact = 0, blocks_since_status = 0,
      validation_pending = [], validation_purged = 0, validation_unknown = 0\<rparr>" (is "w = rebuild_indexes ?v")
    using assms by (auto simp: new_watcher_def Let_def rbind_Inr map_err_def split: option.splits if_splits sum.splits)
  show ?thesis
    using w(1) rebuild_loop_facts [of 0 "ents ?v" "?v\<lparr>outpoint_set := {}, block_index := Map.empty\<rparr>"]
      rebuild_loop_journal [of 0 "ents ?v" "?v\<lparr>outpoint_set := {}, block_index := Map.empty\<rparr>"]
    by (simp add: w(2) rebuild_indexes_def)
qed

lemma run_backed:
  assumes "json_ok J" and "escrow_run X J testnet wd"
  shows "backed J (fst wd) (snd wd) \<and> small_claims (fst wd)"
  using assms(2)
proof (induction rule: escrow_run.induct)
  case (start t privkey addr w)
  have "load_state J empty_disk = Inr \<lparr>entries = [], state_seq = 0\<rparr>" by (simp add: load_state_def replay_journal_def)
  then have w: "\<lparr>entries = ents w, state_seq = journal_seq w\<rparr> = \<lparr>entries = [], state_seq = 0\<rparr>" "journal_pending w = []" "in_flight w = []"
    using new_watcher_state [OF start] by simp_all
  then have "fold apply_line ([] @ []) \<lparr>entries = [], state_seq = 0\<rparr> = \<lparr>entries = ents w, state_seq = journal_seq w\<rparr>" by simp
  moreover have "load_snapshot J empty_disk = Inr \<lparr>entries = [], state_seq = 0\<rparr>" "holds_journal J empty_disk []" "journal_pending w = journal_bytes J []"
    using w(2) by (simp_all add: load_snapshot_def holds_journal_def journal_bytes_def)
  ultimately have "backed J w empty_disk" unfolding backed_def by (intro exI conjI) auto
  then show ?case using w(3) by (simp add: small_claims_def)
next
  case (step w d io w' d')
  then obtain v where v: "journals J (2 * length (ents v) + 87) w v" "flushed J io (v, d) (w', d')" "small_claims v"
    using watcher_journal_step [OF step(2)] unfolding journal_step_def by auto
  note f = flushed_sel [OF v(2)]
  obtain n where n: "journalled J n w v" "n \<le> 2 * length (ents v) + 87" using v(1) unfolding journals_def by blast
  have "n < 2 ^ 64" using n(2) step(5) f(1) by simp
  then have "unat (journal_seq w) + n < 2 ^ 64"
    using no_wrap [of "journal_seq v" "journal_seq w" n] journalled_seq [OF n(1) assms(1)] step(4) f(2) by simp
  then have "backed J v d" using backed_journalled [OF assms(1) n(1)] step.IH by simp
  then show ?case using backed_flushed [OF assms(1) step(3) _ v(2)] v(3) f(3) by (simp add: small_claims_def)
next
  case (restart w d t privkey addr w')
  obtain s D where s: "load_snapshot J d = Inr s" "holds_journal J d D" using restart.IH unfolding backed_def by auto
  note w' = new_watcher_state [OF restart(2)]
  then have st: "fold apply_line D s = \<lparr>entries = ents w', state_seq = journal_seq w'\<rparr>" using load_state_eq [OF assms(1) s] by simp
  have "journal_pending w' = journal_bytes J []" using w' by (simp add: journal_bytes_def)
  moreover have "state_seq s \<le> journal_seq w'" "\<forall>l \<in> set (D @ []). fst l \<le> journal_seq w'" using seq_after [of D s] by (simp_all add: st)
  moreover have "fold apply_line (D @ []) s = \<lparr>entries = ents w', state_seq = journal_seq w'\<rparr>" by (simp add: st)
  ultimately have "backed J w' d" unfolding backed_def using s by blast
  then show ?case using w' by (simp add: small_claims_def)
qed

subsection \<open>Properties\<close>

text \<open>C15. Crash recovery, in every state of a run of operations, crashes and restarts from an empty disk: the disk can always
  be loaded. Once a snapshot is installed a restart loads exactly the entries and the sequence number in memory, also
  when the machine stops before the journal is emptied. Unless a compaction waits for its snapshot or two entries share an
  outpoint, a restart at any moment loads a state from which the lines still pending lead to the memory, so that a crash
  loses those lines only, and once the journal is written a restart loads exactly the memory. Two entries can share an
  outpoint after a reorg; \<open>readded_entry_lost\<close> below shows what a restart may then lose.\<close>

theorem journal_recovers_entries:
  assumes "json_ok J" and "escrow_run X J testnet (w, d)"
  shows "(\<exists>t. load_state J d = Inr t)
    \<and> (replace_result io \<noteq> NotReplaced \<longrightarrow> empty_fault io = None \<longrightarrow> write_snapshot J io (w, d) = (ok, w', d') \<longrightarrow>
         load_state J d' = Inr \<lparr>entries = ents w, state_seq = journal_seq w\<rparr>)
    \<and> (\<not> snapshot_due w \<longrightarrow> distinct (map entry_key (ents w)) \<longrightarrow>
         (\<exists>t P. load_state J d = Inr t \<and> journal_pending w = journal_bytes J P
            \<and> fold apply_line P t = \<lparr>entries = ents w, state_seq = journal_seq w\<rparr>)
         \<and> (append_fault io = None \<longrightarrow> write_journal io (w, d) = (ok, w', d') \<longrightarrow>
              load_state J d' = Inr \<lparr>entries = ents w, state_seq = journal_seq w\<rparr>))"
proof (intro conjI impI)
  have b: "backed J w d" using run_backed [OF assms] by simp
  obtain s D P where s: "load_snapshot J d = Inr s" "holds_journal J d D" "journal_pending w = journal_bytes J P"
    "snapshot_due w \<or> \<not> all_distinct w \<or> fold apply_line (D @ P) s = \<lparr>entries = ents w, state_seq = journal_seq w\<rparr>"
    using b unfolding backed_def by blast
  show "\<exists>t. load_state J d = Inr t" using load_state_eq [OF assms(1) s(1,2)] by blast
  show "load_state J d' = Inr \<lparr>entries = ents w, state_seq = journal_seq w\<rparr>"
    if r: "replace_result io \<noteq> NotReplaced" "empty_fault io = None" "write_snapshot J io (w, d) = (ok, w', d')"
  proof -
    obtain D' P' where f: "load_snapshot J d' = Inr \<lparr>entries = ents w, state_seq = journal_seq w\<rparr>" "holds_journal J d' D'"
      "\<forall>l \<in> set (D' @ P'). fst l \<le> journal_seq w"
      using write_snapshot_installed [OF assms(1) b r(2,1,3)] by blast
    then show ?thesis using load_state_eq [OF assms(1) f(1,2)] stale_lines [of D' "\<lparr>entries = ents w, state_seq = journal_seq w\<rparr>"] by simp
  qed
  assume d: "\<not> snapshot_due w" "distinct (map entry_key (ents w))"
  then have m: "fold apply_line (D @ P) s = \<lparr>entries = ents w, state_seq = journal_seq w\<rparr>" using s(4) by blast
  then have "fold apply_line P (fold apply_line D s) = \<lparr>entries = ents w, state_seq = journal_seq w\<rparr>" by simp
  then show "\<exists>t P. load_state J d = Inr t \<and> journal_pending w = journal_bytes J P \<and> fold apply_line P t = \<lparr>entries = ents w, state_seq = journal_seq w\<rparr>"
    using load_state_eq [OF assms(1) s(1,2)] s(3) by blast
  show "load_state J d' = Inr \<lparr>entries = ents w, state_seq = journal_seq w\<rparr>" if "append_fault io = None" "write_journal io (w, d) = (ok, w', d')"
  proof -
    have "snapshot_file d' = snapshot_file d" "holds_journal J d' (D @ P)"
      using that s(2,3) by (auto simp: write_journal_def Let_def holds_journal_def append_file_def journal_bytes_append split: if_splits)
    then show ?thesis using load_state_eq [OF assms(1), of d' s "D @ P"] s(1) m by (simp add: load_snapshot_def)
  qed
qed

text \<open>A line cut short swallows the next one: when the journal ends in a torn piece of a line, the next line, although
  \<open>write_journal\<close> reports it written and synced, is glued to the piece, and a restart loads the state without it unless the
  two together happen to parse.\<close>

theorem torn_line_swallows_next:
  assumes "json_ok J" and "load_snapshot J d = Inr s" and "journal_file d = Contents (journal_bytes J ls @ torn)"
    and "torn \<noteq> []" and "0x0A \<notin> set torn" and "journal_pending w = line_of J l @ [0x0A]"
    and "line_from_str J (torn @ line_of J l) = None" and "is_utf8 (torn @ line_of J l)"
    and "append_fault io = None"
  shows "\<exists>w' d'. write_journal io (w, d) = (True, w', d') \<and> journal_pending w' = [] \<and> load_state J d' = Inr (fold apply_line ls s)"
proof -
  let ?all = "journal_bytes J ls @ torn @ line_of J l @ [0x0A]"
  have "\<exists>w' d'. write_journal io (w, d) = (True, w', d') \<and> journal_pending w' = [] \<and> snapshot_file d' = snapshot_file d
    \<and> journal_file d' = Contents ?all"
    using assms(3,6,9) by (simp add: write_journal_def Let_def append_file_def)
  then obtain w' d' where wd: "write_journal io (w, d) = (True, w', d')" "journal_pending w' = []" "snapshot_file d' = snapshot_file d"
    "journal_file d' = Contents ?all"
    by blast
  have "0x0A \<notin> set (torn @ line_of J l)" using assms(5) json_line(5) [OF assms(1)] by simp
  from split_lines_no_feed [OF this, of "[0x0A]" "[]"]
  have "split_lines ((torn @ line_of J l) @ [0x0A]) [] = [torn @ line_of J l]"
    using json_line(3,6) [OF assms(1), of l] by simp
  then have lines: "split_lines ?all [] = map (line_of J) ls @ [torn @ line_of J l]"
    using split_lines_journal [OF assms(1), of ls "torn @ line_of J l @ [0x0A]"] by simp
  have "list_all is_utf8 (split_lines ?all [])" unfolding lines using json_line(7) [OF assms(1)] assms(8) by (simp add: list_all_iff)
  moreover have "replay_line J (torn @ line_of J l) t = t" for t using assms(7) by (simp add: replay_line_def)
  ultimately have "replay_journal J (journal_file d') s = Inr (fold apply_line ls s)"
    unfolding wd(4) replay_journal_def by (simp add: lines replay_lines [OF assms(1)])
  then have "load_state J d' = Inr (fold apply_line ls s)"
    using assms(2) wd(3) by (simp add: load_state_def load_snapshot_def)
  with wd show ?thesis by blast
qed

text \<open>What goes wrong when two entries share an outpoint. After a reorg takes the block of an entry off the chain and it returns,
  the list holds the slashed copy and, behind it, the entry tracked anew. A rejection looks its outpoint up from the front
  and journals the slashed copy; a replay looks it up from the back and overwrites the live entry with it. After the restart
  only slashed entries are left, although the entry is in memory and was not slashed.\<close>

theorem readded_entry_lost:
  assumes "json_ok J" and "load_snapshot J d = Inr \<lparr>entries = [a, e], state_seq = q\<rparr>" and "holds_journal J d []"
    and "ents w = [a, e]" and "journal_seq w = q" and "journal_pending w = []" and "unat q + 1 < 2 ^ 64"
    and "outpoint_of a = outpoint_of e" and "slashed a" and "\<not> slashed e" and "append_fault io = None"
    and "write_journal io (reject_outpoint J msg n (outpoint_of e) w, d) = (ok, w', d')"
  shows "e \<in> set (ents w') \<and> (\<exists>s. load_state J d' = Inr s \<and> (\<forall>x \<in> set (entries s). slashed x))"
proof -
  let ?a = "reject_entry msg n (last_daa_score w) (outpoint_of e) a" and ?w = "reject_outpoint J msg n (outpoint_of e) w"
  have f: "find_outpoint (ents w) (outpoint_of e) = Some 0" using assms(8) by (simp add: find_outpoint_iff assms(4))
  have w: "?w = modify_entry J 0 (reject_entry msg n (last_daa_score w) (outpoint_of e)) w" using f by (simp add: reject_outpoint_def)
  have a: "slashed ?a" "outpoint_of ?a = outpoint_of e"
    using keeps_entry_simps(4) [of msg n "last_daa_score w" "outpoint_of e"] assms(8,9) unfolding keeps_entry_def by auto
  have p: "journal_pending ?w = journal_bytes J [(q + 1, ?a)]"
    using append_journal_eq(1) [OF assms(1)] by (simp add: w modify_entry_def assms(4-6) journal_bytes_def)
  have j: "holds_journal J d' [(q + 1, ?a)]" "snapshot_file d' = snapshot_file d" "ents w' = ents ?w"
    using assms(3,11,12) p
    by (auto simp: write_journal_def Let_def holds_journal_def append_file_def journal_bytes_def split: if_splits)
  have "unat (q + 1) = unat q + 1" using assms(7) unat_add_lem [of q "1 :: u64"] by simp
  then have q: "\<not> q + 1 \<le> q" by (simp add: word_le_nat_alt)
  have "entry_key ?a = entry_key e" using a(2) by simp
  moreover have "last_position (entry_key e) [a, e] = Some 1" by (simp add: last_position_def upt_rec)
  ultimately have "upsert ?a [a, e] = [a, ?a]" by (simp add: upsert_def)
  then have "fold apply_line [(q + 1, ?a)] \<lparr>entries = [a, e], state_seq = q\<rparr> = \<lparr>entries = [a, ?a], state_seq = q + 1\<rparr>"
    using q by (simp add: apply_line_def)
  moreover have "load_snapshot J d' = Inr \<lparr>entries = [a, e], state_seq = q\<rparr>" using assms(2) j(2) by (simp add: load_snapshot_def)
  ultimately have "load_state J d' = Inr \<lparr>entries = [a, ?a], state_seq = q + 1\<rparr>" using load_state_eq [OF assms(1) _ j(1)] by simp
  moreover have "e \<in> set (ents w')" by (simp add: j(3) w assms(4))
  ultimately show ?thesis using a(1) assms(9) by simp
qed

subsection \<open>Witnesses\<close>

text \<open>A codec that satisfies \<open>json_ok\<close>: the numbers of a line in decimal, each followed by a comma.\<close>

definition toy_num :: "nat \<Rightarrow> bytes" where
  "toy_num n = map (\<lambda>c. word_of_nat (of_char c)) (dec_digits n) @ [44]"

definition toy_nums :: "nat list \<Rightarrow> bytes" where
  "toy_nums ns = concat (map toy_num ns)"

definition toy_entry_nums :: "escrow_entry \<Rightarrow> nat list" where
  "toy_entry_nums e = length (coinbase_txid e) # map of_char (coinbase_txid e) @ length (block_hash e) # map of_char (block_hash e)
     @ [unat (confirm_daa e), unat (amount_sompi e), unat (output_index e), of_bool (claimed e), of_bool (slashed e), of_bool (orphan_slashed e),
        unat (orphan_retries e), (case orphan_retry_after_daa e of None \<Rightarrow> 0 | Some x \<Rightarrow> Suc (unat x)), unat (submit_retries e),
        unat (batch_cap e), unat (cap_set_daa e), of_bool (is_inference e), unat (csv_window e)]"

definition toy_line :: "u64 \<times> escrow_entry \<Rightarrow> bytes" where
  "toy_line l = toy_nums (unat (fst l) # toy_entry_nums (snd l))"

definition toy_state :: "escrow_state \<Rightarrow> bytes" where
  "toy_state s = concat (map (\<lambda>l. toy_line l @ [0x0A]) (map (Pair (state_seq s)) (toy_live # entries s)))"

definition inverse_of :: "('a \<Rightarrow> bytes) \<Rightarrow> bytes \<Rightarrow> 'a option" where
  "inverse_of f bs = (if bs \<in> range f then Some (inv f bs) else None)"

definition toy_codec :: json where
  "toy_codec = \<lparr>line_to_vec = (\<lambda>l. Some (toy_line l)), line_from_str = inverse_of toy_line,
     state_to_vec = (\<lambda>s. Some (toy_state s)), state_from_str = inverse_of toy_state\<rparr>"

lemma inverse_of [simp]: "inj f \<Longrightarrow> inverse_of f (f x) = Some x"
  by (simp add: inverse_of_def)

lemma dec_digit_chars: "c \<in> set (dec_digits n) \<Longrightarrow> \<exists>k < 10 :: nat. c = char_of (48 + k)"
proof (induction n rule: dec_digits.induct)
  case (1 n)
  show ?case
  proof (cases "n < 10")
    case True
    then show ?thesis using 1(2) by (subst (asm) dec_digits.simps) auto
  next
    case False
    then have "c \<in> set (dec_digits (n div 10)) \<or> c = char_of (48 + n mod 10)" using 1(2) by (subst (asm) dec_digits.simps) auto
    moreover have "n mod 10 < 10" by simp
    ultimately show ?thesis using 1(1) [OF False] by blast
  qed
qed

lemma toy_digit_byte: "b \<in> (\<lambda>c. word_of_nat (of_char c)) ` set (dec_digits n) \<Longrightarrow> 48 \<le> b \<and> b \<le> (57 :: u8)"
proof -
  assume "b \<in> (\<lambda>c. word_of_nat (of_char c)) ` set (dec_digits n)"
  then obtain c where c: "b = word_of_nat (of_char c)" "c \<in> set (dec_digits n)" by blast
  obtain k :: nat where k: "k < 10" "c = char_of (48 + k)" using dec_digit_chars [OF c(2)] by blast
  have "(of_char c :: nat) = 48 + k" using k by (simp add: of_char_of)
  then have "unat b = 48 + k" using k(1) c(1) by (simp add: unat_of_nat del: of_nat_add)
  then show ?thesis using k(1) by (simp add: word_le_nat_alt)
qed

lemma inj_char_byte: "inj (\<lambda>c. word_of_nat (of_char c) :: u8)"
  by (rule injI) (simp add: word_of_nat_eq_iff take_bit_nat_eq_self)

text \<open>The comma ends a number, so the numbers can be told apart.\<close>

lemma split_at_first:
  "a @ x # b = c @ x # d \<Longrightarrow> x \<notin> set a \<Longrightarrow> x \<notin> set c \<Longrightarrow> a = c \<and> b = d"
  by (induction a arbitrary: c) (auto simp: Cons_eq_append_conv append_eq_Cons_conv)

lemma toy_nums_simps [simp]: "toy_nums [] = []" "toy_nums (n # ns) = toy_num n @ toy_nums ns"
  by (simp_all add: toy_nums_def)

lemma toy_nums_inject: "toy_nums ms = toy_nums ns \<Longrightarrow> ms = ns"
proof (induction ms arbitrary: ns)
  case Nil
  then show ?case by (cases ns) (simp_all add: toy_num_def)
next
  case (Cons m ms)
  then obtain n ns' where ns: "ns = n # ns'" by (cases ns) (simp_all add: toy_num_def)
  let ?d = "\<lambda>n. map (\<lambda>c. word_of_nat (of_char c) :: u8) (dec_digits n)"
  have no: "(44 :: u8) \<notin> set (?d k)" for k using toy_digit_byte [of 44 k] by auto
  have "?d m @ 44 # toy_nums ms = ?d n @ 44 # toy_nums ns'" using Cons.prems by (simp add: ns toy_num_def)
  from split_at_first [OF this no no] have "?d m = ?d n" "toy_nums ms = toy_nums ns'" by simp_all
  moreover from this(1) have "m = n" using inj_map_eq_map [OF inj_char_byte] undec_dec_digits by metis
  ultimately show ?case using Cons.IH ns by simp
qed

lemma toy_nums_bytes: "b \<in> set (toy_nums ns) \<Longrightarrow> 44 \<le> b \<and> b \<le> 57"
proof (induction ns)
  case (Cons n ns)
  have "44 \<le> c \<and> c \<le> 57" if "c \<in> set (toy_num n)" for c
    using that toy_digit_byte [of c n] by (auto simp: toy_num_def intro: order_trans [of 44 48])
  with Cons show ?case by auto
qed simp

lemma toy_entry_nums_inject: "toy_entry_nums e = toy_entry_nums e' \<Longrightarrow> e = e'"
proof -
  assume eq: "toy_entry_nums e = toy_entry_nums e'"
  have "map of_char (coinbase_txid e) = (map of_char (coinbase_txid e') :: nat list)"
    "map of_char (block_hash e) = (map of_char (block_hash e') :: nat list)"
    using eq by (auto simp: toy_entry_nums_def)
  moreover have "inj (of_char :: char \<Rightarrow> nat)" by (rule injI) simp
  ultimately have "coinbase_txid e = coinbase_txid e'" "block_hash e = block_hash e'" by (simp_all add: inj_map_eq_map)
  then show "e = e'" using eq by (cases e; cases e') (auto simp: toy_entry_nums_def word_unat_eq_iff of_bool_eq_iff split: option.splits)
qed

lemma inj_toy_line: "inj toy_line"
proof (rule injI)
  fix a b
  assume "toy_line a = toy_line b"
  then have "unat (fst a) # toy_entry_nums (snd a) = unat (fst b) # toy_entry_nums (snd b)"
    unfolding toy_line_def by (rule toy_nums_inject)
  then show "a = b" using toy_entry_nums_inject [of "snd a" "snd b"] by (simp add: prod_eq_iff word_unat_eq_iff)
qed

lemma toy_line_bytes: "b \<in> set (toy_line l) \<Longrightarrow> 44 \<le> b \<and> b \<le> 57"
  unfolding toy_line_def by (rule toy_nums_bytes)

lemma toy_line_ok: "toy_line l \<noteq> []" "\<not> is_blank (toy_line l)" "0x0A \<notin> set (toy_line l)" "last (toy_line l) \<noteq> 0x0D" "is_utf8 (toy_line l)"
proof -
  show ne: "toy_line l \<noteq> []" by (simp add: toy_line_def toy_num_def)
  show "0x0A \<notin> set (toy_line l)" by (auto dest: toy_line_bytes)
  show "last (toy_line l) \<noteq> 0x0D" using toy_line_bytes [OF last_in_set [OF ne]] by auto
  have "b < 0x80" if "b \<in> set (toy_line l)" for b using toy_line_bytes [OF that] by (auto intro: le_less_trans)
  then show "is_utf8 (toy_line l)" by (intro ascii_utf8) blast
  have "44 \<in> set (toy_line l)" by (simp add: toy_line_def toy_num_def)
  moreover have "\<not> is_space (char_of (unat (44 :: u8)))" by code_simp
  ultimately show "\<not> is_blank (toy_line l)" unfolding is_blank_def list_all_iff by blast
qed

lemma toy_state_lines: "split_lines (concat (map (\<lambda>l. toy_line l @ [0x0A]) ls)) [] = map toy_line ls"
proof (induction ls)
  case (Cons l ls)
  show ?case using split_lines_no_feed [OF toy_line_ok(3), of l "0x0A # concat (map (\<lambda>l. toy_line l @ [0x0A]) ls)" "[]"] Cons toy_line_ok(1,4) [of l]
    by simp
qed simp

lemma inj_toy_state: "inj toy_state"
proof (rule injI)
  fix s t
  assume "toy_state s = toy_state t"
  then have "map toy_line (map (Pair (state_seq s)) (toy_live # entries s)) = map toy_line (map (Pair (state_seq t)) (toy_live # entries t))"
    unfolding toy_state_def by (metis toy_state_lines)
  then have "map (Pair (state_seq s)) (toy_live # entries s) = map (Pair (state_seq t)) (toy_live # entries t)"
    using inj_map_eq_map [OF inj_toy_line] by blast
  then have q: "state_seq s = state_seq t" and es: "map (Pair (state_seq s)) (entries s) = map (Pair (state_seq t)) (entries t)"
    unfolding list.map list.inject prod.inject by blast+
  have "entries s = entries t" using arg_cong [OF es, of "map snd"] by (simp add: comp_def)
  note q this
  then show "s = t" by (cases s; cases t) simp
qed

lemma toy_codec_ok: "json_ok toy_codec"
  unfolding json_ok_def
proof (intro conjI allI)
  show "\<exists>bs. line_to_vec toy_codec l = Some bs \<and> line_from_str toy_codec bs = Some l \<and> bs \<noteq> [] \<and> \<not> is_blank bs \<and> 0x0A \<notin> set bs
      \<and> last bs \<noteq> 0x0D \<and> is_utf8 bs" for l
    using toy_line_ok [of l] inj_toy_line by (simp add: toy_codec_def)
  have "b < 0x80" if "b \<in> set (toy_state s)" for b s
  proof -
    from that have "b = 0x0A \<or> (\<exists>l. b \<in> set (toy_line l))" by (auto simp: toy_state_def split: if_splits)
    then show ?thesis using toy_line_bytes [of b] by (auto intro: le_less_trans [of b 57])
  qed
  then have "is_utf8 (toy_state s)" for s by (intro ascii_utf8) blast
  then show "\<exists>bs. state_to_vec toy_codec s = Some bs \<and> state_from_str toy_codec bs = Some s \<and> is_utf8 bs" for s
    using inj_toy_state by (simp add: toy_codec_def)
qed

lemma toy_codec_start:
  "\<exists>w. escrow_run toy_crypto toy_codec False (w, empty_disk) \<and> ents w = [] \<and> journal_pending w = [] \<and> journal_seq w = 0
    \<and> \<not> snapshot_due w \<and> outpoint_set w = {}"
proof -
  let ?sk = "replicate 32 0 :: bytes" and ?addr = "''keryx'' @ '':'' @ replicate 53 CHR ''q'' @ ''qqqqqqqq''"
  have sk: "hex_decode toy_crypto (toy_hex ?sk) = Some ?sk" "secret_valid toy_crypto ?sk"
    by (simp_all add: toy_crypto_def toy_hex_facts)
  have ld: "load_state toy_codec empty_disk = Inr \<lparr>entries = [], state_seq = 0\<rparr>" by (simp add: load_state_def replay_journal_def)
  obtain w where w: "new_watcher toy_crypto toy_codec 5 (toy_hex ?sk) ?addr empty_disk = Inr w"
    and f: "ents w = []" "journal_pending w = []" "journal_seq w = 0" "\<not> snapshot_due w" "outpoint_set w = {}"
    unfolding new_watcher_def ld toy_address using sk by (simp add: map_err_def rebuild_indexes_def Let_def)
  have "escrow_run toy_crypto toy_codec False (w, empty_disk)" by (rule escrow_run.start [OF w])
  then show ?thesis using f by blast
qed

text \<open>One inference escrow is tracked and its journal line written.\<close>

theorem journal_recovers_entries_witness:
  "\<exists>w d w' d'. escrow_run toy_crypto toy_codec False (w, d) \<and> ents w = [new_entry ''aa'' [] 7 100 1 True 36000]
    \<and> write_journal toy_io (w, d) = (True, w', d') \<and> load_state toy_codec d' = Inr \<lparr>entries = ents w, state_seq = 1\<rparr>"
proof -
  let ?e = "new_entry ''aa'' [] 7 100 1 True 36000"
  obtain u where u: "escrow_run toy_crypto toy_codec False (u, empty_disk)" "ents u = []" "journal_pending u = []" "journal_seq u = 0"
    "\<not> snapshot_due u" "outpoint_set u = {}"
    using toy_codec_start by blast
  define v where "v = append_journal_line toy_codec ?e ((set_ents [?e] u)\<lparr>outpoint_set := {outpoint_key ''aa'' 1}\<rparr>)"
  have v: "ents v = [?e]" "journal_seq v = 1" "\<not> snapshot_due v"
    using append_journal_eq(2) [OF toy_codec_ok] u(4,5) by (simp_all add: v_def)
  obtain w d where wd: "maybe_flush toy_codec toy_io (v, empty_disk) = (w, d)" by fastforce
  have "flushed toy_codec toy_io (v, empty_disk) (w, d)" by (simp add: flushed_def wd)
  then have w: "ents w = [?e]" "journal_seq w = 1" using flushed_sel v(1,2) by metis+
  have due: "\<not> snapshot_due w"
    using wd v(3) by (auto simp: maybe_flush_def write_snapshot_def write_journal_def Let_def split: if_splits prod.splits option.splits)
  have "track_inference_escrow toy_codec toy_io ''aa'' 7 100 (u, empty_disk) = (w, d)"
    using u(2,6) wd by (simp add: track_inference_escrow_def v_def CHALLENGE_WINDOW_BLOCKS_def Let_def)
  then have "watcher_step toy_crypto toy_codec False toy_io (u, empty_disk) (w, d)" by (rule watcher_step.inference)
  then have r: "escrow_run toy_crypto toy_codec False (w, d)"
    by (rule escrow_run.step [OF u(1)]) (simp_all add: io_ok_def toy_io_def u(4) w)
  have "\<exists>w' d'. write_journal toy_io (w, d) = (True, w', d')" by (simp add: write_journal_def toy_io_def Let_def)
  then obtain w' d' where wr: "write_journal toy_io (w, d) = (True, w', d')" by blast
  have "load_state toy_codec d' = Inr \<lparr>entries = ents w, state_seq = 1\<rparr>"
    using journal_recovers_entries [OF toy_codec_ok r, of toy_io True w' d'] wr w due by (simp add: toy_io_def)
  then show ?thesis using r w(1) wr by blast
qed

theorem torn_line_swallows_next_witness:
  "\<exists>w d w' d'. journal_file d = Contents [0x30] \<and> journal_pending w = toy_line (1, toy_live) @ [0x0A]
    \<and> write_journal toy_io (w, d) = (True, w', d') \<and> load_state toy_codec d' = Inr \<lparr>entries = [], state_seq = 0\<rparr>"
proof -
  let ?d = "\<lparr>snapshot_file = NotFound, journal_file = Contents [0x30]\<rparr>"
  obtain v where "ents v = [toy_live]" using toy_reachable by blast
  let ?w = "v\<lparr>journal_pending := line_of toy_codec (1, toy_live) @ [0x0A]\<rparr>"
  have tl: "line_of toy_codec (1, toy_live) = toy_line (1, toy_live)" by (simp add: toy_codec_def)
  have d1: "dec_digits 1 = [CHR ''1'']" by code_simp
  have "[0x30] @ toy_line (1, toy_live) \<noteq> toy_line l" for l
  proof
    assume eq: "[0x30] @ toy_line (1, toy_live) = toy_line l"
    let ?d = "\<lambda>n. map (\<lambda>c. word_of_nat (of_char c) :: u8) (dec_digits n)"
    have no: "(44 :: u8) \<notin> set (?d k)" for k using toy_digit_byte [of 44 k] by auto
    have "(0x30 # ?d 1) @ 44 # toy_nums (toy_entry_nums toy_live) = ?d (unat (fst l)) @ 44 # toy_nums (toy_entry_nums (snd l))"
      using eq by (simp add: toy_line_def toy_num_def)
    from split_at_first [OF this] no have dd: "0x30 # ?d 1 = ?d (unat (fst l))" by simp
    also have "0x30 # ?d 1 = map (\<lambda>c. word_of_nat (of_char c) :: u8) ''01''" by (simp add: d1 [simplified])
    finally have "dec_digits (unat (fst l)) = ''01''" using inj_map_eq_map [OF inj_char_byte] by metis
    then have "unat (fst l) = 1" using undec_dec_digits [of "unat (fst l)"] by simp
    with \<open>dec_digits (unat (fst l)) = ''01''\<close> d1 show False by simp
  qed
  then have bad: "line_from_str toy_codec ([0x30] @ line_of toy_codec (1, toy_live)) = None"
    unfolding tl by (auto simp: toy_codec_def inverse_of_def)
  have "is_utf8 ([0x30] @ line_of toy_codec (1, toy_live))"
    unfolding tl using toy_line_ok(5) [of "(1, toy_live)"] by (simp add: utf8_trail_def)
  then have "\<exists>w' d'. write_journal toy_io (?w, ?d) = (True, w', d') \<and> journal_pending w' = [] \<and> load_state toy_codec d' = Inr (fold apply_line [] \<lparr>entries = [], state_seq = 0\<rparr>)"
    using torn_line_swallows_next [OF toy_codec_ok, of ?d "\<lparr>entries = [], state_seq = 0\<rparr>" "[]" "[0x30]" ?w "(1, toy_live)" toy_io] bad
    by (simp add: load_snapshot_def journal_bytes_def toy_io_def)
  then obtain w' d' where "write_journal toy_io (?w, ?d) = (True, w', d')" "load_state toy_codec d' = Inr \<lparr>entries = [], state_seq = 0\<rparr>" by auto
  moreover have "journal_file ?d = Contents [0x30]" "journal_pending ?w = toy_line (1, toy_live) @ [0x0A]" by (simp_all add: tl)
  ultimately show ?thesis by blast
qed

end
