(* ===== verification/Opening.thy ===== *)
theory Opening
  imports Keryx_Prelude
begin

section \<open>Opening payloads: data types, writer and reader\<close>

text \<open>
  Model of the data types of \<open>verifiable-inference/src/opening.rs\<close> (with \<open>SeqSpan\<close> of \<open>seq.rs\<close>), of its
  writer \<open>W\<close> and of its reader \<open>R\<close>. A writer method returns the bytes it appends. A reader is the suffix
  of the input it has not read yet: \<open>R { b, o }\<close> is \<open>drop o b\<close>, so \<open>r.o == b.len()\<close> says that nothing is
  left. Reading past the end is \<open>None\<close>. Every pair of a writer and a reader interprets the locale
  \<open>codec\<close>, whose law is that the reader gives back what the writer wrote and leaves the rest.
\<close>

named_theorems codec_simps \<open>the reader gives back what the writer wrote\<close>

subsection \<open>Data types\<close>

record entry_opening =
  eo_index :: u32
  eo_bytes :: bytes
  eo_path :: "hash list"

record chunk_range =
  first_chunk :: u64
  cr_chunks :: bytes
  cr_proof :: "hash list"

type_synonym weights = "entry_opening \<times> chunk_range"

record point =
  pt_n_ubatch :: u32
  pt_pos_path :: "hash list"
  pt_meta_path :: "hash list"
  pt_entry :: entry_opening
  pt_partner :: "entry_opening option"
  pt_bias :: "weights option"
  pt_rows :: "chunk_range list"
  pt_x :: bytes
  pt_x_path :: "hash list"
  y_total_len :: u32
  y_chunk_index :: u32
  y_chunk :: bytes
  y_chunk_path :: "hash list"
  y_path :: "hash list"

record prefix_point =
  pp_n_ubatch :: u32
  pp_pos_path :: "hash list"
  pp_meta_path :: "hash list"
  pp_entry :: entry_opening
  pp_x :: bytes
  pp_x_path :: "hash list"
  pp_embd :: weights
  pp_norm :: weights

record expert_ids =
  ids_chunk :: bytes
  ids_chunk_path :: "hash list"

record leaf_chunk =
  lc_total_len :: u32
  lc_index :: u32
  lc_chunk :: bytes
  lc_chunk_path :: "hash list"
  lc_leaf_path :: "hash list"

record leaf_bytes =
  lb_bytes :: bytes
  lb_leaf_path :: "hash list"

record seq_span =
  ss_first_chunk :: u32
  ss_bytes :: bytes
  ss_chunk_proof :: "hash list"
  ss_leaf_path :: "hash list"

datatype link_opening =
    LinkNone
  | LinkNorm leaf_bytes weights
  | LinkToken weights weights
  | LinkSource entry_opening leaf_chunk "expert_ids option"

datatype resid_src = SrcChunk leaf_chunk | SrcToken entry_opening chunk_range

record moe_add =
  ma_scores :: leaf_bytes
  ma_bias :: weights
  ma_ids :: expert_ids
  ma_slots :: "leaf_chunk list"
  ma_shexp :: leaf_chunk
  ma_router_row :: weights
  ma_resid :: leaf_bytes
  ma_norm :: weights

datatype resid_add = AddChunk leaf_chunk | AddNormed leaf_bytes weights | AddMoe moe_add

record resid_point =
  rp_n_ubatch :: u32
  rp_tok :: u32
  rp_pos_path :: "hash list"
  rp_meta_path :: "hash list"
  rp_layer :: entry_opening
  rp_product :: entry_opening
  rp_dst :: leaf_chunk
  rp_src :: resid_src
  rp_add :: resid_add

record trace_opening =
  op_response_txid :: hash
  op_points :: "point list"
  op_prefix :: "prefix_point option"
  op_links :: "(u32 \<times> link_opening) list"
  op_experts :: "expert_ids option list"
  op_resid :: "resid_point option"
  op_roots :: "(hash \<times> hash) option"

record feed_row =
  fr_x :: bytes
  fr_x_path :: "hash list"
  fr_row :: chunk_range
  fr_bias :: "weights option"

record expert_row =
  er_entry :: entry_opening
  er_x :: bytes
  er_x_path :: "hash list"
  er_row :: chunk_range

record resid_opening =
  ro_response_txid :: hash
  ro_roots :: "(hash \<times> hash) option"
  ro_resid :: resid_point
  ro_feed :: feed_row
  ro_expert :: "expert_row option"

record attn_opening =
  ao_response_txid :: hash
  ao_pos_root :: hash
  ao_seq_root :: hash
  ao_layer :: entry_opening
  ao_q_entry :: entry_opening
  ao_o_entry :: entry_opening
  ao_norms :: "weights list"
  ao_pos_path :: "hash list"
  ao_q :: "leaf_chunk list"
  ao_out :: leaf_bytes
  ao_kcache :: seq_span
  ao_vcache :: seq_span
  anchor_pos_path :: "hash list"
  anchor_k :: "leaf_chunk list"
  anchor_v :: "leaf_chunk list"
  ao_absorb :: "leaf_chunk list"
  ao_path :: "u64 list"
  ao_parent :: bytes
  ao_parent_path :: "hash list"
  ao_partials :: bytes
  ao_lse :: seq_span

record recur_tap =
  rt_pos_path :: "hash list"
  rt_q :: leaf_chunk
  rt_k :: leaf_chunk
  rt_v :: leaf_chunk

record recur_opening =
  rc_response_txid :: hash
  rc_pos_root :: hash
  rc_seq_root :: hash
  rc_layer :: entry_opening
  out_entry :: entry_opening
  decay_entry :: entry_opening
  rc_weights :: "weights list"
  rc_records :: seq_span
  start_rows :: seq_span
  end_rows :: seq_span
  rc_taps :: "recur_tap list"
  rc_beta :: leaf_chunk
  rc_decay :: leaf_chunk
  rc_gate :: leaf_chunk
  rc_out :: leaf_bytes

subsection \<open>The writer\<close>

definition w_u8 :: "nat \<Rightarrow> bytes" where "w_u8 n = [word_of_nat n]"

definition w_bytes32 :: "bytes \<Rightarrow> bytes" where
  "w_bytes32 b = u32_le (word_of_nat (length b)) @ b"

text \<open>A length byte \<open>len() as u8\<close> and the items one after the other.\<close>

definition w_list :: "('a \<Rightarrow> bytes) \<Rightarrow> 'a list \<Rightarrow> bytes" where
  "w_list w xs = w_u8 (length xs) @ concat (map w xs)"

definition w_hashes :: "hash list \<Rightarrow> bytes" where "w_hashes = w_list hash_bytes"

text \<open>A flag byte and, after 1, the value.\<close>

definition w_opt :: "('a \<Rightarrow> bytes) \<Rightarrow> 'a option \<Rightarrow> bytes" where
  "w_opt w v = (case v of None \<Rightarrow> w_u8 0 | Some a \<Rightarrow> w_u8 1 @ w a)"

definition w_entry :: "entry_opening \<Rightarrow> bytes" where
  "w_entry e = u32_le (eo_index e) @ u16_le (word_of_nat (length (eo_bytes e))) @ eo_bytes e @ w_hashes (eo_path e)"

definition w_range :: "chunk_range \<Rightarrow> bytes" where
  "w_range r = u64_le (first_chunk r) @ u32_le (word_of_nat (length (cr_chunks r) div 32)) @ cr_chunks r @ w_hashes (cr_proof r)"

definition w_weights :: "weights \<Rightarrow> bytes" where "w_weights w = w_entry (fst w) @ w_range (snd w)"

definition w_leaf_chunk :: "leaf_chunk \<Rightarrow> bytes" where
  "w_leaf_chunk c = u32_le (lc_total_len c) @ u32_le (lc_index c) @ w_bytes32 (lc_chunk c)
     @ w_hashes (lc_chunk_path c) @ w_hashes (lc_leaf_path c)"

definition w_leaf_bytes :: "leaf_bytes \<Rightarrow> bytes" where
  "w_leaf_bytes l = w_bytes32 (lb_bytes l) @ w_hashes (lb_leaf_path l)"

definition w_seq_span :: "seq_span \<Rightarrow> bytes" where
  "w_seq_span s = u32_le (ss_first_chunk s) @ w_bytes32 (ss_bytes s) @ w_hashes (ss_chunk_proof s) @ w_hashes (ss_leaf_path s)"

definition w_ids :: "expert_ids \<Rightarrow> bytes" where
  "w_ids e = w_bytes32 (ids_chunk e) @ w_hashes (ids_chunk_path e)"

fun w_link :: "link_opening \<Rightarrow> bytes" where
  "w_link LinkNone = w_u8 0"
| "w_link (LinkNorm src norm) = w_u8 1 @ w_leaf_bytes src @ w_weights norm"
| "w_link (LinkToken embd norm) = w_u8 2 @ w_weights embd @ w_weights norm"
| "w_link (LinkSource src y ids) = w_u8 3 @ w_entry src @ w_leaf_chunk y @ w_opt w_ids ids"

fun w_resid_src :: "resid_src \<Rightarrow> bytes" where
  "w_resid_src (SrcChunk c) = w_u8 0 @ w_leaf_chunk c"
| "w_resid_src (SrcToken e r) = w_u8 1 @ w_entry e @ w_range r"

definition w_moe :: "moe_add \<Rightarrow> bytes" where
  "w_moe m = w_leaf_bytes (ma_scores m) @ w_weights (ma_bias m) @ w_ids (ma_ids m) @ w_list w_leaf_chunk (ma_slots m)
     @ w_leaf_chunk (ma_shexp m) @ w_weights (ma_router_row m) @ w_leaf_bytes (ma_resid m) @ w_weights (ma_norm m)"

fun w_resid_add :: "resid_add \<Rightarrow> bytes" where
  "w_resid_add (AddChunk c) = w_u8 0 @ w_leaf_chunk c"
| "w_resid_add (AddNormed y norm) = w_u8 1 @ w_leaf_bytes y @ w_weights norm"
| "w_resid_add (AddMoe m) = w_u8 2 @ w_moe m"

definition w_resid :: "resid_point \<Rightarrow> bytes" where
  "w_resid p = u32_le (rp_n_ubatch p) @ u32_le (rp_tok p) @ w_hashes (rp_pos_path p) @ w_hashes (rp_meta_path p)
     @ w_entry (rp_layer p) @ w_entry (rp_product p) @ w_leaf_chunk (rp_dst p)
     @ w_resid_src (rp_src p) @ w_resid_add (rp_add p)"

subsection \<open>The reader\<close>

type_synonym 'a reader = "bytes \<Rightarrow> ('a \<times> bytes) option"

definition r_take :: "nat \<Rightarrow> bytes reader" where
  "r_take n r = (if n \<le> length r then Some (take n r, drop n r) else None)"

definition r_u8 :: "u8 reader" where "r_u8 r = do { (s, r) \<leftarrow> r_take 1 r; Some (s ! 0, r) }"
definition r_u16 :: "u16 reader" where "r_u16 r = do { (s, r) \<leftarrow> r_take 2 r; Some (le_u16 s, r) }"
definition r_u32 :: "u32 reader" where "r_u32 r = do { (s, r) \<leftarrow> r_take 4 r; Some (le_u32 s, r) }"
definition r_u64 :: "u64 reader" where "r_u64 r = do { (s, r) \<leftarrow> r_take 8 r; Some (le_u64 s, r) }"
definition r_hash :: "hash reader" where "r_hash r = do { (s, r) \<leftarrow> r_take 32 r; Some (hash_of_bytes s, r) }"

definition r_bytes32 :: "bytes reader" where
  "r_bytes32 r = do { (n, r) \<leftarrow> r_u32 r; r_take (unat n) r }"

fun r_many :: "nat \<Rightarrow> 'a reader \<Rightarrow> 'a list reader" where
  "r_many 0 rd r = Some ([], r)"
| "r_many (Suc n) rd r = do { (x, r) \<leftarrow> rd r; (xs, r) \<leftarrow> r_many n rd r; Some (x # xs, r) }"

definition r_list :: "'a reader \<Rightarrow> 'a list reader" where
  "r_list rd r = do { (n, r) \<leftarrow> r_u8 r; r_many (unat n) rd r }"

definition r_hashes :: "hash list reader" where "r_hashes = r_list r_hash"

text \<open>A flag of 0 or 1; another one is an error.\<close>

definition r_opt :: "'a reader \<Rightarrow> 'a option reader" where
  "r_opt rd r = do { (f, r) \<leftarrow> r_u8 r;
     if f = 0 then Some (None, r) else if f = 1 then do { (x, r) \<leftarrow> rd r; Some (Some x, r) } else None }"

definition r_entry :: "entry_opening reader" where
  "r_entry r = do { (i, r) \<leftarrow> r_u32 r; (n, r) \<leftarrow> r_u16 r; (b, r) \<leftarrow> r_take (unat n) r; (p, r) \<leftarrow> r_hashes r;
     Some (\<lparr>eo_index = i, eo_bytes = b, eo_path = p\<rparr>, r) }"

definition r_range :: "chunk_range reader" where
  "r_range r = do { (f, r) \<leftarrow> r_u64 r; (n, r) \<leftarrow> r_u32 r; (c, r) \<leftarrow> r_take (unat n * 32) r; (p, r) \<leftarrow> r_hashes r;
     Some (\<lparr>first_chunk = f, cr_chunks = c, cr_proof = p\<rparr>, r) }"

definition r_weights :: "weights reader" where
  "r_weights r = do { (e, r) \<leftarrow> r_entry r; (c, r) \<leftarrow> r_range r; Some ((e, c), r) }"

definition r_leaf_chunk :: "leaf_chunk reader" where
  "r_leaf_chunk r = do { (t, r) \<leftarrow> r_u32 r; (i, r) \<leftarrow> r_u32 r; (c, r) \<leftarrow> r_bytes32 r; (cp, r) \<leftarrow> r_hashes r; (lp, r) \<leftarrow> r_hashes r;
     Some (\<lparr>lc_total_len = t, lc_index = i, lc_chunk = c, lc_chunk_path = cp, lc_leaf_path = lp\<rparr>, r) }"

definition r_leaf_bytes :: "leaf_bytes reader" where
  "r_leaf_bytes r = do { (b, r) \<leftarrow> r_bytes32 r; (p, r) \<leftarrow> r_hashes r; Some (\<lparr>lb_bytes = b, lb_leaf_path = p\<rparr>, r) }"

definition r_seq_span :: "seq_span reader" where
  "r_seq_span r = do { (f, r) \<leftarrow> r_u32 r; (b, r) \<leftarrow> r_bytes32 r; (cp, r) \<leftarrow> r_hashes r; (lp, r) \<leftarrow> r_hashes r;
     Some (\<lparr>ss_first_chunk = f, ss_bytes = b, ss_chunk_proof = cp, ss_leaf_path = lp\<rparr>, r) }"

definition r_ids :: "expert_ids reader" where
  "r_ids r = do { (c, r) \<leftarrow> r_bytes32 r; (p, r) \<leftarrow> r_hashes r; Some (\<lparr>ids_chunk = c, ids_chunk_path = p\<rparr>, r) }"

definition r_link :: "link_opening reader" where
  "r_link r = do { (t, r) \<leftarrow> r_u8 r;
     if t = 0 then Some (LinkNone, r)
     else if t = 1 then do { (src, r) \<leftarrow> r_leaf_bytes r; (norm, r) \<leftarrow> r_weights r; Some (LinkNorm src norm, r) }
     else if t = 2 then do { (embd, r) \<leftarrow> r_weights r; (norm, r) \<leftarrow> r_weights r; Some (LinkToken embd norm, r) }
     else if t = 3 then do { (src, r) \<leftarrow> r_entry r; (y, r) \<leftarrow> r_leaf_chunk r; (ids, r) \<leftarrow> r_opt r_ids r; Some (LinkSource src y ids, r) }
     else None }"

definition r_resid_src :: "resid_src reader" where
  "r_resid_src r = do { (t, r) \<leftarrow> r_u8 r;
     if t = 0 then do { (c, r) \<leftarrow> r_leaf_chunk r; Some (SrcChunk c, r) }
     else if t = 1 then do { (e, r) \<leftarrow> r_entry r; (g, r) \<leftarrow> r_range r; Some (SrcToken e g, r) }
     else None }"

definition r_moe :: "moe_add reader" where
  "r_moe r = do { (scores, r) \<leftarrow> r_leaf_bytes r; (bias, r) \<leftarrow> r_weights r; (ids, r) \<leftarrow> r_ids r; (slots, r) \<leftarrow> r_list r_leaf_chunk r;
     (shexp, r) \<leftarrow> r_leaf_chunk r; (row, r) \<leftarrow> r_weights r; (resid, r) \<leftarrow> r_leaf_bytes r; (norm, r) \<leftarrow> r_weights r;
     Some (\<lparr>ma_scores = scores, ma_bias = bias, ma_ids = ids, ma_slots = slots, ma_shexp = shexp, ma_router_row = row,
            ma_resid = resid, ma_norm = norm\<rparr>, r) }"

definition r_resid_add :: "resid_add reader" where
  "r_resid_add r = do { (t, r) \<leftarrow> r_u8 r;
     if t = 0 then do { (c, r) \<leftarrow> r_leaf_chunk r; Some (AddChunk c, r) }
     else if t = 1 then do { (y, r) \<leftarrow> r_leaf_bytes r; (norm, r) \<leftarrow> r_weights r; Some (AddNormed y norm, r) }
     else if t = 2 then do { (m, r) \<leftarrow> r_moe r; Some (AddMoe m, r) }
     else None }"

definition r_resid :: "resid_point reader" where
  "r_resid r = do { (u, r) \<leftarrow> r_u32 r; (tok, r) \<leftarrow> r_u32 r; (pp, r) \<leftarrow> r_hashes r; (mp, r) \<leftarrow> r_hashes r;
     (layer, r) \<leftarrow> r_entry r; (product, r) \<leftarrow> r_entry r; (dst, r) \<leftarrow> r_leaf_chunk r; (src, r) \<leftarrow> r_resid_src r; (add, r) \<leftarrow> r_resid_add r;
     Some (\<lparr>rp_n_ubatch = u, rp_tok = tok, rp_pos_path = pp, rp_meta_path = mp, rp_layer = layer, rp_product = product,
            rp_dst = dst, rp_src = src, rp_add = add\<rparr>, r) }"

subsection \<open>What the length fields can hold\<close>

text \<open>The writer truncates a length to the width of its field. These predicates say that it fits.\<close>

definition fits_u8 :: "'a list \<Rightarrow> bool" where "fits_u8 xs \<longleftrightarrow> length xs < 2 ^ 8"
definition fits_u32 :: "'a list \<Rightarrow> bool" where "fits_u32 xs \<longleftrightarrow> length xs < 2 ^ 32"

definition list_ok :: "('a \<Rightarrow> bool) \<Rightarrow> 'a list \<Rightarrow> bool" where
  "list_ok P xs \<longleftrightarrow> fits_u8 xs \<and> list_all P xs"

definition entry_ok :: "entry_opening \<Rightarrow> bool" where
  "entry_ok e \<longleftrightarrow> length (eo_bytes e) < 2 ^ 16 \<and> fits_u8 (eo_path e)"

definition range_ok :: "chunk_range \<Rightarrow> bool" where
  "range_ok r \<longleftrightarrow> 32 dvd length (cr_chunks r) \<and> length (cr_chunks r) div 32 < 2 ^ 32 \<and> fits_u8 (cr_proof r)"

definition weights_ok :: "weights \<Rightarrow> bool" where "weights_ok w \<longleftrightarrow> entry_ok (fst w) \<and> range_ok (snd w)"

definition leaf_chunk_ok :: "leaf_chunk \<Rightarrow> bool" where
  "leaf_chunk_ok c \<longleftrightarrow> fits_u32 (lc_chunk c) \<and> fits_u8 (lc_chunk_path c) \<and> fits_u8 (lc_leaf_path c)"

definition leaf_bytes_ok :: "leaf_bytes \<Rightarrow> bool" where
  "leaf_bytes_ok l \<longleftrightarrow> fits_u32 (lb_bytes l) \<and> fits_u8 (lb_leaf_path l)"

definition seq_span_ok :: "seq_span \<Rightarrow> bool" where
  "seq_span_ok s \<longleftrightarrow> fits_u32 (ss_bytes s) \<and> fits_u8 (ss_chunk_proof s) \<and> fits_u8 (ss_leaf_path s)"

definition ids_ok :: "expert_ids \<Rightarrow> bool" where
  "ids_ok e \<longleftrightarrow> fits_u32 (ids_chunk e) \<and> fits_u8 (ids_chunk_path e)"

fun link_ok :: "link_opening \<Rightarrow> bool" where
  "link_ok LinkNone \<longleftrightarrow> True"
| "link_ok (LinkNorm src norm) \<longleftrightarrow> leaf_bytes_ok src \<and> weights_ok norm"
| "link_ok (LinkToken embd norm) \<longleftrightarrow> weights_ok embd \<and> weights_ok norm"
| "link_ok (LinkSource src y ids) \<longleftrightarrow> entry_ok src \<and> leaf_chunk_ok y \<and> pred_option ids_ok ids"

fun resid_src_ok :: "resid_src \<Rightarrow> bool" where
  "resid_src_ok (SrcChunk c) \<longleftrightarrow> leaf_chunk_ok c"
| "resid_src_ok (SrcToken e r) \<longleftrightarrow> entry_ok e \<and> range_ok r"

definition moe_ok :: "moe_add \<Rightarrow> bool" where
  "moe_ok m \<longleftrightarrow> leaf_bytes_ok (ma_scores m) \<and> weights_ok (ma_bias m) \<and> ids_ok (ma_ids m) \<and> list_ok leaf_chunk_ok (ma_slots m)
     \<and> leaf_chunk_ok (ma_shexp m) \<and> weights_ok (ma_router_row m) \<and> leaf_bytes_ok (ma_resid m) \<and> weights_ok (ma_norm m)"

fun resid_add_ok :: "resid_add \<Rightarrow> bool" where
  "resid_add_ok (AddChunk c) \<longleftrightarrow> leaf_chunk_ok c"
| "resid_add_ok (AddNormed y norm) \<longleftrightarrow> leaf_bytes_ok y \<and> weights_ok norm"
| "resid_add_ok (AddMoe m) \<longleftrightarrow> moe_ok m"

definition resid_ok :: "resid_point \<Rightarrow> bool" where
  "resid_ok p \<longleftrightarrow> fits_u8 (rp_pos_path p) \<and> fits_u8 (rp_meta_path p) \<and> entry_ok (rp_layer p) \<and> entry_ok (rp_product p)
     \<and> leaf_chunk_ok (rp_dst p) \<and> resid_src_ok (rp_src p) \<and> resid_add_ok (rp_add p)"

subsection \<open>The codec interface and its instances\<close>

locale codec =
  fixes w :: "'a \<Rightarrow> bytes" and rd :: "'a reader" and ok :: "'a \<Rightarrow> bool"
  assumes reads_back: "ok x \<Longrightarrow> rd (w x @ r) = Some (x, r)"
begin

lemma many: "list_all ok xs \<Longrightarrow> r_many (length xs) rd (concat (map w xs) @ r) = Some (xs, r)"
  by (induction xs) (simp_all add: reads_back)

lemma reads_whole: "ok x \<Longrightarrow> rd (w x) = Some (x, [])"
  using reads_back [of x "[]"] by simp

lemma inject: "ok x \<Longrightarrow> ok y \<Longrightarrow> w x @ r = w y @ s \<Longrightarrow> x = y \<and> r = s"
  by (metis Pair_inject option.inject reads_back)

end

lemma r_take_append [codec_simps]: "length b = n \<Longrightarrow> r_take n (b @ r) = Some (b, r)"
  by (simp add: r_take_def)

lemma r_u8_w [codec_simps]: "r_u8 (w_u8 n @ r) = Some (word_of_nat n, r)"
  by (simp add: r_u8_def r_take_def w_u8_def)

lemma r_u16_w [codec_simps]: "r_u16 (u16_le v @ r) = Some (v, r)"
  by (simp add: r_u16_def r_take_def)

lemma r_u32_w [codec_simps]: "r_u32 (u32_le v @ r) = Some (v, r)"
  by (simp add: r_u32_def r_take_def)

lemma r_u64_w [codec_simps]: "r_u64 (u64_le v @ r) = Some (v, r)"
  by (simp add: r_u64_def r_take_def)

lemma r_hash_w [codec_simps]: "r_hash (hash_bytes h @ r) = Some (h, r)"
  by (simp add: r_hash_def r_take_def)

lemma unat_length_word:
  "length xs < 2 ^ LENGTH('a::len) \<Longrightarrow> unat (word_of_nat (length xs) :: 'a word) = length xs"
  by (simp add: unat_of_nat)

lemma r_bytes32_w [codec_simps]: "fits_u32 b \<Longrightarrow> r_bytes32 (w_bytes32 b @ r) = Some (b, r)"
  using unat_length_word [where 'a = 32, of b]
  by (simp add: r_bytes32_def w_bytes32_def fits_u32_def codec_simps)

context codec
begin

lemma listed: "list_ok ok xs \<Longrightarrow> r_list rd (w_list w xs @ r) = Some (xs, r)"
  using unat_length_word [where 'a = 8, of xs] many [of xs r]
  by (simp add: r_list_def w_list_def list_ok_def fits_u8_def codec_simps)

lemma optional: "pred_option ok v \<Longrightarrow> r_opt rd (w_opt w v @ r) = Some (v, r)"
  by (cases v) (simp_all add: r_opt_def w_opt_def codec_simps reads_back)

end

interpretation hash_codec: codec hash_bytes r_hash "\<lambda>_. True"
  by unfold_locales (simp add: codec_simps)

lemma r_hashes_w [codec_simps]: "fits_u8 p \<Longrightarrow> r_hashes (w_hashes p @ r) = Some (p, r)"
  using hash_codec.listed [of p r] by (simp add: r_hashes_def w_hashes_def list_ok_def list.pred_True)

lemma r_entry_w [codec_simps]: "entry_ok e \<Longrightarrow> r_entry (w_entry e @ r) = Some (e, r)"
  using unat_length_word [where 'a = 16, of "eo_bytes e"]
  by (simp add: r_entry_def w_entry_def entry_ok_def codec_simps)

lemma r_range_w [codec_simps]: "range_ok g \<Longrightarrow> r_range (w_range g @ r) = Some (g, r)"
proof -
  assume ok: "range_ok g"
  then have "unat (word_of_nat (length (cr_chunks g) div 32) :: u32) * 32 = length (cr_chunks g)"
    by (simp add: range_ok_def unat_of_nat)
  with ok show ?thesis by (simp add: r_range_def w_range_def range_ok_def codec_simps)
qed

interpretation entry_codec: codec w_entry r_entry entry_ok
  by unfold_locales (simp add: codec_simps)

interpretation range_codec: codec w_range r_range range_ok
  by unfold_locales (simp add: codec_simps)

interpretation weights_codec: codec w_weights r_weights weights_ok
  by unfold_locales (auto simp: r_weights_def w_weights_def weights_ok_def codec_simps)

interpretation leaf_chunk_codec: codec w_leaf_chunk r_leaf_chunk leaf_chunk_ok
  by unfold_locales (simp add: r_leaf_chunk_def w_leaf_chunk_def leaf_chunk_ok_def codec_simps)

interpretation leaf_bytes_codec: codec w_leaf_bytes r_leaf_bytes leaf_bytes_ok
  by unfold_locales (simp add: r_leaf_bytes_def w_leaf_bytes_def leaf_bytes_ok_def codec_simps)

interpretation seq_span_codec: codec w_seq_span r_seq_span seq_span_ok
  by unfold_locales (simp add: r_seq_span_def w_seq_span_def seq_span_ok_def codec_simps)

interpretation ids_codec: codec w_ids r_ids ids_ok
  by unfold_locales (simp add: r_ids_def w_ids_def ids_ok_def codec_simps)

lemmas part_codecs = weights_codec.reads_back leaf_chunk_codec.reads_back leaf_bytes_codec.reads_back
  seq_span_codec.reads_back ids_codec.reads_back entry_codec.optional range_codec.listed weights_codec.listed
  weights_codec.optional leaf_chunk_codec.listed ids_codec.optional

declare part_codecs [codec_simps]

interpretation link_codec: codec w_link r_link link_ok
proof
  fix l r
  assume "link_ok l"
  then show "r_link (w_link l @ r) = Some (l, r)"
    by (cases l) (simp_all add: r_link_def codec_simps)
qed

interpretation resid_src_codec: codec w_resid_src r_resid_src resid_src_ok
proof
  fix l r
  assume "resid_src_ok l"
  then show "r_resid_src (w_resid_src l @ r) = Some (l, r)"
    by (cases l) (simp_all add: r_resid_src_def codec_simps)
qed

interpretation moe_codec: codec w_moe r_moe moe_ok
  by unfold_locales (simp add: r_moe_def w_moe_def moe_ok_def codec_simps)

interpretation resid_add_codec: codec w_resid_add r_resid_add resid_add_ok
proof
  fix l r
  assume "resid_add_ok l"
  then show "r_resid_add (w_resid_add l @ r) = Some (l, r)"
    by (cases l) (simp_all add: r_resid_add_def codec_simps moe_codec.reads_back)
qed

interpretation resid_codec: codec w_resid r_resid resid_ok
  by unfold_locales
    (simp add: r_resid_def w_resid_def resid_ok_def codec_simps resid_src_codec.reads_back resid_add_codec.reads_back)

end
