(* ===== verification/Opening_Codec.thy ===== *)
theory Opening_Codec
  imports Opening
begin

section \<open>Opening payloads: encodings, envelopes and round trips\<close>

text \<open>
  Model of \<open>encode\<close> and \<open>decode\<close> of the four opening kinds of \<open>verifiable-inference/src/opening.rs\<close>, of
  the signed payload and of the seeded envelope. The round trips hold for every opening whose parts fit
  their length fields (\<open>opening_ok\<close> and its siblings); the writer truncates the others.
\<close>

subsection \<open>Versions\<close>

definition VERSION :: u8 where [simp]: "VERSION = 1"
definition VERSION_PREFIX :: u8 where [simp]: "VERSION_PREFIX = 2"
definition VERSION_CHAIN :: u8 where [simp]: "VERSION_CHAIN = 3"
definition VERSION_SEEDED :: u8 where [simp]: "VERSION_SEEDED = 4"
definition VERSION_ATTN :: u8 where [simp]: "VERSION_ATTN = 5"
definition VERSION_RECUR :: u8 where [simp]: "VERSION_RECUR = 6"
definition VERSION_ROOTS :: u8 where [simp]: "VERSION_ROOTS = 7"
definition VERSION_RESID :: u8 where [simp]: "VERSION_RESID = 8"
definition MAX_BODY_LEN :: nat where [simp]: "MAX_BODY_LEN = 112 * 1024"
definition SIGNATURE_LEN :: nat where [simp]: "SIGNATURE_LEN = 32 + 64"
definition MIN_PAYLOAD_LEN :: nat where [simp]: "MIN_PAYLOAD_LEN = 1 + 32 + 1 + SIGNATURE_LEN"
definition MAX_PAYLOAD_LEN :: nat where [simp]: "MAX_PAYLOAD_LEN = MAX_BODY_LEN + SIGNATURE_LEN"

record signed_payload =
  sp_body :: bytes
  escrow_pubkey :: bytes
  sp_signature :: bytes

definition split_payload :: "bytes \<Rightarrow> signed_payload option" where
  "split_payload payload =
     (if length payload < MIN_PAYLOAD_LEN \<or> MAX_PAYLOAD_LEN < length payload then None
      else let n = length payload - SIGNATURE_LEN; tl = drop n payload
           in Some \<lparr>sp_body = take n payload, escrow_pubkey = take 32 tl, sp_signature = drop 32 tl\<rparr>)"

subsection \<open>Trace openings\<close>

definition w_point :: "point \<Rightarrow> bytes" where
  "w_point p = u32_le (pt_n_ubatch p) @ w_hashes (pt_pos_path p) @ w_hashes (pt_meta_path p) @ w_entry (pt_entry p)
     @ w_opt w_entry (pt_partner p) @ w_opt w_weights (pt_bias p) @ w_list w_range (pt_rows p)
     @ w_bytes32 (pt_x p) @ w_hashes (pt_x_path p) @ u32_le (y_total_len p) @ u32_le (y_chunk_index p)
     @ w_bytes32 (y_chunk p) @ w_hashes (y_chunk_path p) @ w_hashes (y_path p)"

definition w_prefix :: "prefix_point \<Rightarrow> bytes" where
  "w_prefix p = u32_le (pp_n_ubatch p) @ w_hashes (pp_pos_path p) @ w_hashes (pp_meta_path p) @ w_entry (pp_entry p)
     @ w_bytes32 (pp_x p) @ w_hashes (pp_x_path p) @ w_weights (pp_embd p) @ w_weights (pp_norm p)"

definition w_link_expert :: "(u32 \<times> link_opening) \<times> expert_ids option \<Rightarrow> bytes" where
  "w_link_expert le = u32_le (fst (fst le)) @ w_link (snd (fst le)) @ w_opt w_ids (snd le)"

definition expert_at :: "expert_ids option list \<Rightarrow> nat \<Rightarrow> expert_ids option" where
  "expert_at experts i = Option.bind (nth_opt experts i) (\<lambda>e. e)"

definition is_chain :: "trace_opening \<Rightarrow> bool" where
  "is_chain o1 \<longleftrightarrow> op_links o1 \<noteq> [] \<or> op_resid o1 \<noteq> None"

definition opening_version :: "trace_opening \<Rightarrow> u8" where
  "opening_version o1 =
     (if is_chain o1 \<and> op_roots o1 \<noteq> None then VERSION_ROOTS
      else if is_chain o1 then VERSION_CHAIN
      else if op_prefix o1 \<noteq> None then VERSION_PREFIX
      else VERSION)"

definition opening_encode :: "trace_opening \<Rightarrow> bytes" where
  "opening_encode o1 =
     opening_version o1 # hash_bytes (op_response_txid o1)
     @ (case op_roots o1 of Some (p, q) \<Rightarrow> if is_chain o1 then hash_bytes p @ hash_bytes q else [] | None \<Rightarrow> [])
     @ w_list w_point (op_points o1)
     @ (if is_chain o1
        then concat (map (\<lambda>(i, l). w_link_expert (l, expert_at (op_experts o1) i))
               (zip [0..<length (op_links o1)] (op_links o1)))
        else [])
     @ (case op_prefix o1 of Some p \<Rightarrow> w_prefix p | None \<Rightarrow> [])
     @ (case op_resid o1 of Some p \<Rightarrow> w_resid p | None \<Rightarrow> [])"

text \<open>The flags of \<open>partner\<close> and \<open>bias\<close> are read leniently: every value but 1 means none.\<close>

definition r_opt_eq1 :: "'a reader \<Rightarrow> 'a option reader" where
  "r_opt_eq1 rd r = do { (f, r) \<leftarrow> r_u8 r; if f = 1 then do { (x, r) \<leftarrow> rd r; Some (Some x, r) } else Some (None, r) }"

definition r_point :: "point reader" where
  "r_point r = do { (u, r) \<leftarrow> r_u32 r; (pp, r) \<leftarrow> r_hashes r; (mp, r) \<leftarrow> r_hashes r; (e, r) \<leftarrow> r_entry r;
     (partner, r) \<leftarrow> r_opt_eq1 r_entry r; (bias, r) \<leftarrow> r_opt_eq1 r_weights r; (rows, r) \<leftarrow> r_list r_range r;
     (x, r) \<leftarrow> r_bytes32 r; (xp, r) \<leftarrow> r_hashes r; (tl, r) \<leftarrow> r_u32 r; (ci, r) \<leftarrow> r_u32 r;
     (c, r) \<leftarrow> r_bytes32 r; (cp, r) \<leftarrow> r_hashes r; (yp, r) \<leftarrow> r_hashes r;
     Some (\<lparr>pt_n_ubatch = u, pt_pos_path = pp, pt_meta_path = mp, pt_entry = e, pt_partner = partner, pt_bias = bias,
            pt_rows = rows, pt_x = x, pt_x_path = xp, y_total_len = tl, y_chunk_index = ci, y_chunk = c,
            y_chunk_path = cp, y_path = yp\<rparr>, r) }"

definition r_prefix :: "prefix_point reader" where
  "r_prefix r = do { (u, r) \<leftarrow> r_u32 r; (pp, r) \<leftarrow> r_hashes r; (mp, r) \<leftarrow> r_hashes r; (e, r) \<leftarrow> r_entry r;
     (x, r) \<leftarrow> r_bytes32 r; (xp, r) \<leftarrow> r_hashes r; (embd, r) \<leftarrow> r_weights r; (norm, r) \<leftarrow> r_weights r;
     Some (\<lparr>pp_n_ubatch = u, pp_pos_path = pp, pp_meta_path = mp, pp_entry = e, pp_x = x, pp_x_path = xp,
            pp_embd = embd, pp_norm = norm\<rparr>, r) }"

definition r_link_expert :: "((u32 \<times> link_opening) \<times> expert_ids option) reader" where
  "r_link_expert r = do { (tok, r) \<leftarrow> r_u32 r; (l, r) \<leftarrow> r_link r; (e, r) \<leftarrow> r_opt r_ids r; Some (((tok, l), e), r) }"

definition r_roots :: "(hash \<times> hash) reader" where
  "r_roots r = do { (p, r) \<leftarrow> r_hash r; (q, r) \<leftarrow> r_hash r; Some ((p, q), r) }"

definition decode_body :: "bytes \<Rightarrow> trace_opening option" where
  "decode_body b = do { (version, r) \<leftarrow> r_u8 b;
     if version \<notin> {VERSION, VERSION_PREFIX, VERSION_CHAIN, VERSION_ROOTS} then None
     else let chain = version \<in> {VERSION_CHAIN, VERSION_ROOTS} in
       do { (txid, r) \<leftarrow> r_hash r;
            (roots, r) \<leftarrow> (if version = VERSION_ROOTS then do { (x, r) \<leftarrow> r_roots r; Some (Some x, r) } else Some (None, r));
            (n, r) \<leftarrow> r_u8 r;
            (points, r) \<leftarrow> r_many (unat n) r_point r;
            (les, r) \<leftarrow> (if chain then r_many (unat n) r_link_expert r else Some ([], r));
            (prefix, r) \<leftarrow> (if VERSION_PREFIX \<le> version then do { (x, r) \<leftarrow> r_prefix r; Some (Some x, r) } else Some (None, r));
            (resid, r) \<leftarrow> (if chain \<and> r \<noteq> [] then do { (x, r) \<leftarrow> r_resid r; Some (Some x, r) } else Some (None, r));
            if r = []
            then Some \<lparr>op_response_txid = txid, op_points = points, op_prefix = prefix, op_links = map fst les,
                       op_experts = map snd les, op_resid = resid, op_roots = roots\<rparr>
            else None } }"

text \<open>The envelope is opened once: its inner version is not again that of an envelope.\<close>

definition opening_decode :: "bytes \<Rightarrow> trace_opening option" where
  "opening_decode b =
     (if nth_opt b 0 = Some VERSION_SEEDED
      then do { i \<leftarrow> nth_opt b 65; if i = VERSION_SEEDED then None else decode_body (i # slice b 1 32 @ drop 66 b) }
      else decode_body b)"

subsection \<open>Residual openings\<close>

definition w_feed :: "feed_row \<Rightarrow> bytes" where
  "w_feed f = w_bytes32 (fr_x f) @ w_hashes (fr_x_path f) @ w_range (fr_row f) @ w_opt w_weights (fr_bias f)"

definition r_feed :: "feed_row reader" where
  "r_feed r = do { (x, r) \<leftarrow> r_bytes32 r; (p, r) \<leftarrow> r_hashes r; (g, r) \<leftarrow> r_range r; (b, r) \<leftarrow> r_opt r_weights r;
     Some (\<lparr>fr_x = x, fr_x_path = p, fr_row = g, fr_bias = b\<rparr>, r) }"

definition w_expert_row :: "expert_row \<Rightarrow> bytes" where
  "w_expert_row e = w_entry (er_entry e) @ w_bytes32 (er_x e) @ w_hashes (er_x_path e) @ w_range (er_row e)"

definition r_expert_row :: "expert_row reader" where
  "r_expert_row r = do { (e, r) \<leftarrow> r_entry r; (x, r) \<leftarrow> r_bytes32 r; (p, r) \<leftarrow> r_hashes r; (g, r) \<leftarrow> r_range r;
     Some (\<lparr>er_entry = e, er_x = x, er_x_path = p, er_row = g\<rparr>, r) }"

definition w_roots :: "hash \<times> hash \<Rightarrow> bytes" where "w_roots pq = hash_bytes (fst pq) @ hash_bytes (snd pq)"

definition resid_encode :: "resid_opening \<Rightarrow> bytes" where
  "resid_encode o1 = VERSION_RESID # hash_bytes (ro_response_txid o1) @ w_opt w_roots (ro_roots o1)
     @ w_resid (ro_resid o1) @ w_feed (ro_feed o1) @ w_opt w_expert_row (ro_expert o1)"

definition resid_decode :: "bytes \<Rightarrow> resid_opening option" where
  "resid_decode b =
     (if nth_opt b 0 \<noteq> Some VERSION_RESID then None
      else do { (txid, r) \<leftarrow> r_hash (drop 1 b); (roots, r) \<leftarrow> r_opt r_roots r; (resid, r) \<leftarrow> r_resid r;
                (feed, r) \<leftarrow> r_feed r; (expert, r) \<leftarrow> r_opt r_expert_row r;
                if r = [] then Some \<lparr>ro_response_txid = txid, ro_roots = roots, ro_resid = resid, ro_feed = feed, ro_expert = expert\<rparr>
                else None })"

subsection \<open>Attention openings\<close>

definition attn_encode :: "attn_opening \<Rightarrow> bytes" where
  "attn_encode o1 = VERSION_ATTN # hash_bytes (ao_response_txid o1) @ hash_bytes (ao_pos_root o1) @ hash_bytes (ao_seq_root o1)
     @ w_entry (ao_layer o1) @ w_entry (ao_q_entry o1) @ w_entry (ao_o_entry o1)
     @ w_list w_weights (ao_norms o1) @ w_hashes (ao_pos_path o1) @ w_list w_leaf_chunk (ao_q o1) @ w_leaf_bytes (ao_out o1)
     @ w_seq_span (ao_kcache o1) @ w_seq_span (ao_vcache o1) @ w_hashes (anchor_pos_path o1)
     @ concat (map (w_list w_leaf_chunk) [anchor_k o1, anchor_v o1, ao_absorb o1])
     @ w_list u64_le (ao_path o1) @ w_bytes32 (ao_parent o1) @ w_hashes (ao_parent_path o1)
     @ w_bytes32 (ao_partials o1) @ w_seq_span (ao_lse o1)"

definition attn_decode :: "bytes \<Rightarrow> attn_opening option" where
  "attn_decode b =
     (if nth_opt b 0 \<noteq> Some VERSION_ATTN then None
      else do { (txid, r) \<leftarrow> r_hash (drop 1 b); (pr, r) \<leftarrow> r_hash r; (sr, r) \<leftarrow> r_hash r;
                (layer, r) \<leftarrow> r_entry r; (qe, r) \<leftarrow> r_entry r; (oe, r) \<leftarrow> r_entry r;
                (norms, r) \<leftarrow> r_list r_weights r; (pp, r) \<leftarrow> r_hashes r; (q, r) \<leftarrow> r_list r_leaf_chunk r;
                (out, r) \<leftarrow> r_leaf_bytes r; (kc, r) \<leftarrow> r_seq_span r; (vc, r) \<leftarrow> r_seq_span r; (ap, r) \<leftarrow> r_hashes r;
                (ak, r) \<leftarrow> r_list r_leaf_chunk r; (av, r) \<leftarrow> r_list r_leaf_chunk r; (ab, r) \<leftarrow> r_list r_leaf_chunk r;
                (path, r) \<leftarrow> r_list r_u64 r; (parent, r) \<leftarrow> r_bytes32 r; (ppath, r) \<leftarrow> r_hashes r;
                (partials, r) \<leftarrow> r_bytes32 r; (lse, r) \<leftarrow> r_seq_span r;
                if r = []
                then Some \<lparr>ao_response_txid = txid, ao_pos_root = pr, ao_seq_root = sr, ao_layer = layer, ao_q_entry = qe,
                           ao_o_entry = oe, ao_norms = norms, ao_pos_path = pp, ao_q = q, ao_out = out, ao_kcache = kc,
                           ao_vcache = vc, anchor_pos_path = ap, anchor_k = ak, anchor_v = av, ao_absorb = ab, ao_path = path,
                           ao_parent = parent, ao_parent_path = ppath, ao_partials = partials, ao_lse = lse\<rparr>
                else None })"

subsection \<open>Recurrent openings\<close>

definition w_tap :: "recur_tap \<Rightarrow> bytes" where
  "w_tap t = w_hashes (rt_pos_path t) @ w_leaf_chunk (rt_q t) @ w_leaf_chunk (rt_k t) @ w_leaf_chunk (rt_v t)"

definition r_tap :: "recur_tap reader" where
  "r_tap r = do { (p, r) \<leftarrow> r_hashes r; (q, r) \<leftarrow> r_leaf_chunk r; (k, r) \<leftarrow> r_leaf_chunk r; (v, r) \<leftarrow> r_leaf_chunk r;
     Some (\<lparr>rt_pos_path = p, rt_q = q, rt_k = k, rt_v = v\<rparr>, r) }"

definition recur_encode :: "recur_opening \<Rightarrow> bytes" where
  "recur_encode o1 = VERSION_RECUR # hash_bytes (rc_response_txid o1) @ hash_bytes (rc_pos_root o1) @ hash_bytes (rc_seq_root o1)
     @ w_entry (rc_layer o1) @ w_entry (out_entry o1) @ w_entry (decay_entry o1) @ w_list w_weights (rc_weights o1)
     @ concat (map w_seq_span [rc_records o1, start_rows o1, end_rows o1])
     @ w_list w_tap (rc_taps o1)
     @ concat (map w_leaf_chunk [rc_beta o1, rc_decay o1, rc_gate o1]) @ w_leaf_bytes (rc_out o1)"

definition recur_decode :: "bytes \<Rightarrow> recur_opening option" where
  "recur_decode b =
     (if nth_opt b 0 \<noteq> Some VERSION_RECUR then None
      else do { (txid, r) \<leftarrow> r_hash (drop 1 b); (pr, r) \<leftarrow> r_hash r; (sr, r) \<leftarrow> r_hash r;
                (layer, r) \<leftarrow> r_entry r; (oe, r) \<leftarrow> r_entry r; (de, r) \<leftarrow> r_entry r; (ws, r) \<leftarrow> r_list r_weights r;
                (records, r) \<leftarrow> r_seq_span r; (srs, r) \<leftarrow> r_seq_span r; (ers, r) \<leftarrow> r_seq_span r;
                (taps, r) \<leftarrow> r_list r_tap r; (beta, r) \<leftarrow> r_leaf_chunk r; (decay, r) \<leftarrow> r_leaf_chunk r; (gate, r) \<leftarrow> r_leaf_chunk r;
                (out, r) \<leftarrow> r_leaf_bytes r;
                if r = []
                then Some \<lparr>rc_response_txid = txid, rc_pos_root = pr, rc_seq_root = sr, rc_layer = layer, out_entry = oe,
                           decay_entry = de, rc_weights = ws, rc_records = records, start_rows = srs, end_rows = ers,
                           rc_taps = taps, rc_beta = beta, rc_decay = decay, rc_gate = gate, rc_out = out\<rparr>
                else None })"

subsection \<open>The seeded envelope\<close>

definition seed_block :: "bytes \<Rightarrow> hash option" where
  "seed_block body =
     (if nth_opt body 0 \<noteq> Some VERSION_SEEDED then None else map_option hash_of_bytes (get_range body 33 65))"

definition inner_body :: "bytes \<Rightarrow> bytes option" where
  "inner_body body =
     (if nth_opt body 0 \<noteq> Some VERSION_SEEDED then Some body
      else do { i \<leftarrow> nth_opt body 65; if i = VERSION_SEEDED then None else Some (i # slice body 1 32 @ drop 66 body) })"

definition is_audit_body :: "bytes \<Rightarrow> bool" where
  "is_audit_body body \<longleftrightarrow> opening_decode body \<noteq> None
     \<or> (case inner_body body of None \<Rightarrow> False
         | Some b \<Rightarrow> attn_decode b \<noteq> None \<or> recur_decode b \<noteq> None \<or> resid_decode b \<noteq> None)"

definition attn_path :: "bytes \<Rightarrow> u64 list option" where
  "attn_path body = map_option ao_path (Option.bind (inner_body body) attn_decode)"

definition seeded :: "bytes \<Rightarrow> hash \<Rightarrow> bytes option" where
  "seeded body blk = do { version \<leftarrow> nth_opt body 0;
     if version \<notin> {VERSION, VERSION_PREFIX, VERSION_CHAIN, VERSION_ATTN, VERSION_RECUR, VERSION_ROOTS, VERSION_RESID}
        \<or> length body < 33 then None
     else Some (VERSION_SEEDED # slice body 1 32 @ hash_bytes blk @ version # drop 33 body) }"

subsection \<open>What the length fields can hold\<close>

definition point_ok :: "point \<Rightarrow> bool" where
  "point_ok p \<longleftrightarrow> fits_u8 (pt_pos_path p) \<and> fits_u8 (pt_meta_path p) \<and> entry_ok (pt_entry p) \<and> pred_option entry_ok (pt_partner p)
     \<and> pred_option weights_ok (pt_bias p) \<and> list_ok range_ok (pt_rows p) \<and> fits_u32 (pt_x p) \<and> fits_u8 (pt_x_path p)
     \<and> fits_u32 (y_chunk p) \<and> fits_u8 (y_chunk_path p) \<and> fits_u8 (y_path p)"

definition prefix_ok :: "prefix_point \<Rightarrow> bool" where
  "prefix_ok p \<longleftrightarrow> fits_u8 (pp_pos_path p) \<and> fits_u8 (pp_meta_path p) \<and> entry_ok (pp_entry p) \<and> fits_u32 (pp_x p)
     \<and> fits_u8 (pp_x_path p) \<and> weights_ok (pp_embd p) \<and> weights_ok (pp_norm p)"

text \<open>A stage-2 opening links every point and carries a prefix point; a stage-1 opening has no roots.\<close>

definition opening_ok :: "trace_opening \<Rightarrow> bool" where
  "opening_ok o1 \<longleftrightarrow> list_ok point_ok (op_points o1) \<and> pred_option prefix_ok (op_prefix o1) \<and> pred_option resid_ok (op_resid o1)
     \<and> (if is_chain o1
        then op_prefix o1 \<noteq> None \<and> length (op_links o1) = length (op_points o1) \<and> length (op_experts o1) = length (op_points o1)
             \<and> list_all (link_ok \<circ> snd) (op_links o1) \<and> list_all (pred_option ids_ok) (op_experts o1)
        else op_experts o1 = [] \<and> op_roots o1 = None)"

definition feed_ok :: "feed_row \<Rightarrow> bool" where
  "feed_ok f \<longleftrightarrow> fits_u32 (fr_x f) \<and> fits_u8 (fr_x_path f) \<and> range_ok (fr_row f) \<and> pred_option weights_ok (fr_bias f)"

definition expert_row_ok :: "expert_row \<Rightarrow> bool" where
  "expert_row_ok e \<longleftrightarrow> entry_ok (er_entry e) \<and> fits_u32 (er_x e) \<and> fits_u8 (er_x_path e) \<and> range_ok (er_row e)"

definition resid_opening_ok :: "resid_opening \<Rightarrow> bool" where
  "resid_opening_ok o1 \<longleftrightarrow> resid_ok (ro_resid o1) \<and> feed_ok (ro_feed o1) \<and> pred_option expert_row_ok (ro_expert o1)"

definition attn_opening_ok :: "attn_opening \<Rightarrow> bool" where
  "attn_opening_ok o1 \<longleftrightarrow> entry_ok (ao_layer o1) \<and> entry_ok (ao_q_entry o1) \<and> entry_ok (ao_o_entry o1)
     \<and> list_ok weights_ok (ao_norms o1) \<and> fits_u8 (ao_pos_path o1) \<and> list_ok leaf_chunk_ok (ao_q o1) \<and> leaf_bytes_ok (ao_out o1)
     \<and> seq_span_ok (ao_kcache o1) \<and> seq_span_ok (ao_vcache o1) \<and> fits_u8 (anchor_pos_path o1)
     \<and> list_ok leaf_chunk_ok (anchor_k o1) \<and> list_ok leaf_chunk_ok (anchor_v o1) \<and> list_ok leaf_chunk_ok (ao_absorb o1)
     \<and> fits_u8 (ao_path o1) \<and> fits_u32 (ao_parent o1) \<and> fits_u8 (ao_parent_path o1) \<and> fits_u32 (ao_partials o1)
     \<and> seq_span_ok (ao_lse o1)"

definition tap_ok :: "recur_tap \<Rightarrow> bool" where
  "tap_ok t \<longleftrightarrow> fits_u8 (rt_pos_path t) \<and> leaf_chunk_ok (rt_q t) \<and> leaf_chunk_ok (rt_k t) \<and> leaf_chunk_ok (rt_v t)"

definition recur_opening_ok :: "recur_opening \<Rightarrow> bool" where
  "recur_opening_ok o1 \<longleftrightarrow> entry_ok (rc_layer o1) \<and> entry_ok (out_entry o1) \<and> entry_ok (decay_entry o1)
     \<and> list_ok weights_ok (rc_weights o1) \<and> seq_span_ok (rc_records o1) \<and> seq_span_ok (start_rows o1) \<and> seq_span_ok (end_rows o1)
     \<and> list_ok tap_ok (rc_taps o1) \<and> leaf_chunk_ok (rc_beta o1) \<and> leaf_chunk_ok (rc_decay o1) \<and> leaf_chunk_ok (rc_gate o1)
     \<and> leaf_bytes_ok (rc_out o1)"

subsection \<open>Round trips\<close>

lemma r_opt_eq1_w [codec_simps]:
  "pred_option entry_ok v \<Longrightarrow> r_opt_eq1 r_entry (w_opt w_entry v @ r) = Some (v, r)"
  "pred_option weights_ok u \<Longrightarrow> r_opt_eq1 r_weights (w_opt w_weights u @ r) = Some (u, r)"
  by (cases v; simp add: r_opt_eq1_def w_opt_def codec_simps)
    (cases u; simp add: r_opt_eq1_def w_opt_def codec_simps)

interpretation point_codec: codec w_point r_point point_ok
  by unfold_locales (simp add: r_point_def w_point_def point_ok_def codec_simps)

interpretation prefix_codec: codec w_prefix r_prefix prefix_ok
  by unfold_locales (simp add: r_prefix_def w_prefix_def prefix_ok_def codec_simps)

interpretation link_expert_codec: codec w_link_expert r_link_expert "\<lambda>le. link_ok (snd (fst le)) \<and> pred_option ids_ok (snd le)"
  by unfold_locales (auto simp: r_link_expert_def w_link_expert_def codec_simps link_codec.reads_back)

interpretation roots_codec: codec w_roots r_roots "\<lambda>_. True"
  by unfold_locales (auto simp: r_roots_def w_roots_def codec_simps)

interpretation feed_codec: codec w_feed r_feed feed_ok
  by unfold_locales (simp add: r_feed_def w_feed_def feed_ok_def codec_simps)

interpretation expert_row_codec: codec w_expert_row r_expert_row expert_row_ok
  by unfold_locales (simp add: r_expert_row_def w_expert_row_def expert_row_ok_def codec_simps)

interpretation tap_codec: codec w_tap r_tap tap_ok
  by unfold_locales (simp add: r_tap_def w_tap_def tap_ok_def codec_simps)

interpretation u64_codec: codec u64_le r_u64 "\<lambda>_. True"
  by unfold_locales (simp add: codec_simps)

lemmas record_codecs = point_codec.listed prefix_codec.reads_back roots_codec.reads_back feed_codec.reads_back
  expert_row_codec.optional tap_codec.listed resid_codec.reads_back

lemma u64_list_w [codec_simps]: "fits_u8 p \<Longrightarrow> r_list r_u64 (w_list u64_le p @ r) = Some (p, r)"
  using u64_codec.listed [of p r] by (simp add: list_ok_def list.pred_True)

lemma roots_opt_w [codec_simps]: "r_opt r_roots (w_opt w_roots v @ r) = Some (v, r)"
  using roots_codec.optional [of v r] by (simp add: option.pred_True)

lemma r_u8_Cons [codec_simps]: "r_u8 (v # r) = Some (v, r)"
  by (simp add: r_u8_def r_take_def)

lemma nth_opt_Cons [simp]: "nth_opt (v # r) 0 = Some v"
  by (simp add: nth_opt_def)

lemma seq_span_end: "seq_span_ok s \<Longrightarrow> r_seq_span (w_seq_span s) = Some (s, [])"
  by (rule seq_span_codec.reads_whole)

lemma leaf_bytes_end: "leaf_bytes_ok l \<Longrightarrow> r_leaf_bytes (w_leaf_bytes l) = Some (l, [])"
  by (rule leaf_bytes_codec.reads_whole)

lemma expert_row_end: "pred_option expert_row_ok e \<Longrightarrow> r_opt r_expert_row (w_opt w_expert_row e) = Some (e, [])"
  using expert_row_codec.optional [of e "[]"] by simp

lemma w_resid_nonempty [simp]: "w_resid p \<noteq> []"
proof -
  have "length (w_resid p) \<noteq> 0" by (simp add: w_resid_def)
  then show ?thesis by (metis list.size(3))
qed

lemma version_order [simp]: "\<not> (2 :: u8) \<le> 1" "(2 :: u8) \<le> 3" "(2 :: u8) \<le> 7"
  by (simp_all add: word_le_nat_alt)

text \<open>The links and experts of a stage-2 opening, written side by side.\<close>

lemma link_experts_written:
  assumes "length es = length ls"
  shows "concat (map (\<lambda>(i, l). w_link_expert (l, expert_at es i)) (zip [0..<length ls] ls))
       = concat (map w_link_expert (zip ls es))"
proof -
  have "map (\<lambda>(i, l). w_link_expert (l, expert_at es i)) (zip [0..<length ls] ls) = map w_link_expert (zip ls es)"
    by (rule nth_equalityI) (simp_all add: assms expert_at_def nth_opt_def)
  then show ?thesis by simp
qed

lemma link_experts_read:
  assumes "length es = length ls" and "list_all (link_ok \<circ> snd) ls" and "list_all (pred_option ids_ok) es"
  shows "r_many (length ls) r_link_expert (concat (map w_link_expert (zip ls es)) @ r) = Some (zip ls es, r)"
proof -
  have "list_all (\<lambda>le. link_ok (snd (fst le)) \<and> pred_option ids_ok (snd le)) (zip ls es)"
    using assms by (auto simp: list_all_length)
  from link_expert_codec.many [OF this, of r] assms(1) show ?thesis by simp
qed

lemma list_head: "list_ok P xs \<Longrightarrow> r_u8 (w_list w xs @ r) = Some (word_of_nat (length xs), concat (map w xs) @ r)"
  by (simp add: w_list_def codec_simps)

lemma list_count: "list_ok P xs \<Longrightarrow> unat (word_of_nat (length xs) :: u8) = length xs"
  by (simp add: list_ok_def fits_u8_def unat_of_nat)

lemma points_read: "list_ok point_ok ps \<Longrightarrow> r_many (length ps) r_point (concat (map w_point ps) @ r) = Some (ps, r)"
  by (rule point_codec.many) (simp add: list_ok_def)

lemma decode_stage2:
  assumes ok: "opening_ok o1" and ch: "is_chain o1"
  shows "decode_body (opening_encode o1) = Some o1"
proof -
  obtain p where p: "op_prefix o1 = Some p" using ok ch by (auto simp: opening_ok_def)
  have len: "length (op_experts o1) = length (op_links o1)" and pts: "list_ok point_ok (op_points o1)"
    and links: "length (op_links o1) = length (op_points o1)"
    and items: "list_all (link_ok \<circ> snd) (op_links o1)" "list_all (pred_option ids_ok) (op_experts o1)"
    and pre: "prefix_ok p" and res: "pred_option resid_ok (op_resid o1)"
    using ok ch p by (auto simp: opening_ok_def)
  let ?tl = "case op_resid o1 of Some p \<Rightarrow> w_resid p | None \<Rightarrow> []"
  have r: "(if ?tl \<noteq> [] then do { (x, r) \<leftarrow> r_resid ?tl; Some (Some x, r) } else Some (None, ?tl)) = Some (op_resid o1, [])"
    using res by (cases "op_resid o1") (simp_all add: resid_codec.reads_whole)
  note rd = list_head [OF pts] list_count [OF pts] points_read [OF pts] link_experts_written [OF len]
    link_experts_read [OF len items, unfolded links] prefix_codec.reads_back [OF pre] r
  show ?thesis
  proof (cases "op_roots o1")
    case None
    then show ?thesis
      using ch len unfolding decode_body_def opening_encode_def opening_version_def
      by (simp add: codec_simps p rd Let_def)
  next
    case (Some pq)
    then show ?thesis
      using ch len unfolding decode_body_def opening_encode_def opening_version_def
      by (cases pq) (simp add: codec_simps p rd Let_def r_roots_def)
  qed
qed

lemma decode_stage1:
  assumes ok: "opening_ok o1" and ch: "\<not> is_chain o1"
  shows "decode_body (opening_encode o1) = Some o1"
proof -
  have pts: "list_ok point_ok (op_points o1)" and pre: "pred_option prefix_ok (op_prefix o1)"
    and none: "op_experts o1 = []" "op_roots o1 = None" "op_links o1 = []" "op_resid o1 = None"
    using ok ch by (auto simp: opening_ok_def is_chain_def)
  note rd = list_head [OF pts] list_count [OF pts] points_read [OF pts]
  show ?thesis
  proof (cases "op_prefix o1")
    case None
    then show ?thesis
      using ch points_read [OF pts, of "[]"] unfolding decode_body_def opening_encode_def opening_version_def
      by (simp add: codec_simps none rd list_head [OF pts, where r = "[]", simplified] Let_def)
  next
    case (Some p)
    then have "prefix_ok p" using pre by simp
    from prefix_codec.reads_whole [OF this] show ?thesis
      using ch Some unfolding decode_body_def opening_encode_def opening_version_def
      by (simp add: codec_simps none rd Let_def)
  qed
qed

lemma decode_body_encode: "opening_ok o1 \<Longrightarrow> decode_body (opening_encode o1) = Some o1"
  by (cases "is_chain o1") (simp_all add: decode_stage1 decode_stage2)

lemma resid_decode_encode: "resid_opening_ok o1 \<Longrightarrow> resid_decode (resid_encode o1) = Some o1"
  unfolding resid_decode_def resid_encode_def resid_opening_ok_def
  by (simp add: codec_simps record_codecs expert_row_end)

lemma attn_decode_encode: "attn_opening_ok o1 \<Longrightarrow> attn_decode (attn_encode o1) = Some o1"
  unfolding attn_decode_def attn_encode_def attn_opening_ok_def
  by (simp add: codec_simps seq_span_end)

lemma recur_decode_encode: "recur_opening_ok o1 \<Longrightarrow> recur_decode (recur_encode o1) = Some o1"
  unfolding recur_decode_def recur_encode_def recur_opening_ok_def
  by (simp add: codec_simps record_codecs leaf_bytes_end)

lemma opening_first: "nth_opt (opening_encode o1) 0 \<noteq> Some VERSION_SEEDED"
  by (simp add: opening_encode_def opening_version_def)

lemma opening_decode_inner: "opening_decode b = Option.bind (inner_body b) decode_body"
  by (cases "nth_opt b 65") (simp_all add: opening_decode_def inner_body_def del: nth_opt_Some)

lemma seeded_parts:
  assumes "seeded body blk = Some v"
  obtains version where "version \<noteq> 4" "nth_opt body 0 = Some version" "nth_opt v 0 = Some 4" "nth_opt v 65 = Some version"
    "slice v 1 32 = slice body 1 32" "drop 66 v = drop 33 body" "get_range v 33 65 = Some (hash_bytes blk)"
    "version # slice body 1 32 @ drop 33 body = body"
proof -
  from assms obtain version where ver: "nth_opt body 0 = Some version" "version \<noteq> 4" and len: "33 \<le> length body"
    and v: "v = 4 # slice body 1 32 @ hash_bytes blk @ version # drop 33 body"
    by (auto simp: seeded_def bind_eq_Some_conv split: if_splits)
  have sl: "length (slice body 1 32) = 32" using len by simp
  have "body = body ! 0 # drop 1 body" using len by (cases body) auto
  moreover have "drop 1 body = slice body 1 32 @ drop 33 body"
    using append_take_drop_id [of 32 "drop 1 body"] by simp
  ultimately have body: "version # slice body 1 32 @ drop 33 body = body" using ver(1) by simp
  have "nth_opt v 65 = Some version" "slice v 1 32 = slice body 1 32" "drop 66 v = drop 33 body"
    "get_range v 33 65 = Some (hash_bytes blk)"
    using sl len by (simp_all add: v nth_opt_def nth_append get_range_def del: length_take length_drop)
  with ver v body that show ?thesis by simp
qed

subsection \<open>Properties\<close>

text \<open>C38. Trace openings, round trip: an opening whose parts fit their length fields, with a prefix point and one
  link per point in stage 2, decodes from its encoding to itself, and the version byte never claims an
  envelope.\<close>

theorem opening_roundtrip:
  assumes "opening_ok o1"
  shows "opening_decode (opening_encode o1) = Some o1"
  using opening_first [of o1] decode_body_encode [OF assms] by (simp add: opening_decode_def del: nth_opt_Some)

text \<open>Attention, recurrent and residual openings, round trip: each decodes from its encoding to itself,
  counts as an audit body, and is not taken for a trace opening.\<close>

theorem audit_openings_roundtrip:
  assumes "attn_opening_ok a" and "recur_opening_ok c" and "resid_opening_ok d"
  shows "attn_decode (attn_encode a) = Some a \<and> recur_decode (recur_encode c) = Some c \<and> resid_decode (resid_encode d) = Some d
    \<and> (\<forall>b \<in> {attn_encode a, recur_encode c, resid_encode d}. is_audit_body b \<and> opening_decode b = None)"
proof -
  have "inner_body (attn_encode a) = Some (attn_encode a)" "inner_body (recur_encode c) = Some (recur_encode c)"
    "inner_body (resid_encode d) = Some (resid_encode d)"
    by (simp_all add: inner_body_def attn_encode_def recur_encode_def resid_encode_def)
  moreover have "decode_body (attn_encode a) = None" "decode_body (recur_encode c) = None" "decode_body (resid_encode d) = None"
    by (simp_all add: decode_body_def attn_encode_def recur_encode_def resid_encode_def codec_simps)
  ultimately show ?thesis
    using attn_decode_encode [OF assms(1)] recur_decode_encode [OF assms(2)] resid_decode_encode [OF assms(3)]
    by (simp add: is_audit_body_def opening_decode_inner)
qed

text \<open>The seeded envelope is transparent: it names its seed block, gives back the wrapped body, and every
  decoder that opens envelopes answers for it as for the body itself.\<close>

theorem seeded_transparent:
  assumes "seeded body blk = Some v"
  shows "seed_block v = Some blk \<and> inner_body v = Some body \<and> opening_decode v = opening_decode body
    \<and> attn_path v = attn_path body \<and> is_audit_body v = is_audit_body body"
proof -
  obtain version where ver: "version \<noteq> 4" "nth_opt body 0 = Some version" and v: "nth_opt v 0 = Some 4" "nth_opt v 65 = Some version"
    "slice v 1 32 = slice body 1 32" "drop 66 v = drop 33 body" "get_range v 33 65 = Some (hash_bytes blk)"
    and body: "version # slice body 1 32 @ drop 33 body = body"
    using assms by (rule seeded_parts)
  have "inner_body v = Some body" "inner_body body = Some body" "seed_block v = Some blk"
    using ver v body by (simp_all add: inner_body_def seed_block_def del: nth_opt_Some)
  then show ?thesis by (simp add: opening_decode_inner attn_path_def is_audit_body_def)
qed

subsection \<open>Witnesses\<close>

definition toy_entry_opening :: entry_opening where
  "toy_entry_opening = \<lparr>eo_index = 3, eo_bytes = [1, 2], eo_path = [7]\<rparr>"

definition toy_range :: chunk_range where
  "toy_range = \<lparr>first_chunk = 5, cr_chunks = replicate 32 9, cr_proof = [8, 6]\<rparr>"

definition toy_leaf_chunk :: leaf_chunk where
  "toy_leaf_chunk = \<lparr>lc_total_len = 8, lc_index = 0, lc_chunk = [1, 2, 3, 4], lc_chunk_path = [], lc_leaf_path = [5]\<rparr>"

definition toy_leaf_bytes :: leaf_bytes where
  "toy_leaf_bytes = \<lparr>lb_bytes = [4, 4], lb_leaf_path = [2]\<rparr>"

definition toy_span :: seq_span where
  "toy_span = \<lparr>ss_first_chunk = 1, ss_bytes = [3], ss_chunk_proof = [], ss_leaf_path = [1]\<rparr>"

definition toy_resid :: resid_point where
  "toy_resid = \<lparr>rp_n_ubatch = 1, rp_tok = 2, rp_pos_path = [], rp_meta_path = [4], rp_layer = toy_entry_opening,
     rp_product = toy_entry_opening, rp_dst = toy_leaf_chunk, rp_src = SrcChunk toy_leaf_chunk,
     rp_add = AddNormed toy_leaf_bytes (toy_entry_opening, toy_range)\<rparr>"

definition toy_opening :: trace_opening where
  "toy_opening = \<lparr>op_response_txid = 77,
     op_points = [\<lparr>pt_n_ubatch = 1, pt_pos_path = [1], pt_meta_path = [], pt_entry = toy_entry_opening, pt_partner = None,
       pt_bias = Some (toy_entry_opening, toy_range), pt_rows = [toy_range], pt_x = [1], pt_x_path = [], y_total_len = 4,
       y_chunk_index = 0, y_chunk = [0, 0, 0, 0], y_chunk_path = [], y_path = []\<rparr>],
     op_prefix = Some \<lparr>pp_n_ubatch = 1, pp_pos_path = [], pp_meta_path = [], pp_entry = toy_entry_opening, pp_x = [],
       pp_x_path = [], pp_embd = (toy_entry_opening, toy_range), pp_norm = (toy_entry_opening, toy_range)\<rparr>,
     op_links = [(6, LinkSource toy_entry_opening toy_leaf_chunk None)], op_experts = [Some \<lparr>ids_chunk = [1], ids_chunk_path = []\<rparr>],
     op_resid = Some toy_resid, op_roots = Some (11, 12)\<rparr>"

definition toy_attn :: attn_opening where
  "toy_attn = \<lparr>ao_response_txid = 7, ao_pos_root = 8, ao_seq_root = 9, ao_layer = toy_entry_opening, ao_q_entry = toy_entry_opening,
     ao_o_entry = toy_entry_opening, ao_norms = [(toy_entry_opening, toy_range)], ao_pos_path = [3], ao_q = [toy_leaf_chunk],
     ao_out = toy_leaf_bytes, ao_kcache = toy_span, ao_vcache = toy_span, anchor_pos_path = [], anchor_k = [toy_leaf_chunk],
     anchor_v = [], ao_absorb = [], ao_path = [3, 1], ao_parent = [13], ao_parent_path = [14], ao_partials = [15], ao_lse = toy_span\<rparr>"

definition toy_recur :: recur_opening where
  "toy_recur = \<lparr>rc_response_txid = 1, rc_pos_root = 2, rc_seq_root = 3, rc_layer = toy_entry_opening, out_entry = toy_entry_opening,
     decay_entry = toy_entry_opening, rc_weights = [(toy_entry_opening, toy_range)], rc_records = toy_span, start_rows = toy_span,
     end_rows = toy_span, rc_taps = [\<lparr>rt_pos_path = [1], rt_q = toy_leaf_chunk, rt_k = toy_leaf_chunk, rt_v = toy_leaf_chunk\<rparr>],
     rc_beta = toy_leaf_chunk, rc_decay = toy_leaf_chunk, rc_gate = toy_leaf_chunk, rc_out = toy_leaf_bytes\<rparr>"

definition toy_resid_opening :: resid_opening where
  "toy_resid_opening = \<lparr>ro_response_txid = 4, ro_roots = Some (1, 2), ro_resid = toy_resid,
     ro_feed = \<lparr>fr_x = [1], fr_x_path = [], fr_row = toy_range, fr_bias = None\<rparr>,
     ro_expert = Some \<lparr>er_entry = toy_entry_opening, er_x = [2], er_x_path = [3], er_row = toy_range\<rparr>\<rparr>"

lemmas toy_part_defs = toy_entry_opening_def toy_range_def toy_leaf_chunk_def toy_leaf_bytes_def toy_span_def toy_resid_def

lemmas part_ok_defs = entry_ok_def range_ok_def weights_ok_def leaf_chunk_ok_def leaf_bytes_ok_def seq_span_ok_def ids_ok_def
  list_ok_def fits_u8_def fits_u32_def

lemma toy_parts_ok:
  "entry_ok toy_entry_opening" "range_ok toy_range" "weights_ok (toy_entry_opening, toy_range)" "leaf_chunk_ok toy_leaf_chunk"
  "leaf_bytes_ok toy_leaf_bytes" "seq_span_ok toy_span"
  by (simp_all add: toy_part_defs part_ok_defs)

lemma toy_resid_ok: "resid_ok toy_resid"
  using toy_parts_ok by (simp add: toy_resid_def resid_ok_def fits_u8_def)

theorem opening_roundtrip_witness: "opening_decode (opening_encode toy_opening) = Some toy_opening"
  by (rule opening_roundtrip)
    (use toy_parts_ok toy_resid_ok in \<open>simp add: toy_opening_def opening_ok_def is_chain_def point_ok_def prefix_ok_def
      list_ok_def fits_u8_def fits_u32_def ids_ok_def\<close>)

theorem audit_openings_roundtrip_witness:
  "attn_decode (attn_encode toy_attn) = Some toy_attn \<and> recur_decode (recur_encode toy_recur) = Some toy_recur
   \<and> resid_decode (resid_encode toy_resid_opening) = Some toy_resid_opening"
proof -
  have "attn_opening_ok toy_attn" "recur_opening_ok toy_recur" "resid_opening_ok toy_resid_opening"
    using toy_parts_ok toy_resid_ok
    by (simp_all add: toy_attn_def attn_opening_ok_def toy_recur_def recur_opening_ok_def tap_ok_def toy_resid_opening_def
        resid_opening_ok_def feed_ok_def expert_row_ok_def list_ok_def fits_u8_def fits_u32_def)
  from audit_openings_roundtrip [OF this] show ?thesis by simp
qed

lemma toy_seeded: "\<exists>v. seeded (5 # replicate 40 1) 99 = Some v"
  by (simp add: seeded_def)

theorem seeded_transparent_witness:
  "\<exists>v. seeded (5 # replicate 40 1) 99 = Some v \<and> seed_block v = Some 99 \<and> inner_body v = Some (5 # replicate 40 1)"
  using toy_seeded seeded_transparent by blast

end
