(* ===== verification/Manifest.thy ===== *)
theory Manifest
  imports Merkle
begin

section \<open>Model manifest entries\<close>

text \<open>
  Model of \<open>verifiable-inference/src/manifest.rs\<close>: the entry of a tensor with its chain extension, its
  parser, the encoder of the extension, row ranges, the inclusion check and the manifest file. The encoder
  of the base part is \<open>serialize\<close> of \<open>testkit.rs\<close>. A name is the bytes of its string, which the
  parser checks to be UTF-8. Fields keep their width and products of them wrap as in a release build. In
  \<open>read_file\<close> the value \<open>Inl ()\<close> is the panic of a slice out of range.
\<close>

subsection \<open>Constants\<close>

definition ROLE_PRODUCT :: u8 where [simp]: "ROLE_PRODUCT = 0"
definition ROLE_BIAS :: u8 where [simp]: "ROLE_BIAS = 1"
definition ROLE_OUTPUT :: u8 where [simp]: "ROLE_OUTPUT = 2"
definition ROLE_EMBD :: u8 where [simp]: "ROLE_EMBD = 3"
definition ROLE_NORM :: u8 where [simp]: "ROLE_NORM = 4"
definition ROLE_LAYER :: u8 where [simp]: "ROLE_LAYER = 5"
definition ROLE_ROUTER :: u8 where [simp]: "ROLE_ROUTER = 6"
definition ROLE_HEADS :: u8 where [simp]: "ROLE_HEADS = 7"
definition FORM_NONE :: u8 where [simp]: "FORM_NONE = 0"
definition FORM_SPLIT :: u8 where [simp]: "FORM_SPLIT = 1"
definition FORM_PAIR_GATE :: u8 where [simp]: "FORM_PAIR_GATE = 2"
definition FORM_PAIR_UP :: u8 where [simp]: "FORM_PAIR_UP = 3"
definition GLU_SWIGLU :: u8 where [simp]: "GLU_SWIGLU = 1"
definition GLU_GEGLU :: u8 where [simp]: "GLU_GEGLU = 2"
definition NONE :: u32 where [simp]: "NONE = 0xFFFFFFFF"
definition LINK_NONE :: u8 where [simp]: "LINK_NONE = 0"
definition LINK_ATTN_IN :: u8 where [simp]: "LINK_ATTN_IN = 1"
definition LINK_FFN_IN :: u8 where [simp]: "LINK_FFN_IN = 2"
definition LINK_GLU :: u8 where [simp]: "LINK_GLU = 3"
definition LINK_HEAD :: u8 where [simp]: "LINK_HEAD = 4"
definition LINK_DIRECT :: u8 where [simp]: "LINK_DIRECT = 5"
definition LINK_HEAD_SLICE :: u8 where [simp]: "LINK_HEAD_SLICE = 6"
definition TAG_NONE :: u8 where [simp]: "TAG_NONE = 0"
definition TAG_PRODUCT :: u8 where [simp]: "TAG_PRODUCT = 1"
definition TAG_LAYER :: u8 where [simp]: "TAG_LAYER = 2"
definition TAG_MOE_LAYER :: u8 where [simp]: "TAG_MOE_LAYER = 3"
definition TAG_ATTN_LAYER :: u8 where [simp]: "TAG_ATTN_LAYER = 4"
definition TAG_ATTN_MOE_LAYER :: u8 where [simp]: "TAG_ATTN_MOE_LAYER = 5"
definition TAG_RECUR_LAYER :: u8 where [simp]: "TAG_RECUR_LAYER = 6"
definition TAG_RECUR_MOE_LAYER :: u8 where [simp]: "TAG_RECUR_MOE_LAYER = 7"
definition ATTN_FIELDS :: nat where [simp]: "ATTN_FIELDS = 21"
definition RECUR_FIELDS :: nat where [simp]: "RECUR_FIELDS = 19"

definition RECUR_GDA :: u32 where [simp]: "RECUR_GDA = 0"
definition RECUR_KDA :: u32 where [simp]: "RECUR_KDA = 1"

subsection \<open>Data types\<close>

record product_link =
  pl_layer :: u32
  pl_link :: u8
  pl_norm :: u32
  pl_src :: u32

record moe_links =
  down_exps :: u32
  ml_router :: u32
  probs_bias :: u32
  w_scale :: u32
  ffn_norm :: u32
  gate_exps :: u32

record attn_links =
  al_q :: u32
  al_k :: u32
  al_v :: u32
  q_norm :: u32
  k_norm :: u32
  n_head :: u32
  n_head_kv :: u32
  al_head_dim :: u32
  rope_kind :: u32
  n_rot :: u32
  rope_base :: u32
  kq_scale :: u32
  swa_window :: u32
  softcap :: u32
  rope_freqs :: u32
  v_norm :: u32
  gated :: u32
  al_slot :: u32
  mla_rank :: u32
  al_absorb :: u32
  al_out :: u32

record recur_links =
  rl_kind :: u32
  rl_slot :: u32
  n_v_heads :: u32
  n_k_heads :: u32
  rl_head_dim :: u32
  rl_q :: u32
  rl_k :: u32
  rl_v :: u32
  conv_q :: u32
  conv_k :: u32
  conv_v :: u32
  rl_beta :: u32
  rl_decay :: u32
  rl_dt :: u32
  rl_a :: u32
  rl_norm :: u32
  rl_gate :: u32
  rl_interval :: u32
  conv_len :: u32

record layer_links =
  ll_layer :: u32
  ll_proj :: u32
  ll_down :: u32
  post_attn :: u32
  post_ffn :: u32
  ll_scale :: u32
  ll_moe :: "moe_links option"
  ll_attn :: "attn_links option"
  ll_recur :: "recur_links option"

datatype chain = ChainNone | ChainProduct product_link | ChainLayer layer_links

record entry =
  en_name :: bytes
  wtype :: u32
  en_k :: u64
  en_m :: u64
  n_exp :: u32
  chunk_base :: u64
  n_bytes :: u64
  en_row_bytes :: u32
  en_role :: u8
  glu_op :: u8
  glu_form :: u8
  en_partner :: u32
  en_bias :: u32
  en_chain :: chain

subsection \<open>The fixed field arrays of the attention and recurrent descriptors\<close>

definition moe_fields :: "moe_links \<Rightarrow> u32 list" where
  "moe_fields m = [down_exps m, ml_router m, probs_bias m, w_scale m, ffn_norm m, gate_exps m]"

definition attn_fields :: "attn_links \<Rightarrow> u32 list" where
  "attn_fields a = [al_q a, al_k a, al_v a, q_norm a, k_norm a, n_head a, n_head_kv a, al_head_dim a, rope_kind a, n_rot a,
     rope_base a, kq_scale a, swa_window a, softcap a, rope_freqs a, v_norm a, gated a, al_slot a, mla_rank a, al_absorb a, al_out a]"

definition attn_from_fields :: "u32 list \<Rightarrow> attn_links" where
  "attn_from_fields f = \<lparr>al_q = f ! 0, al_k = f ! 1, al_v = f ! 2, q_norm = f ! 3, k_norm = f ! 4, n_head = f ! 5, n_head_kv = f ! 6,
     al_head_dim = f ! 7, rope_kind = f ! 8, n_rot = f ! 9, rope_base = f ! 10, kq_scale = f ! 11, swa_window = f ! 12, softcap = f ! 13,
     rope_freqs = f ! 14, v_norm = f ! 15, gated = f ! 16, al_slot = f ! 17, mla_rank = f ! 18, al_absorb = f ! 19, al_out = f ! 20\<rparr>"

definition recur_fields :: "recur_links \<Rightarrow> u32 list" where
  "recur_fields r = [rl_kind r, rl_slot r, n_v_heads r, n_k_heads r, rl_head_dim r, rl_q r, rl_k r, rl_v r, conv_q r, conv_k r,
     conv_v r, rl_beta r, rl_decay r, rl_dt r, rl_a r, rl_norm r, rl_gate r, rl_interval r, conv_len r]"

definition recur_from_fields :: "u32 list \<Rightarrow> recur_links" where
  "recur_from_fields f = \<lparr>rl_kind = f ! 0, rl_slot = f ! 1, n_v_heads = f ! 2, n_k_heads = f ! 3, rl_head_dim = f ! 4, rl_q = f ! 5,
     rl_k = f ! 6, rl_v = f ! 7, conv_q = f ! 8, conv_k = f ! 9, conv_v = f ! 10, rl_beta = f ! 11, rl_decay = f ! 12, rl_dt = f ! 13,
     rl_a = f ! 14, rl_norm = f ! 15, rl_gate = f ! 16, rl_interval = f ! 17, conv_len = f ! 18\<rparr>"

subsection \<open>Parsing\<close>

definition u32_at :: "bytes \<Rightarrow> nat \<Rightarrow> u32 option" where
  "u32_at b i = map_option le_u32 (get_range b i (i + 4))"

definition u32s_at :: "bytes \<Rightarrow> nat \<Rightarrow> nat \<Rightarrow> u32 list option" where
  "u32s_at b base n = those (map (\<lambda>i. u32_at b (base + 4 * i)) [0..<n])"

definition parse_moe :: "bytes \<Rightarrow> u8 \<Rightarrow> moe_links option option" where
  "parse_moe b tag =
     (if tag \<in> {TAG_MOE_LAYER, TAG_ATTN_MOE_LAYER, TAG_RECUR_MOE_LAYER}
      then do { f \<leftarrow> u32s_at b 25 6;
                Some (Some \<lparr>down_exps = f ! 0, ml_router = f ! 1, probs_bias = f ! 2, w_scale = f ! 3, ffn_norm = f ! 4, gate_exps = f ! 5\<rparr>) }
      else Some None)"

definition parse_chain :: "bytes \<Rightarrow> (chain \<times> nat) option" where
  "parse_chain b = do { tag \<leftarrow> nth_opt b 0;
     if tag = TAG_NONE then Some (ChainNone, 1)
     else if tag = TAG_PRODUCT
     then do { link \<leftarrow> nth_opt b 5; layer \<leftarrow> u32_at b 1; norm \<leftarrow> u32_at b 6; src \<leftarrow> u32_at b 10;
               Some (ChainProduct \<lparr>pl_layer = layer, pl_link = link, pl_norm = norm, pl_src = src\<rparr>, 14) }
     else if tag \<in> {TAG_LAYER, TAG_MOE_LAYER, TAG_ATTN_LAYER, TAG_ATTN_MOE_LAYER, TAG_RECUR_LAYER, TAG_RECUR_MOE_LAYER}
     then do { moe \<leftarrow> parse_moe b tag;
               let base = (if moe \<noteq> None then 49 else 25);
               attn \<leftarrow> (if tag \<in> {TAG_ATTN_LAYER, TAG_ATTN_MOE_LAYER}
                         then do { f \<leftarrow> u32s_at b base ATTN_FIELDS; Some (Some (attn_from_fields f)) } else Some None);
               recur \<leftarrow> (if tag \<in> {TAG_RECUR_LAYER, TAG_RECUR_MOE_LAYER}
                          then do { f \<leftarrow> u32s_at b base RECUR_FIELDS; Some (Some (recur_from_fields f)) } else Some None);
               f \<leftarrow> u32s_at b 1 6;
               Some (ChainLayer \<lparr>ll_layer = f ! 0, ll_proj = f ! 1, ll_down = f ! 2, post_attn = f ! 3, post_ffn = f ! 4, ll_scale = f ! 5,
                       ll_moe = moe, ll_attn = attn, ll_recur = recur\<rparr>,
                     base + (if attn \<noteq> None then 4 * ATTN_FIELDS else 0) + (if recur \<noteq> None then 4 * RECUR_FIELDS else 0)) }
     else None }"

definition layer_tag :: "layer_links \<Rightarrow> u8" where
  "layer_tag l = (case (ll_moe l \<noteq> None, ll_attn l \<noteq> None, ll_recur l \<noteq> None) of
       (False, False, False) \<Rightarrow> TAG_LAYER
     | (True, False, False) \<Rightarrow> TAG_MOE_LAYER
     | (False, True, _) \<Rightarrow> TAG_ATTN_LAYER
     | (True, True, _) \<Rightarrow> TAG_ATTN_MOE_LAYER
     | (False, False, True) \<Rightarrow> TAG_RECUR_LAYER
     | (True, False, True) \<Rightarrow> TAG_RECUR_MOE_LAYER)"

definition layer_fields :: "layer_links \<Rightarrow> u32 list" where
  "layer_fields l = [ll_layer l, ll_proj l, ll_down l, post_attn l, post_ffn l, ll_scale l]"

fun chain_bytes :: "chain \<Rightarrow> bytes" where
  "chain_bytes ChainNone = [TAG_NONE]"
| "chain_bytes (ChainProduct p) = TAG_PRODUCT # u32_le (pl_layer p) @ pl_link p # u32_le (pl_norm p) @ u32_le (pl_src p)"
| "chain_bytes (ChainLayer l) = layer_tag l # concat (map u32_le (layer_fields l))
     @ (case ll_moe l of None \<Rightarrow> [] | Some m \<Rightarrow> concat (map u32_le (moe_fields m)))
     @ (case ll_attn l of Some a \<Rightarrow> concat (map u32_le (attn_fields a))
        | None \<Rightarrow> (case ll_recur l of None \<Rightarrow> [] | Some r \<Rightarrow> concat (map u32_le (recur_fields r))))"

definition parse_base :: "bytes \<Rightarrow> (entry \<times> nat) option" where
  "parse_base b = do { h \<leftarrow> get_range b 0 2;
     let nl = unat (le_u16 h);
     name \<leftarrow> get_range b 2 (2 + nl);
     if \<not> is_utf8 name then None else do {
     r \<leftarrow> get_range b (2 + nl) (2 + nl + 55);
     Some (\<lparr>en_name = name, wtype = le_u32 (slice r 0 4), en_k = le_u64 (slice r 4 8), en_m = le_u64 (slice r 12 8),
            n_exp = le_u32 (slice r 20 4), chunk_base = le_u64 (slice r 24 8), n_bytes = le_u64 (slice r 32 8),
            en_row_bytes = le_u32 (slice r 40 4), en_role = r ! 44, glu_op = r ! 45, glu_form = r ! 46,
            en_partner = le_u32 (slice r 47 4), en_bias = le_u32 (slice r 51 4), en_chain = ChainNone\<rparr>, 2 + nl + 55) } }"

definition entry_parse :: "bytes \<Rightarrow> (entry \<times> nat) option" where
  "entry_parse b = do { (e, len) \<leftarrow> parse_base b;
     if len = length b then Some (e, len)
     else do { (c, n) \<leftarrow> parse_chain (drop len b); Some (e\<lparr>en_chain := c\<rparr>, len + n) } }"

definition parse_in_file :: "bytes \<Rightarrow> bool \<Rightarrow> (entry \<times> nat) option" where
  "parse_in_file b chain = do { (e, len) \<leftarrow> parse_base b;
     if \<not> chain then Some (e, len)
     else do { (c, n) \<leftarrow> parse_chain (drop len b); Some (e\<lparr>en_chain := c\<rparr>, len + n) } }"

definition serialize :: "entry \<Rightarrow> bytes" where
  "serialize e = u16_le (word_of_nat (length (en_name e))) @ en_name e @ u32_le (wtype e) @ u64_le (en_k e) @ u64_le (en_m e)
     @ u32_le (n_exp e) @ u64_le (chunk_base e) @ u64_le (n_bytes e) @ u32_le (en_row_bytes e)
     @ [en_role e, glu_op e, glu_form e] @ u32_le (en_partner e) @ u32_le (en_bias e)"

definition entry_leaf :: "blake3 \<Rightarrow> bytes \<Rightarrow> hash" where "entry_leaf B b = b3_hash B b"

definition row_chunks :: "entry \<Rightarrow> u64 \<Rightarrow> u64 \<Rightarrow> (u64 \<times> u64 \<times> u64) option" where
  "row_chunks e ex row =
     (if en_m e \<le> row \<or> ucast (n_exp e) \<le> ex then None
      else let start = (ex * en_m e + row) * ucast (en_row_bytes e); end1 = start + ucast (en_row_bytes e)
        in if n_bytes e div 32 * 32 < end1 then None
           else Some (chunk_base e + start div 32, chunk_base e + (end1 - 1) div 32, start mod 32))"

definition verify_entry :: "blake3 \<Rightarrow> hash \<Rightarrow> nat \<Rightarrow> nat \<Rightarrow> bytes \<Rightarrow> hash list \<Rightarrow> bool" where
  "verify_entry B m_t n_entries index entry_bytes path = rt_verify_leaf B m_t n_entries index (entry_leaf B entry_bytes) path"

subsection \<open>The manifest file\<close>

text \<open>The two magics, \<open>KXMANIF1\<close> and \<open>KXMANIF2\<close>.\<close>

definition magic :: "u8 \<Rightarrow> bytes" where "magic v = [0x4B, 0x58, 0x4D, 0x41, 0x4E, 0x49, 0x46, v]"

fun read_entries :: "nat \<Rightarrow> bool \<Rightarrow> bytes \<Rightarrow> (entry \<times> bytes) list option" where
  "read_entries 0 chain b = Some []"
| "read_entries (Suc n) chain b = do { (e, len) \<leftarrow> parse_in_file b chain;
     rest \<leftarrow> read_entries n chain (drop len b); Some ((e, take len b) # rest) }"

definition read_file :: "bytes \<Rightarrow> unit + ((entry \<times> bytes) list \<times> u32) option" where
  "read_file data = (case get_range data 0 8 of
       None \<Rightarrow> Inr None
     | Some m \<Rightarrow>
       if m \<noteq> magic 0x31 \<and> m \<noteq> magic 0x32 then Inr None
       else (case (get_range data 8 12, get_range data 12 16) of
           (Some n, Some np) \<Rightarrow> Inr (map_option (\<lambda>es. (es, le_u32 np)) (read_entries (unat (le_u32 n)) (m = magic 0x32) (drop 16 data)))
         | _ \<Rightarrow> Inl ()))"

subsection \<open>Reading back what was written\<close>

lemma length_u32s [simp]: "length (concat (map u32_le fs)) = 4 * length fs"
  by (induction fs) simp_all

lemma those_Some_list [simp]: "those (map Some xs) = Some xs"
  by (induction xs) simp_all

lemma get_range_append: "length p = a \<Longrightarrow> length x = n \<Longrightarrow> get_range (p @ x @ r) a (a + n) = Some x"
  by (simp add: get_range_def)

lemma u32s_at_written:
  assumes "length p = a"
  shows "u32s_at (p @ concat (map u32_le fs) @ r) a (length fs) = Some fs"
proof -
  have "u32_at (p @ concat (map u32_le fs) @ r) (a + 4 * i) = Some (fs ! i)" if "i < length fs" for i
  proof -
    have "concat (map u32_le fs) = concat (map u32_le (take i fs)) @ u32_le (fs ! i) @ concat (map u32_le (drop (Suc i) fs))"
      using id_take_nth_drop [OF that] by (metis append.assoc concat.simps(2) concat_append list.simps(9) map_append)
    moreover have "get_range ((p @ concat (map u32_le (take i fs))) @ u32_le (fs ! i) @ concat (map u32_le (drop (Suc i) fs)) @ r)
        (a + 4 * i) (a + 4 * i + 4) = Some (u32_le (fs ! i))"
      by (rule get_range_append) (use that assms in simp_all)
    ultimately show ?thesis by (simp add: u32_at_def)
  qed
  then have "map (\<lambda>i. u32_at (p @ concat (map u32_le fs) @ r) (a + 4 * i)) [0..<length fs] = map Some fs"
    by (intro nth_equalityI) simp_all
  then show ?thesis by (simp add: u32s_at_def those_Some_list)
qed

lemma attn_fields_inverse [simp]: "attn_from_fields (attn_fields a) = a" "length (attn_fields a) = 21"
  by (simp_all add: attn_from_fields_def attn_fields_def)

lemma recur_fields_inverse [simp]: "recur_from_fields (recur_fields r) = r" "length (recur_fields r) = 19"
  by (simp_all add: recur_from_fields_def recur_fields_def)

definition chain_ok :: "chain \<Rightarrow> bool" where
  "chain_ok c = (case c of ChainLayer l \<Rightarrow> ll_attn l = None \<or> ll_recur l = None | _ \<Rightarrow> True)"

text \<open>The three field groups of a layer extension, each at its offset.\<close>

lemma layer_reads:
  fixes t :: u8
  assumes "length F = 6" and "length M = 6"
  shows "u32s_at (t # concat (map u32_le F) @ r) 1 6 = Some F"
    and "u32s_at (t # concat (map u32_le F) @ concat (map u32_le M) @ r) 25 6 = Some M"
    and "u32s_at (t # concat (map u32_le F) @ concat (map u32_le G) @ r) 25 (length G) = Some G"
    and "u32s_at (t # concat (map u32_le F) @ concat (map u32_le M) @ concat (map u32_le G) @ r) 49 (length G) = Some G"
  using u32s_at_written [of "[t]" 1 F r] u32s_at_written [of "t # concat (map u32_le F)" 25 M r]
    u32s_at_written [of "t # concat (map u32_le F)" 25 G r]
    u32s_at_written [of "t # concat (map u32_le F) @ concat (map u32_le M)" 49 G r] assms
  by simp_all

lemma parse_product: "parse_chain (chain_bytes (ChainProduct p) @ r) = Some (ChainProduct p, length (chain_bytes (ChainProduct p)))"
proof -
  let ?b = "chain_bytes (ChainProduct p) @ r"
  have "u32_at ?b 1 = Some (pl_layer p)" "u32_at ?b 6 = Some (pl_norm p)" "u32_at ?b 10 = Some (pl_src p)" "nth_opt ?b 5 = Some (pl_link p)"
    by (simp_all add: u32_at_def get_range_def nth_append numeral_eq_Suc)
  moreover have "nth_opt ?b 0 = Some 1" by simp
  ultimately show ?thesis by (simp add: parse_chain_def del: nth_opt_Some)
qed

lemma parse_layer:
  assumes "ll_attn l = None \<or> ll_recur l = None"
  shows "parse_chain (chain_bytes (ChainLayer l) @ r) = Some (ChainLayer l, length (chain_bytes (ChainLayer l)))"
proof -
  have F: "length (layer_fields l) = 6" by (simp add: layer_fields_def)
  have M: "length (moe_fields m) = 6" for m by (simp add: moe_fields_def)
  have tag: "nth_opt (chain_bytes (ChainLayer l) @ r) 0 = Some (layer_tag l)" by simp
  note rd = layer_reads(1) [OF F M, of "layer_tag l"] layer_reads(2) [OF F M, of "layer_tag l"]
    layer_reads(3) [OF F M, of "layer_tag l" "attn_fields _", simplified] layer_reads(4) [OF F M, of "layer_tag l" _ "attn_fields _", simplified]
    layer_reads(3) [OF F M, of "layer_tag l" "recur_fields _", simplified] layer_reads(4) [OF F M, of "layer_tag l" _ "recur_fields _", simplified]
  show ?thesis
    using assms tag rd
    unfolding parse_chain_def parse_moe_def
    apply (cases "ll_moe l"; cases "ll_attn l"; cases "ll_recur l")
    apply (simp_all add: layer_tag_def del: nth_opt_Some)
    apply (simp_all add: moe_fields_def layer_fields_def)
    done
qed

lemma parse_chain_written: "chain_ok c \<Longrightarrow> parse_chain (chain_bytes c @ r) = Some (c, length (chain_bytes c))"
proof (cases c)
  case ChainNone
  then show ?thesis by (simp add: parse_chain_def nth_opt_def)
qed (simp_all only: chain_ok_def chain.case parse_layer parse_product)

definition name_ok :: "entry \<Rightarrow> bool" where
  "name_ok e \<longleftrightarrow> length (en_name e) < 2 ^ 16 \<and> is_utf8 (en_name e)"

text \<open>The 55 bytes after the name.\<close>

definition base_tail :: "entry \<Rightarrow> bytes" where
  "base_tail e = u32_le (wtype e) @ u64_le (en_k e) @ u64_le (en_m e)
     @ u32_le (n_exp e) @ u64_le (chunk_base e) @ u64_le (n_bytes e) @ u32_le (en_row_bytes e)
     @ [en_role e, glu_op e, glu_form e] @ u32_le (en_partner e) @ u32_le (en_bias e)"

lemma serialize_eq: "serialize e = u16_le (word_of_nat (length (en_name e))) @ en_name e @ base_tail e"
  by (simp add: serialize_def base_tail_def)

lemma length_base_tail [simp]: "length (base_tail e) = 55"
  by (simp add: base_tail_def)

lemma base_tail_fields:
  "slice (base_tail e) 0 4 = u32_le (wtype e)" "slice (base_tail e) 4 8 = u64_le (en_k e)"
  "slice (base_tail e) 12 8 = u64_le (en_m e)" "slice (base_tail e) 20 4 = u32_le (n_exp e)"
  "slice (base_tail e) 24 8 = u64_le (chunk_base e)" "slice (base_tail e) 32 8 = u64_le (n_bytes e)"
  "slice (base_tail e) 40 4 = u32_le (en_row_bytes e)" "slice (base_tail e) 47 4 = u32_le (en_partner e)"
  "slice (base_tail e) 51 4 = u32_le (en_bias e)"
  "base_tail e ! 44 = en_role e" "base_tail e ! 45 = glu_op e" "base_tail e ! 46 = glu_form e"
  by (simp_all add: base_tail_def nth_append)

lemma parse_base_written:
  assumes "name_ok e"
  shows "parse_base (serialize e @ r) = Some (e\<lparr>en_chain := ChainNone\<rparr>, length (serialize e))"
proof -
  let ?n = "length (en_name e)"
  have nl: "unat (word_of_nat ?n :: u16) = ?n" using assms by (simp add: name_ok_def unat_of_nat)
  have h: "get_range (serialize e @ r) 0 2 = Some (u16_le (word_of_nat ?n))"
    and name: "get_range (serialize e @ r) 2 (2 + ?n) = Some (en_name e)"
    by (simp_all add: serialize_eq get_range_def)
  have tl: "get_range (serialize e @ r) (2 + ?n) (2 + ?n + 55) = Some (base_tail e)"
    by (simp add: serialize_eq get_range_def)
  show ?thesis
    using assms unfolding parse_base_def
    by (simp only: h name tl nl bind.bind_lunit Let_def le_u16_u16_le name_ok_def)
      (simp add: base_tail_fields [simplified] serialize_eq)
qed

definition entry_bytes :: "entry \<Rightarrow> bytes" where "entry_bytes e = serialize e @ chain_bytes (en_chain e)"

lemma parse_in_file_written:
  assumes "name_ok e" and "chain_ok (en_chain e)"
  shows "parse_in_file (entry_bytes e @ r) True = Some (e, length (entry_bytes e))"
  using parse_base_written [OF assms(1), of "chain_bytes (en_chain e) @ r"] parse_chain_written [OF assms(2), of r]
  by (simp add: parse_in_file_def entry_bytes_def)

lemma chain_bytes_nonempty [simp]: "chain_bytes c \<noteq> []"
  by (cases c) simp_all

text \<open>The file of a stage-2 manifest, as \<open>read_file\<close> expects it.\<close>

definition manifest_file :: "entry list \<Rightarrow> u32 \<Rightarrow> bytes" where
  "manifest_file es np = magic 0x32 @ u32_le (word_of_nat (length es)) @ u32_le np @ concat (map entry_bytes es)"

lemma read_entries_written:
  "list_all (\<lambda>e. name_ok e \<and> chain_ok (en_chain e)) es \<Longrightarrow>
   read_entries (length es) True (concat (map entry_bytes es) @ r) = Some (map (\<lambda>e. (e, entry_bytes e)) es)"
proof (induction es)
  case (Cons e es)
  then show ?case
    using parse_in_file_written [of e "concat (map entry_bytes es) @ r"] by simp
qed simp

lemma file_header:
  assumes "v = 0x31 \<or> v = 0x32"
  shows "read_file (magic v @ u32_le n @ u32_le np @ r) = Inr (map_option (\<lambda>es. (es, np)) (read_entries (unat n) (v = 0x32) r))"
proof -
  let ?d = "magic v @ u32_le n @ u32_le np @ r"
  have "get_range ?d 0 8 = Some (magic v)" "get_range ?d 8 12 = Some (u32_le n)" "get_range ?d 12 16 = Some (u32_le np)"
    "drop 16 ?d = r" by (simp_all add: get_range_def magic_def)
  then show ?thesis using assms by (auto simp: read_file_def magic_def)
qed

subsection \<open>Properties\<close>

text \<open>C39. Manifest entries, round trip: the parser reads back every entry with its chain extension from its
  serialized bytes, a bare base as an entry without extension, and the manifest file reader every file of
  such entries with the exact bytes of each. The extension may not carry an attention and a recurrent
  descriptor at once: the encoder drops the second.\<close>

theorem manifest_roundtrip:
  assumes "length es < 2 ^ 32" and "list_all (\<lambda>e. name_ok e \<and> chain_ok (en_chain e)) es"
  shows "read_file (manifest_file es np) = Inr (Some (map (\<lambda>e. (e, entry_bytes e)) es, np))
    \<and> (\<forall>e \<in> set es. entry_parse (entry_bytes e) = Some (e, length (entry_bytes e))
           \<and> entry_parse (serialize e) = Some (e\<lparr>en_chain := ChainNone\<rparr>, length (serialize e)))"
proof (rule conjI)
  have "unat (word_of_nat (length es) :: u32) = length es" using assms(1) by (simp add: unat_of_nat)
  then show "read_file (manifest_file es np) = Inr (Some (map (\<lambda>e. (e, entry_bytes e)) es, np))"
    using read_entries_written [OF assms(2), of "[]"] file_header [of "0x32" "word_of_nat (length es)" np "concat (map entry_bytes es)"]
    by (simp add: manifest_file_def)
next
  show "\<forall>e \<in> set es. entry_parse (entry_bytes e) = Some (e, length (entry_bytes e))
          \<and> entry_parse (serialize e) = Some (e\<lparr>en_chain := ChainNone\<rparr>, length (serialize e))"
  proof
    fix e
    assume "e \<in> set es"
    then have ok: "name_ok e" "chain_ok (en_chain e)" using assms(2) by (auto simp: list_all_iff)
    show "entry_parse (entry_bytes e) = Some (e, length (entry_bytes e))
          \<and> entry_parse (serialize e) = Some (e\<lparr>en_chain := ChainNone\<rparr>, length (serialize e))"
      using parse_base_written [OF ok(1), of "chain_bytes (en_chain e)"] parse_base_written [OF ok(1), of "[]"]
        parse_chain_written [OF ok(2), of "[]"]
      by (simp add: entry_parse_def entry_bytes_def)
  qed
qed

text \<open>A manifest file cut after its magic does not give \<open>None\<close>: the reader slices the two counts without
  a check and panics.\<close>

theorem short_manifest_panics:
  assumes "v = 0x31 \<or> v = 0x32" and "length r < 8"
  shows "read_file (magic v @ r) = Inl ()"
proof -
  have "get_range (magic v @ r) 0 8 = Some (magic v)" by (simp add: get_range_def magic_def)
  moreover have "get_range (magic v @ r) 12 16 = None" using assms(2) by (simp add: get_range_def magic_def)
  ultimately show ?thesis using assms(1) by (auto simp: read_file_def magic_def split: option.splits)
qed

subsection \<open>Witnesses\<close>

definition toy_manifest_entry :: entry where
  "toy_manifest_entry = \<lparr>en_name = [0x61, 0x62], wtype = 8, en_k = 32, en_m = 2, n_exp = 1, chunk_base = 0, n_bytes = 96,
     en_row_bytes = 34, en_role = 0, glu_op = 0, glu_form = 0, en_partner = NONE, en_bias = NONE,
     en_chain = ChainLayer \<lparr>ll_layer = 0, ll_proj = 1, ll_down = 2, post_attn = 3, post_ffn = 4, ll_scale = 5,
       ll_moe = Some \<lparr>down_exps = 1, ml_router = 2, probs_bias = 3, w_scale = 4, ffn_norm = 5, gate_exps = 6\<rparr>,
       ll_attn = None, ll_recur = Some (recur_from_fields (replicate 19 7))\<rparr>\<rparr>"

lemma toy_manifest_entry_ok: "name_ok toy_manifest_entry" "chain_ok (en_chain toy_manifest_entry)"
proof -
  have "is_utf8 [0x61, 0x62]" by (rule ascii_utf8) (simp add: word_less_nat_alt)
  then show "name_ok toy_manifest_entry" by (simp add: toy_manifest_entry_def name_ok_def del: is_utf8.simps)
qed (simp add: toy_manifest_entry_def chain_ok_def)

theorem manifest_roundtrip_witness:
  "read_file (manifest_file [toy_manifest_entry] 1) = Inr (Some ([(toy_manifest_entry, entry_bytes toy_manifest_entry)], 1))"
  using manifest_roundtrip [of "[toy_manifest_entry]" 1] toy_manifest_entry_ok by simp

theorem short_manifest_panics_witness: "read_file (magic 0x32 @ [1, 0, 0]) = Inl ()"
  by (rule short_manifest_panics) simp_all

end
