(* ===== verification/Floats.thy ===== *)
theory Floats
  imports Keryx_Prelude
begin

section \<open>IEEE 754 arithmetic on bit patterns\<close>

text \<open>
  Rust's \<open>f32\<close> and \<open>f64\<close> and the half format of \<open>f16.rs\<close>, as bit patterns with the arithmetic of
  IEEE 754 in the default rounding mode: an operation decodes its arguments to exact dyadic values,
  computes on them and rounds the result once, to nearest with ties to even. \<open>eb\<close> and \<open>mb\<close> are the
  widths of the exponent and of the stored significand (5 and 10, 8 and 23, 11 and 52). Every operation
  that yields a NaN yields the canonical quiet one; Rust leaves the payload open and the modelled code
  never reads it.
\<close>

subsection \<open>Decoding, rounding, encoding\<close>

text \<open>A finite value is \<open>(-1) ^ s * m * 2 ^ e\<close>.\<close>

datatype fpv = FNaN | FInf bool | FFin bool nat int

definition fp_bias :: "nat \<Rightarrow> int" where "fp_bias eb = 2 ^ (eb - 1) - 1"

definition fp_emin :: "nat \<Rightarrow> nat \<Rightarrow> int" where "fp_emin eb mb = 1 - fp_bias eb - int mb"

definition fp_decode :: "nat \<Rightarrow> nat \<Rightarrow> nat \<Rightarrow> fpv" where
  "fp_decode eb mb b =
     (let s = odd (b div 2 ^ (eb + mb)); e = b div 2 ^ mb mod 2 ^ eb; m = b mod 2 ^ mb in
      if e = 2 ^ eb - 1 then (if m = 0 then FInf s else FNaN)
      else if e = 0 then FFin s m (fp_emin eb mb)
      else FFin s (2 ^ mb + m) (fp_emin eb mb + int e - 1))"

fun bitlen :: "nat \<Rightarrow> nat" where
  "bitlen n = (if n = 0 then 0 else Suc (bitlen (n div 2)))"

declare bitlen.simps [simp del]

text \<open>\<open>m / 2 ^ k\<close> to the nearest natural number, ties to even.\<close>

definition round_shift :: "nat \<Rightarrow> nat \<Rightarrow> nat" where
  "round_shift m k = (let q = m div 2 ^ k; r = m mod 2 ^ k in
     if 2 ^ k < 2 * r \<or> (2 * r = 2 ^ k \<and> odd q) then q + 1 else q)"

definition sign_bit :: "nat \<Rightarrow> nat \<Rightarrow> bool \<Rightarrow> nat" where
  "sign_bit eb mb s = (if s then 2 ^ (eb + mb) else 0)"

text \<open>The unit of the last place is \<open>2 ^ e'\<close>; a carry out of the significand moves into the exponent by
  itself, and everything from the largest exponent on is an infinity.\<close>

definition fp_round :: "nat \<Rightarrow> nat \<Rightarrow> bool \<Rightarrow> nat \<Rightarrow> int \<Rightarrow> nat" where
  "fp_round eb mb s m e =
     (if m = 0 then sign_bit eb mb s
      else let e' = max (fp_emin eb mb) (e + int (bitlen m) - int mb - 1);
               q = (if e' \<le> e then m * 2 ^ nat (e - e') else round_shift m (nat (e' - e)))
           in sign_bit eb mb s + min (nat (e' - fp_emin eb mb) * 2 ^ mb + q) ((2 ^ eb - 1) * 2 ^ mb))"

definition fp_encode :: "nat \<Rightarrow> nat \<Rightarrow> fpv \<Rightarrow> nat" where
  "fp_encode eb mb v = (case v of
       FNaN \<Rightarrow> (2 ^ eb - 1) * 2 ^ mb + 2 ^ (mb - 1)
     | FInf s \<Rightarrow> sign_bit eb mb s + (2 ^ eb - 1) * 2 ^ mb
     | FFin s m e \<Rightarrow> fp_round eb mb s m e)"

subsection \<open>Operations on values\<close>

definition signed :: "bool \<Rightarrow> nat \<Rightarrow> int" where "signed s m = (if s then - int m else int m)"

definition fp_neg :: "fpv \<Rightarrow> fpv" where
  "fp_neg v = (case v of FNaN \<Rightarrow> FNaN | FInf s \<Rightarrow> FInf (\<not> s) | FFin s m e \<Rightarrow> FFin (\<not> s) m e)"

fun fp_add :: "fpv \<Rightarrow> fpv \<Rightarrow> fpv" where
  "fp_add (FFin s m e) (FFin t n f) =
     (let g = min e f; c = signed s m * 2 ^ nat (e - g) + signed t n * 2 ^ nat (f - g)
      in if c = 0 then FFin (s \<and> t) 0 0 else FFin (c < 0) (nat \<bar>c\<bar>) g)"
| "fp_add (FInf s) (FInf t) = (if s = t then FInf s else FNaN)"
| "fp_add (FInf s) (FFin t n f) = FInf s"
| "fp_add (FFin s m e) (FInf t) = FInf t"
| "fp_add _ _ = FNaN"

fun fp_mul :: "fpv \<Rightarrow> fpv \<Rightarrow> fpv" where
  "fp_mul (FFin s m e) (FFin t n f) = FFin (s \<noteq> t) (m * n) (e + f)"
| "fp_mul (FInf s) (FInf t) = FInf (s \<noteq> t)"
| "fp_mul (FInf s) (FFin t n f) = (if n = 0 then FNaN else FInf (s \<noteq> t))"
| "fp_mul (FFin s m e) (FInf t) = (if m = 0 then FNaN else FInf (s \<noteq> t))"
| "fp_mul _ _ = FNaN"

text \<open>A quotient and a root carry enough bits and a sticky last bit, so that the one rounding that follows is
  the rounding of the exact result.\<close>

fun fp_div :: "nat \<Rightarrow> fpv \<Rightarrow> fpv \<Rightarrow> fpv" where
  "fp_div mb (FFin s m e) (FFin t n f) =
     (if n = 0 then (if m = 0 then FNaN else FInf (s \<noteq> t))
      else if m = 0 then FFin (s \<noteq> t) 0 0
      else let k = mb + 3 + bitlen n - bitlen m; q = m * 2 ^ k div n; st = (if m * 2 ^ k mod n = 0 then 0 else 1)
           in FFin (s \<noteq> t) (2 * q + st) (e - f - int k - 1))"
| "fp_div mb (FInf s) (FFin t n f) = FInf (s \<noteq> t)"
| "fp_div mb (FFin s m e) (FInf t) = FFin (s \<noteq> t) 0 0"
| "fp_div mb _ _ = FNaN"

fun isqrt :: "nat \<Rightarrow> nat" where
  "isqrt n = (if n = 0 then 0 else let r = 2 * isqrt (n div 4) in if (r + 1) * (r + 1) \<le> n then r + 1 else r)"

declare isqrt.simps [simp del]

fun fp_sqrt :: "nat \<Rightarrow> fpv \<Rightarrow> fpv" where
  "fp_sqrt mb (FFin s m e) =
     (if m = 0 then FFin s 0 0
      else if s then FNaN
      else let k = 2 * (mb + 3) + (if even e then 0 else 1); n = m * 2 ^ k; r = isqrt n
           in FFin False (2 * r + (if r * r = n then 0 else 1)) ((e - int k) div 2 - 1))"
| "fp_sqrt mb (FInf s) = (if s then FNaN else FInf s)"
| "fp_sqrt mb FNaN = FNaN"

fun fp_le :: "fpv \<Rightarrow> fpv \<Rightarrow> bool" where
  "fp_le (FFin s m e) (FFin t n f) = (let g = min e f in signed s m * 2 ^ nat (e - g) \<le> signed t n * 2 ^ nat (f - g))"
| "fp_le (FInf s) (FInf t) = (s \<or> \<not> t)"
| "fp_le (FInf s) (FFin t n f) = s"
| "fp_le (FFin s m e) (FInf t) = (\<not> t)"
| "fp_le _ _ = False"

definition fp_lt :: "fpv \<Rightarrow> fpv \<Rightarrow> bool" where "fp_lt a b \<longleftrightarrow> fp_le a b \<and> \<not> fp_le b a"
definition fp_eq :: "fpv \<Rightarrow> fpv \<Rightarrow> bool" where "fp_eq a b \<longleftrightarrow> fp_le a b \<and> fp_le b a"

definition fp_finite :: "fpv \<Rightarrow> bool" where
  "fp_finite v = (case v of FFin _ _ _ \<Rightarrow> True | _ \<Rightarrow> False)"

definition fp_of_int :: "int \<Rightarrow> fpv" where "fp_of_int i = FFin (i < 0) (nat \<bar>i\<bar>) 0"

subsection \<open>The two Rust types\<close>

type_synonym f32 = "32 word"
type_synonym f64 = "64 word"

definition d32 :: "f32 \<Rightarrow> fpv" where "d32 x = fp_decode 8 23 (unat x)"
definition e32 :: "fpv \<Rightarrow> f32" where "e32 v = word_of_nat (fp_encode 8 23 v)"
definition d64 :: "f64 \<Rightarrow> fpv" where "d64 x = fp_decode 11 52 (unat x)"
definition e64 :: "fpv \<Rightarrow> f64" where "e64 v = word_of_nat (fp_encode 11 52 v)"

definition f32_mul :: "f32 \<Rightarrow> f32 \<Rightarrow> f32" where "f32_mul a b = e32 (fp_mul (d32 a) (d32 b))"
definition f32_sub :: "f32 \<Rightarrow> f32 \<Rightarrow> f32" where "f32_sub a b = e32 (fp_add (d32 a) (fp_neg (d32 b)))"
definition f32_of_int :: "int \<Rightarrow> f32" where "f32_of_int i = e32 (fp_of_int i)"
definition f32_le :: "f32 \<Rightarrow> f32 \<Rightarrow> bool" where "f32_le a b = fp_le (d32 a) (d32 b)"
definition f32_lt :: "f32 \<Rightarrow> f32 \<Rightarrow> bool" where "f32_lt a b = fp_lt (d32 a) (d32 b)"
definition f32_eq :: "f32 \<Rightarrow> f32 \<Rightarrow> bool" where "f32_eq a b = fp_eq (d32 a) (d32 b)"
definition f32_finite :: "f32 \<Rightarrow> bool" where "f32_finite a = fp_finite (d32 a)"
definition f32_nan :: "f32 \<Rightarrow> bool" where "f32_nan a = (d32 a = FNaN)"
definition f32_abs :: "f32 \<Rightarrow> f32" where "f32_abs a = take_bit 31 a"
definition f32_max :: "f32 \<Rightarrow> f32 \<Rightarrow> f32" where
  "f32_max a b = (if f32_nan a then b else if f32_nan b then a else if f32_lt a b then b else a)"

definition f64_add :: "f64 \<Rightarrow> f64 \<Rightarrow> f64" where "f64_add a b = e64 (fp_add (d64 a) (d64 b))"
definition f64_sub :: "f64 \<Rightarrow> f64 \<Rightarrow> f64" where "f64_sub a b = e64 (fp_add (d64 a) (fp_neg (d64 b)))"
definition f64_mul :: "f64 \<Rightarrow> f64 \<Rightarrow> f64" where "f64_mul a b = e64 (fp_mul (d64 a) (d64 b))"
definition f64_div :: "f64 \<Rightarrow> f64 \<Rightarrow> f64" where "f64_div a b = e64 (fp_div 52 (d64 a) (d64 b))"
definition f64_sqrt :: "f64 \<Rightarrow> f64" where "f64_sqrt a = e64 (fp_sqrt 52 (d64 a))"
definition f64_neg :: "f64 \<Rightarrow> f64" where "f64_neg a = (if bit a 63 then take_bit 63 a else a + 2 ^ 63)"
definition f64_abs :: "f64 \<Rightarrow> f64" where "f64_abs a = take_bit 63 a"
definition f64_of_int :: "int \<Rightarrow> f64" where "f64_of_int i = e64 (fp_of_int i)"
definition f64_of_f32 :: "f32 \<Rightarrow> f64" where "f64_of_f32 a = e64 (d32 a)"
definition f32_of_f64 :: "f64 \<Rightarrow> f32" where "f32_of_f64 a = e32 (d64 a)"
definition f64_le :: "f64 \<Rightarrow> f64 \<Rightarrow> bool" where "f64_le a b = fp_le (d64 a) (d64 b)"
definition f64_lt :: "f64 \<Rightarrow> f64 \<Rightarrow> bool" where "f64_lt a b = fp_lt (d64 a) (d64 b)"
definition f64_eq :: "f64 \<Rightarrow> f64 \<Rightarrow> bool" where "f64_eq a b = fp_eq (d64 a) (d64 b)"
definition f64_finite :: "f64 \<Rightarrow> bool" where "f64_finite a = fp_finite (d64 a)"
definition f64_nan :: "f64 \<Rightarrow> bool" where "f64_nan a = (d64 a = FNaN)"
definition f64_max :: "f64 \<Rightarrow> f64 \<Rightarrow> f64" where
  "f64_max a b = (if f64_nan a then b else if f64_nan b then a else if f64_lt a b then b else a)"
definition f64_min :: "f64 \<Rightarrow> f64 \<Rightarrow> f64" where
  "f64_min a b = (if f64_nan a then b else if f64_nan b then a else if f64_lt b a then b else a)"

definition f64_inf :: f64 where "f64_inf = e64 (FInf False)"

text \<open>A decimal literal \<open>p / q\<close> of the source, rounded once as the compiler does.\<close>

definition f64_lit :: "nat \<Rightarrow> nat \<Rightarrow> f64" where "f64_lit p q = e64 (fp_div 52 (FFin False p 0) (FFin False q 0))"

text \<open>\<open>Iterator::sum\<close> starts from the neutral element \<open>-0.0\<close>.\<close>

definition f64_sum :: "f64 list \<Rightarrow> f64" where "f64_sum xs = foldl f64_add (2 ^ 63) xs"

text \<open>\<open>as u64\<close>: truncation, saturating, 0 for a NaN.\<close>

definition u64_of_f64 :: "f64 \<Rightarrow> u64" where
  "u64_of_f64 a = (case d64 a of FNaN \<Rightarrow> 0 | FInf s \<Rightarrow> if s then 0 else 2 ^ 64 - 1
     | FFin s m e \<Rightarrow> if s then 0 else word_of_nat (min (2 ^ 64 - 1) (if 0 \<le> e then m * 2 ^ nat e else m div 2 ^ nat (- e))))"

subsection \<open>The length of a significand\<close>

lemma bitlen_0 [simp]: "bitlen 0 = 0"
  by (simp add: bitlen.simps)

lemma bitlen_bounds: "0 < n \<Longrightarrow> 2 ^ (bitlen n - 1) \<le> n \<and> n < 2 ^ bitlen n \<and> 0 < bitlen n"
proof (induction n rule: bitlen.induct)
  case (1 n)
  show ?case
  proof (cases "n div 2 = 0")
    case True
    then have "n = 1" using "1.prems" by simp
    then show ?thesis by (simp add: bitlen.simps)
  next
    case False
    then have ih: "2 ^ (bitlen (n div 2) - 1) \<le> n div 2" "n div 2 < 2 ^ bitlen (n div 2)" "0 < bitlen (n div 2)"
      using 1 by auto
    have b: "bitlen n = Suc (bitlen (n div 2))" using "1.prems" by (simp add: bitlen.simps [of n])
    obtain l where l: "bitlen (n div 2) = Suc l" using ih(3) by (cases "bitlen (n div 2)") auto
    have "2 ^ Suc l \<le> n" using ih(1) l by simp
    moreover have "n < 2 ^ Suc (Suc l)" using ih(2) l by simp
    ultimately show ?thesis by (simp add: b l)
  qed
qed

lemma bitlen_eqI: "2 ^ k \<le> n \<Longrightarrow> n < 2 ^ Suc k \<Longrightarrow> bitlen n = Suc k"
proof -
  assume a: "2 ^ k \<le> n" "n < 2 ^ Suc k"
  then have "0 < n" using zero_less_power [of "2::nat" k] by linarith
  from bitlen_bounds [OF this] have b: "2 ^ (bitlen n - 1) \<le> n" "n < 2 ^ bitlen n" "0 < bitlen n" by auto
  have "(2::nat) ^ (bitlen n - 1) < 2 ^ Suc k" "(2::nat) ^ k < 2 ^ bitlen n" using a b by linarith+
  then have "bitlen n - 1 < Suc k" "k < bitlen n" by (simp_all only: power_strict_increasing_iff one_less_numeral_iff semiring_norm(76))
  with b(3) show ?thesis by linarith
qed

lemma bitlen_mono_le: "n < 2 ^ k \<Longrightarrow> bitlen n \<le> k"
proof (cases "n = 0")
  case False
  assume "n < 2 ^ k"
  moreover have "2 ^ (bitlen n - 1) \<le> n" "0 < bitlen n" using bitlen_bounds [of n] False by auto
  ultimately have "(2::nat) ^ (bitlen n - 1) < 2 ^ k" by linarith
  then have "bitlen n - 1 < k" by (simp only: power_strict_increasing_iff one_less_numeral_iff semiring_norm(76))
  then show ?thesis by simp
qed simp

end
