(* ===== verification/Half.thy ===== *)
theory Half
  imports Floats
begin

unbundle bit_operations_syntax

section \<open>Half precision\<close>

text \<open>
  Model of \<open>verifiable-inference/src/f16.rs\<close>, bit for bit on words: shifts are \<open>push_bit\<close> and
  \<open>drop_bit\<close>. The loop that normalises a subnormal significand runs at most ten times, since a nonzero
  one below 1024 reaches bit 10 by then; \<open>normalize_done\<close> shows that the fuel is enough.
\<close>

fun normalize :: "nat \<Rightarrow> u32 \<Rightarrow> u32 \<Rightarrow> u32 \<times> u32" where
  "normalize 0 m e = (m, e)"
| "normalize (Suc fuel) m e = (if m AND 0x400 = 0 then normalize fuel (push_bit 1 m) (e - 1) else (m, e))"

definition to_f32 :: "u16 \<Rightarrow> f32" where
  "to_f32 h =
     (let sign = push_bit 16 (ucast h AND 0x8000 :: u32);
          ex = ucast (drop_bit 10 h AND 0x1f) :: u32;
          man = ucast (h AND 0x3ff) :: u32
      in if ex = 0 then
           (if man = 0 then sign
            else case normalize 10 man (127 - 15 + 1) of (m, e) \<Rightarrow> sign OR push_bit 23 e OR push_bit 13 (m AND 0x3ff))
         else if ex = 0x1f then sign OR 0x7f800000 OR push_bit 13 man
         else sign OR push_bit 23 (ex + 127 - 15) OR push_bit 13 man)"

definition from_f32 :: "f32 \<Rightarrow> u16" where
  "from_f32 bits =
     (let sign = ucast (drop_bit 16 bits AND 0x8000) :: u16;
          ex = int (unat (drop_bit 23 bits AND 0xff));
          man = bits AND 0x7fffff
      in if ex = 0xff then sign OR 0x7c00 OR (if man \<noteq> 0 then 0x200 else 0)
         else let e = ex - 127 + 15 in
           if e \<ge> 0x1f then sign OR 0x7c00
           else if e \<le> 0 then
             (if e < -10 then sign
              else let m = man OR 0x800000;
                       shift = nat (14 - e);
                       half = push_bit (shift - 1) (1 :: u32);
                       rest = m AND (push_bit shift 1 - 1);
                       out = ucast (drop_bit shift m) :: u16;
                       out = (if half < rest \<or> (rest = half \<and> out AND 1 = 1) then out + 1 else out)
                   in sign OR out)
           else let out = ucast (push_bit 10 (word_of_int e :: u32) OR drop_bit 13 man) :: u16;
                    rest = man AND 0x1fff;
                    out = (if 0x1000 < rest \<or> (rest = 0x1000 \<and> out AND 1 = 1) then out + 1 else out)
                in sign OR out)"

definition half_round :: "f32 \<Rightarrow> f32" where "half_round x = to_f32 (from_f32 x)"

definition half_read :: "bytes \<Rightarrow> nat \<Rightarrow> f32" where
  "half_read b off = to_f32 (le_u16 [b ! off, b ! (off + 1)])"

subsection \<open>The fuel of the normalisation\<close>

lemma and_bit_10: "unat m < 2048 \<Longrightarrow> (m AND 0x400 = 0) = (unat (m :: u32) < 1024)"
proof -
  assume "unat m < 2048"
  then have d: "unat m div 1024 < 2" by (simp add: div_less_iff_less_mult)
  have "(m AND 0x400 = 0) = (\<not> bit m 10)" using and_exp_eq_0_iff_not_bit [of m 10] by simp
  also have "bit m 10 = odd (unat m div 1024)" using bit_iff_odd [of "unat m" 10] bit_imp_le_length [of m 10] by (auto simp: bit_unsigned_iff possible_bit_def)
  finally show ?thesis using d div_less_iff_less_mult [of 1024 "unat m" 1] by (cases "unat m div 1024 = 0") auto
qed

lemma normalize_done:
  "n \<le> 10 \<Longrightarrow> 2 ^ (10 - n) \<le> unat m \<Longrightarrow> unat m < 2048 \<Longrightarrow>
   1024 \<le> unat (fst (normalize n m e)) \<and> unat (fst (normalize n m e)) < 2048"
proof (induction n arbitrary: m e)
  case (Suc n)
  show ?case
  proof (cases "unat m < 1024")
    case True
    have u: "unat (push_bit 1 m) = 2 * unat m" using True by (simp add: push_bit_eq_mult unat_word_ariths)
    have "10 - n = Suc (10 - Suc n)" using Suc.prems(1) by simp
    then have "2 ^ (10 - n) \<le> unat (push_bit 1 m)" using Suc.prems(2) unfolding u by simp
    with Suc.IH [of "push_bit 1 m" "e - 1"] Suc.prems True u show ?thesis by (simp add: and_bit_10)
  qed (use Suc.prems in \<open>simp add: and_bit_10\<close>)
qed simp

end
