(* ===== verification/Weight_Rows.thy ===== *)
theory Weight_Rows
  imports Half
begin

section \<open>Quantized weight rows, activation rows and their products\<close>

text \<open>
  Model of \<open>verifiable-inference/src/quant.rs\<close>, \<open>q8.rs\<close> and \<open>dot.rs\<close>: the block formats of weight rows,
  the \<open>Q8_1\<close> layouts of activation rows, and the recomputation of one matrix product element. Lengths and
  the row width \<open>k\<close> are \<open>nat\<close>. A row buffer that the code fills block by block is the concatenation of its
  blocks; the blocks cover it, since \<open>k\<close> is a multiple of the block size where one is filled.
\<close>

subsection \<open>Weight rows\<close>

definition Q4_0 :: u32 where [simp]: "Q4_0 = 2"
definition Q5_0 :: u32 where [simp]: "Q5_0 = 6"
definition Q8_0 :: u32 where [simp]: "Q8_0 = 8"
definition Q4_K :: u32 where [simp]: "Q4_K = 12"
definition Q5_K :: u32 where [simp]: "Q5_K = 13"
definition Q6_K :: u32 where [simp]: "Q6_K = 14"

definition block_size :: "u32 \<Rightarrow> (nat \<times> nat) option" where
  "block_size wt =
     (if wt = Q4_0 then Some (18, 32) else if wt = Q5_0 then Some (22, 32) else if wt = Q8_0 then Some (34, 32)
      else if wt = Q4_K then Some (144, 256) else if wt = Q5_K then Some (176, 256) else if wt = Q6_K then Some (210, 256)
      else None)"

definition row_bytes :: "u32 \<Rightarrow> nat \<Rightarrow> nat option" where
  "row_bytes wt k = map_option (\<lambda>(bb, bv). k div bv * bb) (block_size wt)"

definition scale_min_k4 :: "nat \<Rightarrow> bytes \<Rightarrow> u8 \<times> u8" where
  "scale_min_k4 j q =
     (if j < 4 then (q ! j AND 63, q ! (j + 4) AND 63)
      else ((q ! (j + 4) AND 0xf) OR push_bit 4 (drop_bit 6 (q ! (j - 4))),
            drop_bit 4 (q ! (j + 4)) OR push_bit 4 (drop_bit 6 (q ! j))))"

abbreviation low4 :: "u8 \<Rightarrow> u8" where "low4 v \<equiv> v AND 0xf"
abbreviation high4 :: "u8 \<Rightarrow> u8" where "high4 v \<equiv> drop_bit 4 v"

definition f32_of_u8 :: "u8 \<Rightarrow> f32" where "f32_of_u8 v = f32_of_int (int (unat v))"
definition f32_of_i8 :: "u8 \<Rightarrow> f32" where "f32_of_i8 v = f32_of_int (sint v)"

definition deq_q8_0 :: "bytes \<Rightarrow> f32 list" where
  "deq_q8_0 blk = (let d = half_read blk 0 in map (\<lambda>j. f32_mul (f32_of_i8 (blk ! (2 + j))) d) [0..<32])"

definition deq_q4_0 :: "bytes \<Rightarrow> f32 list" where
  "deq_q4_0 blk = (let d = half_read blk 0 in
     map (\<lambda>j. f32_mul (f32_of_int (int (unat (low4 (blk ! (2 + j)))) - 8)) d) [0..<16]
     @ map (\<lambda>j. f32_mul (f32_of_int (int (unat (high4 (blk ! (2 + j)))) - 8)) d) [0..<16])"

definition deq_q5_0 :: "bytes \<Rightarrow> f32 list" where
  "deq_q5_0 blk = (let d = half_read blk 0; qh = le_u32 (slice blk 2 4);
       xh0 = (\<lambda>j. push_bit 4 (drop_bit j qh) AND 0x10); xh1 = (\<lambda>j. drop_bit (j + 12) qh AND 0x10)
     in map (\<lambda>j. f32_mul (f32_of_int (int (unat (ucast (low4 (blk ! (6 + j))) OR xh0 j)) - 16)) d) [0..<16]
        @ map (\<lambda>j. f32_mul (f32_of_int (int (unat (ucast (high4 (blk ! (6 + j))) OR xh1 j)) - 16)) d) [0..<16])"

definition deq_q4_k :: "bytes \<Rightarrow> f32 list" where
  "deq_q4_k blk = (let d = half_read blk 0; dmin = half_read blk 2; sc = slice blk 4 12; qs = slice blk 16 128 in
     concat (map (\<lambda>g. case (scale_min_k4 (2 * g) sc, scale_min_k4 (2 * g + 1) sc) of ((s1, m1), (s2, m2)) \<Rightarrow>
        let d1 = f32_mul d (f32_of_u8 s1); mm1 = f32_mul dmin (f32_of_u8 m1);
            d2 = f32_mul d (f32_of_u8 s2); mm2 = f32_mul dmin (f32_of_u8 m2); q = slice qs (32 * g) 32
        in map (\<lambda>v. f32_sub (f32_mul d1 (f32_of_u8 (low4 v))) mm1) q
           @ map (\<lambda>v. f32_sub (f32_mul d2 (f32_of_u8 (high4 v))) mm2) q) [0..<4]))"

definition deq_q5_k :: "bytes \<Rightarrow> f32 list" where
  "deq_q5_k blk = (let d = half_read blk 0; dmin = half_read blk 2; sc = slice blk 4 12; qh = slice blk 16 32; qs = slice blk 48 128 in
     concat (map (\<lambda>g. case (scale_min_k4 (2 * g) sc, scale_min_k4 (2 * g + 1) sc) of ((s1, m1), (s2, m2)) \<Rightarrow>
        let d1 = f32_mul d (f32_of_u8 s1); mm1 = f32_mul dmin (f32_of_u8 m1);
            d2 = f32_mul d (f32_of_u8 s2); mm2 = f32_mul dmin (f32_of_u8 m2);
            u1 = push_bit (2 * g) 1; u2 = push_bit (2 * g) 2; q = slice qs (32 * g) 32
        in map (\<lambda>(v, h). f32_sub (f32_mul d1 (f32_of_u8 (low4 v + (if h AND u1 \<noteq> 0 then 16 else 0)))) mm1) (zip q qh)
           @ map (\<lambda>(v, h). f32_sub (f32_mul d2 (f32_of_u8 (high4 v + (if h AND u2 \<noteq> 0 then 16 else 0)))) mm2) (zip q qh)) [0..<4]))"

definition deq_q6_k :: "bytes \<Rightarrow> f32 list" where
  "deq_q6_k blk = (let d = half_read blk 208 in
     concat (map (\<lambda>h. let ql = slice blk (64 * h) (128 - 64 * h); qh = drop (32 * h) (slice blk 128 64); sc = drop (8 * h) (slice blk 192 16);
          el = (\<lambda>l s q. f32_mul (f32_mul d (f32_of_i8 (sc ! (l div 16 + s)))) (f32_of_int (int (unat (q :: u8)) - 32)))
        in map (\<lambda>l. el l 0 (low4 (ql ! l) OR push_bit 4 (qh ! l AND 3))) [0..<32]
           @ map (\<lambda>l. el l 2 (low4 (ql ! (l + 32)) OR push_bit 4 (drop_bit 2 (qh ! l) AND 3))) [0..<32]
           @ map (\<lambda>l. el l 4 (high4 (ql ! l) OR push_bit 4 (drop_bit 4 (qh ! l) AND 3))) [0..<32]
           @ map (\<lambda>l. el l 6 (high4 (ql ! (l + 32)) OR push_bit 4 (drop_bit 6 (qh ! l) AND 3))) [0..<32]) [0..<2]))"

definition deq_block :: "u32 \<Rightarrow> bytes \<Rightarrow> f32 list" where
  "deq_block wt blk = (if wt = Q8_0 then deq_q8_0 blk else if wt = Q4_0 then deq_q4_0 blk else if wt = Q5_0 then deq_q5_0 blk
     else if wt = Q4_K then deq_q4_k blk else if wt = Q5_K then deq_q5_k blk else deq_q6_k blk)"

definition dequant_row :: "u32 \<Rightarrow> bytes \<Rightarrow> nat \<Rightarrow> f32 list option" where
  "dequant_row wt row k = do { (bb, bv) \<leftarrow> block_size wt;
     if length row < k div bv * bb \<or> \<not> bv dvd k then None
     else Some (concat (map (\<lambda>b. deq_block wt (slice row (b * bb) bb)) [0..<k div bv])) }"

definition k_tile_form :: "u32 \<Rightarrow> bytes \<Rightarrow> nat \<Rightarrow> (f32 list \<times> f32 list) option" where
  "k_tile_form wt row k =
     (if wt \<noteq> Q4_K \<and> wt \<noteq> Q5_K then None
      else do { (bb, _) \<leftarrow> block_size wt;
        let per = concat (map (\<lambda>b. let blk = slice row (b * bb) bb; d = half_read blk 0; dmin = half_read blk 2; sc = slice blk 4 12 in
              map (\<lambda>sb. case scale_min_k4 sb sc of (s, m) \<Rightarrow>
                 let a_h = half_round (f32_mul d (half_round (f32_of_u8 s)));
                     g = sb div 2;
                     q = (\<lambda>l. if wt = Q4_K then (let v = blk ! (16 + 32 * g + l) in if even sb then low4 v else high4 v)
                              else let v = blk ! (48 + 32 * g + l); h = blk ! (16 + l);
                                       lo = (if even sb then low4 v else high4 v);
                                       bi = (if even sb then push_bit (2 * g) 1 else push_bit (2 * g) 2)
                                   in lo + (if h AND bi \<noteq> 0 then 16 else 0))
                 in (map (\<lambda>l. if f32_eq a_h 0 then 0 else f32_mul a_h (f32_of_u8 (q l))) [0..<32],
                     half_round (f32_mul dmin (half_round (f32_of_u8 m))))) [0..<8]) [0..<k div 256]);
        Some (concat (map fst per), map snd per) })"

definition offset_block_scales :: "u32 \<Rightarrow> bytes \<Rightarrow> nat \<Rightarrow> (f32 list \<times> f64) option" where
  "offset_block_scales wt row k =
     (if wt = Q4_0 then Some (map (\<lambda>b. half_read row (b * 18)) [0..<k div 32], f64_of_int 8)
      else if wt = Q5_0 then Some (map (\<lambda>b. half_read row (b * 22)) [0..<k div 32], f64_of_int 16)
      else None)"

subsection \<open>Activation rows\<close>

definition MMVQ :: u8 where [simp]: "MMVQ = 0"
definition MMQ_D4 :: u8 where [simp]: "MMQ_D4 = 1"
definition MMQ_DS4 :: u8 where [simp]: "MMQ_DS4 = 2"
definition MMQ_D2S6 :: u8 where [simp]: "MMQ_D2S6 = 3"

definition up_div :: "nat \<Rightarrow> nat \<Rightarrow> nat" where
  "up_div a b = a div b + (if a mod b = 0 then 0 else 1)"

definition mmq_scale :: "bytes \<Rightarrow> u8 \<Rightarrow> nat \<Rightarrow> f32" where
  "mmq_scale blk layout sb =
     (if layout = MMQ_D4 then le_u32 (slice blk (4 * sb) 4)
      else if layout = MMQ_DS4 then half_read blk (4 * sb)
      else half_read blk (2 * (sb div 2)))"

definition q8_blocks :: "bytes \<Rightarrow> u8 \<Rightarrow> nat \<Rightarrow> (f32 \<times> u8 list) list option" where
  "q8_blocks leaf layout k =
     (if layout = MMVQ then
        (if length leaf < up_div k 32 * 36 then None
         else Some (take (up_div k 32) (map (\<lambda>blk. (half_read blk 0, slice blk 4 32)) (take (up_div k 32) (chunks_exact 36 leaf)))))
      else if layout \<in> {MMQ_D4, MMQ_DS4, MMQ_D2S6} then
        (if length leaf < up_div k 128 * 144 then None
         else Some (take (up_div k 32) (concat (map (\<lambda>blk. map (\<lambda>sb. (mmq_scale blk layout sb, slice blk (16 + 32 * sb) 32)) [0..<4])
                (take (up_div k 128) (chunks_exact 144 leaf))))))
      else None)"

definition canonical :: "f32 \<Rightarrow> u8 list \<Rightarrow> bool" where
  "canonical d q \<longleftrightarrow> (f32_eq d 0 \<and> list_all (\<lambda>v. v = 0) q) \<or> (f32_lt 0 d \<and> list_ex (\<lambda>v. \<bar>sint v\<bar> = 127) q)"

definition q8_decode :: "bytes \<Rightarrow> u8 \<Rightarrow> nat \<Rightarrow> (f32 list \<times> f32 list option) option" where
  "q8_decode leaf layout k =
     (if layout = MMVQ then
        (if length leaf < up_div k 32 * 36 then None
         else let blks = take (up_div k 32) (chunks_exact 36 leaf)
           in Some (take k (concat (map (\<lambda>blk. map (\<lambda>j. f32_mul (f32_of_i8 (blk ! (4 + j))) (half_read blk 0)) [0..<32]) blks)),
                    Some (take (k div 32) (map (\<lambda>blk. half_read blk 2) blks))))
      else if layout \<in> {MMQ_D4, MMQ_DS4, MMQ_D2S6} then
        (if length leaf < up_div k 128 * 144 then None
         else let blks = take (up_div k 128) (chunks_exact 144 leaf)
           in Some (take k (concat (map (\<lambda>blk. concat (map (\<lambda>sb. map (\<lambda>j. f32_mul (f32_of_i8 (blk ! (16 + 32 * sb + j))) (mmq_scale blk layout sb)) [0..<32]) [0..<4])) blks)),
                    if layout = MMQ_DS4
                    then Some (take (k div 32) (concat (map (\<lambda>blk. map (\<lambda>sb. half_read blk (4 * sb + 2)) [0..<4]) blks)))
                    else None))
      else None)"

definition SUM_SLACK :: f64 where "SUM_SLACK = f64_of_int 24"

definition sum_consistent :: "f32 \<Rightarrow> f32 \<times> u8 list \<Rightarrow> bool" where
  "sum_consistent s dq = (case dq of (d, q) \<Rightarrow>
     let sq = f64_mul (f64_sum (map (\<lambda>v. f64_of_int (sint v)) q)) (f64_of_f32 d) in
     f64_le (f64_abs (f64_sub (f64_of_f32 s) sq))
       (f64_add (f64_mul SUM_SLACK (f64_of_f32 (f32_abs d))) (f64_div (f64_abs (f64_of_f32 s)) (f64_of_int 1024))))"

definition sums_consistent :: "bytes \<Rightarrow> u8 \<Rightarrow> nat \<Rightarrow> bool" where
  "sums_consistent leaf layout k = (case (q8_decode leaf layout k, q8_blocks leaf layout k) of
       (Some (_, sums), Some blocks) \<Rightarrow>
         (case sums of None \<Rightarrow> True | Some sums \<Rightarrow> list_all (\<lambda>(s, dq). sum_consistent s dq) (zip sums blocks))
     | _ \<Rightarrow> False)"

subsection \<open>One output element\<close>

record recomputed =
  y_hat :: f64
  scale :: f64

definition f64_prod :: "f32 \<times> f32 \<Rightarrow> f64" where
  "f64_prod ab = f64_mul (f64_of_f32 (fst ab)) (f64_of_f32 (snd ab))"

definition canonical_dot :: "u32 \<Rightarrow> bytes \<Rightarrow> nat \<Rightarrow> bytes \<Rightarrow> u8 \<Rightarrow> recomputed option" where
  "canonical_dot wt row k x_leaf layout = do {
     w \<leftarrow> dequant_row wt row k;
     (x, s) \<leftarrow> q8_decode x_leaf layout k;
     let sc = f64_sum (map (\<lambda>ab. f64_abs (f64_prod ab)) (zip w x));
     if layout = MMQ_DS4 \<and> (wt = Q4_K \<or> wt = Q5_K)
     then do { (w_eff, b_h) \<leftarrow> k_tile_form wt row k; s \<leftarrow> s;
               let main = f64_sum (map f64_prod (zip w_eff x)); let mn = f64_sum (map f64_prod (zip s b_h));
               Some \<lparr>y_hat = f64_sub main mn, scale = sc\<rparr> }
     else do { let y = f64_sum (map f64_prod (zip w x));
               (case (if layout = MMVQ then offset_block_scales wt row k else None) of
                  None \<Rightarrow> Some \<lparr>y_hat = y, scale = sc\<rparr>
                | Some (dw, off) \<Rightarrow> do { s \<leftarrow> s;
                    Some \<lparr>y_hat = foldl (\<lambda>y b. let sq = f64_sum (map f64_of_f32 (slice x (32 * b) 32))
                                     in f64_add y (f64_mul (f64_mul off (f64_of_f32 (dw ! b))) (f64_sub sq (f64_of_f32 (s ! b)))))
                                   y [0..<k div 32], scale = sc\<rparr> }) } }"

definition accept :: "f32 \<Rightarrow> recomputed \<Rightarrow> f64 \<Rightarrow> bool" where
  "accept y r eps = f64_le (f64_abs (f64_sub (f64_of_f32 y) (y_hat r))) (f64_mul eps (scale r))"

end
