(* ===== verification/Point_Check.thy ===== *)
theory Point_Check
  imports Opening Manifest Weight_Rows
begin

section \<open>The check of an opened point\<close>

text \<open>
  Model of \<open>verifiable-inference/src/draw.rs\<close> and \<open>verify.rs\<close>. The draw of a point, the openings of
  manifest entries and weight bytes, and \<open>verify_point\<close> with its stage-2 parameters. Every \<open>u64\<close> is a word
  and wraps as in a release build. The functions of the \<open>libm\<close> crate are the record \<open>libm\<close>. \<open>FailPanicked\<close> is
  no variant of \<open>Fail\<close>: it is the panic of a slice or a conversion that does not fit.
\<close>

subsection \<open>Draws\<close>

definition AUDIT_THRESHOLD :: u16 where [simp]: "AUDIT_THRESHOLD = 16384"
definition POINTS :: u32 where [simp]: "POINTS = 2"

definition audited :: "hash \<Rightarrow> bool" where
  "audited seed \<longleftrightarrow> le_u16 (slice (hash_bytes seed) 0 2) < AUDIT_THRESHOLD"

definition draw_point :: "blake3 \<Rightarrow> hash \<Rightarrow> u32 \<Rightarrow> u64 list" where
  "draw_point B seed i = (let b = hash_bytes (b3_hash B (hash_bytes seed @ u32_le i))
     in map (\<lambda>j. le_u64 (slice b (8 * j) 8)) [0..<4])"

subsection \<open>Contexts\<close>

record libm =
  lm_exp :: "f64 \<Rightarrow> f64"
  lm_tanh :: "f64 \<Rightarrow> f64"
  lm_sqrt :: "f64 \<Rightarrow> f64"
  lm_log1p :: "f64 \<Rightarrow> f64"
  lm_log :: "f64 \<Rightarrow> f64"
  lm_sin :: "f64 \<Rightarrow> f64"
  lm_cos :: "f64 \<Rightarrow> f64"
  lm_pow :: "f64 \<Rightarrow> f64 \<Rightarrow> f64"

definition EPS :: f64 where "EPS = f64_lit 1 100000"
definition EPS_GEGLU :: f64 where "EPS_GEGLU = f64_lit 3 100000"
definition MMVQ_MAX_BATCH :: u32 where [simp]: "MMVQ_MAX_BATCH = 8"
definition UBATCH :: u32 where [simp]: "UBATCH = 512"
definition MATRIX_ROW_PADDING :: u64 where [simp]: "MATRIX_ROW_PADDING = 512"

record tier_ctx =
  r_t :: hash
  n_chunks :: u64
  m_t :: hash
  n_entries :: u64
  n_products :: u64

record response_ctx =
  trace_root :: hash
  n_prompt :: u32
  n_pos :: u32

datatype fail = FailShape | FailManifest | FailWeights | FailTrace | FailUnsupported | FailMismatch | FailPanicked

record pos_shape =
  n_leaves :: u64
  meta_index :: u64
  ps_tok :: "u32 option"
  n_used :: u32

definition stage1 :: "u64 \<Rightarrow> pos_shape" where
  "stage1 np = \<lparr>n_leaves = 2 * np + 1, meta_index = 2 * np, ps_tok = None, n_used = 0\<rparr>"

text \<open>The meta leaf of stage 2, \<open>chain::meta\<close>.\<close>

definition chain_meta :: "u32 \<Rightarrow> u32 \<Rightarrow> u32 \<Rightarrow> bytes" where
  "chain_meta t n_ubatch tok = u32_le t @ u32_le n_ubatch @ u32_le tok"

definition meta_bytes :: "pos_shape \<Rightarrow> u64 \<Rightarrow> u32 \<Rightarrow> bytes" where
  "meta_bytes sh t n_ubatch = (case ps_tok sh of
       Some tok \<Rightarrow> chain_meta (ucast t) n_ubatch tok
     | None \<Rightarrow> u32_le (ucast t) @ u32_le n_ubatch)"

definition meta_hash :: "blake3 \<Rightarrow> pos_shape \<Rightarrow> u64 \<Rightarrow> u32 \<Rightarrow> hash" where
  "meta_hash B sh t n_ubatch = b3_hash B (meta_bytes sh t n_ubatch)"

record opened =
  pos_root :: hash
  oi_input :: entry
  oi_layout :: u8
  oi_slot :: u64
  oi_expert :: u64

record report =
  rep_t :: u64
  rep_rank :: u64
  rep_row :: u64
  rep_y :: f64
  rep_y_hat :: f64
  rep_tol :: f64

subsection \<open>Openings of entries and weights\<close>

definition open_entry :: "blake3 \<Rightarrow> tier_ctx \<Rightarrow> entry_opening \<Rightarrow> u64 \<Rightarrow> fail + entry" where
  "open_entry B tier e expected_index =
     (if ucast (eo_index e) \<noteq> expected_index
         \<or> \<not> verify_entry B (m_t tier) (unat (n_entries tier)) (unat expected_index) (eo_bytes e) (eo_path e)
      then Inl FailManifest
      else rbind (ok_or FailManifest (entry_parse (eo_bytes e))) (\<lambda>(entry, len).
        if len = length (eo_bytes e) then Inr entry else Inl FailManifest))"

definition open_bytes :: "blake3 \<Rightarrow> tier_ctx \<Rightarrow> entry \<Rightarrow> chunk_range \<Rightarrow> u64 \<Rightarrow> u64 \<Rightarrow> fail + bytes" where
  "open_bytes B tier en r offset len =
     (let end1 = offset + len in
      if len = 0 \<or> n_bytes en div 32 * 32 < end1 then Inl FailShape
      else let first = chunk_base en + offset div 32; last1 = chunk_base en + (end1 - 1) div 32 in
        if first_chunk r \<noteq> first \<or> length (cr_chunks r) \<noteq> unat ((last1 - first + 1) * 32) then Inl FailShape
        else if \<not> rt_verify_range B (r_t tier) (unat (n_chunks tier)) (unat first)
                   (map (b3_hash B) (chunks_exact 32 (cr_chunks r))) (cr_proof r) then Inl FailWeights
        else let i = unat (offset mod 32) in ok_or FailPanicked (get_range (cr_chunks r) i (i + unat len)))"

definition open_expert_row :: "blake3 \<Rightarrow> tier_ctx \<Rightarrow> entry \<Rightarrow> chunk_range \<Rightarrow> u64 \<Rightarrow> u64 \<Rightarrow> fail + bytes" where
  "open_expert_row B tier en r ex row =
     (if en_m en \<le> row \<or> ucast (n_exp en) \<le> ex then Inl FailShape
      else let rb = ucast (en_row_bytes en) in open_bytes B tier en r ((ex * en_m en + row) * rb) rb)"

definition open_row :: "blake3 \<Rightarrow> tier_ctx \<Rightarrow> entry \<Rightarrow> chunk_range \<Rightarrow> u64 \<Rightarrow> fail + bytes" where
  "open_row B tier en r row =
     (if en_m en \<le> row \<or> n_exp en \<noteq> 1 then Inl FailShape
      else let rb = ucast (en_row_bytes en) in open_bytes B tier en r (row * rb) rb)"

subsection \<open>Batches and layouts\<close>

definition expected_ubatch :: "u64 \<Rightarrow> u32 \<Rightarrow> u32" where
  "expected_ubatch t np = (if ucast np \<le> t then 1
     else let start = t div ucast UBATCH * ucast UBATCH in min UBATCH (np - ucast start))"

definition layout_for :: "u32 \<Rightarrow> u32 \<Rightarrow> u8" where
  "layout_for n_ubatch wt = (if n_ubatch \<le> MMVQ_MAX_BATCH then MMVQ
     else if wt \<in> {2, 3, 7, Q4_K, Q5_K} then MMQ_DS4 else MMQ_D4)"

definition input_layout :: "u8 \<Rightarrow> u32 \<Rightarrow> u32 \<Rightarrow> u8" where
  "input_layout role n_ubatch wt = (if role = ROLE_OUTPUT then MMVQ else layout_for n_ubatch wt)"

definition div_ceil64 :: "u64 \<Rightarrow> u64 \<Rightarrow> u64" where
  "div_ceil64 a b = a div b + (if a mod b = 0 then 0 else 1)"

definition x_len :: "u64 \<Rightarrow> u8 \<Rightarrow> u64" where
  "x_len k layout = (let kp = div_ceil64 k MATRIX_ROW_PADDING * MATRIX_ROW_PADDING
     in if layout = MMVQ then kp div 32 * 36 else kp div 128 * 144)"

definition PI64 :: f64 where "PI64 = f64_lit 314159265358979323846264338327950288 (10 ^ 35)"

text \<open>Value and slope of the gated unit at \<open>g\<close>.\<close>

definition glu :: "libm \<Rightarrow> u8 \<Rightarrow> f64 \<Rightarrow> (f64 \<times> f64) option" where
  "glu L op g =
     (let one = f64_of_int 1 in
      if op = GLU_SWIGLU then
        let s = f64_div one (f64_add one (lm_exp L (f64_neg g)))
        in Some (f64_mul g s, f64_mul s (f64_add one (f64_mul g (f64_sub one s))))
      else if op = GLU_GEGLU then
        let a = f64_sqrt (f64_div (f64_of_int 2) PI64); c = f64_lit 44715 1000000; half = f64_lit 1 2;
            t = lm_tanh L (f64_mul a (f64_add g (f64_mul (f64_mul (f64_mul c g) g) g)))
        in Some (f64_mul (f64_mul half g) (f64_add one t),
                 f64_add (f64_mul half (f64_add one t))
                   (f64_mul (f64_mul (f64_mul (f64_mul half g) (f64_sub one (f64_mul t t))) a)
                     (f64_add one (f64_mul (f64_mul (f64_mul (f64_of_int 3) c) g) g))))
      else None)"

subsection \<open>One point\<close>

text \<open>The gate product with its rank, and the up product of a pair.\<close>

definition point_gate :: "blake3 \<Rightarrow> tier_ctx \<Rightarrow> point \<Rightarrow> entry \<Rightarrow> u64 \<Rightarrow> fail + ((entry \<times> u64) \<times> entry option)" where
  "point_gate B tier p first rank =
     (if glu_form first = FORM_NONE \<or> glu_form first = FORM_SPLIT then
        (if pt_partner p \<noteq> None then Inl FailShape else Inr ((first, rank), None))
      else if glu_form first = FORM_PAIR_GATE \<or> glu_form first = FORM_PAIR_UP then
        rbind (ok_or FailShape (pt_partner p)) (\<lambda>po.
        rbind (open_entry B tier po (ucast (en_partner first))) (\<lambda>other.
          if ucast (en_partner other) \<noteq> rank \<or> en_k other \<noteq> en_k first \<or> en_m other \<noteq> en_m first then Inl FailManifest
          else if glu_form first = FORM_PAIR_GATE then Inr ((first, rank), Some other)
          else Inr ((other, ucast (en_partner first)), Some first)))
      else Inl FailUnsupported)"

text \<open>The traced position: any position, or one from the last prompt position on for an output product.\<close>

definition point_position :: "response_ctx \<Rightarrow> bool \<Rightarrow> u64 \<Rightarrow> fail + u64" where
  "point_position resp output_only d0 =
     (let n_traced = ucast (n_pos resp) :: u64 in
      if output_only then
        (if n_prompt resp = 0 then Inl FailShape
         else let first_pos = ucast (n_prompt resp) - 1 in
           if n_traced \<le> first_pos then Inl FailShape else Inr (first_pos + d0 mod (n_traced - first_pos)))
      else Inr (d0 mod n_traced))"

text \<open>The recomputation: \<open>dot_row\<close> is the product of one opened weight row with the opened input.\<close>

definition dot_row :: "blake3 \<Rightarrow> tier_ctx \<Rightarrow> nat \<Rightarrow> bytes \<Rightarrow> u8 \<Rightarrow> u64 \<Rightarrow> entry \<Rightarrow> chunk_range \<Rightarrow> u64 \<Rightarrow> fail + recomputed" where
  "dot_row B tier k x layout ex en r rr = rbind (open_expert_row B tier en r ex rr) (\<lambda>bs.
     ok_or FailUnsupported (canonical_dot (wtype en) bs k x layout))"

definition point_bias :: "blake3 \<Rightarrow> tier_ctx \<Rightarrow> entry \<Rightarrow> weights option \<Rightarrow> u64 \<Rightarrow> fail + f64" where
  "point_bias B tier en bias row = (case bias of
       None \<Rightarrow> if en_bias en = NONE then Inr (f64_of_int 0) else Inl FailShape
     | Some (be, br) \<Rightarrow>
         if en_bias en = NONE then Inl FailShape
         else rbind (open_entry B tier be (ucast (en_bias en))) (\<lambda>b.
           if en_role b \<noteq> ROLE_BIAS \<or> wtype b \<noteq> 0 \<or> en_k b \<noteq> en_m en then Inl FailManifest
           else rbind (open_bytes B tier b br (row * 4) 4) (\<lambda>v. Inr (f64_of_f32 (le_u32 v)))))"

definition plain_value :: "recomputed \<Rightarrow> f64 \<Rightarrow> f64 \<times> f64" where
  "plain_value r b = (f64_add (y_hat r) b, f64_mul EPS (f64_add (scale r) (f64_abs b)))"

definition glu_value :: "libm \<Rightarrow> u8 \<Rightarrow> recomputed \<Rightarrow> recomputed \<Rightarrow> (f64 \<times> f64) option" where
  "glu_value L op rg ru = map_option (\<lambda>(f, df).
     (f64_mul f (y_hat ru),
      f64_add (f64_mul EPS (f64_add (f64_mul (f64_abs (f64_mul df (y_hat ru))) (scale rg)) (f64_mul (f64_abs f) (scale ru))))
        (f64_mul (if op = GLU_GEGLU then EPS_GEGLU else EPS) (f64_abs (f64_mul (y_hat rg) (y_hat ru))))))
     (glu L op (y_hat rg))"

definition point_value :: "libm \<Rightarrow> blake3 \<Rightarrow> tier_ctx \<Rightarrow> point \<Rightarrow> entry \<Rightarrow> entry option \<Rightarrow> bytes \<Rightarrow> u8 \<Rightarrow> u64 \<Rightarrow> u64 \<Rightarrow> u64 \<Rightarrow> fail + f64 \<times> f64" where
  "point_value L B tier p g_entry up x layout ex row m_out =
     (let dot = dot_row B tier (unat (en_k g_entry)) x layout ex in
      if glu_form g_entry = FORM_NONE then
        (if length (pt_rows p) \<noteq> 1 then Inl FailShape
         else rbind (dot g_entry (pt_rows p ! 0) row) (\<lambda>r.
              rbind (point_bias B tier g_entry (pt_bias p) row) (\<lambda>b. Inr (plain_value r b))))
      else if length (pt_rows p) \<noteq> 2 \<or> pt_bias p \<noteq> None then Inl FailShape
      else let split = (glu_form g_entry = FORM_SPLIT) in
        rbind (dot g_entry (pt_rows p ! 0) row) (\<lambda>rg.
        rbind (if split then dot g_entry (pt_rows p ! 1) (row + m_out)
               else rbind (ok_or FailPanicked up) (\<lambda>u. dot u (pt_rows p ! 1) row)) (\<lambda>ru.
          ok_or FailUnsupported (glu_value L (glu_op g_entry) rg ru))))"

definition within_tol :: "f64 \<Rightarrow> f64 \<Rightarrow> f64 \<Rightarrow> bool" where
  "within_tol y h tol \<longleftrightarrow> f64_finite y \<and> f64_finite h \<and> f64_finite tol \<and> f64_le (f64_abs (f64_sub y h)) tol"

text \<open>The expert of a routed product, read from the last chunk of the output leaf.\<close>

definition point_expert :: "blake3 \<Rightarrow> entry \<Rightarrow> u64 \<Rightarrow> u64 \<Rightarrow> hash \<Rightarrow> expert_ids option \<Rightarrow> u64 \<Rightarrow> fail + u64" where
  "point_expert B g_entry y_total body y_leaf ids slot = (case ids of
       None \<Rightarrow> Inr slot
     | Some e \<Rightarrow>
         if b3_leaf_from_chunk B (unat y_total) (unat (body div 1024)) (ids_chunk e) (ids_chunk_path e) \<noteq> Some y_leaf then Inl FailTrace
         else let s = 4 * unat slot in
           rbind (ok_or FailShape (get_range (ids_chunk e) s (s + 4))) (\<lambda>b.
             let i = ucast (le_u32 b) in if ucast (n_exp g_entry) \<le> i then Inl FailMismatch else Inr i))"

definition point_input :: "bytes \<Rightarrow> u64 \<Rightarrow> u64 \<Rightarrow> u64 \<Rightarrow> fail + bytes" where
  "point_input x x_one slots slot =
     (if length x = unat x_one then Inr x
      else if 1 < slots \<and> length x = unat (slots * x_one)
      then ok_or FailPanicked (get_range x (unat (slot * x_one)) (unat ((slot + 1) * x_one)))
      else Inl FailShape)"

text \<open>The second half of \<open>verify_point_at\<close>, with the products, the slot and the row drawn: the committed
  input and output, then the recomputation.\<close>

definition check_point :: "libm \<Rightarrow> blake3 \<Rightarrow> tier_ctx \<Rightarrow> response_ctx \<Rightarrow> point \<Rightarrow> pos_shape \<Rightarrow> expert_ids option \<Rightarrow> u8 \<Rightarrow> u64 \<Rightarrow> u64
    \<Rightarrow> entry \<times> u64 \<Rightarrow> entry option \<Rightarrow> u64 \<Rightarrow> u64 \<Rightarrow> u64 \<Rightarrow> u64 \<Rightarrow> fail + report \<times> opened" where
  "check_point L B tier resp p sh ids role t rank gate up slots slot m_out row =
     (let (g_entry, g_rank) = gate;
          experts = (ids \<noteq> None);
          n_pos_leaves = unat (n_leaves sh);
          layout = input_layout role (pt_n_ubatch p) (wtype g_entry) in
      rbind (point_input (pt_x p) (x_len (en_k g_entry) layout) slots slot) (\<lambda>x.
      rbind (ok_or FailTrace (b3_fold B n_pos_leaves (unat (2 * g_rank)) (b3_hash B (pt_x p)) (pt_x_path p))) (\<lambda>pr.
        if \<not> b3_verify B (trace_root resp) (unat (n_pos resp)) (unat t) pr (pt_pos_path p) then Inl FailTrace
        else if pt_n_ubatch p \<noteq> expected_ubatch t (n_prompt resp) then Inl FailMismatch
        else if \<not> b3_verify B pr n_pos_leaves (unat (meta_index sh)) (meta_hash B sh t (pt_n_ubatch p)) (pt_meta_path p) then Inl FailTrace
        else let body = slots * m_out * 4 in
          if experts \<and> body mod 1024 \<noteq> 0 then Inl FailShape
          else let y_off = (slot * m_out + row) * 4;
                   y_total = body + (if experts then 4 * slots else 0) in
            if ucast (y_total_len p) \<noteq> y_total \<or> ucast (y_chunk_index p) \<noteq> y_off div 1024 then Inl FailShape
            else rbind (ok_or FailTrace (b3_leaf_from_chunk B (unat (y_total_len p)) (unat (y_chunk_index p)) (y_chunk p) (y_chunk_path p))) (\<lambda>y_leaf.
              if \<not> b3_verify B pr n_pos_leaves (unat (2 * g_rank + 1)) y_leaf (y_path p) then Inl FailTrace
              else let i = unat (y_off mod 1024) in
                rbind (ok_or FailPanicked (get_range (y_chunk p) i (i + 4))) (\<lambda>yb.
                rbind (point_expert B g_entry y_total body y_leaf ids slot) (\<lambda>ex.
                  let y = f64_of_f32 (le_u32 yb) in
                  if \<not> sums_consistent x layout (unat (en_k g_entry)) then Inl FailMismatch
                  else rbind (point_value L B tier p g_entry up x layout ex row m_out) (\<lambda>(h, tol).
                    if \<not> within_tol y h tol then Inl FailMismatch
                    else Inr (\<lparr>rep_t = t, rep_rank = rank, rep_row = row, rep_y = y, rep_y_hat = h, rep_tol = tol\<rparr>,
                              \<lparr>pos_root = pr, oi_input = g_entry, oi_layout = layout, oi_slot = slot, oi_expert = ex\<rparr>))))))))"

definition verify_point_at :: "libm \<Rightarrow> blake3 \<Rightarrow> tier_ctx \<Rightarrow> response_ctx \<Rightarrow> hash \<Rightarrow> u32 \<Rightarrow> point \<Rightarrow> pos_shape \<Rightarrow> expert_ids option
    \<Rightarrow> fail + report \<times> opened" where
  "verify_point_at L B tier resp seed i p sh ids =
     (if n_pos resp = 0 \<or> n_prompt resp = 0 \<or> n_pos resp < n_prompt resp then Inl FailShape
      else if n_products tier = 0 \<or> n_entries tier < n_products tier then Inl FailShape
      else let d = draw_point B seed i; rank = d ! 1 mod n_products tier in
        rbind (open_entry B tier (pt_entry p) rank) (\<lambda>first.
        let output_only = (en_role first = ROLE_OUTPUT); heads = (en_role first = ROLE_HEADS) in
        if en_role first \<noteq> ROLE_PRODUCT \<and> \<not> output_only \<and> \<not> heads then Inl FailManifest
        else rbind (point_position resp output_only (d ! 0)) (\<lambda>t.
        rbind (point_gate B tier p first rank) (\<lambda>(gate, up).
        let g_entry = fst gate; experts = (1 < n_exp g_entry \<and> \<not> heads) in
        if experts \<noteq> (ids \<noteq> None) \<or> (experts \<and> n_used sh = 0) \<or> (heads \<and> (n_exp g_entry < 2 \<or> up \<noteq> None)) then Inl FailShape
        else if (case up of None \<Rightarrow> False | Some u \<Rightarrow> n_exp u \<noteq> n_exp g_entry) then Inl FailManifest
        else let slots = (if experts then ucast (n_used sh) else if heads then ucast (n_exp g_entry) else 1);
                 slot = (if 1 < slots then drop_bit 32 (d ! 3) mod slots else 0);
                 m_out = (if glu_form g_entry = FORM_SPLIT then en_m g_entry div 2 else en_m g_entry) in
          if m_out = 0 then Inl FailShape
          else check_point L B tier resp p sh ids (en_role first) t rank gate up slots slot m_out (d ! 2 mod m_out)))))"

definition verify_point :: "libm \<Rightarrow> blake3 \<Rightarrow> tier_ctx \<Rightarrow> response_ctx \<Rightarrow> hash \<Rightarrow> u32 \<Rightarrow> point \<Rightarrow> fail + report" where
  "verify_point L B tier resp seed i p =
     rbind (verify_point_at L B tier resp seed i p (stage1 (n_products tier)) None) (\<lambda>(r, _). Inr r)"

end
