(* ===== verification/Chain_Links.thy ===== *)
theory Chain_Links
  imports Point_Check
begin

unbundle bit_operations_syntax

section \<open>Links between committed activations\<close>

text \<open>
  Model of the arithmetic of \<open>verifiable-inference/src/chain.rs\<close> (stage-2 leaf layout, link draws, norms,
  deviations, residual sums, routing) and of \<open>prefix.rs\<close>, without their openings, which are in
  \<open>Chain_Check\<close>.
\<close>

record chain_ctx =
  n_layers :: u32
  layer_base :: u32
  embd_entry :: u32
  cx_eps :: f64
  embd_scale :: f64
  trim_last :: bool
  cx_n_used :: u32
  n_attn :: u32
  n_recur :: u32
  seq_heads :: u32

definition RESID_POINT :: u32 where [simp]: "RESID_POINT = POINTS + 1"
definition EPS_RESID :: f64 where "EPS_RESID = f64_lit 1 1000000"
definition NORM_FRAGMENT_BLOCKS :: u64 where [simp]: "NORM_FRAGMENT_BLOCKS = 8"
definition CHUNK_BLOCKS :: u64 where [simp]: "CHUNK_BLOCKS = 8"
definition FRAGMENT_DRAW :: u32 where [simp]: "FRAGMENT_DRAW = 64"
definition PEAK_OVER_MEDIAN :: f32 where "PEAK_OVER_MEDIAN = f32_of_int 1024"
definition RESID_RMS_MIN :: f64 where "RESID_RMS_MIN = f64_lit 1 1000"
definition RESID_RMS_MAX :: f64 where "RESID_RMS_MAX = f64_of_int 1024"
definition RESID_CHUNK_RMS_MIN :: f64 where "RESID_CHUNK_RMS_MIN = f64_lit 1 10000"
definition THRESHOLD :: f64 where "THRESHOLD = f64_of_int 1"
definition F32_MIN_POSITIVE :: f64 where "F32_MIN_POSITIVE = f64_of_f32 0x00800000"

subsection \<open>Leaves of a stage-2 position\<close>

datatype resid_kind = ResidAttn | ResidOut

definition n_pos_leaves :: "u64 \<Rightarrow> u64 \<Rightarrow> u64 \<Rightarrow> u64" where "n_pos_leaves np nl nr = 2 * np + 2 * nl + nr + 1"
definition router_leaf :: "u64 \<Rightarrow> u64 \<Rightarrow> u64 \<Rightarrow> u64" where "router_leaf np nl layer = 2 * np + 2 * nl + layer"
definition resid_leaf :: "u64 \<Rightarrow> u64 \<Rightarrow> resid_kind \<Rightarrow> u64" where
  "resid_leaf np layer kind = 2 * np + 2 * layer + (if kind = ResidAttn then 0 else 1)"
definition meta_leaf :: "u64 \<Rightarrow> u64 \<Rightarrow> u64 \<Rightarrow> u64" where "meta_leaf np nl nr = 2 * np + 2 * nl + nr"

definition n_router :: "chain_ctx \<Rightarrow> u64" where
  "n_router ctx = (if 0 < cx_n_used ctx then ucast (n_layers ctx) else 0)"

definition chain_shape :: "tier_ctx \<Rightarrow> chain_ctx \<Rightarrow> u32 \<Rightarrow> pos_shape" where
  "chain_shape tier ctx tok =
     \<lparr>n_leaves = n_pos_leaves (n_products tier) (ucast (n_layers ctx)) (n_router ctx),
      meta_index = meta_leaf (n_products tier) (ucast (n_layers ctx)) (n_router ctx),
      ps_tok = Some tok, n_used = cx_n_used ctx\<rparr>"

subsection \<open>Drawn blocks\<close>

definition norm_fragment :: "u64 \<Rightarrow> u64 \<Rightarrow> u64 \<times> u64" where
  "norm_fragment block k = (let blocks = div_ceil64 k 32; n = min NORM_FRAGMENT_BLOCKS blocks
     in (min block (blocks - n), n))"

fun weighted_pick :: "u64 list \<Rightarrow> nat \<Rightarrow> u64 \<Rightarrow> u64 option" where
  "weighted_pick [] b target = None"
| "weighted_pick (w # ws) b target = (if target < w then Some (word_of_nat b) else weighted_pick ws (b + 1) (target - w))"

definition peak_of :: "f32 list \<Rightarrow> f32" where "peak_of ds = foldl f32_max 0 ds"

definition link_block :: "blake3 \<Rightarrow> hash \<Rightarrow> u32 \<Rightarrow> bytes \<Rightarrow> u8 \<Rightarrow> u64 \<Rightarrow> u64 option" where
  "link_block B seed i x layout k =
     (if k mod 32 \<noteq> 0 then None
      else do { blocks \<leftarrow> q8_blocks x layout (unat k);
        let n = (word_of_nat (length blocks) :: u64);
        let r = draw_point B seed (FRAGMENT_DRAW + i);
        let ds = map (\<lambda>(d, _). f32_abs d) blocks;
        let peak = peak_of ds;
        let w = map (\<lambda>d. 1 + (if f32_lt 0 peak
                 then u64_of_f64 (f64_mul (f64_div (f64_of_f32 d) (f64_of_f32 peak)) (f64_of_int 65535)) else 0)) ds;
        if n = 0 then None
        else if r ! 1 AND 1 = 0 then Some (r ! 0 mod n)
        else if \<not> f32_finite peak then None
        else weighted_pick w 0 (r ! 2 mod sum_list w) })"

text \<open>The key of \<open>f32::total_cmp\<close>.\<close>

definition total_key :: "f32 \<Rightarrow> int" where
  "total_key x = sint (x XOR (if bit x 31 then 0x7fffffff else 0))"

definition peak_bounded :: "bytes \<Rightarrow> u8 \<Rightarrow> u64 \<Rightarrow> u64 \<Rightarrow> bool" where
  "peak_bounded x layout k slot =
     (let x_one = unat (x_len k layout) in
      if k mod 32 \<noteq> 0 \<or> x_one = 0 \<or> x = [] \<or> length x mod x_one \<noteq> 0 then False
      else (case nth_opt (chunks_exact x_one x) (if length x = x_one then 0 else unat slot) of
          None \<Rightarrow> False
        | Some row \<Rightarrow> (case q8_blocks row layout (unat k) of
            None \<Rightarrow> False
          | Some blocks \<Rightarrow> let d = map (\<lambda>(b, _). f32_abs b) blocks in
              if list_ex (\<lambda>v. \<not> f32_finite v) d then False
              else let peak = peak_of d; median = sort_key total_key d ! (length d div 2)
                in f32_eq median 0 \<or> f32_le peak (f32_mul PEAK_OVER_MEDIAN median))))"

subsection \<open>Norms\<close>

definition f64_len :: "'a list \<Rightarrow> f64" where "f64_len xs = f64_of_int (int (length xs))"

definition rms :: "libm \<Rightarrow> f32 list \<Rightarrow> f64" where
  "rms L v = lm_sqrt L (f64_div (f64_sum (map (\<lambda>a. f64_prod (a, a)) v)) (f64_of_int (max (int (length v)) 1)))"

definition rms_scaled :: "libm \<Rightarrow> f32 list \<Rightarrow> f64 \<Rightarrow> f64 \<Rightarrow> f64 list" where
  "rms_scaled L v eps sc = (let e = map (\<lambda>a. f64_mul (f64_of_f32 a) sc) v;
       inv = f64_div (f64_of_int 1) (lm_sqrt L (f64_add (f64_div (f64_sum (map (\<lambda>a. f64_mul a a) e)) (f64_len e)) eps))
     in map (\<lambda>a. f64_mul a inv) e)"

definition expected_input :: "libm \<Rightarrow> f32 list \<Rightarrow> f32 list \<Rightarrow> f64 \<Rightarrow> f64 \<Rightarrow> f64 list" where
  "expected_input L embd_row norm eps sc = (let e = map (\<lambda>a. f64_mul (f64_of_f32 a) sc) embd_row;
       ms = f64_div (f64_sum (map (\<lambda>a. f64_mul a a) e)) (f64_len e);
       inv = f64_div (f64_of_int 1) (lm_sqrt L (f64_add ms eps))
     in map (\<lambda>(v, w). f64_mul (f64_mul v inv) (f64_of_f32 w)) (zip e norm))"

definition rms_norm :: "libm \<Rightarrow> f32 list \<Rightarrow> f32 list \<Rightarrow> f64 \<Rightarrow> f64 list" where
  "rms_norm L v w eps = expected_input L v w eps (f64_of_int 1)"

subsection \<open>Deviation of a quantized row from expected values\<close>

definition max_abs :: "f64 list \<Rightarrow> f64" where "max_abs v = foldl (\<lambda>m a. f64_max m (f64_abs a)) 0 v"

text \<open>One block: \<open>None\<close> when it is malformed or a zero scale faces a nonzero value, else the deviations \<open>|q - a / d|\<close>.\<close>

definition block_devs :: "f64 \<Rightarrow> f32 \<times> u8 list \<Rightarrow> f64 list \<Rightarrow> f64 list option" where
  "block_devs vmax dq vals = (case dq of (d, q) \<Rightarrow>
     if \<not> f32_finite d \<or> \<not> canonical d q \<or> list_ex (\<lambda>a. \<not> f64_finite a) vals then None
     else if f32_eq d 0 then (if list_ex (\<lambda>a. f64_lt (f64_mul (f64_lit 1 1000000) vmax) (f64_abs a)) vals then None else Some [])
     else Some (map (\<lambda>(j, a). f64_abs (f64_sub (f64_of_int (sint (q ! j))) (f64_div a (f64_of_f32 d)))) (zip [0..<length vals] vals)))"

fun devs_loop :: "f64 \<Rightarrow> (f32 \<times> u8 list) list \<Rightarrow> f64 list \<Rightarrow> f64 list list option" where
  "devs_loop vmax [] v = Some []"
| "devs_loop vmax (dq # blocks) v = do { ds \<leftarrow> block_devs vmax dq (take 32 v);
     rest \<leftarrow> devs_loop vmax blocks (drop 32 v); Some (ds # rest) }"

definition deviation :: "bytes \<Rightarrow> u8 \<Rightarrow> f64 list \<Rightarrow> f64 option" where
  "deviation x layout v = do { blocks \<leftarrow> q8_blocks x layout (length v);
     ds \<leftarrow> devs_loop (max_abs v) blocks v; Some (foldl f64_max 0 (concat ds)) }"

definition block_devs_at :: "bytes \<Rightarrow> u8 \<Rightarrow> nat \<Rightarrow> nat \<Rightarrow> f64 list \<Rightarrow> f64 list list option" where
  "block_devs_at x layout k first_block v = do { blocks \<leftarrow> q8_blocks x layout k;
     bs \<leftarrow> get_range blocks first_block (first_block + up_div (length v) 32);
     devs_loop (max_abs v) bs v }"

definition block_deviation :: "bytes \<Rightarrow> u8 \<Rightarrow> nat \<Rightarrow> nat \<Rightarrow> f64 list \<Rightarrow> f64 option" where
  "block_deviation x layout k first_block v = do { ds \<leftarrow> block_devs_at x layout k first_block v;
     Some (foldl f64_max 0 (concat ds)) }"

definition block_outliers :: "bytes \<Rightarrow> u8 \<Rightarrow> nat \<Rightarrow> nat \<Rightarrow> f64 list \<Rightarrow> f64 \<Rightarrow> (f64 \<times> nat) option" where
  "block_outliers x layout k first_block v base = do { ds \<leftarrow> block_devs_at x layout k first_block v;
     Some (foldl f64_max 0 (concat ds), foldl (\<lambda>s d. max s (length (filter (f64_lt base) d))) 0 ds) }"

definition within :: "f64 option \<Rightarrow> fail + unit" where
  "within dev = (case dev of Some d \<Rightarrow> if f64_le d THRESHOLD then Inr () else Inl FailMismatch | None \<Rightarrow> Inl FailMismatch)"

definition scale_by :: "f64 list \<Rightarrow> f32 list \<Rightarrow> f64 list" where
  "scale_by a w = map (\<lambda>(a, b). f64_mul a (f64_of_f32 b)) (zip a w)"

definition fragment_link :: "bytes \<Rightarrow> u8 \<Rightarrow> nat \<Rightarrow> f64 list \<Rightarrow> f32 list \<Rightarrow> u64 \<Rightarrow> u64 \<Rightarrow> fail + unit" where
  "fragment_link x layout k scaled w b0 n =
     (let lo = unat (b0 * 32); hi = min (unat ((b0 + n) * 32)) k in
      if length scaled \<noteq> k \<or> length w \<noteq> hi - lo then Inl FailShape
      else within (block_deviation x layout k (unat b0) (scale_by (slice scaled lo (hi - lo)) w)))"

definition norm_link :: "libm \<Rightarrow> bytes \<Rightarrow> u8 \<Rightarrow> f32 list \<Rightarrow> f32 list \<Rightarrow> f64 \<Rightarrow> fail + unit" where
  "norm_link L x layout src w eps =
     (if length src \<noteq> length w \<or> src = [] then Inl FailShape
      else within (block_deviation x layout (length src) 0 (rms_norm L src w eps)))"

definition glu_link :: "bytes \<Rightarrow> u8 \<Rightarrow> nat \<Rightarrow> nat \<Rightarrow> f32 list \<Rightarrow> fail + unit" where
  "glu_link x layout k first_block h =
     (if h = [] then Inl FailShape else within (block_deviation x layout k first_block (map f64_of_f32 h)))"

definition resid_elem_ok :: "f64 \<Rightarrow> f32 \<Rightarrow> f64 \<Rightarrow> f32 \<Rightarrow> bool" where
  "resid_elem_ok sc d a s =
     (let s = f64_of_f32 s;
          tol = f64_add (f64_mul (f64_mul EPS_RESID (f64_abs sc)) (f64_add (f64_abs a) (f64_abs s))) F32_MIN_POSITIVE
      in f64_finite tol \<and> f64_le (f64_abs (f64_sub (f64_of_f32 d) (f64_mul sc (f64_add a s)))) tol)"

definition residual_link :: "f32 list \<Rightarrow> f64 list \<Rightarrow> f32 list \<Rightarrow> f64 \<Rightarrow> fail + unit" where
  "residual_link dst add src sc =
     (if dst = [] \<or> length dst \<noteq> length add \<or> length dst \<noteq> length src then Inl FailShape
      else if list_all (\<lambda>(d, a, s). resid_elem_ok sc d a s) (zip dst (zip add src)) then Inr () else Inl FailMismatch)"

subsection \<open>Values of committed bytes\<close>

definition f32s :: "bytes \<Rightarrow> f32 list" where "f32s b = map le_u32 (chunks_exact 4 b)"

definition finite_f32s :: "bytes \<Rightarrow> fail + f32 list" where
  "finite_f32s b = (if list_all f32_finite (f32s b) then Inr (f32s b) else Inl FailMismatch)"

subsection \<open>Routing\<close>

definition EPS_ROUTE :: f64 where "EPS_ROUTE = f64_lit 1 100000"
definition ROUTE_SUM_FLOOR :: f64 where "ROUTE_SUM_FLOOR = f64_lit 6103515625 (10 ^ 14)"
definition EPS_MOE :: f64 where "EPS_MOE = f64_lit 1 100000"
definition EPS_ROUTER :: f64 where "EPS_ROUTER = f64_div (f64_of_int 1) (f64_of_int 512)"

text \<open>The committed experts in order: each exists, is new and does not exceed the one before.\<close>

fun route_chosen :: "f64 list \<Rightarrow> nat list \<Rightarrow> f64 \<Rightarrow> nat set \<Rightarrow> nat set option" where
  "route_chosen sel [] prev chosen = Some chosen"
| "route_chosen sel (i # is1) prev chosen =
     (if length sel \<le> i \<or> i \<in> chosen \<or> f64_lt (f64_add prev EPS_ROUTE) (sel ! i) then None
      else route_chosen sel is1 (sel ! i) (insert i chosen))"

definition route_weights :: "libm \<Rightarrow> f32 list \<Rightarrow> f32 list \<Rightarrow> u32 list \<Rightarrow> f64 \<Rightarrow> f64 list option" where
  "route_weights L scores bias ids wsc =
     (if length scores \<noteq> length bias \<or> ids = [] \<or> length scores < length ids then None
      else let one = f64_of_int 1;
               p = map (\<lambda>x. f64_div one (f64_add one (lm_exp L (f64_neg (f64_of_f32 x))))) scores;
               sel = map (\<lambda>(a, b). f64_add a (f64_of_f32 b)) (zip p bias);
               ix = map unat ids in
        if list_ex (\<lambda>v. \<not> f64_finite v) p \<or> list_ex (\<lambda>b. \<not> f32_finite b) bias then None
        else do { chosen \<leftarrow> route_chosen sel ix f64_inf {};
          let low = foldl f64_min f64_inf (map (\<lambda>i. sel ! i) ix);
          if list_ex (\<lambda>(i, v). i \<notin> chosen \<and> f64_lt (f64_add low EPS_ROUTE) v) (zip [0..<length sel] sel) then None
          else let sm = f64_max (f64_sum (map (\<lambda>i. p ! i) ix)) ROUTE_SUM_FLOOR
            in Some (map (\<lambda>i. f64_mul (f64_div (p ! i) sm) wsc) ix) })"

subsection \<open>Sites of residual points\<close>

definition layer_role :: "u8 \<Rightarrow> bool \<Rightarrow> bool" where
  "layer_role role trimmed \<longleftrightarrow> role = ROLE_PRODUCT \<or> (trimmed \<and> role = ROLE_OUTPUT)"

definition is_trimmed :: "chain_ctx \<Rightarrow> u64 \<Rightarrow> bool" where
  "is_trimmed ctx layer \<longleftrightarrow> trim_last ctx \<and> layer + 1 = ucast (n_layers ctx)"

definition resid_position :: "chain_ctx \<Rightarrow> response_ctx \<Rightarrow> u64 \<Rightarrow> u64 \<Rightarrow> fail + u64" where
  "resid_position ctx resp layer d0 =
     (let np = ucast (n_pos resp) :: u64 in
      if is_trimmed ctx layer then
        (if n_prompt resp = 0 \<or> np \<le> ucast (n_prompt resp) - 1 then Inl FailShape
         else let first = ucast (n_prompt resp) - 1 in Inr (first + d0 mod (np - first)))
      else if np = 0 then Inl FailPanicked else Inr (d0 mod np))"

fun site_loop :: "nat \<Rightarrow> u64 \<Rightarrow> u64 \<Rightarrow> u64 \<Rightarrow> u64" where
  "site_loop 0 j n x = 0"
| "site_loop (Suc m) j n x = (if x < n - j then j else site_loop m (j + 1) n (x - (n - j)))"

definition resid_site :: "u64 \<Rightarrow> u64 \<Rightarrow> u64" where
  "resid_site d1 n_sites = site_loop (unat n_sites) 0 n_sites (d1 mod max (n_sites * (n_sites + 1) div 2) 1)"

definition resid_layer_kind :: "u64 \<Rightarrow> u64 \<times> resid_kind" where
  "resid_layer_kind sel = (sel div 2, if sel mod 2 = 0 then ResidAttn else ResidOut)"

subsection \<open>The request-bound prefix\<close>

definition PREFIX_LEN :: u32 where [simp]: "PREFIX_LEN = 32"
definition PREFIX_POINT :: u32 where [simp]: "PREFIX_POINT = POINTS"

record prefix_ctx =
  px_table :: "u32 list"
  px_offset :: u32
  px_embd_entry :: u32
  norm_entry :: u32
  px_eps :: f64
  px_embd_scale :: f64

definition saturating_add32 :: "u32 \<Rightarrow> u32 \<Rightarrow> u32" where
  "saturating_add32 a b = (if unat a + unat b < 2 ^ 32 then a + b else - 1)"

definition fits :: "u32 \<Rightarrow> u32 \<Rightarrow> bool" where "fits np off \<longleftrightarrow> saturating_add32 off PREFIX_LEN \<le> np"

definition prefix_position :: "blake3 \<Rightarrow> hash \<Rightarrow> u32 \<Rightarrow> u64" where
  "prefix_position B seed off = ucast off + draw_point B seed PREFIX_POINT ! 0 mod ucast PREFIX_LEN"

definition expected_token :: "prefix_ctx \<Rightarrow> hash \<Rightarrow> u64 \<Rightarrow> u32 option" where
  "expected_token ctx request_txid t =
     (if t < ucast (px_offset ctx) then None
      else let i = t - ucast (px_offset ctx) in
        if i < ucast PREFIX_LEN then Some (px_table ctx ! unat (hash_bytes request_txid ! unat i)) else None)"

end
