(* ===== verification/Chain_Check.thy ===== *)
theory Chain_Check
  imports Chain_Links
begin

section \<open>Stage-2 points: inputs, prefix, residuals, block tasks\<close>

text \<open>
  Model of the checks of \<open>verifiable-inference/src/chain.rs\<close> (its attention points are in \<open>Attn_Check\<close>), of
  \<open>verify_prefix_point_at\<close> of \<open>prefix.rs\<close> and of \<open>block_task.rs\<close>. Each arm of the match over link kinds is
  a definition of its own.
\<close>

subsection \<open>Committed values\<close>

definition f32_weights :: "blake3 \<Rightarrow> tier_ctx \<Rightarrow> weights \<Rightarrow> u32 \<Rightarrow> u64 \<Rightarrow> u64 \<Rightarrow> u64 \<Rightarrow> fail + f32 list" where
  "f32_weights B tier w index k offset n = rbind (open_entry B tier (fst w) (ucast index)) (\<lambda>e.
     if en_role e \<noteq> ROLE_NORM \<or> wtype e \<noteq> 0 \<or> en_k e \<noteq> k then Inl FailManifest
     else rbind (open_bytes B tier e (snd w) (4 * offset) (4 * n)) (\<lambda>b. Inr (f32s b)))"

definition embedding :: "blake3 \<Rightarrow> tier_ctx \<Rightarrow> chain_ctx \<Rightarrow> weights \<Rightarrow> u32 \<Rightarrow> u64 \<Rightarrow> fail + f32 list" where
  "embedding B tier ctx w tok k = rbind (open_entry B tier (fst w) (ucast (embd_entry ctx))) (\<lambda>e.
     if en_role e \<noteq> ROLE_EMBD \<or> en_k e \<noteq> k \<or> n_exp e \<noteq> 1 then Inl FailManifest
     else rbind (open_row B tier e (snd w) (ucast tok)) (\<lambda>row. ok_or FailUnsupported (dequant_row (wtype e) row (unat k))))"

definition whole_leaf :: "blake3 \<Rightarrow> hash \<Rightarrow> pos_shape \<Rightarrow> u64 \<Rightarrow> leaf_bytes \<Rightarrow> u64 \<Rightarrow> fail + f32 list" where
  "whole_leaf B pr sh index l len =
     (if length (lb_bytes l) \<noteq> unat len then Inl FailShape
      else if \<not> b3_verify B pr (unat (n_leaves sh)) (unat index) (b3_hash B (lb_bytes l)) (lb_leaf_path l) then Inl FailTrace
      else finite_f32s (lb_bytes l))"

definition chunk_leaf_raw :: "blake3 \<Rightarrow> expert_ids \<Rightarrow> u64 \<Rightarrow> u64 \<Rightarrow> fail + hash" where
  "chunk_leaf_raw B c total_len index =
     ok_or FailTrace (b3_leaf_from_chunk B (unat total_len) (unat index) (ids_chunk c) (ids_chunk_path c))"

definition chunk_leaf :: "blake3 \<Rightarrow> leaf_chunk \<Rightarrow> u64 \<Rightarrow> u64 \<Rightarrow> fail + hash" where
  "chunk_leaf B c total_len index =
     (if ucast (lc_total_len c) \<noteq> total_len \<or> ucast (lc_index c) \<noteq> index then Inl FailShape
      else ok_or FailTrace (b3_leaf_from_chunk B (unat total_len) (unat index) (lc_chunk c) (lc_chunk_path c)))"

definition leaf_chunk_values :: "blake3 \<Rightarrow> hash \<Rightarrow> pos_shape \<Rightarrow> u64 \<Rightarrow> leaf_chunk \<Rightarrow> u64 \<Rightarrow> u64 \<Rightarrow> fail + f32 list" where
  "leaf_chunk_values B pr sh leaf c total_len index = rbind (chunk_leaf B c total_len index) (\<lambda>h.
     if \<not> b3_verify B pr (unat (n_leaves sh)) (unat leaf) h (lc_leaf_path c) then Inl FailTrace
     else finite_f32s (lc_chunk c))"

definition n_leaf_chunks :: "u64 \<Rightarrow> u64" where "n_leaf_chunks total_len = max (div_ceil64 total_len 1024) 1"

subsection \<open>The link of a product input\<close>

definition slot_row :: "bytes \<Rightarrow> u64 \<Rightarrow> u64 \<Rightarrow> fail + bytes" where
  "slot_row x x_one slot = ok_or FailShape (get_range x (unat (slot * x_one)) (unat ((slot + 1) * x_one)))"

definition link_token :: "libm \<Rightarrow> blake3 \<Rightarrow> tier_ctx \<Rightarrow> chain_ctx \<Rightarrow> hash \<Rightarrow> u32 \<Rightarrow> point \<Rightarrow> u32 \<Rightarrow> opened \<Rightarrow> product_link \<Rightarrow> weights \<Rightarrow> weights \<Rightarrow> fail + unit" where
  "link_token L B tier ctx seed i p tok oi pl embd norm =
     (let k = en_k (oi_input oi) in
      rbind (ok_or FailShape (link_block B seed i (pt_x p) (oi_layout oi) k)) (\<lambda>blk.
      let (b0, n) = norm_fragment blk k in
      rbind (f32_weights B tier norm (pl_norm pl) k (b0 * 32) (min (n * 32) (k - b0 * 32))) (\<lambda>w.
      rbind (embedding B tier ctx embd tok k) (\<lambda>e.
        fragment_link (pt_x p) (oi_layout oi) (unat k) (rms_scaled L e (cx_eps ctx) (embd_scale ctx)) w b0 n))))"

definition link_norm_leaf :: "u64 \<Rightarrow> u64 \<Rightarrow> u8 \<Rightarrow> u64 \<Rightarrow> u64 option" where
  "link_norm_leaf np nl link layer =
     (if link = LINK_ATTN_IN \<and> 0 < layer then Some (resid_leaf np (layer - 1) ResidOut)
      else if link = LINK_FFN_IN then Some (resid_leaf np layer ResidAttn)
      else if link = LINK_HEAD \<and> 0 < nl then Some (resid_leaf np (nl - 1) ResidOut)
      else None)"

definition link_norm :: "libm \<Rightarrow> blake3 \<Rightarrow> tier_ctx \<Rightarrow> chain_ctx \<Rightarrow> hash \<Rightarrow> u32 \<Rightarrow> point \<Rightarrow> pos_shape \<Rightarrow> opened \<Rightarrow> product_link \<Rightarrow> leaf_bytes \<Rightarrow> weights \<Rightarrow> fail + unit" where
  "link_norm L B tier ctx seed i p sh oi pl src norm =
     (let k = en_k (oi_input oi) in
      rbind (ok_or FailShape (link_norm_leaf (n_products tier) (ucast (n_layers ctx)) (pl_link pl) (ucast (pl_layer pl)))) (\<lambda>leaf.
      rbind (whole_leaf B (pos_root oi) sh leaf src (4 * k)) (\<lambda>h.
        if \<not> (f64_le RESID_RMS_MIN (rms L h) \<and> f64_le (rms L h) RESID_RMS_MAX) then Inl FailMismatch
        else let x_one = x_len k (oi_layout oi) in
          rbind (if length (pt_x p) = unat x_one then Inr (pt_x p) else slot_row (pt_x p) x_one (oi_slot oi)) (\<lambda>xs.
          rbind (ok_or FailShape (link_block B seed i xs (oi_layout oi) k)) (\<lambda>blk.
          let (b0, n) = norm_fragment blk k in
          rbind (f32_weights B tier norm (pl_norm pl) k (b0 * 32) (min (n * 32) (k - b0 * 32))) (\<lambda>w.
            fragment_link xs (oi_layout oi) (unat k) (rms_scaled L h (cx_eps ctx) (f64_of_int 1)) w b0 n))))))"

definition link_experts :: "blake3 \<Rightarrow> tier_ctx \<Rightarrow> chain_ctx \<Rightarrow> hash \<Rightarrow> u32 \<Rightarrow> point \<Rightarrow> pos_shape \<Rightarrow> opened \<Rightarrow> product_link \<Rightarrow> entry_opening \<Rightarrow> leaf_chunk \<Rightarrow> expert_ids \<Rightarrow> fail + unit" where
  "link_experts B tier ctx seed i p sh oi pl src y ids =
     (let k = en_k (oi_input oi); slots = ucast (cx_n_used ctx) :: u64 in
      rbind (open_entry B tier src (ucast (pl_src pl))) (\<lambda>se.
        if glu_form se \<noteq> FORM_PAIR_GATE \<or> n_exp se \<noteq> n_exp (oi_input oi) \<or> en_m se \<noteq> k then Inl FailManifest
        else let body = slots * k * 4; per_slot = k * 4 div 1024 in
          if per_slot = 0 \<or> (k * 4) mod 1024 \<noteq> 0 then Inl FailShape
          else let total = body + 4 * slots; gate_y = 2 * ucast (pl_src pl) + 1 in
            rbind (chunk_leaf_raw B ids total (body div 1024)) (\<lambda>ids_leaf.
              if \<not> b3_verify B (pos_root oi) (unat (n_leaves sh)) (unat gate_y) ids_leaf (lc_leaf_path y) then Inl FailTrace
              else let s = 4 * unat (oi_slot oi) in
                rbind (ok_or FailShape (get_range (ids_chunk ids) s (s + 4))) (\<lambda>ib.
                  if ucast (le_u32 ib) \<noteq> oi_expert oi then Inl FailMismatch
                  else rbind (slot_row (pt_x p) (x_len k (oi_layout oi)) (oi_slot oi)) (\<lambda>xs.
                    rbind (ok_or FailShape (link_block B seed i xs (oi_layout oi) k)) (\<lambda>blk.
                    let c = oi_slot oi * per_slot + blk div CHUNK_BLOCKS in
                    rbind (leaf_chunk_values B (pos_root oi) sh gate_y y total c) (\<lambda>h.
                      glu_link xs (oi_layout oi) (unat k) (unat ((c - oi_slot oi * per_slot) * 1024 div 128)) h)))))))"

text \<open>The output width a GLU or a direct link reads from its source.\<close>

definition source_width :: "u8 \<Rightarrow> entry \<Rightarrow> u64 option" where
  "source_width link se =
     (if link = LINK_GLU \<and> glu_form se = FORM_PAIR_GATE then Some (en_m se)
      else if link = LINK_GLU \<and> glu_form se = FORM_SPLIT then Some (en_m se div 2)
      else if link = LINK_DIRECT \<and> glu_form se = FORM_NONE \<and> en_role se = ROLE_PRODUCT then Some (en_m se)
      else if link = LINK_DIRECT \<and> glu_form se = FORM_NONE \<and> en_role se = ROLE_HEADS then Some (en_m se * ucast (n_exp se))
      else None)"

definition link_source :: "blake3 \<Rightarrow> tier_ctx \<Rightarrow> hash \<Rightarrow> u32 \<Rightarrow> point \<Rightarrow> pos_shape \<Rightarrow> opened \<Rightarrow> product_link \<Rightarrow> entry_opening \<Rightarrow> leaf_chunk \<Rightarrow> fail + unit" where
  "link_source B tier seed i p sh oi pl src y =
     (let k = en_k (oi_input oi) in
      rbind (open_entry B tier src (ucast (pl_src pl))) (\<lambda>se.
      rbind (ok_or FailManifest (source_width (pl_link pl) se)) (\<lambda>m_out.
        if m_out \<noteq> k \<or> (n_exp se \<noteq> 1 \<and> en_role se \<noteq> ROLE_HEADS) then Inl FailManifest
        else rbind (ok_or FailShape (link_block B seed i (pt_x p) (oi_layout oi) k)) (\<lambda>blk.
          let c = blk div CHUNK_BLOCKS in
          rbind (leaf_chunk_values B (pos_root oi) sh (2 * ucast (pl_src pl) + 1) y (4 * m_out) c) (\<lambda>h.
            glu_link (pt_x p) (oi_layout oi) (unat k) (unat (c * 1024 div 128)) h)))))"

definition link_head_slice :: "blake3 \<Rightarrow> tier_ctx \<Rightarrow> hash \<Rightarrow> u32 \<Rightarrow> point \<Rightarrow> pos_shape \<Rightarrow> opened \<Rightarrow> product_link \<Rightarrow> entry_opening \<Rightarrow> leaf_chunk \<Rightarrow> fail + unit" where
  "link_head_slice B tier seed i p sh oi pl src y =
     (let k = en_k (oi_input oi); heads = ucast (n_exp (oi_input oi)) :: u64 in
      rbind (open_entry B tier src (ucast (pl_src pl))) (\<lambda>se.
        if en_role se \<noteq> ROLE_PRODUCT \<or> n_exp se \<noteq> 1 \<or> heads < 2 \<or> en_m se mod heads \<noteq> 0 then Inl FailManifest
        else let stride = en_m se div heads in
          if stride < k \<or> k mod 32 \<noteq> 0 \<or> stride mod 32 \<noteq> 0 then Inl FailManifest
          else let start = oi_slot oi * stride in
            rbind (slot_row (pt_x p) (x_len k (oi_layout oi)) (oi_slot oi)) (\<lambda>xs.
            rbind (ok_or FailShape (link_block B seed i xs (oi_layout oi) k)) (\<lambda>blk.
            let c = (start + blk * 32) div 256 in
            rbind (leaf_chunk_values B (pos_root oi) sh (2 * ucast (pl_src pl) + 1) y (4 * en_m se) c) (\<lambda>h.
            let lo = max (c * 256) start; hi = min ((c + 1) * 256) (start + k) in
            rbind (ok_or FailShape (get_range h (unat (lo - c * 256)) (unat (hi - c * 256)))) (\<lambda>vals.
              glu_link xs (oi_layout oi) (unat k) (unat ((lo - start) div 32)) vals))))))"

definition check_link :: "libm \<Rightarrow> blake3 \<Rightarrow> tier_ctx \<Rightarrow> chain_ctx \<Rightarrow> hash \<Rightarrow> u32 \<Rightarrow> point \<Rightarrow> u32 \<Rightarrow> pos_shape \<Rightarrow> opened \<Rightarrow> product_link \<Rightarrow> link_opening \<Rightarrow> fail + unit" where
  "check_link L B tier ctx seed i p tok sh oi pl link =
     (case link of
        LinkNone \<Rightarrow>
          if pl_link pl = LINK_NONE
          then (if peak_bounded (pt_x p) (oi_layout oi) (en_k (oi_input oi)) (oi_slot oi) then Inr () else Inl FailMismatch)
          else Inl FailShape
      | LinkToken embd norm \<Rightarrow>
          if pl_link pl = LINK_ATTN_IN \<and> pl_layer pl = 0 then link_token L B tier ctx seed i p tok oi pl embd norm else Inl FailShape
      | LinkNorm src norm \<Rightarrow>
          if pl_link pl \<in> {LINK_ATTN_IN, LINK_FFN_IN, LINK_HEAD} then link_norm L B tier ctx seed i p sh oi pl src norm else Inl FailShape
      | LinkSource src y ids \<Rightarrow>
          (case ids of
             Some ids \<Rightarrow>
               if pl_link pl = LINK_GLU \<and> 1 < n_exp (oi_input oi) then link_experts B tier ctx seed i p sh oi pl src y ids else Inl FailShape
           | None \<Rightarrow>
               if (pl_link pl = LINK_GLU \<or> pl_link pl = LINK_DIRECT) \<and> n_exp (oi_input oi) = 1 then link_source B tier seed i p sh oi pl src y
               else if pl_link pl = LINK_HEAD_SLICE \<and> en_role (oi_input oi) = ROLE_HEADS then link_head_slice B tier seed i p sh oi pl src y
               else Inl FailShape))"

definition verify_chain_point :: "libm \<Rightarrow> blake3 \<Rightarrow> tier_ctx \<Rightarrow> chain_ctx \<Rightarrow> response_ctx \<Rightarrow> hash \<Rightarrow> u32 \<Rightarrow> point \<Rightarrow> u32 \<Rightarrow> link_opening \<Rightarrow> expert_ids option \<Rightarrow> fail + report" where
  "verify_chain_point L B tier ctx resp seed i p tok link ids =
     (let sh = chain_shape tier ctx tok in
      rbind (verify_point_at L B tier resp seed i p sh ids) (\<lambda>(report, oi).
        case en_chain (oi_input oi) of
          ChainProduct pl \<Rightarrow>
            if pl_link pl \<noteq> LINK_HEAD \<and> n_layers ctx \<le> pl_layer pl then Inl FailManifest
            else rbind (check_link L B tier ctx seed i p tok sh oi pl link) (\<lambda>_. Inr report)
        | _ \<Rightarrow> Inl FailManifest))"

subsection \<open>The prefix point\<close>

definition verify_prefix_point_at :: "libm \<Rightarrow> blake3 \<Rightarrow> tier_ctx \<Rightarrow> prefix_ctx \<Rightarrow> response_ctx \<Rightarrow> hash \<Rightarrow> hash \<Rightarrow> prefix_point \<Rightarrow> (u32 \<Rightarrow> pos_shape) \<Rightarrow> bool \<Rightarrow> fail + u64" where
  "verify_prefix_point_at L B tier ctx resp seed request_txid p shape_for fragment =
     (if n_pos resp = 0 \<or> n_prompt resp = 0 \<or> n_pos resp < n_prompt resp \<or> \<not> fits (n_prompt resp) (px_offset ctx) then Inl FailShape
      else if n_products tier = 0 \<or> n_entries tier < n_products tier then Inl FailShape
      else let t = prefix_position B seed (px_offset ctx) in
      rbind (ok_or FailShape (expected_token ctx request_txid t)) (\<lambda>tok.
      rbind (open_entry B tier (pp_entry p) 0) (\<lambda>first.
      if en_role first \<noteq> ROLE_PRODUCT \<or> n_exp first \<noteq> 1 then Inl FailManifest
      else rbind (open_entry B tier (fst (pp_embd p)) (ucast (px_embd_entry ctx))) (\<lambda>embd.
      rbind (open_entry B tier (fst (pp_norm p)) (ucast (norm_entry ctx))) (\<lambda>norm.
      if en_role embd \<noteq> ROLE_EMBD \<or> en_role norm \<noteq> ROLE_NORM \<or> wtype norm \<noteq> 0 then Inl FailManifest
      else if en_k embd \<noteq> en_k first \<or> en_k norm \<noteq> en_k first \<or> n_exp embd \<noteq> 1 \<or> n_exp norm \<noteq> 1 then Inl FailManifest
      else let sh = shape_for tok; layout = layout_for (pp_n_ubatch p) (wtype first); k = en_k first in
      if length (pp_x p) \<noteq> unat (x_len k layout) then Inl FailShape
      else rbind (ok_or FailTrace (b3_fold B (unat (n_leaves sh)) 0 (b3_hash B (pp_x p)) (pp_x_path p))) (\<lambda>pr.
      if \<not> b3_verify B (trace_root resp) (unat (n_pos resp)) (unat t) pr (pp_pos_path p) then Inl FailTrace
      else if pp_n_ubatch p \<noteq> expected_ubatch t (n_prompt resp) then Inl FailMismatch
      else if \<not> b3_verify B pr (unat (n_leaves sh)) (unat (meta_index sh)) (meta_hash B sh t (pp_n_ubatch p)) (pp_meta_path p) then Inl FailTrace
      else rbind (open_row B tier embd (snd (pp_embd p)) (ucast tok)) (\<lambda>row.
      rbind (ok_or FailUnsupported (dequant_row (wtype embd) row (unat k))) (\<lambda>e.
      rbind (if fragment
             then rbind (ok_or FailShape (link_block B seed PREFIX_POINT (pp_x p) layout k)) (\<lambda>b. Inr (norm_fragment b k))
             else Inr (0, div_ceil64 k 32)) (\<lambda>(b0, nb).
      let lo = b0 * 32; len = min (nb * 32) (k - b0 * 32) in
      rbind (open_bytes B tier norm (snd (pp_norm p)) (4 * lo) (4 * len)) (\<lambda>wb.
      rbind (if fragment
             then rbind (ok_or FailPanicked (get_range (rms_scaled L e (px_eps ctx) (px_embd_scale ctx)) (unat lo) (unat (lo + len)))) (\<lambda>s.
                    Inr (block_deviation (pp_x p) layout (unat k) (unat b0) (scale_by s (f32s wb))))
             else Inr (deviation (pp_x p) layout (expected_input L e (f32s wb) (px_eps ctx) (px_embd_scale ctx)))) (\<lambda>dev.
      case dev of Some d \<Rightarrow> if f64_le d THRESHOLD then Inr t else Inl FailMismatch | None \<Rightarrow> Inl FailMismatch)))))))))))"

definition verify_prefix_point :: "libm \<Rightarrow> blake3 \<Rightarrow> tier_ctx \<Rightarrow> prefix_ctx \<Rightarrow> response_ctx \<Rightarrow> hash \<Rightarrow> hash \<Rightarrow> prefix_point \<Rightarrow> fail + u64" where
  "verify_prefix_point L B tier ctx resp seed request_txid p =
     verify_prefix_point_at L B tier ctx resp seed request_txid p (\<lambda>_. stage1 (n_products tier)) False"

definition verify_chain_prefix_point :: "libm \<Rightarrow> blake3 \<Rightarrow> tier_ctx \<Rightarrow> chain_ctx \<Rightarrow> prefix_ctx \<Rightarrow> response_ctx \<Rightarrow> hash \<Rightarrow> hash \<Rightarrow> prefix_point \<Rightarrow> fail + u64" where
  "verify_chain_prefix_point L B tier ctx px resp seed request_txid p =
     verify_prefix_point_at L B tier px resp seed request_txid p (chain_shape tier ctx) True"

subsection \<open>The residual point\<close>

text \<open>Routed experts: the committed scores select the committed experts, one score is recomputed from the router
  row, and the residual is the weighted sum of the expert outputs and the shared expert.\<close>

definition moe_elem_ok :: "f64 list \<Rightarrow> f32 list list \<Rightarrow> f32 list \<Rightarrow> f32 list \<Rightarrow> f32 list \<Rightarrow> nat \<Rightarrow> bool" where
  "moe_elem_ok w ys shx dst src j =
     (let (sm, mag) = foldl (\<lambda>(sm, mag) (ws, y). let t = f64_mul ws (f64_of_f32 (y ! j)) in (f64_add sm t, f64_add mag (f64_abs t)))
            (f64_add (f64_of_f32 (shx ! j)) (f64_of_f32 (src ! j)),
             f64_add (f64_abs (f64_of_f32 (shx ! j))) (f64_abs (f64_of_f32 (src ! j)))) (zip w ys)
      in f64_finite mag \<and> f64_le (f64_abs (f64_sub (f64_of_f32 (dst ! j)) sm)) (f64_add (f64_mul EPS_MOE mag) F32_MIN_POSITIVE))"

definition router_ok :: "f32 list \<Rightarrow> f64 list \<Rightarrow> f32 \<Rightarrow> bool" where
  "router_ok wr v score =
     (let (dot, mag) = foldl (\<lambda>(dot, mag) (w, a). let t = f64_mul (f64_of_f32 w) a in (f64_add dot t, f64_add mag (f64_abs t)))
            (0, 0) (zip wr v)
      in f64_le (f64_abs (f64_sub (f64_of_f32 score) dot)) (f64_add (f64_mul EPS_ROUTER mag) F32_MIN_POSITIVE))"

fun rmap :: "('a \<Rightarrow> 'e + 'b) \<Rightarrow> 'a list \<Rightarrow> 'e + 'b list" where
  "rmap f [] = Inr []"
| "rmap f (x # xs) = rbind (f x) (\<lambda>y. rbind (rmap f xs) (\<lambda>ys. Inr (y # ys)))"

definition moe_check :: "libm \<Rightarrow> blake3 \<Rightarrow> tier_ctx \<Rightarrow> chain_ctx \<Rightarrow> pos_shape \<Rightarrow> hash \<Rightarrow> u64 \<Rightarrow> u64 \<Rightarrow> u64 \<Rightarrow> u64 \<Rightarrow> hash
    \<Rightarrow> moe_links \<Rightarrow> moe_add \<Rightarrow> f32 list \<Rightarrow> f32 list \<Rightarrow> nat \<Rightarrow> nat \<Rightarrow> fail + unit" where
  "moe_check L B tier ctx sh pr layer down dim c seed moe m dst src off n =
     (let np = n_products tier; slots = ucast (cx_n_used ctx) :: u64 in
      if slots = 0 \<or> length (ma_slots m) \<noteq> unat slots then Inl FailShape
      else rbind (open_entry B tier (fst (ma_router_row m)) (ucast (ml_router moe))) (\<lambda>re.
      if en_role re \<noteq> ROLE_ROUTER \<or> wtype re \<noteq> 0 \<or> en_k re \<noteq> dim then Inl FailManifest
      else rbind (whole_leaf B pr sh (router_leaf np (ucast (n_layers ctx)) layer) (ma_scores m) (4 * en_m re)) (\<lambda>scores.
      rbind (f32_weights B tier (ma_bias m) (probs_bias moe) (en_m re) 0 (en_m re)) (\<lambda>bias.
      let body = slots * dim * 4; per_slot = dim * 4 div 1024 in
      if body mod 1024 \<noteq> 0 \<or> (dim * 4) mod 1024 \<noteq> 0 then Inl FailShape
      else let total = body + 4 * slots; y_leaf = 2 * ucast (down_exps moe) + 1 in
      rbind (chunk_leaf_raw B (ma_ids m) total (body div 1024)) (\<lambda>ids_leaf.
      if \<not> b3_verify B pr (unat (n_leaves sh)) (unat y_leaf) ids_leaf (lc_leaf_path (ma_slots m ! 0)) then Inl FailTrace
      else rbind (ok_or FailShape (get_range (ids_chunk (ma_ids m)) 0 (4 * unat slots))) (\<lambda>ib.
      rbind (ok_or FailMismatch (route_weights L scores bias (map le_u32 (chunks_exact 4 ib)) (f64_of_f32 (w_scale moe)))) (\<lambda>w.
      rbind (whole_leaf B pr sh (resid_leaf np layer ResidAttn) (ma_resid m) (4 * dim)) (\<lambda>h.
      rbind (f32_weights B tier (ma_norm m) (ffn_norm moe) dim 0 dim) (\<lambda>w_norm.
      let v = rms_norm L h w_norm (cx_eps ctx) in
      if en_m re = 0 then Inl FailPanicked
      else let row = draw_point B seed RESID_POINT ! 3 mod en_m re in
      rbind (open_bytes B tier re (snd (ma_router_row m)) (row * 4 * dim) (4 * dim)) (\<lambda>wb.
      if \<not> router_ok (f32s wb) v (scores ! unat row) then Inl FailMismatch
      else rbind (rmap (\<lambda>s. leaf_chunk_values B pr sh y_leaf (ma_slots m ! s) total (word_of_nat s * per_slot + c)) [0..<unat slots]) (\<lambda>ys.
      rbind (leaf_chunk_values B pr sh (2 * down + 1) (ma_shexp m) (4 * dim) c) (\<lambda>shx.
      if list_ex (\<lambda>y. length y \<noteq> n) ys \<or> length shx \<noteq> n \<or> length dst \<noteq> n \<or> length src \<noteq> n \<or> unat dim < off + n then Inl FailShape
      else if list_all (moe_elem_ok w ys shx dst src) [0..<n] then Inr () else Inl FailMismatch))))))))))))"

definition resid_source :: "blake3 \<Rightarrow> tier_ctx \<Rightarrow> chain_ctx \<Rightarrow> pos_shape \<Rightarrow> hash \<Rightarrow> resid_kind \<Rightarrow> u64 \<Rightarrow> resid_src \<Rightarrow> u32 \<Rightarrow> u64 \<Rightarrow> u64 \<Rightarrow> nat \<Rightarrow> nat \<Rightarrow> fail + f32 list" where
  "resid_source B tier ctx sh pr kind layer src tok dim c off n =
     (case src of
        SrcToken e r \<Rightarrow>
          if kind = ResidAttn \<and> layer = 0
          then rbind (embedding B tier ctx (e, r) tok dim) (\<lambda>row. rbind (ok_or FailPanicked (get_range row off (off + n))) (\<lambda>vs.
                 Inr (map (\<lambda>v. f32_of_f64 (f64_mul (f64_of_f32 v) (embd_scale ctx))) vs)))
          else Inl FailShape
      | SrcChunk sc \<Rightarrow>
          if kind = ResidAttn \<and> 0 < layer then leaf_chunk_values B pr sh (resid_leaf (n_products tier) (layer - 1) ResidOut) sc (4 * dim) c
          else if kind = ResidOut then leaf_chunk_values B pr sh (resid_leaf (n_products tier) layer ResidAttn) sc (4 * dim) c
          else Inl FailShape)"

definition resid_addend :: "libm \<Rightarrow> blake3 \<Rightarrow> tier_ctx \<Rightarrow> chain_ctx \<Rightarrow> pos_shape \<Rightarrow> hash \<Rightarrow> u32 \<Rightarrow> resid_add \<Rightarrow> u64 \<Rightarrow> u64 \<Rightarrow> u64 \<Rightarrow> nat \<Rightarrow> nat \<Rightarrow> fail + f64 list" where
  "resid_addend L B tier ctx sh pr post add rank dim c off n =
     (case add of
        AddChunk ac \<Rightarrow>
          if post = NONE then rbind (leaf_chunk_values B pr sh (2 * rank + 1) ac (4 * dim) c) (\<lambda>v. Inr (map f64_of_f32 v)) else Inl FailShape
      | AddNormed y norm \<Rightarrow>
          if post \<noteq> NONE
          then rbind (whole_leaf B pr sh (2 * rank + 1) y (4 * dim)) (\<lambda>yv.
               rbind (f32_weights B tier norm post dim (word_of_nat off) (word_of_nat n)) (\<lambda>w.
               rbind (ok_or FailPanicked (get_range (rms_scaled L yv (cx_eps ctx) (f64_of_int 1)) off (off + n))) (\<lambda>s. Inr (scale_by s w))))
          else Inl FailShape
      | AddMoe m \<Rightarrow> Inl FailShape)"

definition open_layer :: "blake3 \<Rightarrow> tier_ctx \<Rightarrow> chain_ctx \<Rightarrow> entry_opening \<Rightarrow> u64 \<Rightarrow> fail + layer_links" where
  "open_layer B tier ctx e layer = rbind (open_entry B tier e (ucast (layer_base ctx) + layer)) (\<lambda>le.
     case en_chain le of
       ChainLayer ll \<Rightarrow> if en_role le = ROLE_LAYER \<and> ucast (ll_layer ll) = layer then Inr ll else Inl FailManifest
     | _ \<Rightarrow> Inl FailManifest)"

definition verify_resid_point :: "libm \<Rightarrow> blake3 \<Rightarrow> tier_ctx \<Rightarrow> chain_ctx \<Rightarrow> response_ctx \<Rightarrow> hash \<Rightarrow> resid_point \<Rightarrow> fail + unit" where
  "verify_resid_point L B tier ctx resp seed p =
     (if n_pos resp = 0 \<or> n_layers ctx = 0 then Inl FailShape
      else let np = n_products tier; nl = ucast (n_layers ctx) :: u64; d = draw_point B seed RESID_POINT;
               (layer, kind) = resid_layer_kind (resid_site (d ! 1) (2 * nl)) in
      rbind (resid_position ctx resp layer (d ! 0)) (\<lambda>t.
      let sh = chain_shape tier ctx (rp_tok p) in
      rbind (open_layer B tier ctx (rp_layer p) layer) (\<lambda>ll.
      let rank = ucast (if kind = ResidAttn then ll_proj ll else ll_down ll) :: u64 in
      rbind (open_entry B tier (rp_product p) rank) (\<lambda>pe.
      if \<not> layer_role (en_role pe) (is_trimmed ctx layer) \<or> glu_form pe \<noteq> FORM_NONE \<or> n_exp pe \<noteq> 1 then Inl FailManifest
      else let dim = en_m pe; total = 4 * dim; c = d ! 2 mod n_leaf_chunks total in
      rbind (chunk_leaf B (rp_dst p) total c) (\<lambda>dst_leaf.
      rbind (ok_or FailTrace (b3_fold B (unat (n_leaves sh)) (unat (resid_leaf np layer kind)) dst_leaf (lc_leaf_path (rp_dst p)))) (\<lambda>pr.
      if rp_n_ubatch p \<noteq> expected_ubatch t (n_prompt resp) then Inl FailMismatch
      else if \<not> b3_verify B (trace_root resp) (unat (n_pos resp)) (unat t) pr (rp_pos_path p)
         \<or> \<not> b3_verify B pr (unat (n_leaves sh)) (unat (meta_index sh)) (meta_hash B sh t (rp_n_ubatch p)) (rp_meta_path p) then Inl FailTrace
      else rbind (finite_f32s (lc_chunk (rp_dst p))) (\<lambda>dst.
      if \<not> (f64_le RESID_CHUNK_RMS_MIN (rms L dst) \<and> f64_le (rms L dst) RESID_RMS_MAX) then Inl FailMismatch
      else let off = unat c * 1024 div 4; n = length dst in
      rbind (resid_source B tier ctx sh pr kind layer (rp_src p) (rp_tok p) dim c off n) (\<lambda>src.
      let post = (if kind = ResidAttn then post_attn ll else post_ffn ll) in
      (case rp_add p of
         AddMoe m \<Rightarrow>
           (case ll_moe ll of
              Some moe \<Rightarrow> if kind = ResidOut \<and> post = NONE
                then moe_check L B tier ctx sh pr layer rank dim c seed moe m dst src off n else Inl FailShape
            | None \<Rightarrow> Inl FailShape)
       | _ \<Rightarrow>
           if ll_moe ll \<noteq> None \<and> kind = ResidOut \<and> post = NONE then Inl FailShape
           else rbind (resid_addend L B tier ctx sh pr post (rp_add p) rank dim c off n) (\<lambda>add.
             let sc = (if ll_scale ll = NONE \<or> kind = ResidAttn then f64_of_int 1 else f64_of_f32 (ll_scale ll)) in
             if \<not> f64_finite sc then Inl FailManifest else residual_link dst add src sc))))))))))"

subsection \<open>Residual openings sent apart\<close>

definition feed_row_check :: "blake3 \<Rightarrow> tier_ctx \<Rightarrow> pos_shape \<Rightarrow> hash \<Rightarrow> u32 \<Rightarrow> entry \<times> u64 \<Rightarrow> u64 \<times> u64 \<times> u64 \<Rightarrow> u64 \<Rightarrow> f64
    \<Rightarrow> bytes \<times> hash list \<Rightarrow> chunk_range \<Rightarrow> weights option \<Rightarrow> fail + unit" where
  "feed_row_check B tier sh pr n_ubatch er ess row y xp w bias =
     (let (e, rank) = er; (ex, slot, slots) = ess; (x, x_path) = xp;
          layout = input_layout (en_role e) n_ubatch (wtype e); x_one = x_len (en_k e) layout in
      rbind (if length x = unat x_one then Inr x
             else if 1 < slots \<and> length x = unat (slots * x_one)
             then ok_or FailPanicked (get_range x (unat (slot * x_one)) (unat ((slot + 1) * x_one)))
             else Inl FailShape) (\<lambda>xs.
      if \<not> b3_verify B pr (unat (n_leaves sh)) (unat (2 * rank)) (b3_hash B x) x_path then Inl FailTrace
      else if \<not> sums_consistent xs layout (unat (en_k e)) then Inl FailMismatch
      else rbind (open_expert_row B tier e w ex row) (\<lambda>bs.
      rbind (ok_or FailUnsupported (canonical_dot (wtype e) bs (unat (en_k e)) xs layout)) (\<lambda>r.
      rbind (case bias of
               None \<Rightarrow> if en_bias e = NONE then Inr (f64_of_int 0) else Inl FailShape
             | Some _ \<Rightarrow> if en_bias e \<noteq> NONE \<and> slots = 1 then point_bias B tier e bias row else Inl FailShape) (\<lambda>b.
      let (h, tol) = plain_value r b in if within_tol y h tol then Inr () else Inl FailMismatch)))))"

definition f32_at :: "bytes \<Rightarrow> u64 \<Rightarrow> fail + f64" where
  "f32_at b i = rbind (ok_or FailShape (get_range b (unat (4 * i)) (unat (4 * i) + 4))) (\<lambda>v. Inr (f64_of_f32 (le_u32 v)))"

definition verify_resid_opening :: "libm \<Rightarrow> blake3 \<Rightarrow> tier_ctx \<Rightarrow> chain_ctx \<Rightarrow> response_ctx \<Rightarrow> hash \<Rightarrow> resid_opening \<Rightarrow> fail + unit" where
  "verify_resid_opening L B tier ctx resp seed op =
     (let p = ro_resid op; f = ro_feed op in
      rbind (verify_resid_point L B tier ctx resp seed p) (\<lambda>_.
      let np = n_products tier; nl = ucast (n_layers ctx) :: u64; d = draw_point B seed RESID_POINT;
          (layer, kind) = resid_layer_kind (resid_site (d ! 1) (2 * nl)); sh = chain_shape tier ctx (rp_tok p) in
      rbind (rbind (open_entry B tier (rp_layer p) (ucast (layer_base ctx) + layer)) (\<lambda>le.
               case en_chain le of ChainLayer ll \<Rightarrow> Inr ll | _ \<Rightarrow> Inl FailManifest)) (\<lambda>ll.
      let rank = ucast (if kind = ResidAttn then ll_proj ll else ll_down ll) :: u64 in
      rbind (open_entry B tier (rp_product p) rank) (\<lambda>pe.
      let dim = en_m pe; c = d ! 2 mod n_leaf_chunks (4 * dim) in
      rbind (chunk_leaf B (rp_dst p) (4 * dim) c) (\<lambda>dst_leaf.
      rbind (ok_or FailTrace (b3_fold B (unat (n_leaves sh)) (unat (resid_leaf np layer kind)) dst_leaf (lc_leaf_path (rp_dst p)))) (\<lambda>pr.
      let lo = c * 256 in
      if dim \<le> lo then Inl FailShape
      else let row = lo + drop_bit 32 (d ! 3) mod min 256 (dim - lo) in
      rbind (case rp_add p of
               AddChunk ac \<Rightarrow> f32_at (lc_chunk ac) (row - lo)
             | AddNormed y _ \<Rightarrow> f32_at (lb_bytes y) row
             | AddMoe m \<Rightarrow> f32_at (lc_chunk (ma_shexp m)) (row - lo)) (\<lambda>y.
      rbind (feed_row_check B tier sh pr (rp_n_ubatch p) (pe, rank) (0, 0, 1) row y (fr_x f, fr_x_path f) (fr_row f) (fr_bias f)) (\<lambda>_.
      (case (rp_add p, ro_expert op) of
         (AddMoe m, Some er) \<Rightarrow>
           rbind (ok_or FailShape (ll_moe ll)) (\<lambda>moe.
           rbind (open_entry B tier (er_entry er) (ucast (down_exps moe))) (\<lambda>de.
           if \<not> layer_role (en_role de) (is_trimmed ctx layer) \<or> glu_form de \<noteq> FORM_NONE \<or> n_exp de < 2 \<or> en_m de \<noteq> dim then Inl FailManifest
           else let slots = ucast (cx_n_used ctx) :: u64; slot = drop_bit 48 (d ! 3) mod max slots 1; s = 4 * unat slot in
           rbind (ok_or FailShape (get_range (ids_chunk (ma_ids m)) s (s + 4))) (\<lambda>ib.
           rbind (ok_or FailShape (nth_opt (ma_slots m) (unat slot))) (\<lambda>sc.
           rbind (f32_at (lc_chunk sc) (row - lo)) (\<lambda>y.
             feed_row_check B tier sh pr (rp_n_ubatch p) (de, ucast (down_exps moe)) (ucast (le_u32 ib), slot, slots) row y
               (er_x er, er_x_path er) (er_row er) None)))))
       | (AddMoe m, None) \<Rightarrow> Inl FailShape
       | (_, Some _) \<Rightarrow> Inl FailShape
       | (_, None) \<Rightarrow> Inr ())))))))))"

subsection \<open>Block tasks\<close>

definition WINDOW_DAA :: u64 where [simp]: "WINDOW_DAA = 64"
definition LAG_DAA :: u64 where [simp]: "LAG_DAA = 16"
definition TASK_LEN :: u32 where [simp]: "TASK_LEN = PREFIX_LEN"

text \<open>The two hash domains: \<open>KeryxBlockTaskV1\<close> and \<open>KeryxBlockTaskDrawV1\<close>.\<close>

definition ascii :: "string \<Rightarrow> bytes" where "ascii s = map (\<lambda>c. word_of_nat (of_char c)) s"
definition INPUT_DOMAIN :: bytes where "INPUT_DOMAIN = ascii ''KeryxBlockTaskV1''"
definition DRAW_DOMAIN :: bytes where "DRAW_DOMAIN = ascii ''KeryxBlockTaskDrawV1''"

definition task_window :: "u64 \<Rightarrow> u64 option" where
  "task_window daa = (if daa < LAG_DAA then None else Some ((daa - LAG_DAA) div WINDOW_DAA))"

definition window_start :: "u64 \<Rightarrow> u64" where "window_start w = w * WINDOW_DAA"

definition window_seed :: "u64 \<Rightarrow> (hash \<times> u64) list \<Rightarrow> hash option" where
  "window_seed start chain = map_option fst (List.find (\<lambda>(_, daa). daa \<le> start) chain)"

definition task_bytes :: "blake3 \<Rightarrow> hash \<Rightarrow> hash" where
  "task_bytes B w_seed = b3_hash B (INPUT_DOMAIN @ hash_bytes w_seed)"

definition task_tokens :: "blake3 \<Rightarrow> u32 list \<Rightarrow> hash \<Rightarrow> u32 list" where
  "task_tokens B table w_seed = map (\<lambda>b. table ! unat b) (hash_bytes (task_bytes B w_seed))"

definition draw_seed :: "blake3 \<Rightarrow> hash \<Rightarrow> hash" where
  "draw_seed B block_hash = b3_hash B (DRAW_DOMAIN @ hash_bytes block_hash)"

definition task_prefix :: "prefix_ctx \<Rightarrow> prefix_ctx" where "task_prefix px = px\<lparr>px_offset := 0\<rparr>"

definition check_task_point :: "libm \<Rightarrow> blake3 \<Rightarrow> tier_ctx \<Rightarrow> chain_ctx \<Rightarrow> prefix_ctx \<Rightarrow> response_ctx \<Rightarrow> hash \<Rightarrow> hash \<Rightarrow> trace_opening \<Rightarrow> nat \<Rightarrow> fail + unit" where
  "check_task_point L B tier ctx pc resp seed bs op i =
     (let (tok, link) = op_links op ! i in
      rbind (verify_chain_point L B tier ctx resp seed (word_of_nat i) (op_points op ! i) tok link (op_experts op ! i)) (\<lambda>r.
      rbind (ok_or FailShape (expected_token pc bs (rep_t r))) (\<lambda>want. if tok \<noteq> want then Inl FailMismatch else Inr ())))"

definition verify_block_task :: "libm \<Rightarrow> blake3 \<Rightarrow> tier_ctx \<Rightarrow> chain_ctx \<Rightarrow> prefix_ctx \<Rightarrow> hash \<Rightarrow> hash \<Rightarrow> hash \<Rightarrow> trace_opening \<Rightarrow> fail + unit" where
  "verify_block_task L B tier ctx prefix task_root w_seed block_hash op =
     (case (op_prefix op, op_resid op) of
        (Some pp, Some rp) \<Rightarrow>
          if length (op_points op) \<noteq> unat POINTS \<or> length (op_links op) \<noteq> length (op_points op)
             \<or> length (op_experts op) \<noteq> length (op_points op) then Inl FailShape
          else let pc = task_prefix prefix; bs = task_bytes B w_seed;
                   resp = \<lparr>trace_root = task_root, n_prompt = TASK_LEN, n_pos = TASK_LEN\<rparr>; seed = draw_seed B block_hash in
            rbind (rmap (check_task_point L B tier ctx pc resp seed bs op) [0..<length (op_points op)]) (\<lambda>_.
            rbind (verify_chain_prefix_point L B tier ctx pc resp seed bs pp) (\<lambda>_.
            rbind (verify_resid_point L B tier ctx resp seed rp) (\<lambda>_.
            let d = draw_point B seed RESID_POINT; layer = resid_site (d ! 1) (2 * ucast (n_layers ctx)) div 2 in
            rbind (resid_position ctx resp layer (d ! 0)) (\<lambda>t.
            rbind (ok_or FailShape (expected_token pc bs t)) (\<lambda>want.
              if rp_tok rp \<noteq> want then Inl FailMismatch else Inr ())))))
      | _ \<Rightarrow> Inl FailShape)"

end
