(* ===== verification/Leaf_Openings.thy ===== *)
theory Leaf_Openings
  imports Merkle
begin

section \<open>Openings against committed data\<close>

text \<open>
  The contracts of \<open>Merkle\<close> in the form the checks of an opened trace use: what an accepted path, chunk
  opening or range of weight chunks says about the data whose root was committed. Each lemma ends in the
  data or in a clash, two explicit different inputs of BLAKE3 with one output: the honest opening is
  computed from the data, the other one is what the prover sent.
\<close>

subsection \<open>A leaf of the trace tree\<close>

definition path_clash :: "blake3 \<Rightarrow> hash list \<Rightarrow> nat \<Rightarrow> hash \<Rightarrow> hash list \<Rightarrow> bool" where
  "path_clash B leaves i x q \<longleftrightarrow>
     (\<exists>p. b3_range_proof B leaves i 1 = Some p \<and> b3_clash B (length leaves) i [leaves ! i] p [x] q)"

lemma slice_one: "i < length xs \<Longrightarrow> slice xs i 1 = [xs ! i]"
  by (simp add: take_Suc_conv_app_nth hd_drop_conv_nth)

lemma b3_leaf_sound:
  assumes "b3_root B leaves = Some r" and "length leaves < 2 ^ 64" and "b3_verify B r (length leaves) i x q"
  shows "i < length leaves" and "x = leaves ! i \<or> path_clash B leaves i x q"
proof -
  show i: "i < length leaves" using assms(3) by (simp add: b3_verify_iff)
  have "b3_check B r (length leaves) i [x] q"
    using assms(2,3) by (auto simp: b3_verify_iff b3_check_iff)
  from b3.sound [OF assms(1,2) this] show "x = leaves ! i \<or> path_clash B leaves i x q"
    by (auto simp: path_clash_def slice_one [OF i, simplified])
qed

lemma b3_fold_verify: "b3_fold B n i x q = Some r \<longleftrightarrow> b3_verify B r n i x q"
  by (simp add: b3_verify_def)

subsection \<open>Chunks of one leaf\<close>

definition chunks_clash :: "blake3 \<Rightarrow> bytes \<Rightarrow> nat \<Rightarrow> bytes \<Rightarrow> hash list \<Rightarrow> bool" where
  "chunks_clash B data f bs q \<longleftrightarrow> bs \<noteq> slice data (f * B3_CHUNK) (length bs) \<and>
     (\<exists>p. b3_chunks_proof B data f (div_ceil (length bs) B3_CHUNK) = Some p \<and>
        chunk_clash B (max (div_ceil (length data) B3_CHUNK) 1) f (slice data (f * B3_CHUNK) (length bs)) p bs q)"

lemma chunks_sound:
  assumes tm: "blake3_tree_mode B" and len: "length data < 2 ^ 64"
    and acc: "b3_leaf_from_chunks B (length data) f bs q = Some (b3_hash B data)"
  shows "bs = slice data (f * B3_CHUNK) (length bs) \<or> chunks_clash B data f bs q"
proof -
  let ?c = "div_ceil (length bs) B3_CHUNK"
  from b3_leaf_from_chunks_length [OF acc] have c: "0 < ?c"
    and l: "length bs = min (length data) ((f + ?c) * B3_CHUNK) - f * B3_CHUNK" by auto
  have n: "f + ?c \<le> max (div_ceil (length data) B3_CHUNK) 1"
    using acc by (auto simp: b3_leaf_from_chunks_def Let_def checked_add_u64_def split: if_splits)
  have "0 < length bs" using c by (cases "bs = []") (simp_all add: div_ceil_def)
  then have "0 < length data" using l by auto
  then have "1 \<le> div_ceil (length data) B3_CHUNK" unfolding div_ceil_def by (intro less_eq_div_iff_mult_less_eq [THEN iffD2]) (simp_all add: Suc_le_eq)
  then have n': "f + ?c \<le> div_ceil (length data) B3_CHUNK" using n by simp
  from chunks_rebuild [OF tm c n' len] obtain p where
    p: "b3_chunks_proof B data f ?c = Some p"
    "b3_leaf_from_chunks B (length data) f (slice data (f * B3_CHUNK) (length bs)) p = Some (b3_hash B data)"
    unfolding l [symmetric] by auto
  have "length (slice data (f * B3_CHUNK) (length bs)) = length bs"
    using l by auto
  from b3_leaf_from_chunks_binding [OF p(2) acc this] p(1) show ?thesis
    unfolding chunks_clash_def by auto
qed

text \<open>A single chunk, as \<open>b3_leaf_from_chunk\<close> folds it, is a range of one chunk.\<close>

lemma chunk_range_fold:
  "b3_fold B n c x p = Some h \<Longrightarrow> n < 2 ^ 64 \<Longrightarrow> b3_range_fold B n c [x] p = Some h"
proof -
  assume a: "b3_fold B n c x p = Some h" "n < 2 ^ 64"
  then have "b3_check B h n c [x] p" by (auto simp: b3_fold_verify b3_verify_iff b3_check_iff)
  then show ?thesis by (simp add: b3_check_def)
qed

lemma leaf_from_one_chunk:
  assumes acc: "b3_leaf_from_chunk B tlen c chunk q = Some h" and t: "0 < tlen" "tlen < 2 ^ 64"
  shows "b3_leaf_from_chunks B tlen c chunk q = Some h"
proof -
  let ?n = "max (div_ceil tlen B3_CHUNK) 1"
  have n: "?n = div_ceil tlen B3_CHUNK" using t by (simp add: div_ceil_def)
  have c: "c < ?n" and l: "length chunk = (if c + 1 < ?n then B3_CHUNK else tlen - c * B3_CHUNK)"
    and le: "\<not> c + 1 < ?n \<Longrightarrow> c * B3_CHUNK \<le> tlen"
    using acc by (auto simp: b3_leaf_from_chunk_def Let_def Option.bind_eq_Some_conv split: if_splits)
  have up: "k * B3_CHUNK \<le> tlen + B3_CHUNK - 1" if "k \<le> ?n" for k
  proof -
    have "k \<le> div_ceil tlen B3_CHUNK" using that n by simp
    then show ?thesis unfolding div_ceil_def by (simp add: less_eq_div_iff_mult_less_eq)
  qed
  from up [of "c + 1"] c have low: "c * B3_CHUNK < tlen" by simp
  have len: "0 < length chunk" "length chunk \<le> B3_CHUNK" and eq: "length chunk = min tlen ((c + 1) * B3_CHUNK) - c * B3_CHUNK"
  proof -
    have "length chunk = (if c + 1 < ?n then B3_CHUNK else tlen - c * B3_CHUNK)" by (rule l)
    moreover have "(c + 1) * B3_CHUNK \<le> tlen" if "c + 1 < ?n"
    proof -
      have "c + 2 \<le> ?n" using that by simp
      from up [OF this] show ?thesis by simp
    qed
    moreover have "tlen \<le> (c + 1) * B3_CHUNK" if "\<not> c + 1 < ?n"
    proof -
      have "(tlen + B3_CHUNK - 1) div B3_CHUNK < c + 2" using that n by (simp add: div_ceil_def)
      then have "tlen + B3_CHUNK - 1 < (c + 2) * B3_CHUNK" by (subst (asm) div_less_iff_less_mult) simp_all
      then show ?thesis by simp
    qed
    ultimately show "0 < length chunk" "length chunk \<le> B3_CHUNK" "length chunk = min tlen ((c + 1) * B3_CHUNK) - c * B3_CHUNK"
      using low by (auto split: if_splits)
  qed
  have one: "div_ceil (length chunk) B3_CHUNK = 1" unfolding div_ceil_def by (rule div_nat_eqI) (use len in \<open>simp_all add: Suc_le_eq\<close>)
  have cvs: "chunk_cvs B c chunk = [b3_chunk_cv B chunk c]"
    by (rule nth_equalityI) (use one len(2) in \<open>auto simp: nth_chunk_cvs\<close>)
  have n64: "?n < 2 ^ 64" using div_ceil_le_self [of tlen] t by auto
  then have add: "checked_add_u64 c 1 = Some (c + 1)" using c by (simp add: checked_add_u64_def)
  show ?thesis
  proof (cases "?n = 1")
    case True
    with acc c eq one add show ?thesis
      by (auto simp: b3_leaf_from_chunk_def b3_leaf_from_chunks_def Let_def Option.bind_eq_Some_conv split: if_splits)
  next
    case False
    with acc have "b3_fold B ?n c (b3_chunk_cv B chunk c) q = Some h"
      by (auto simp: b3_leaf_from_chunk_def Let_def Option.bind_eq_Some_conv split: if_splits)
    from chunk_range_fold [OF this n64] False c eq one add cvs show ?thesis
      by (auto simp: b3_leaf_from_chunks_def Let_def)
  qed
qed

text \<open>What an accepted chunk of a committed leaf says: the bytes of that chunk.\<close>

lemma chunk_sound:
  assumes tm: "blake3_tree_mode B" and len: "length data < 2 ^ 64"
    and acc: "b3_leaf_from_chunk B (length data) c chunk q = Some (b3_hash B data)"
  shows "chunk = slice data (c * B3_CHUNK) (length chunk) \<or> chunks_clash B data c chunk q"
proof (cases "data = []")
  case True
  then have "chunk = []" using acc
    by (auto simp: b3_leaf_from_chunk_def Let_def div_ceil_def Option.bind_eq_Some_conv split: if_splits)
  then show ?thesis by simp
next
  case False
  then have "b3_leaf_from_chunks B (length data) c chunk q = Some (b3_hash B data)"
    using leaf_from_one_chunk [OF acc] len by simp
  from chunks_sound [OF tm len this] show ?thesis .
qed

subsection \<open>A range of the weight tree\<close>

definition range_clash :: "blake3 \<Rightarrow> hash list \<Rightarrow> nat \<Rightarrow> hash list \<Rightarrow> hash list \<Rightarrow> bool" where
  "range_clash B leaves f xs q \<longleftrightarrow>
     (\<exists>p. rt_prove B leaves f (length xs) = Some p \<and> rt_clash B (length leaves) f (slice leaves f (length xs)) p xs q)"

lemma range_sound:
  assumes "rt_commit B leaves = Some r" and "length leaves < 2 ^ 64" and "rt_verify_range B r (length leaves) f xs q"
  shows "f + length xs \<le> length leaves" and "xs = slice leaves f (length xs) \<or> range_clash B leaves f xs q"
  using rt.check_range [OF assms(3)] rt.sound [OF assms] by (auto simp: range_clash_def)

text \<open>Equal hashes of two lists of inputs.\<close>

definition input_clash :: "blake3 \<Rightarrow> bytes \<Rightarrow> bytes \<Rightarrow> bool" where
  "input_clash B a b \<longleftrightarrow> a \<noteq> b \<and> b3_hash B a = b3_hash B b"

lemma map_hash_eq:
  "map (b3_hash B) xs = map (b3_hash B) ys \<Longrightarrow> xs = ys \<or> (\<exists>i < length xs. input_clash B (xs ! i) (ys ! i))"
proof -
  assume a: "map (b3_hash B) xs = map (b3_hash B) ys"
  then have l: "length xs = length ys" by (metis length_map)
  show ?thesis
  proof (cases "\<forall>i < length xs. xs ! i = ys ! i")
    case True
    then show ?thesis using l by (simp add: list_eq_iff_nth_eq)
  next
    case False
    then obtain i where i: "i < length xs" "xs ! i \<noteq> ys ! i" by blast
    then have "b3_hash B (xs ! i) = b3_hash B (ys ! i)" using a l by (metis nth_map)
    with i show ?thesis by (auto simp: input_clash_def)
  qed
qed

subsection \<open>Whole chunks\<close>

lemma chunks_exact_step: "0 < k \<Longrightarrow> length a = k \<Longrightarrow> chunks_exact k (a @ r) = a # chunks_exact k r"
proof -
  assume "0 < k" "length a = k"
  then have "chunks k (a @ r) = a # chunks k r" by (subst chunks.simps) auto
  then show ?thesis using \<open>length a = k\<close> by (simp add: chunks_exact_def)
qed

lemma chunks_exact_append: "0 < k \<Longrightarrow> length a = k * n \<Longrightarrow> chunks_exact k (a @ r) = chunks_exact k a @ chunks_exact k r"
proof (induction n arbitrary: a)
  case 0
  then show ?case by (simp add: chunks_exact_def)
next
  case (Suc n)
  have hd: "chunks_exact k (take k a @ t) = take k a # chunks_exact k t" for t
    using Suc.prems by (intro chunks_exact_step) simp_all
  have "chunks_exact k (drop k a @ r) = chunks_exact k (drop k a) @ chunks_exact k r"
    using Suc.IH [of "drop k a"] Suc.prems by simp
  with hd [of "drop k a @ r"] hd [of "drop k a"] show ?case
    by (simp only: append_assoc [symmetric] append_take_drop_id append_Cons)
qed

lemma chunks_exact_whole: "0 < k \<Longrightarrow> length xs = k * n \<Longrightarrow> concat (chunks_exact k xs) = xs \<and> length (chunks_exact k xs) = n"
proof (induction n arbitrary: xs)
  case 0
  then show ?case by (simp add: chunks_exact_def)
next
  case (Suc n)
  have "chunks_exact k (take k xs @ drop k xs) = take k xs # chunks_exact k (drop k xs)"
    using Suc.prems by (intro chunks_exact_step) simp_all
  then have "chunks_exact k xs = take k xs # chunks_exact k (drop k xs)" by (simp only: append_take_drop_id)
  then show ?case using Suc.IH [of "drop k xs"] Suc.prems by simp
qed

lemma chunks_exact_slice:
  assumes "0 < k" and "length xs = k * n" and "f + m \<le> n"
  shows "concat (slice (chunks_exact k xs) f m) = slice xs (k * f) (k * m)"
proof -
  let ?a = "take (k * f) xs" and ?b = "slice xs (k * f) (k * m)" and ?c = "drop (k * f + k * m) xs"
  have le: "k * f + k * m \<le> k * n" using assms(3) by (metis add_mult_distrib2 mult_le_mono2)
  have xs: "xs = ?a @ ?b @ ?c"
    by (metis add.commute append_take_drop_id drop_drop)
  have la: "length ?a = k * f" and lb: "length ?b = k * m" using assms(2) le by simp_all
  have "chunks_exact k xs = chunks_exact k ?a @ chunks_exact k ?b @ chunks_exact k ?c"
    by (subst xs) (simp only: chunks_exact_append [OF assms(1) la] chunks_exact_append [OF assms(1) lb])
  moreover note chunks_exact_whole [OF assms(1) la] chunks_exact_whole [OF assms(1) lb]
  ultimately show ?thesis by simp
qed

end
