(* ===== verification/Point_Sound.thy ===== *)
theory Point_Sound
  imports Leaf_Openings Point_Check
begin

section \<open>Accepted points against the committed data\<close>

text \<open>
  The specification \<open>verify_point\<close> implements. \<open>audit_data\<close> is what the three roots commit: the manifest
  entries, the weight bytes and, for every traced position, the bytes of its leaves. \<open>ref_point\<close> recomputes the
  drawn element from that data alone, with no openings. The theorems say that an accepted point reports what
  \<open>ref_point\<close> computes, or one of the openings shows a clash: two different inputs with one hash.
\<close>

record audit_data =
  ad_entries :: "bytes list"
  ad_weights :: bytes
  ad_trace :: "bytes list list"

definition pos_roots :: "blake3 \<Rightarrow> audit_data \<Rightarrow> hash list" where
  "pos_roots B D = map (\<lambda>ls. case b3_root B (map (b3_hash B) ls) of Some r \<Rightarrow> r | None \<Rightarrow> 0) (ad_trace D)"

definition weight_chunks :: "audit_data \<Rightarrow> bytes list" where
  "weight_chunks D = chunks_exact 32 (ad_weights D)"

definition committed_model :: "blake3 \<Rightarrow> tier_ctx \<Rightarrow> audit_data \<Rightarrow> bool" where
  "committed_model B tier D \<longleftrightarrow>
     rt_commit B (map (b3_hash B) (ad_entries D)) = Some (m_t tier) \<and> length (ad_entries D) = unat (n_entries tier)
     \<and> rt_commit B (map (b3_hash B) (weight_chunks D)) = Some (r_t tier) \<and> length (ad_weights D) = 32 * unat (n_chunks tier)"

definition committed_trace :: "blake3 \<Rightarrow> response_ctx \<Rightarrow> pos_shape \<Rightarrow> audit_data \<Rightarrow> bool" where
  "committed_trace B resp sh D \<longleftrightarrow>
     b3_root B (pos_roots B D) = Some (trace_root resp) \<and> length (ad_trace D) = unat (n_pos resp)
     \<and> (\<forall>ls \<in> set (ad_trace D). length ls = unat (n_leaves sh) \<and> (\<forall>b \<in> set ls. length b < 2 ^ 64))"

subsection \<open>The recomputation from the data\<close>

fun ok :: "'e + 'a \<Rightarrow> 'a option" where
  "ok (Inl e) = None"
| "ok (Inr x) = Some x"

definition ref_entry :: "audit_data \<Rightarrow> u64 \<Rightarrow> entry option" where
  "ref_entry D i = do { b \<leftarrow> nth_opt (ad_entries D) (unat i); (e, len) \<leftarrow> entry_parse b;
     if len = length b then Some e else None }"

definition ref_bytes :: "audit_data \<Rightarrow> entry \<Rightarrow> u64 \<Rightarrow> u64 \<Rightarrow> bytes" where
  "ref_bytes D e offset len = slice (ad_weights D) (32 * unat (chunk_base e + offset div 32) + unat (offset mod 32)) (unat len)"

definition ref_row :: "audit_data \<Rightarrow> entry \<Rightarrow> u64 \<Rightarrow> u64 \<Rightarrow> bytes" where
  "ref_row D e ex row = (let rb = ucast (en_row_bytes e) in ref_bytes D e ((ex * en_m e + row) * rb) rb)"

definition ref_gate :: "audit_data \<Rightarrow> entry \<Rightarrow> u64 \<Rightarrow> ((entry \<times> u64) \<times> entry option) option" where
  "ref_gate D first rank =
     (if glu_form first = FORM_NONE \<or> glu_form first = FORM_SPLIT then Some ((first, rank), None)
      else if glu_form first = FORM_PAIR_GATE \<or> glu_form first = FORM_PAIR_UP then do {
        other \<leftarrow> ref_entry D (ucast (en_partner first));
        if ucast (en_partner other) \<noteq> rank \<or> en_k other \<noteq> en_k first \<or> en_m other \<noteq> en_m first then None
        else if glu_form first = FORM_PAIR_GATE then Some ((first, rank), Some other)
        else Some ((other, ucast (en_partner first)), Some first) }
      else None)"

definition ref_dot :: "audit_data \<Rightarrow> nat \<Rightarrow> bytes \<Rightarrow> u8 \<Rightarrow> u64 \<Rightarrow> entry \<Rightarrow> u64 \<Rightarrow> recomputed option" where
  "ref_dot D k x layout ex e row = canonical_dot (wtype e) (ref_row D e ex row) k x layout"

definition ref_bias :: "audit_data \<Rightarrow> entry \<Rightarrow> u64 \<Rightarrow> f64 option" where
  "ref_bias D e row = (if en_bias e = NONE then Some (f64_of_int 0)
     else do { b \<leftarrow> ref_entry D (ucast (en_bias e));
       if en_role b \<noteq> ROLE_BIAS \<or> wtype b \<noteq> 0 \<or> en_k b \<noteq> en_m e then None
       else Some (f64_of_f32 (le_u32 (ref_bytes D b (row * 4) 4))) })"

definition ref_value :: "libm \<Rightarrow> audit_data \<Rightarrow> entry \<Rightarrow> entry option \<Rightarrow> bytes \<Rightarrow> u8 \<Rightarrow> u64 \<Rightarrow> u64 \<Rightarrow> u64 \<Rightarrow> (f64 \<times> f64) option" where
  "ref_value L D g up x layout ex row m_out =
     (let dot = ref_dot D (unat (en_k g)) x layout ex in
      if glu_form g = FORM_NONE then do { r \<leftarrow> dot g row; b \<leftarrow> ref_bias D g row; Some (plain_value r b) }
      else do { rg \<leftarrow> dot g row;
        ru \<leftarrow> (if glu_form g = FORM_SPLIT then dot g (row + m_out) else do { u \<leftarrow> up; dot u row });
        glu_value L (glu_op g) rg ru })"

definition ref_expert :: "bool \<Rightarrow> entry \<Rightarrow> bytes \<Rightarrow> u64 \<Rightarrow> u64 \<Rightarrow> u64 option" where
  "ref_expert experts g y_all body slot =
     (if experts then let i = ucast (le_u32 (slice y_all (unat body + 4 * unat slot) 4)) in
        if ucast (n_exp g) \<le> i then None else Some i
      else Some slot)"

definition ref_check :: "libm \<Rightarrow> response_ctx \<Rightarrow> audit_data \<Rightarrow> bool \<Rightarrow> u8 \<Rightarrow> u64 \<Rightarrow> u64 \<Rightarrow> entry \<times> u64 \<Rightarrow> entry option \<Rightarrow> u64 \<Rightarrow> u64 \<Rightarrow> u64 \<Rightarrow> u64 \<Rightarrow> report option" where
  "ref_check L resp D experts role t rank gate up slots slot m_out row =
     (let (g, g_rank) = gate; ls = ad_trace D ! unat t; y_all = ls ! unat (2 * g_rank + 1);
          layout = input_layout role (expected_ubatch t (n_prompt resp)) (wtype g);
          y = f64_of_f32 (le_u32 (slice y_all (unat ((slot * m_out + row) * 4)) 4)) in do {
      x \<leftarrow> ok (point_input (ls ! unat (2 * g_rank)) (x_len (en_k g) layout) slots slot);
      ex \<leftarrow> ref_expert experts g y_all (slots * m_out * 4) slot;
      (h, tol) \<leftarrow> ref_value L D g up x layout ex row m_out;
      if within_tol y h tol then Some \<lparr>rep_t = t, rep_rank = rank, rep_row = row, rep_y = y, rep_y_hat = h, rep_tol = tol\<rparr> else None })"

definition ref_point :: "libm \<Rightarrow> blake3 \<Rightarrow> tier_ctx \<Rightarrow> response_ctx \<Rightarrow> u32 \<Rightarrow> audit_data \<Rightarrow> hash \<Rightarrow> u32 \<Rightarrow> report option" where
  "ref_point L B tier resp used D seed i = do {
     let d = draw_point B seed i;
     let rank = d ! 1 mod n_products tier;
     first \<leftarrow> ref_entry D rank;
     let heads = (en_role first = ROLE_HEADS);
     t \<leftarrow> ok (point_position resp (en_role first = ROLE_OUTPUT) (d ! 0));
     (gate, up) \<leftarrow> ref_gate D first rank;
     let g = fst gate;
     let experts = (1 < n_exp g \<and> \<not> heads);
     let slots = (if experts then ucast used else if heads then ucast (n_exp g) else 1);
     let slot = (if 1 < slots then drop_bit 32 (d ! 3) mod slots else 0);
     let m_out = (if glu_form g = FORM_SPLIT then en_m g div 2 else en_m g);
     ref_check L resp D experts (en_role first) t rank gate up slots slot m_out (d ! 2 mod m_out) }"

subsection \<open>Clashes of the openings\<close>

definition entry_clash :: "blake3 \<Rightarrow> audit_data \<Rightarrow> entry_opening \<Rightarrow> bool" where
  "entry_clash B D eo \<longleftrightarrow>
     range_clash B (map (b3_hash B) (ad_entries D)) (unat (eo_index eo)) [b3_hash B (eo_bytes eo)] (eo_path eo)
     \<or> input_clash B (eo_bytes eo) (ad_entries D ! unat (eo_index eo))"

definition weight_clash :: "blake3 \<Rightarrow> audit_data \<Rightarrow> chunk_range \<Rightarrow> bool" where
  "weight_clash B D r \<longleftrightarrow> (let sent = chunks_exact 32 (cr_chunks r); f = unat (first_chunk r) in
     range_clash B (map (b3_hash B) (weight_chunks D)) f (map (b3_hash B) sent) (cr_proof r)
     \<or> (\<exists>j < length sent. input_clash B (sent ! j) (weight_chunks D ! (f + j))))"

definition model_clash :: "blake3 \<Rightarrow> audit_data \<Rightarrow> point \<Rightarrow> bool" where
  "model_clash B D p \<longleftrightarrow> entry_clash B D (pt_entry p) \<or> (\<exists>eo. pt_partner p = Some eo \<and> entry_clash B D eo)
     \<or> (\<exists>eo r. pt_bias p = Some (eo, r) \<and> (entry_clash B D eo \<or> weight_clash B D r))
     \<or> (\<exists>r \<in> set (pt_rows p). weight_clash B D r)"

text \<open>Clashes of the trace openings of product \<open>g\<close> at position \<open>t\<close>, with the root \<open>pr\<close> the input folds to and
  the output leaf \<open>yl\<close> the chunk folds to.\<close>

definition trace_clash :: "blake3 \<Rightarrow> pos_shape \<Rightarrow> audit_data \<Rightarrow> point \<Rightarrow> expert_ids option \<Rightarrow> u64 \<Rightarrow> u64 \<Rightarrow> bool" where
  "trace_clash B sh D p ids t g \<longleftrightarrow>
     (let ls = ad_trace D ! unat t; hs = map (b3_hash B) ls; x_all = ls ! unat (2 * g); y_all = ls ! unat (2 * g + 1) in
      (\<exists>pr. b3_fold B (length ls) (unat (2 * g)) (b3_hash B (pt_x p)) (pt_x_path p) = Some pr
         \<and> path_clash B (pos_roots B D) (unat t) pr (pt_pos_path p))
      \<or> path_clash B hs (unat (2 * g)) (b3_hash B (pt_x p)) (pt_x_path p) \<or> input_clash B (pt_x p) x_all
      \<or> path_clash B hs (unat (meta_index sh)) (meta_hash B sh t (pt_n_ubatch p)) (pt_meta_path p)
      \<or> input_clash B (meta_bytes sh t (pt_n_ubatch p)) (ls ! unat (meta_index sh))
      \<or> (\<exists>yl. b3_leaf_from_chunk B (unat (y_total_len p)) (unat (y_chunk_index p)) (y_chunk p) (y_chunk_path p) = Some yl
         \<and> path_clash B hs (unat (2 * g + 1)) yl (y_path p))
      \<or> chunks_clash B y_all (unat (y_chunk_index p)) (y_chunk p) (y_chunk_path p)
      \<or> (\<exists>e. ids = Some e \<and> (\<exists>c \<le> unat (y_total_len p). chunks_clash B y_all c (ids_chunk e) (ids_chunk_path e))))"

subsection \<open>Openings of the model\<close>

lemma unat_ucast64 [simp]: "unat (ucast (w :: u32) :: u64) = unat w"
  using unat_lt [of w] by (simp add: unsigned_ucast_eq take_bit_nat_eq_self)

lemma hashed_input: "b3_hash B a = b3_hash B b \<Longrightarrow> a = b \<or> input_clash B a b"
  by (auto simp: input_clash_def)

lemma open_entry_sound:
  assumes "committed_model B tier D" and "open_entry B tier eo idx = Inr e"
  shows "ref_entry D idx = Some e \<or> entry_clash B D eo"
proof -
  let ?hs = "map (b3_hash B) (ad_entries D)" and ?i = "unat (eo_index eo)"
  have c: "rt_commit B ?hs = Some (m_t tier)" "length ?hs = unat (n_entries tier)"
    using assms(1) by (simp_all add: committed_model_def)
  have idx: "idx = ucast (eo_index eo)" and len: "length ?hs < 2 ^ 64"
    and v: "rt_verify_range B (m_t tier) (length ?hs) ?i [b3_hash B (eo_bytes eo)] (eo_path eo)"
    and pr: "entry_parse (eo_bytes eo) = Some (e, length (eo_bytes eo))"
    using assms(2) c(2) unat_lt [of "n_entries tier"]
    by (auto simp: open_entry_def verify_entry_def entry_leaf_def rt_verify_leaf_def rbind_Inr split: if_splits prod.splits)
  from range_sound [OF c(1) len v] have i: "?i < length (ad_entries D)"
    and "[b3_hash B (eo_bytes eo)] = slice ?hs ?i 1 \<or> range_clash B ?hs ?i [b3_hash B (eo_bytes eo)] (eo_path eo)"
    by (simp_all add: Suc_le_eq)
  then have "b3_hash B (eo_bytes eo) = b3_hash B (ad_entries D ! ?i) \<or> entry_clash B D eo"
    using i by (auto simp: slice_one entry_clash_def simp del: One_nat_def)
  then have "eo_bytes eo = ad_entries D ! ?i \<or> entry_clash B D eo"
    using hashed_input unfolding entry_clash_def by metis
  then show ?thesis
  proof
    assume "eo_bytes eo = ad_entries D ! ?i"
    then have "ref_entry D idx = Some e" using pr i by (simp add: ref_entry_def idx nth_opt_def)
    then show ?thesis ..
  qed simp
qed

lemma open_bytes_sound:
  assumes "committed_model B tier D" and "open_bytes B tier e r off len = Inr b"
  shows "b = ref_bytes D e off len \<or> weight_clash B D r"
proof -
  let ?first = "chunk_base e + off div 32" and ?sent = "chunks_exact 32 (cr_chunks r)" and ?f = "unat (first_chunk r)"
  let ?hs = "map (b3_hash B) (weight_chunks D)" and ?m = "unat (off mod 32)"
  have W: "rt_commit B ?hs = Some (r_t tier)" "length (ad_weights D) = 32 * unat (n_chunks tier)"
    using assms(1) by (simp_all add: committed_model_def)
  then have hl: "length ?hs = unat (n_chunks tier)" using chunks_exact_whole [of 32 "ad_weights D"] by (simp add: weight_chunks_def)
  obtain n where f: "first_chunk r = ?first" and l: "length (cr_chunks r) = 32 * n"
    and v: "rt_verify_range B (r_t tier) (length ?hs) ?f (map (b3_hash B) ?sent) (cr_proof r)"
    and g: "get_range (cr_chunks r) ?m (?m + unat len) = Some b"
  proof -
    define w where "w = chunk_base e + (off + len - 1) div 32 - ?first + 1"
    have "unat (w * 32) = 32 * (unat w mod 2 ^ 59)" by (simp add: unat_word_ariths mult.commute mult_mod_right)
    moreover have "first_chunk r = ?first" "length (cr_chunks r) = unat (w * 32)"
      "rt_verify_range B (r_t tier) (unat (n_chunks tier)) ?f (map (b3_hash B) ?sent) (cr_proof r)"
      "get_range (cr_chunks r) ?m (?m + unat len) = Some b"
      using assms(2) by (auto simp: open_bytes_def Let_def w_def split: if_splits)
    ultimately show thesis using that [of "unat w mod 2 ^ 59"] hl by simp
  qed
  have "length ?hs < 2 ^ 64" using unat_lt [of "n_chunks tier"] hl by simp
  from range_sound [OF W(1) this v] have le: "?f + length ?sent \<le> length (weight_chunks D)"
    and "map (b3_hash B) ?sent = slice ?hs ?f (length ?sent) \<or> range_clash B ?hs ?f (map (b3_hash B) ?sent) (cr_proof r)"
    by simp_all
  then have "map (b3_hash B) ?sent = map (b3_hash B) (slice (weight_chunks D) ?f (length ?sent)) \<or> weight_clash B D r"
    by (auto simp: weight_clash_def Let_def take_map drop_map)
  then have "?sent = slice (weight_chunks D) ?f (length ?sent) \<or> weight_clash B D r"
  proof
    assume "map (b3_hash B) ?sent = map (b3_hash B) (slice (weight_chunks D) ?f (length ?sent))"
    from map_hash_eq [OF this] show ?thesis using le by (auto simp: weight_clash_def Let_def)
  qed simp
  then show ?thesis
  proof
    assume "?sent = slice (weight_chunks D) ?f (length ?sent)"
    then have "concat ?sent = slice (ad_weights D) (32 * ?f) (32 * length ?sent)"
      using chunks_exact_slice [OF _ W(2), of ?f "length ?sent"] le hl by (simp add: weight_chunks_def)
    then have "cr_chunks r = slice (ad_weights D) (32 * ?f) (32 * n)" using chunks_exact_whole [OF _ l] by simp
    moreover have "?m + unat len \<le> 32 * n" using g l by (auto simp: get_range_def split: if_splits)
    ultimately have "b = ref_bytes D e off len"
      using g f by (auto simp: get_range_def ref_bytes_def drop_take add.commute split: if_splits)
    then show ?thesis ..
  qed simp
qed

lemma expert_row_sound:
  assumes "committed_model B tier D" and "open_expert_row B tier e r ex row = Inr bs" and "\<not> weight_clash B D r"
  shows "bs = ref_row D e ex row"
  using assms open_bytes_sound by (fastforce simp: open_expert_row_def ref_row_def Let_def split: if_splits)

lemma dot_row_sound:
  assumes "committed_model B tier D" and "dot_row B tier k x layout ex e r row = Inr v" and "\<not> weight_clash B D r"
  shows "ref_dot D k x layout ex e row = Some v"
  using assms expert_row_sound by (auto simp: dot_row_def ref_dot_def rbind_Inr)

lemma point_bias_sound:
  assumes "committed_model B tier D" and "point_bias B tier e bias row = Inr v"
    and "\<And>eo r. bias = Some (eo, r) \<Longrightarrow> \<not> entry_clash B D eo \<and> \<not> weight_clash B D r"
  shows "ref_bias D e row = Some v"
proof (cases bias)
  case None
  then show ?thesis using assms(2) by (auto simp: point_bias_def ref_bias_def split: if_splits)
next
  case (Some w)
  obtain eo r where w: "bias = Some (eo, r)" using Some by (cases w) auto
  then obtain b bs where b: "open_entry B tier eo (ucast (en_bias e)) = Inr b" "en_bias e \<noteq> NONE"
    "\<not> (en_role b \<noteq> ROLE_BIAS \<or> wtype b \<noteq> 0 \<or> en_k b \<noteq> en_m e)"
    "open_bytes B tier b r (row * 4) 4 = Inr bs" "v = f64_of_f32 (le_u32 bs)"
    using assms(2) by (auto simp: point_bias_def rbind_Inr split: if_splits)
  have "ref_entry D (ucast (en_bias e)) = Some b" using open_entry_sound [OF assms(1) b(1)] assms(3) [OF w] by simp
  moreover have "bs = ref_bytes D b (row * 4) 4" using open_bytes_sound [OF assms(1) b(4)] assms(3) [OF w] by simp
  ultimately show ?thesis using b by (simp add: ref_bias_def)
qed

lemma point_gate_sound:
  assumes "committed_model B tier D" and "\<not> model_clash B D p" and "point_gate B tier p first rank = Inr g"
  shows "ref_gate D first rank = Some g"
proof (cases "glu_form first = FORM_NONE \<or> glu_form first = FORM_SPLIT")
  case True
  then show ?thesis using assms(3) by (auto simp: point_gate_def ref_gate_def split: if_splits)
next
  case False
  then obtain eo other where o: "pt_partner p = Some eo" "open_entry B tier eo (ucast (en_partner first)) = Inr other"
    using assms(3) by (auto simp: point_gate_def rbind_Inr split: if_splits)
  have "ref_entry D (ucast (en_partner first)) = Some other"
    using open_entry_sound [OF assms(1) o(2)] assms(2) o(1) by (auto simp: model_clash_def)
  then show ?thesis using False assms(3) o by (auto simp: point_gate_def ref_gate_def rbind_Inr split: if_splits)
qed

lemma point_value_sound:
  assumes "committed_model B tier D" and nc: "\<not> model_clash B D p"
    and "point_value L B tier p g up x layout ex row m_out = Inr v"
  shows "ref_value L D g up x layout ex row m_out = Some v"
proof -
  have w: "\<not> weight_clash B D r" if "r \<in> set (pt_rows p)" for r using nc that by (auto simp: model_clash_def)
  have dot: "ref_dot D k x layout ex e row' = Some rec" if "i < length (pt_rows p)"
    "dot_row B tier k x layout ex e (pt_rows p ! i) row' = Inr rec" for k e i row' rec
    using dot_row_sound [OF assms(1) that(2)] w that(1) by simp
  show ?thesis
  proof (cases "glu_form g = FORM_NONE")
    case True
    then obtain r b where r: "length (pt_rows p) = 1"
      "dot_row B tier (unat (en_k g)) x layout ex g (pt_rows p ! 0) row = Inr r"
      "point_bias B tier g (pt_bias p) row = Inr b" "v = plain_value r b"
      using assms(3) by (auto simp: point_value_def Let_def rbind_Inr split: if_splits)
    have "ref_dot D (unat (en_k g)) x layout ex g row = Some r" by (rule dot [OF _ r(2)]) (simp add: r(1))
    moreover have "ref_bias D g row = Some b"
      using point_bias_sound [OF assms(1) r(3)] nc by (auto simp: model_clash_def)
    ultimately show ?thesis using True r(4) by (simp add: ref_value_def)
  next
    case False
    then obtain rg ru where r: "length (pt_rows p) = 2"
      "dot_row B tier (unat (en_k g)) x layout ex g (pt_rows p ! 0) row = Inr rg"
      "(if glu_form g = FORM_SPLIT then dot_row B tier (unat (en_k g)) x layout ex g (pt_rows p ! 1) (row + m_out)
        else rbind (ok_or FailPanicked up) (\<lambda>u. dot_row B tier (unat (en_k g)) x layout ex u (pt_rows p ! 1) row)) = Inr ru"
      "glu_value L (glu_op g) rg ru = Some v"
      using assms(3) by (auto simp: point_value_def Let_def rbind_Inr split: if_splits)
    have "ref_dot D (unat (en_k g)) x layout ex g row = Some rg" by (rule dot [OF _ r(2)]) (simp add: r(1))
    moreover have "(if glu_form g = FORM_SPLIT then ref_dot D (unat (en_k g)) x layout ex g (row + m_out)
        else do { u \<leftarrow> up; ref_dot D (unat (en_k g)) x layout ex u row }) = Some ru"
      using r(1,3) dot [of 1] by (auto simp: rbind_Inr split: if_splits)
    ultimately show ?thesis using False r(4) by (simp add: ref_value_def)
  qed
qed

subsection \<open>Openings of the trace\<close>

lemma leaf_in_position:
  assumes "b3_root B (map (b3_hash B) ls) = Some pr" and "length ls < 2 ^ 64"
    and "b3_verify B pr (length ls) i (b3_hash B b) q"
    and "\<not> path_clash B (map (b3_hash B) ls) i (b3_hash B b) q" and "\<not> input_clash B b (ls ! i)"
  shows "b = ls ! i" and "i < length ls"
  using b3_leaf_sound [OF assms(1), of i "b3_hash B b" q] assms(2-5) hashed_input by fastforce+

lemma position_len:
  assumes ct: "committed_trace B resp sh D" and v: "b3_verify B (trace_root resp) (unat (n_pos resp)) t pr q"
  shows "t < length (ad_trace D)" and "length (ad_trace D ! t) = unat (n_leaves sh)"
    and "pr = pos_roots B D ! t \<or> path_clash B (pos_roots B D) t pr q"
proof -
  have r: "b3_root B (pos_roots B D) = Some (trace_root resp)" and l: "length (pos_roots B D) = unat (n_pos resp)"
    and sh: "\<forall>ls \<in> set (ad_trace D). length ls = unat (n_leaves sh)"
    using ct by (simp_all add: committed_trace_def pos_roots_def)
  have "length (pos_roots B D) < 2 ^ 64" using l unat_lt [of "n_pos resp"] by simp
  note s = b3_leaf_sound [OF r this v [folded l]]
  show "t < length (ad_trace D)" using s(1) by (simp add: pos_roots_def)
  then show "length (ad_trace D ! t) = unat (n_leaves sh)" using sh by simp
  show "pr = pos_roots B D ! t \<or> path_clash B (pos_roots B D) t pr q" by (rule s(2))
qed

lemma position_root:
  "t < length (ad_trace D) \<Longrightarrow> ad_trace D ! t \<noteq> [] \<Longrightarrow>
   b3_root B (map (b3_hash B) (ad_trace D ! t)) = Some (pos_roots B D ! t)"
  by (simp add: pos_roots_def b3_root_eq)

lemma slice_range: "get_range (slice xs a m) i (i + n) = Some ys \<Longrightarrow> ys = slice xs (a + i) n"
  by (auto simp: get_range_def drop_take add.commute split: if_splits)

lemma chunk_sound_at:
  assumes "blake3_tree_mode B" and "length data < 2 ^ 64"
    and "b3_leaf_from_chunk B (length data) c chunk q = Some (b3_hash B data)" and "\<not> chunks_clash B data c chunk q"
    and "get_range chunk i (i + n) = Some ys"
  shows "ys = slice data (c * 1024 + i) n"
proof -
  have "chunk = slice data (c * 1024) (length chunk)" using chunk_sound [OF assms(1-3)] assms(4) by simp
  with assms(5) have "get_range (slice data (c * 1024) (length chunk)) i (i + n) = Some ys" by simp
  then show ?thesis by (rule slice_range)
qed

lemma unat_dvd_1024: "1024 dvd (w :: u64) \<Longrightarrow> unat w mod 1024 = 0"
proof -
  assume "1024 dvd w"
  then obtain k where "w = 1024 * k" by (elim dvdE)
  then have "unat w = (1024 * unat k) mod 2 ^ 64" by (simp add: unat_word_ariths)
  then show ?thesis by (simp add: mod_mod_cancel)
qed

lemma chunk_index_bound: "b3_leaf_from_chunk B tlen c chunk q = Some h \<Longrightarrow> c \<le> tlen"
proof -
  assume "b3_leaf_from_chunk B tlen c chunk q = Some h"
  then have "c < max (div_ceil tlen B3_CHUNK) 1"
    by (auto simp: b3_leaf_from_chunk_def Let_def Option.bind_eq_Some_conv split: if_splits)
  then show ?thesis using div_ceil_le_self [of tlen] by auto
qed

text \<open>The checks of one drawn element. \<open>g_rank\<close> is the rank of its gate product.\<close>

lemma check_point_sound:
  assumes tm: "blake3_tree_mode B" and cm: "committed_model B tier D" and ct: "committed_trace B resp sh D"
    and nm: "\<not> model_clash B D p" and nt: "\<not> trace_clash B sh D p ids t g_rank"
    and len: "length (ad_trace D ! unat t ! unat (2 * g_rank + 1)) = unat (y_total_len p)"
    and chk: "check_point L B tier resp p sh ids role t rank (g, g_rank) up slots slot m_out row = Inr (rep, oi)"
  shows "ref_check L resp D (ids \<noteq> None) role t rank (g, g_rank) up slots slot m_out row = Some rep"
    and "unat t < length (ad_trace D)" and "rep_t rep = t" and "pos_root oi = pos_roots B D ! unat t"
    and "ad_trace D ! unat t ! unat (meta_index sh) = meta_bytes sh t (expected_ubatch t (n_prompt resp))"
proof -
  let ?ls = "ad_trace D ! unat t" and ?n = "unat (n_leaves sh)"
  let ?hs = "map (b3_hash B) ?ls" and ?x = "?ls ! unat (2 * g_rank)" and ?y = "?ls ! unat (2 * g_rank + 1)"
  let ?lay = "input_layout role (expected_ubatch t (n_prompt resp)) (wtype g)" and ?body = "slots * m_out * 4" and ?off = "(slot * m_out + row) * 4"
  obtain x pr yl yb ex h tol where x: "point_input (pt_x p) (x_len (en_k g) ?lay) slots slot = Inr x"
    and pr: "b3_verify B pr ?n (unat (2 * g_rank)) (b3_hash B (pt_x p)) (pt_x_path p)"
    and pos: "b3_verify B (trace_root resp) (unat (n_pos resp)) (unat t) pr (pt_pos_path p)"
    and ub: "pt_n_ubatch p = expected_ubatch t (n_prompt resp)"
    and meta: "b3_verify B pr ?n (unat (meta_index sh)) (meta_hash B sh t (expected_ubatch t (n_prompt resp))) (pt_meta_path p)"
    and al: "ids = None \<or> 1024 dvd ?body"
    and tot: "ucast (y_total_len p) = ?body + (if ids \<noteq> None then 4 * slots else 0)"
    and ci: "ucast (y_chunk_index p) = ?off div 1024"
    and yl: "b3_leaf_from_chunk B (unat (y_total_len p)) (unat (y_chunk_index p)) (y_chunk p) (y_chunk_path p) = Some yl"
    and yv: "b3_verify B pr ?n (unat (2 * g_rank + 1)) yl (y_path p)"
    and yb: "get_range (y_chunk p) (unat (?off mod 1024)) (unat (?off mod 1024) + 4) = Some yb"
    and ex: "point_expert B g (?body + (if ids \<noteq> None then 4 * slots else 0)) ?body yl ids slot = Inr ex"
    and val: "point_value L B tier p g up x ?lay ex row m_out = Inr (h, tol)"
    and tl: "within_tol (f64_of_f32 (le_u32 yb)) h tol"
    and rep: "rep = \<lparr>rep_t = t, rep_rank = rank, rep_row = row, rep_y = f64_of_f32 (le_u32 yb), rep_y_hat = h, rep_tol = tol\<rparr>"
    and oi: "pos_root oi = pr"
    using chk by (cases ids) (auto simp: check_point_def Let_def rbind_Inr b3_fold_verify simp del: distrib_right_numeral split: if_splits)
  note pl = position_len [OF ct pos]
  show t: "unat t < length (ad_trace D)" by (rule pl(1))
  show "rep_t rep = t" by (simp add: rep)
  have n: "length ?ls = ?n" by (rule pl(2))
  have "b3_fold B (length ?ls) (unat (2 * g_rank)) (b3_hash B (pt_x p)) (pt_x_path p) = Some pr"
    unfolding n b3_fold_verify by (rule pr)
  then have root_eq: "pr = pos_roots B D ! unat t" using pl(3) nt unfolding trace_clash_def Let_def by blast
  then show "pos_root oi = pos_roots B D ! unat t" by (simp add: oi)
  have "unat (2 * g_rank) < ?n" using pr by (simp add: b3_verify_iff)
  then have "?ls \<noteq> []" using n by auto
  from position_root [OF t this, of B] have root: "b3_root B ?hs = Some pr" by (simp add: root_eq)
  have n64: "length ?ls < 2 ^ 64" unfolding n using unat_lt [of "n_leaves sh"] by simp
  have xeq: "pt_x p = ?x"
    using leaf_in_position(1) [OF root n64 pr [folded n]] nt unfolding trace_clash_def Let_def by blast
  have "b3_verify B pr (length ?ls) (unat (meta_index sh)) (b3_hash B (meta_bytes sh t (pt_n_ubatch p))) (pt_meta_path p)"
    using meta unfolding n ub meta_hash_def .
  from leaf_in_position(1) [OF root n64 this] nt
  show "?ls ! unat (meta_index sh) = meta_bytes sh t (expected_ubatch t (n_prompt resp))"
    unfolding trace_clash_def Let_def meta_hash_def ub by metis
  have yi: "unat (2 * g_rank + 1) < length ?ls" using yv n by (simp add: b3_verify_iff)
  have "length ?hs < 2 ^ 64" using n64 by simp
  from b3_leaf_sound(2) [OF root this, of "unat (2 * g_rank + 1)" yl "y_path p"] yv yl nt n yi
  have yl_eq: "yl = b3_hash B ?y" unfolding trace_clash_def Let_def by (metis length_map nth_map)
  have ylen: "length ?y < 2 ^ 64"
    using ct nth_mem [OF t] nth_mem [OF yi] unfolding committed_trace_def by blast
  have "yb = slice ?y (unat (y_chunk_index p) * 1024 + unat (?off mod 1024)) 4"
    using chunk_sound_at [OF tm ylen _ _ yb, of "unat (y_chunk_index p)" "y_chunk_path p"] yl yl_eq len nt
    unfolding trace_clash_def Let_def by metis
  moreover have "unat (y_chunk_index p) * 1024 + unat (?off mod 1024) = unat ?off"
  proof -
    have "unat (y_chunk_index p) = unat ?off div 1024"
      using arg_cong [OF ci, of unat] by (simp add: unat_div del: distrib_right_numeral)
    then show ?thesis by (simp add: unat_mod del: distrib_right_numeral)
  qed
  ultimately have yb_eq: "yb = slice ?y (unat ?off) 4" by simp
  have exp: "ref_expert (ids \<noteq> None) g ?y ?body slot = Some ex"
  proof (cases ids)
    case None
    then show ?thesis using ex by (simp add: point_expert_def ref_expert_def)
  next
    case (Some e)
    let ?last = "unat (?body div 1024)"
    have bt: "unat (?body + 4 * slots) = length ?y" using arg_cong [OF tot, of unat] Some len by simp
    obtain ib where l: "b3_leaf_from_chunk B (length ?y) ?last (ids_chunk e) (ids_chunk_path e) = Some (b3_hash B ?y)"
      and ib: "get_range (ids_chunk e) (4 * unat slot) (4 * unat slot + 4) = Some ib"
      and lt: "\<not> ucast (n_exp g) \<le> (ucast (le_u32 ib) :: u64)" "ex = ucast (le_u32 ib)"
      using ex Some yl_eq bt by (auto simp: point_expert_def rbind_Inr Let_def split: if_splits)
    have "?last \<le> unat (y_total_len p)" using chunk_index_bound [OF l] len by simp
    then have "\<not> chunks_clash B ?y ?last (ids_chunk e) (ids_chunk_path e)"
      using nt Some unfolding trace_clash_def Let_def by blast
    from chunk_sound_at [OF tm ylen l this ib] have "ib = slice ?y (?last * 1024 + 4 * unat slot) 4" .
    moreover have "?last * 1024 = unat ?body"
    proof -
      have "unat ?body mod 1024 = 0" using al Some by (intro unat_dvd_1024) simp
      then show ?thesis using div_mult_mod_eq [of "unat ?body" 1024] by (simp add: unat_div)
    qed
    ultimately show ?thesis using Some lt by (simp add: ref_expert_def Let_def)
  qed
  have "ref_value L D g up x ?lay ex row m_out = Some (h, tol)" by (rule point_value_sound [OF cm nm val])
  then show "ref_check L resp D (ids \<noteq> None) role t rank (g, g_rank) up slots slot m_out row = Some rep"
    using x exp tl yb_eq xeq by (simp add: ref_check_def Let_def rep del: distrib_right_numeral)
qed

subsection \<open>The drawn point\<close>

definition gate_rank :: "audit_data \<Rightarrow> u64 \<Rightarrow> u64" where
  "gate_rank D rank = (case ref_entry D rank of
     Some e \<Rightarrow> if glu_form e = FORM_PAIR_UP then ucast (en_partner e) else rank | None \<Rightarrow> rank)"

lemma ref_gate_rank: "ref_entry D rank = Some first \<Longrightarrow> ref_gate D first rank = Some ((g, gr), up) \<Longrightarrow> gr = gate_rank D rank"
  by (auto simp: ref_gate_def gate_rank_def Option.bind_eq_Some_conv split: if_splits)

lemma check_point_rank: "check_point L B tier resp p sh ids role t rank gate up slots slot m_out row = Inr (rep, oi) \<Longrightarrow>
    rep_rank rep = rank \<and> rep_t rep = t"
  by (cases gate) (auto simp: check_point_def Let_def rbind_Inr split: if_splits)

text \<open>C6. 
  An accepted point reports what \<open>ref_point\<close> recomputes from the committed data, with the position, the product,
  the row, the committed value, the recomputed value and the tolerance; otherwise one of its openings is a clash.
  The committed output leaf is as long as the point says.
\<close>

theorem verify_point_refines:
  assumes "blake3_tree_mode B" and "committed_model B tier D" and "committed_trace B resp sh D"
    and "verify_point_at L B tier resp seed i p sh ids = Inr (rep, oi)"
    and "length (ad_trace D ! unat (rep_t rep) ! unat (2 * gate_rank D (rep_rank rep) + 1)) = unat (y_total_len p)"
  shows "ref_point L B tier resp (n_used sh) D seed i = Some rep
    \<or> model_clash B D p \<or> trace_clash B sh D p ids (rep_t rep) (gate_rank D (rep_rank rep))"
proof (rule ccontr)
  assume "\<not> ?thesis"
  then have np: "ref_point L B tier resp (n_used sh) D seed i \<noteq> Some rep" and nm: "\<not> model_clash B D p"
    and nt: "\<not> trace_clash B sh D p ids (rep_t rep) (gate_rank D (rep_rank rep))" by auto
  let ?d = "draw_point B seed i"
  let ?rank = "?d ! 1 mod n_products tier"
  let ?ex = "\<lambda>(first :: entry) (g :: entry). 1 < n_exp g \<and> en_role first \<noteq> ROLE_HEADS"
  let ?m = "\<lambda>g :: entry. if glu_form g = FORM_SPLIT then en_m g div 2 else en_m g"
  let ?slots = "\<lambda>(first :: entry) (g :: entry). if ?ex first g then ucast (n_used sh) else if en_role first = ROLE_HEADS then ucast (n_exp g) else (1 :: u64)"
  let ?slot = "\<lambda>(first :: entry) (g :: entry). if 1 < ?slots first g then drop_bit 32 (?d ! 3) mod ?slots first g else 0"
  obtain first t ge gr up where
    fo: "open_entry B tier (pt_entry p) ?rank = Inr first"
    and t: "point_position resp (en_role first = ROLE_OUTPUT) (?d ! 0) = Inr t"
    and g: "point_gate B tier p first ?rank = Inr ((ge, gr), up)"
    and chk: "check_point L B tier resp p sh ids (en_role first) t ?rank (ge, gr) up (?slots first ge) (?slot first ge) (?m ge)
        (?d ! 2 mod ?m ge) = Inr (rep, oi)"
    and ex: "?ex first ge = (ids \<noteq> None)"
    using assms(4) unfolding verify_point_at_def Let_def
    by (simp only: if_Inl_Inr rbind_Inr split_paired_Ex prod.case fst_conv) (elim exE conjE, rule that, assumption+, blast)
  have e: "ref_entry D ?rank = Some first" using open_entry_sound [OF assms(2) fo] nm by (auto simp: model_clash_def)
  have rg: "ref_gate D first ?rank = Some ((ge, gr), up)" by (rule point_gate_sound [OF assms(2) nm g])
  have "gr = gate_rank D ?rank" by (rule ref_gate_rank [OF e rg])
  moreover have "rep_rank rep = ?rank" "rep_t rep = t" using check_point_rank [OF chk] by simp_all
  ultimately have gr: "gate_rank D (rep_rank rep) = gr" and rt: "rep_t rep = t" by simp_all
  note cs = check_point_sound(1) [OF assms(1-3) nm nt [unfolded gr rt] assms(5) [unfolded gr rt] chk]
  have "ref_point L B tier resp (n_used sh) D seed i = Some rep"
    using cs by (simp only: ref_point_def Let_def e t rg bind.bind_lunit ok.simps prod.case fst_conv ex)
  with np show False ..
qed

subsection \<open>One product, one position, for a witness\<close>

text \<open>A product of no columns with one row, and the trace of one position: no input, the output 0.\<close>

definition toy_product :: entry where
  "toy_product = \<lparr>en_name = [], wtype = 8, en_k = 0, en_m = 1, n_exp = 1, chunk_base = 0, n_bytes = 32,
     en_row_bytes = 32, en_role = 0, glu_op = 0, glu_form = 0, en_partner = NONE, en_bias = NONE, en_chain = ChainNone\<rparr>"

definition toy_zeros :: bytes where "toy_zeros = replicate 32 0"

definition toy_leaves :: "bytes list" where "toy_leaves = [[], [0, 0, 0, 0], u32_le 0 @ u32_le 1]"

definition toy_data :: audit_data where
  "toy_data = \<lparr>ad_entries = [serialize toy_product], ad_weights = toy_zeros, ad_trace = [toy_leaves]\<rparr>"

definition toy_h :: "bytes \<Rightarrow> hash" where "toy_h = b3_hash toy_blake3"

definition toy_pair_node :: hash where "toy_pair_node = b3_merge toy_blake3 (toy_h []) (toy_h [0, 0, 0, 0]) False"
definition toy_pos_root :: hash where "toy_pos_root = b3_merge toy_blake3 toy_pair_node (toy_h (u32_le 0 @ u32_le 1)) True"

definition toy_tier :: tier_ctx where
  "toy_tier = \<lparr>r_t = toy_h toy_zeros, n_chunks = 1, m_t = toy_h (serialize toy_product), n_entries = 1, n_products = 1\<rparr>"

definition toy_response :: response_ctx where
  "toy_response = \<lparr>trace_root = toy_pos_root, n_prompt = 1, n_pos = 1\<rparr>"

definition toy_point :: point where
  "toy_point = \<lparr>pt_n_ubatch = 1, pt_pos_path = [], pt_meta_path = [toy_pair_node],
     pt_entry = \<lparr>eo_index = 0, eo_bytes = serialize toy_product, eo_path = []\<rparr>, pt_partner = None, pt_bias = None,
     pt_rows = [\<lparr>first_chunk = 0, cr_chunks = toy_zeros, cr_proof = []\<rparr>], pt_x = [],
     pt_x_path = [toy_h [0, 0, 0, 0], toy_h (u32_le 0 @ u32_le 1)], y_total_len = 4, y_chunk_index = 0, y_chunk = [0, 0, 0, 0],
     y_chunk_path = [], y_path = [toy_h [], toy_h (u32_le 0 @ u32_le 1)]\<rparr>"

definition toy_libm :: libm where
  "toy_libm = \<lparr>lm_exp = id, lm_tanh = id, lm_sqrt = id, lm_log1p = id, lm_log = id, lm_sin = id, lm_cos = id, lm_pow = (\<lambda>a b. a)\<rparr>"

lemma toy_product_parse: "entry_parse (serialize toy_product) = Some (toy_product, length (serialize toy_product))"
proof -
  have "name_ok toy_product" by (simp add: toy_product_def name_ok_def)
  from parse_base_written [OF this, of "[]"] show ?thesis by (simp add: entry_parse_def toy_product_def)
qed

lemma toy_zero_chunks: "chunks_exact 32 toy_zeros = [toy_zeros]"
  using chunks_exact_step [of 32 toy_zeros "[]"] by (simp add: toy_zeros_def chunks_exact_def)

lemma toy_committed_model: "committed_model toy_blake3 toy_tier toy_data"
  by (simp add: committed_model_def toy_tier_def toy_data_def weight_chunks_def toy_zero_chunks rt_commit_def rt_range_proof_def
      rt_range_proof_loop.simps toy_h_def nth_opt_def)
    (simp add: toy_zeros_def)

lemma toy_leaf_root: "b3_root toy_blake3 (map (b3_hash toy_blake3) toy_leaves) = Some toy_pos_root"
  by (simp add: toy_leaves_def b3_root.simps b3_level_eq nth_opt_def toy_pos_root_def toy_pair_node_def toy_h_def)

lemma toy_committed_trace: "committed_trace toy_blake3 toy_response (stage1 1) toy_data"
  by (simp add: committed_trace_def pos_roots_def toy_data_def toy_leaf_root toy_response_def stage1_def)
    (simp add: b3_root.simps toy_leaves_def)

lemma d64_zero: "d64 0 = FFin False 0 (- 1074)"
  by (simp add: d64_def fp_decode_def fp_emin_def fp_bias_def)

lemma e64_zero: "e64 (FFin False 0 e) = 0"
  by (simp add: e64_def fp_encode_def fp_round_def sign_bit_def)

lemma f64_zeros: "f64_of_f32 0 = 0" "f64_of_int 0 = 0" "f64_add 0x8000000000000000 0 = 0" "f64_abs 0 = 0" "within_tol 0 0 0"
proof -
  show "f64_of_f32 0 = 0" by (simp add: f64_of_f32_def d32_def fp_decode_def e64_zero)
  show "f64_of_int 0 = 0" by (simp add: f64_of_int_def fp_of_int_def e64_zero)
  have "d64 0x8000000000000000 = FFin True 0 (- 1074)" by (simp add: d64_def fp_decode_def fp_emin_def fp_bias_def)
  then show "f64_add 0x8000000000000000 0 = 0" by (simp add: f64_add_def d64_zero signed_def e64_zero)
  show a: "f64_abs 0 = 0" by (simp add: f64_abs_def)
  have "f64_sub 0 0 = 0" by (simp add: f64_sub_def d64_zero signed_def fp_neg_def e64_zero)
  then show "within_tol 0 0 0" by (simp add: within_tol_def f64_finite_def f64_le_def d64_zero fp_finite_def a signed_def)
qed

lemma fp_round_zero: "fp_round eb mb False 0 e = 0"
  by (simp add: fp_round_def sign_bit_def)

lemma EPS_value: "EPS = 0x3EE4F8B588E368F1"
proof -
  have b: "bitlen 100000 = 17" "bitlen (Suc 0) = 1" "bitlen 47223664828696453 = 56"
    using bitlen_eqI [of 16 100000] bitlen_eqI [of 0 "Suc 0"] bitlen_eqI [of 55 47223664828696453] by simp_all
  show ?thesis
    by (simp add: EPS_def f64_lit_def b e64_def fp_encode_def Let_def)
      (simp add: fp_round_def fp_emin_def fp_bias_def sign_bit_def round_shift_def b Let_def)
qed

lemma EPS_zero: "f64_mul EPS 0 = 0"
proof -
  have "\<exists>m e. d64 EPS = FFin False m e" by (simp add: d64_def EPS_value fp_decode_def Let_def)
  then show ?thesis by (auto simp: f64_mul_def d64_zero e64_zero)
qed

lemma toy_accepted: "\<exists>oi. verify_point_at toy_libm toy_blake3 toy_tier toy_response 0 0 toy_point (stage1 1) None
    = Inr (\<lparr>rep_t = 0, rep_rank = 0, rep_row = 0, rep_y = 0, rep_y_hat = 0, rep_tol = 0\<rparr>, oi)"
proof -
  have e: "open_entry toy_blake3 toy_tier (pt_entry toy_point) 0 = Inr toy_product"
    by (simp add: open_entry_def toy_point_def toy_tier_def verify_entry_def rt_verify_leaf_def entry_leaf_def toy_product_parse toy_h_def
        rt_verify_range_def checked_add_u64_def rt_verify_loop.simps)
  have w: "open_bytes toy_blake3 toy_tier toy_product (pt_rows toy_point ! 0) 0 32 = Inr toy_zeros"
    by (simp add: open_bytes_def toy_point_def toy_product_def toy_tier_def toy_zero_chunks toy_h_def
        rt_verify_range_def checked_add_u64_def rt_verify_loop.simps Let_def)
      (simp add: toy_zeros_def get_range_def)
  have v: "point_value toy_libm toy_blake3 toy_tier toy_point toy_product None [] MMVQ 0 0 1 = Inr (0, 0)"
  proof -
    have d: "dot_row toy_blake3 toy_tier 0 [] MMVQ 0 toy_product (pt_rows toy_point ! 0) 0 = Inr \<lparr>y_hat = 2 ^ 63, scale = 2 ^ 63\<rparr>"
      using w by (simp add: dot_row_def open_expert_row_def toy_product_def rbind_Inr canonical_dot_def dequant_row_def
          block_size_def q8_decode_def up_div_def offset_block_scales_def f64_sum_def)
    show ?thesis
      using d by (simp add: point_value_def toy_product_def rbind_Inr point_bias_def plain_value_def Let_def)
        (simp add: toy_point_def f64_zeros EPS_zero)
  qed
  have p: "b3_verify toy_blake3 toy_pos_root 3 0 (toy_h []) (pt_x_path toy_point)"
    "b3_verify toy_blake3 toy_pos_root 3 1 (toy_h [0, 0, 0, 0]) (y_path toy_point)"
    "b3_verify toy_blake3 toy_pos_root 3 2 (toy_h (u32_le 0 @ u32_le 1)) (pt_meta_path toy_point)"
    "b3_verify toy_blake3 toy_pos_root 1 0 toy_pos_root (pt_pos_path toy_point)"
    by (simp_all add: b3_verify_def b3_fold_def b3_fold_loop.simps toy_point_def toy_pos_root_def toy_pair_node_def)
  have n: "n_products toy_tier = 1" "n_entries toy_tier = 1" "n_pos toy_response = 1" "n_prompt toy_response = 1"
      "trace_root toy_response = toy_pos_root" "n_leaves (stage1 1) = 3" "meta_index (stage1 1) = 2"
      "en_role toy_product = 0" "n_exp toy_product = 1" "glu_form toy_product = 0" "en_m toy_product = 1" "en_k toy_product = 0" "wtype toy_product = 8"
    and q: "pt_partner toy_point = None" "pt_x toy_point = []" "pt_n_ubatch toy_point = 1" "y_total_len toy_point = 4"
      "y_chunk_index toy_point = 0" "y_chunk toy_point = [0, 0, 0, 0]" "y_chunk_path toy_point = []"
    by (simp_all add: toy_tier_def toy_response_def stage1_def toy_product_def toy_point_def)
  have y: "b3_leaf_from_chunk toy_blake3 4 0 [0, 0, 0, 0] [] = Some (toy_h [0, 0, 0, 0])"
    by (simp add: b3_leaf_from_chunk_def div_ceil_def toy_h_def Let_def)
  have m: "meta_hash toy_blake3 (stage1 1) 0 1 = toy_h (u32_le 0 @ u32_le 1)"
    by (simp add: meta_hash_def meta_bytes_def stage1_def toy_h_def)
  have f: "b3_fold toy_blake3 3 0 (b3_hash toy_blake3 []) (pt_x_path toy_point) = Some toy_pos_root"
    using p(1) by (simp add: b3_fold_verify toy_h_def)
  have chk: "\<exists>oi. check_point toy_libm toy_blake3 toy_tier toy_response toy_point (stage1 1) None 0 0 0 (toy_product, 0) None 1 0 1 0
    = Inr (\<lparr>rep_t = 0, rep_rank = 0, rep_row = 0, rep_y = 0, rep_y_hat = 0, rep_tol = 0\<rparr>, oi)"
    using v p(2-4) by (simp add: check_point_def Let_def n q rbind_Inr f m y point_input_def x_len_def div_ceil64_def input_layout_def layout_for_def
        expected_ubatch_def point_expert_def get_range_def le_u32_def f64_zeros sums_consistent_def q8_decode_def q8_blocks_def up_div_def)
  show ?thesis using chk e
    by (simp add: verify_point_at_def Let_def n q rbind_Inr point_position_def point_gate_def)
qed
lemma toy_gate_rank: "gate_rank toy_data 0 = 0"
  by (simp add: gate_rank_def ref_entry_def toy_data_def toy_product_parse nth_opt_def) (simp add: toy_product_def)

theorem verify_point_refines_witness:
  "\<exists>rep oi. verify_point_at toy_libm toy_blake3 toy_tier toy_response 0 0 toy_point (stage1 1) None = Inr (rep, oi)
   \<and> (ref_point toy_libm toy_blake3 toy_tier toy_response 0 toy_data 0 0 = Some rep
      \<or> model_clash toy_blake3 toy_data toy_point \<or> trace_clash toy_blake3 (stage1 1) toy_data toy_point None 0 0)"
proof -
  let ?rep = "\<lparr>rep_t = 0, rep_rank = 0, rep_row = 0, rep_y = 0, rep_y_hat = 0, rep_tol = 0\<rparr>"
  obtain oi where a: "verify_point_at toy_libm toy_blake3 toy_tier toy_response 0 0 toy_point (stage1 1) None = Inr (?rep, oi)"
    using toy_accepted by blast
  have "n_used (stage1 1) = 0" "length (ad_trace toy_data ! 0 ! 1) = unat (y_total_len toy_point)"
    by (simp_all add: stage1_def toy_data_def toy_leaves_def toy_point_def)
  with a verify_point_refines [OF toy_tree_mode toy_committed_model toy_committed_trace a] show ?thesis
    by (auto simp: toy_gate_rank)
qed

end
