(* ===== verification/Sequence.thy ===== *)
theory Sequence
  imports Leaf_Openings Point_Check
begin

section \<open>Sequence leaves\<close>

text \<open>
  Model of \<open>verifiable-inference/src/seq.rs\<close>: the index of each sequence leaf, opened byte spans, records of
  the delta rule and the rows of a checkpoint. \<open>SeqSpan\<close> itself is in \<open>Opening\<close>, its reader and writer
  too. The lemmas show that the five kinds of leaf partition the indices of the tree and that an accepted span
  carries the committed bytes.
\<close>

definition seq_trace_root :: "blake3 \<Rightarrow> hash \<Rightarrow> hash \<Rightarrow> hash option" where
  "seq_trace_root B pr sr = b3_root B [pr, sr]"

record seq_layout =
  sl_n_attn :: u64
  sl_n_recur :: u64
  sl_heads :: u64

definition seq_n_leaves :: "seq_layout \<Rightarrow> u64" where
  "seq_n_leaves l = 2 * sl_heads l * (sl_n_attn l + sl_n_recur l) + sl_heads l * sl_n_attn l"

definition kcache :: "seq_layout \<Rightarrow> u64 \<Rightarrow> u64 \<Rightarrow> u64 option" where
  "kcache l slot h = (if slot < sl_n_attn l \<and> h < sl_heads l then Some (2 * (slot * sl_heads l + h)) else None)"

definition vcache :: "seq_layout \<Rightarrow> u64 \<Rightarrow> u64 \<Rightarrow> u64 option" where
  "vcache l slot h = map_option (\<lambda>i. i + 1) (kcache l slot h)"

definition record_leaf :: "seq_layout \<Rightarrow> u64 \<Rightarrow> u64 \<Rightarrow> u64 option" where
  "record_leaf l slot h = (if slot < sl_n_recur l \<and> h < sl_heads l
     then Some (2 * sl_heads l * sl_n_attn l + 2 * (slot * sl_heads l + h)) else None)"

definition checkpoint :: "seq_layout \<Rightarrow> u64 \<Rightarrow> u64 \<Rightarrow> u64 option" where
  "checkpoint l slot h = map_option (\<lambda>i. i + 1) (record_leaf l slot h)"

definition lse :: "seq_layout \<Rightarrow> u64 \<Rightarrow> u64 \<Rightarrow> u64 option" where
  "lse l slot h = (if slot < sl_n_attn l \<and> h < sl_heads l
     then Some (2 * sl_heads l * (sl_n_attn l + sl_n_recur l) + slot * sl_heads l + h) else None)"

text \<open>Bytes \<open>[lo, hi)\<close> of one leaf, from a span of whole chunks.\<close>

definition open_span :: "blake3 \<Rightarrow> hash \<Rightarrow> seq_layout \<Rightarrow> u64 \<Rightarrow> u64 \<Rightarrow> u64 \<Rightarrow> u64 \<Rightarrow> seq_span \<Rightarrow> bytes option" where
  "open_span B seq_root l leaf total_len lo hi span =
     (if hi \<le> lo \<or> total_len < hi \<or> ucast (ss_first_chunk span) \<noteq> lo div 1024
         \<or> length (ss_bytes span) \<noteq> unat (min total_len (div_ceil64 hi 1024 * 1024) - lo div 1024 * 1024) then None
      else do { h \<leftarrow> b3_leaf_from_chunks B (unat total_len) (unat (lo div 1024)) (ss_bytes span) (ss_chunk_proof span);
        r \<leftarrow> b3_fold B (unat (seq_n_leaves l)) (unat leaf) h (ss_leaf_path span);
        if r \<noteq> seq_root then None
        else let base = lo div 1024 * 1024 in get_range (ss_bytes span) (unat (lo - base)) (unat (hi - base)) })"

subsection \<open>Records\<close>

definition record_len :: "u32 \<Rightarrow> nat \<Rightarrow> nat" where
  "record_len kind hd1 = 4 * 2 * hd1 + 4 + (if kind = RECUR_KDA then 2 * hd1 else 4)"

record delta_record =
  dr_q :: "f32 list"
  dr_k :: "f32 list"
  dr_v :: "f32 list"
  dr_o :: "f32 list"
  dr_beta :: f32
  dr_g :: "f32 list"

definition half_bytes :: "f32 list \<Rightarrow> bytes" where
  "half_bytes xs = concat (map (\<lambda>x. u16_le (from_f32 x)) xs)"

text \<open>Outside \<open>KDA\<close> the decay is one value; an empty list is a panic, the outer \<open>None\<close>.\<close>

definition record_encode :: "u32 \<Rightarrow> delta_record \<Rightarrow> bytes option" where
  "record_encode kind r = do {
     g \<leftarrow> (if kind = RECUR_KDA then Some (half_bytes (dr_g r)) else map_option u32_le (nth_opt (dr_g r) 0));
     Some (half_bytes (dr_q r) @ half_bytes (dr_k r) @ half_bytes (dr_v r) @ half_bytes (dr_o r) @ u32_le (dr_beta r) @ g) }"

definition halves_at :: "bytes \<Rightarrow> nat \<Rightarrow> nat \<Rightarrow> f32 list" where
  "halves_at b off n = map (\<lambda>i. half_read b (off + 2 * i)) [0..<n]"

definition record_decode :: "u32 \<Rightarrow> nat \<Rightarrow> bytes \<Rightarrow> delta_record option" where
  "record_decode kind hd1 b =
     (if (kind \<noteq> RECUR_GDA \<and> kind \<noteq> RECUR_KDA) \<or> length b \<noteq> record_len kind hd1 then None
      else let f = (\<lambda>off. le_u32 (slice b off 4)); beta = f (8 * hd1);
               g = (if kind = RECUR_KDA then halves_at b (8 * hd1 + 4) hd1 else [f (8 * hd1 + 4)]);
               r = \<lparr>dr_q = halves_at b 0 hd1, dr_k = halves_at b (2 * hd1) hd1, dr_v = halves_at b (4 * hd1) hd1,
                    dr_o = halves_at b (6 * hd1) hd1, dr_beta = beta, dr_g = g\<rparr>
        in if list_all f32_finite (dr_q r @ dr_k r @ dr_v r @ dr_o r @ dr_g r) \<and> f32_finite beta then Some r else None)"

text \<open>An interval of zero panics.\<close>

definition checkpoint_len :: "u64 \<Rightarrow> u64 \<Rightarrow> u64 \<Rightarrow> u64 option" where
  "checkpoint_len hd1 np interval = (if interval = 0 then None else Some (np div interval * hd1 * hd1 * 4))"

definition checkpoint_rows :: "u64 \<Rightarrow> u64 \<Rightarrow> u64 \<Rightarrow> u64 \<Rightarrow> u64 \<times> u64" where
  "checkpoint_rows hd1 m r0 n = (let base = (m - 1) * hd1 * hd1 * 4 in (base + r0 * hd1 * 4, base + (r0 + n) * hd1 * 4))"

subsection \<open>The leaves partition the tree\<close>

datatype seq_leaf = KCache u64 u64 | VCache u64 u64 | RecordLeaf u64 u64 | CheckpointLeaf u64 u64 | LseLeaf u64 u64

fun seq_index :: "seq_layout \<Rightarrow> seq_leaf \<Rightarrow> u64 option" where
  "seq_index l (KCache s h) = kcache l s h"
| "seq_index l (VCache s h) = vcache l s h"
| "seq_index l (RecordLeaf s h) = record_leaf l s h"
| "seq_index l (CheckpointLeaf s h) = checkpoint l s h"
| "seq_index l (LseLeaf s h) = lse l s h"

definition seq_fits :: "seq_layout \<Rightarrow> bool" where
  "seq_fits l \<longleftrightarrow> 2 * unat (sl_heads l) * (unat (sl_n_attn l) + unat (sl_n_recur l)) + unat (sl_heads l) * unat (sl_n_attn l) < 2 ^ 64"

text \<open>The indices as natural numbers.\<close>

fun seq_ok :: "seq_layout \<Rightarrow> seq_leaf \<Rightarrow> bool" where
  "seq_ok l (KCache s h) \<longleftrightarrow> s < sl_n_attn l \<and> h < sl_heads l"
| "seq_ok l (VCache s h) \<longleftrightarrow> s < sl_n_attn l \<and> h < sl_heads l"
| "seq_ok l (RecordLeaf s h) \<longleftrightarrow> s < sl_n_recur l \<and> h < sl_heads l"
| "seq_ok l (CheckpointLeaf s h) \<longleftrightarrow> s < sl_n_recur l \<and> h < sl_heads l"
| "seq_ok l (LseLeaf s h) \<longleftrightarrow> s < sl_n_attn l \<and> h < sl_heads l"

definition cell :: "seq_layout \<Rightarrow> u64 \<Rightarrow> u64 \<Rightarrow> nat" where
  "cell l s h = unat s * unat (sl_heads l) + unat h"

fun seq_pos :: "seq_layout \<Rightarrow> seq_leaf \<Rightarrow> nat" where
  "seq_pos l (KCache s h) = 2 * cell l s h"
| "seq_pos l (VCache s h) = 2 * cell l s h + 1"
| "seq_pos l (RecordLeaf s h) = 2 * (unat (sl_heads l) * unat (sl_n_attn l) + cell l s h)"
| "seq_pos l (CheckpointLeaf s h) = 2 * (unat (sl_heads l) * unat (sl_n_attn l) + cell l s h) + 1"
| "seq_pos l (LseLeaf s h) = 2 * (unat (sl_heads l) * unat (sl_n_attn l) + unat (sl_heads l) * unat (sl_n_recur l)) + cell l s h"

definition seq_total :: "seq_layout \<Rightarrow> nat" where
  "seq_total l = 2 * (unat (sl_heads l) * unat (sl_n_attn l) + unat (sl_heads l) * unat (sl_n_recur l))
     + unat (sl_heads l) * unat (sl_n_attn l)"

lemma seq_n_leaves_word: "seq_n_leaves l = word_of_nat (seq_total l)"
  by (simp add: seq_n_leaves_def seq_total_def algebra_simps)

lemma seq_index_pos: "seq_index l k = (if seq_ok l k then Some (word_of_nat (seq_pos l k)) else None)"
  by (cases k) (simp_all add: kcache_def vcache_def record_leaf_def checkpoint_def lse_def cell_def algebra_simps)

lemma seq_fits_total: "seq_fits l \<longleftrightarrow> seq_total l < 2 ^ 64"
  by (simp add: seq_fits_def seq_total_def algebra_simps)

lemma u64_of_nat: "n < 2 ^ 64 \<Longrightarrow> unat (word_of_nat n :: u64) = n"
  by (simp add: unat_of_nat take_bit_nat_eq_self_iff)

lemma cell_less: "s < n \<Longrightarrow> h < sl_heads l \<Longrightarrow> cell l s h < unat (sl_heads l) * unat n"
proof -
  assume "s < n" "h < sl_heads l"
  then have "unat h < unat (sl_heads l)" "unat s + 1 \<le> unat n" by (simp_all add: word_less_nat_alt)
  then have "cell l s h < (unat s + 1) * unat (sl_heads l)" by (simp add: cell_def)
  also have "\<dots> \<le> unat n * unat (sl_heads l)" using \<open>unat s + 1 \<le> unat n\<close> by (rule mult_le_mono1)
  finally show ?thesis by (simp add: mult.commute)
qed

lemma cell_inj:
  assumes "h < sl_heads l" and "h' < sl_heads l" and "cell l s h = cell l s' h'"
  shows "s = s' \<and> h = h'"
proof -
  have "unat h < unat (sl_heads l)" "unat h' < unat (sl_heads l)" using assms by (simp_all add: word_less_nat_alt)
  then have "cell l s h div unat (sl_heads l) = unat s" "cell l s h mod unat (sl_heads l) = unat h"
    "cell l s' h' div unat (sl_heads l) = unat s'" "cell l s' h' mod unat (sl_heads l) = unat h'"
    by (simp_all add: cell_def)
  then show ?thesis using assms(3) by (simp add: word_unat_eq_iff)
qed

lemma cell_surj:
  assumes "c < unat (sl_heads l) * unat n"
  shows "\<exists>s h. s < n \<and> h < sl_heads l \<and> cell l s h = c"
proof -
  let ?H = "unat (sl_heads l)"
  have H: "0 < ?H" using assms by (cases ?H) auto
  have "c div ?H < unat n" using assms H by (simp add: div_less_iff_less_mult mult.commute)
  moreover have "c mod ?H < ?H" using H by simp
  ultimately have "unat (word_of_nat (c div ?H) :: u64) = c div ?H" "unat (word_of_nat (c mod ?H) :: u64) = c mod ?H"
    using unat_lt [of n] unat_lt [of "sl_heads l"] by (simp_all add: u64_of_nat)
  with \<open>c div ?H < unat n\<close> \<open>c mod ?H < ?H\<close> show ?thesis
    by (intro exI [of _ "word_of_nat (c div ?H)"] exI [of _ "word_of_nat (c mod ?H)"]) (simp add: word_less_nat_alt cell_def)
qed

lemma seq_pos_less: "seq_ok l k \<Longrightarrow> seq_pos l k < seq_total l"
  using cell_less [of _ "sl_n_attn l" _ l] cell_less [of _ "sl_n_recur l" _ l]
  by (cases k) (force simp: seq_total_def)+

text \<open>The position of a leaf tells its kind and its cell.\<close>

fun seq_parts :: "seq_layout \<Rightarrow> seq_leaf \<Rightarrow> nat \<times> u64 \<times> u64" where
  "seq_parts l (KCache s h) = (0, s, h)"
| "seq_parts l (VCache s h) = (1, s, h)"
| "seq_parts l (RecordLeaf s h) = (2, s, h)"
| "seq_parts l (CheckpointLeaf s h) = (3, s, h)"
| "seq_parts l (LseLeaf s h) = (4, s, h)"

definition decode_pos :: "nat \<Rightarrow> nat \<Rightarrow> nat \<Rightarrow> nat \<times> nat" where
  "decode_pos a r n = (if n < 2 * a then (n mod 2, n div 2) else if n < 2 * (a + r) then (2 + n mod 2, n div 2 - a) else (4, n - 2 * (a + r)))"

lemma decode_seq_pos:
  assumes "seq_ok l k"
  shows "decode_pos (unat (sl_heads l) * unat (sl_n_attn l)) (unat (sl_heads l) * unat (sl_n_recur l)) (seq_pos l k)
     = (case seq_parts l k of (t, s, h) \<Rightarrow> (t, cell l s h))"
proof (cases k)
  case (KCache s h)
  with assms cell_less [of s "sl_n_attn l" h l] show ?thesis by (simp add: decode_pos_def)
next
  case (VCache s h)
  with assms cell_less [of s "sl_n_attn l" h l] show ?thesis by (simp add: decode_pos_def)
next
  case (RecordLeaf s h)
  with assms cell_less [of s "sl_n_recur l" h l] show ?thesis by (simp add: decode_pos_def)
next
  case (CheckpointLeaf s h)
  with assms cell_less [of s "sl_n_recur l" h l] show ?thesis by (simp add: decode_pos_def)
next
  case (LseLeaf s h)
  with assms show ?thesis by (simp add: decode_pos_def)
qed

lemma seq_pos_inj: "seq_ok l k \<Longrightarrow> seq_ok l k' \<Longrightarrow> seq_pos l k = seq_pos l k' \<Longrightarrow> k = k'"
proof -
  assume a: "seq_ok l k" "seq_ok l k'" "seq_pos l k = seq_pos l k'"
  obtain t s h t' s' h' where p: "seq_parts l k = (t, s, h)" "seq_parts l k' = (t', s', h')"
    by (cases "seq_parts l k"; cases "seq_parts l k'") auto
  have "h < sl_heads l" "h' < sl_heads l" using a p by (cases k; cases k'; auto)+
  moreover have "t = t'" "cell l s h = cell l s' h'"
    using decode_seq_pos [OF a(1)] decode_seq_pos [OF a(2)] a(3) p by simp_all
  ultimately have "seq_parts l k = seq_parts l k'" using cell_inj p by simp
  then show "k = k'" by (cases k; cases k') auto
qed

lemma seq_pos_surj: "n < seq_total l \<Longrightarrow> \<exists>k. seq_ok l k \<and> seq_pos l k = n"
proof -
  assume n: "n < seq_total l"
  let ?a = "unat (sl_heads l) * unat (sl_n_attn l)" and ?r = "unat (sl_heads l) * unat (sl_n_recur l)"
  consider (a) "n div 2 < ?a" | (r) "?a \<le> n div 2" "n div 2 < ?a + ?r" | (l) "2 * (?a + ?r) \<le> n"
    by (metis add_mult_distrib2 div_less_iff_less_mult leI mult.commute zero_less_numeral)
  then show ?thesis
  proof cases
    case a
    from cell_surj [OF a] obtain s h where "s < sl_n_attn l" "h < sl_heads l" "cell l s h = n div 2" by blast
    then have "seq_ok l (if even n then KCache s h else VCache s h) \<and> seq_pos l (if even n then KCache s h else VCache s h) = n"
      by auto
    then show ?thesis by blast
  next
    case r
    then have "n div 2 - ?a < ?r" by linarith
    from cell_surj [OF this] obtain s h where "s < sl_n_recur l" "h < sl_heads l" "cell l s h = n div 2 - ?a" by blast
    then have "seq_ok l (if even n then RecordLeaf s h else CheckpointLeaf s h)
        \<and> seq_pos l (if even n then RecordLeaf s h else CheckpointLeaf s h) = n" using r by auto
    then show ?thesis by blast
  next
    case l
    then have "n - 2 * (?a + ?r) < ?a" using n by (simp add: seq_total_def)
    from cell_surj [OF this] obtain s h where "s < sl_n_attn l" "h < sl_heads l" "cell l s h = n - 2 * (?a + ?r)" by blast
    then have "seq_ok l (LseLeaf s h) \<and> seq_pos l (LseLeaf s h) = n" using l by simp
    then show ?thesis by blast
  qed
qed

text \<open>C35. The sequence leaves partition the tree: as long as the leaf count fits 64 bits, every key cache, value
  cache, record, checkpoint and mass leaf has an index below the leaf count, and every index below it belongs
  to exactly one of them.\<close>

theorem seq_leaves_partition:
  assumes "seq_fits l"
  shows "(\<forall>k i. seq_index l k = Some i \<longrightarrow> i < seq_n_leaves l)
    \<and> (\<forall>i. i < seq_n_leaves l \<longrightarrow> (\<exists>!k. seq_index l k = Some i))"
proof -
  have tot: "seq_total l < 2 ^ 64" using assms by (simp add: seq_fits_total)
  then have N: "unat (seq_n_leaves l) = seq_total l" by (simp add: seq_n_leaves_word u64_of_nat)
  have u: "unat (word_of_nat (seq_pos l k) :: u64) = seq_pos l k" if "seq_ok l k" for k
    using seq_pos_less [OF that] tot by (simp add: u64_of_nat)
  have idx: "seq_index l k = Some i \<longleftrightarrow> seq_ok l k \<and> seq_pos l k = unat i" for k i
    using u [of k] by (auto simp: seq_index_pos)
  show ?thesis
  proof (intro conjI allI impI)
    fix k i assume "seq_index l k = Some i"
    then show "i < seq_n_leaves l" using seq_pos_less [of l k] by (auto simp: idx word_less_nat_alt N)
  next
    fix i assume "i < seq_n_leaves l"
    then have "unat i < seq_total l" by (simp add: word_less_nat_alt N)
    from seq_pos_surj [OF this] show "\<exists>!k. seq_index l k = Some i"
      unfolding idx by (metis seq_pos_inj)
  qed
qed

theorem seq_leaves_partition_witness:
  "let l = \<lparr>sl_n_attn = 3, sl_n_recur = 5, sl_heads = 4\<rparr> in
     seq_n_leaves l = 76 \<and> (\<forall>i. i < 76 \<longrightarrow> (\<exists>!k. seq_index l k = Some i)) \<and> kcache l 3 0 = None \<and> lse l 2 3 = Some 75"
proof -
  let ?l = "\<lparr>sl_n_attn = 3, sl_n_recur = 5, sl_heads = 4\<rparr>"
  have "seq_fits ?l" by (simp add: seq_fits_def)
  moreover have "seq_n_leaves ?l = 76" by (simp add: seq_n_leaves_def)
  ultimately show ?thesis
    using seq_leaves_partition [of ?l] by (simp add: kcache_def lse_def)
qed

subsection \<open>Accepted spans carry committed bytes\<close>

definition span_clash :: "blake3 \<Rightarrow> bytes list \<Rightarrow> nat \<Rightarrow> nat \<Rightarrow> seq_span \<Rightarrow> bool" where
  "span_clash B leaves i f sp \<longleftrightarrow>
     (\<exists>h. b3_leaf_from_chunks B (length (leaves ! i)) f (ss_bytes sp) (ss_chunk_proof sp) = Some h
        \<and> h \<noteq> b3_hash B (leaves ! i) \<and> path_clash B (map (b3_hash B) leaves) i h (ss_leaf_path sp))
     \<or> chunks_clash B (leaves ! i) f (ss_bytes sp) (ss_chunk_proof sp)"

lemma unat_chunk_floor: "unat (lo div 1024 * 1024 :: u64) = unat lo div 1024 * 1024"
proof -
  have "unat lo div 1024 * 1024 < 2 ^ 64" using unat_lt [of lo] div_times_less_eq_dividend [of "unat lo" 1024] by simp
  then show ?thesis by (simp add: unat_word_ariths unat_div)
qed

lemma slice_slice: "a + n \<le> k \<Longrightarrow> slice (slice xs b k) a n = slice xs (b + a) n"
  by (simp add: drop_take min_def add.commute)

lemma span_sound:
  assumes "blake3_tree_mode B" and "b3_root B (map (b3_hash B) leaves) = Some r"
    and "length leaves = unat (seq_n_leaves l)" and "length (leaves ! unat leaf) = unat tlen"
    and "open_span B r l leaf tlen lo hi sp = Some bs"
  shows "unat leaf < length leaves \<and> (bs = slice (leaves ! unat leaf) (unat lo) (unat hi - unat lo)
    \<or> span_clash B leaves (unat leaf) (unat (lo div 1024)) sp)"
proof -
  let ?i = "unat leaf" and ?f = "unat (lo div 1024)" and ?b = "lo div 1024 * 1024"
  obtain h where lt: "lo < hi" and h: "b3_leaf_from_chunks B (length (leaves ! ?i)) ?f (ss_bytes sp) (ss_chunk_proof sp) = Some h"
    and v: "b3_verify B r (length (map (b3_hash B) leaves)) ?i h (ss_leaf_path sp)"
    and g: "get_range (ss_bytes sp) (unat (lo - ?b)) (unat (hi - ?b)) = Some bs"
    using assms(3-5) by (auto simp: open_span_def Let_def Option.bind_eq_Some_conv b3_fold_verify split: if_splits)
  have "length (map (b3_hash B) leaves) < 2 ^ 64" using assms(3) unat_lt [of "seq_n_leaves l"] by simp
  note p = b3_leaf_sound [OF assms(2) this v]
  from p(1) have i: "?i < length leaves" by simp
  show ?thesis
  proof (cases "h = b3_hash B (leaves ! ?i)")
    case False
    then show ?thesis using p(2) i h by (auto simp: span_clash_def)
  next
    case True
    have "length (leaves ! ?i) < 2 ^ 64" using assms(4) unat_lt [of tlen] by simp
    from chunks_sound [OF assms(1) this h [unfolded True]]
    have c: "ss_bytes sp = slice (leaves ! ?i) (?f * B3_CHUNK) (length (ss_bytes sp))
        \<or> chunks_clash B (leaves ! ?i) ?f (ss_bytes sp) (ss_chunk_proof sp)" .
    have le: "?b \<le> lo" "?b \<le> hi" using lt by (simp_all add: word_le_nat_alt unat_chunk_floor word_less_nat_alt)
    then have u: "unat (lo - ?b) = unat lo - unat ?b" "unat (hi - ?b) = unat hi - unat ?b" "unat ?b \<le> unat lo"
      by (simp_all add: unat_sub word_le_nat_alt)
    have f: "?f * B3_CHUNK = unat ?b" by (simp add: unat_chunk_floor unat_div)
    from g have n: "unat hi - unat ?b \<le> length (ss_bytes sp)" and "bs = slice (ss_bytes sp) (unat lo - unat ?b) (unat hi - unat lo)"
      using u lt by (auto simp: get_range_def word_less_nat_alt split: if_splits)
    moreover have "slice (slice (leaves ! ?i) (unat ?b) (length (ss_bytes sp))) (unat lo - unat ?b) (unat hi - unat lo)
        = slice (leaves ! ?i) (unat lo) (unat hi - unat lo)"
      using slice_slice [of "unat lo - unat ?b" "unat hi - unat lo" "length (ss_bytes sp)" "unat ?b"] n u(3) lt
      by (simp add: word_less_nat_alt)
    ultimately show ?thesis using c i f by (auto simp: span_clash_def)
  qed
qed

text \<open>C19. Soundness of spans: whatever span is accepted for bytes \<open>[lo, hi)\<close> of a leaf of the committed length,
  the bytes returned are those of the committed leaf, or the span and the honest opening of the leaf show two
  different inputs with one hash.\<close>

theorem open_span_sound:
  assumes "blake3_tree_mode B" and "b3_root B (map (b3_hash B) leaves) = Some r"
    and "length leaves = unat (seq_n_leaves l)" and "length (leaves ! unat leaf) = unat tlen"
    and "open_span B r l leaf tlen lo hi sp = Some bs"
  shows "unat leaf < length leaves \<and> (bs = slice (leaves ! unat leaf) (unat lo) (unat hi - unat lo)
    \<or> span_clash B leaves (unat leaf) (unat (lo div 1024)) sp)"
  by (rule span_sound [OF assms])

subsection \<open>Two committed leaves, for witnesses\<close>

definition toy_seq_layout :: seq_layout where
  "toy_seq_layout = \<lparr>sl_n_attn = 0, sl_n_recur = 1, sl_heads = 1\<rparr>"

definition toy_seq_root :: hash where
  "toy_seq_root = b3_merge toy_blake3 (b3_hash toy_blake3 [7, 8]) (b3_hash toy_blake3 [9, 10, 11]) True"

definition toy_span :: seq_span where
  "toy_span = \<lparr>ss_first_chunk = 0, ss_bytes = [9, 10, 11], ss_chunk_proof = [], ss_leaf_path = [b3_hash toy_blake3 [7, 8]]\<rparr>"

lemma toy_seq_root: "b3_root toy_blake3 [b3_hash toy_blake3 [7, 8], b3_hash toy_blake3 [9, 10, 11]] = Some toy_seq_root"
  by (simp add: b3_root.simps b3_level_eq nth_opt_def toy_seq_root_def)

lemma toy_open: "open_span toy_blake3 toy_seq_root toy_seq_layout 1 3 0 2 toy_span = Some [9, 10]"
  by (simp add: open_span_def toy_span_def b3_leaf_from_chunks_def div_ceil_def div_ceil64_def checked_add_u64_def
      b3_fold_def b3_fold_loop.simps seq_n_leaves_def toy_seq_layout_def toy_seq_root_def get_range_def Let_def)

theorem open_span_sound_witness:
  "open_span toy_blake3 toy_seq_root toy_seq_layout 1 3 0 2 toy_span = Some [9, 10]
   \<and> ([9, 10] = slice [9, 10, 11 :: u8] 0 2 \<or> span_clash toy_blake3 [[7, 8], [9, 10, 11]] 1 0 toy_span)"
  using open_span_sound [OF toy_tree_mode, of "[[7, 8], [9, 10, 11]]" toy_seq_root toy_seq_layout 1 3 0 2 toy_span "[9, 10]"]
    toy_seq_root toy_open by (simp add: toy_seq_layout_def seq_n_leaves_def)

end
