(* ===== verification/Seq_Spans.thy ===== *)
theory Seq_Spans
  imports Sequence
begin

section \<open>Spans the miner sends\<close>

text \<open>
  Model of the span planning and building of \<open>src/trace_seq.rs\<close> and of its bundles. \<open>SpanPlan\<close> names the whole
  chunks covering a byte range, the engine captures their bytes and the chaining values of the leaf, and
  \<open>span\<close> checks both against the committed leaf before it builds the span. \<open>SpanPanicked\<close> is an index out of
  range, which the code reaches only with a plan \<open>SpanPlan::new\<close> does not build.
\<close>

record span_plan =
  pl_leaf :: u32
  pl_total :: u64
  pl_lo :: u64
  pl_hi :: u64

definition plan_new :: "u64 \<Rightarrow> u64 \<Rightarrow> u64 \<Rightarrow> u64 \<Rightarrow> span_plan option" where
  "plan_new leaf tlen lo hi =
     (if lo < hi \<and> hi \<le> tlen
      then Some \<lparr>pl_leaf = ucast leaf, pl_total = tlen, pl_lo = lo div 1024 * 1024, pl_hi = min tlen (div_ceil64 hi 1024 * 1024)\<rparr>
      else None)"

definition plan_capture :: "span_plan \<Rightarrow> u32 \<times> u64 \<times> u64" where
  "plan_capture p = (pl_leaf p, pl_lo p, pl_hi p)"

definition plan_chunks :: "span_plan \<Rightarrow> u64" where
  "plan_chunks p = max (div_ceil64 (pl_total p) 1024) 1"

definition max_chunks :: "span_plan list \<Rightarrow> u32" where
  "max_chunks plans = (case plans of [] \<Rightarrow> 1 | p # ps \<Rightarrow> ucast (foldl max (plan_chunks p) (map plan_chunks ps)))"

record seq_capture =
  cap_bytes :: bytes
  cap_cvs :: "hash list"

record seq_trace =
  st_leaves :: "hash list"
  st_root :: hash

definition seq_trace_new :: "blake3 \<Rightarrow> hash list \<Rightarrow> seq_trace option" where
  "seq_trace_new B leaves = map_option (\<lambda>r. \<lparr>st_leaves = leaves, st_root = r\<rparr>) (b3_root B leaves)"

datatype span_error = NoSuchLeaf | CaptureLength | SingleChunkHash | ChunkCount | ChunksRoot | ChunkValue nat | SpanPanicked

text \<open>The first captured chunk that does not match its chaining value, found in order.\<close>

fun match_chunks :: "blake3 \<Rightarrow> hash list \<Rightarrow> nat \<Rightarrow> bytes list \<Rightarrow> span_error + unit" where
  "match_chunks B cvs i [] = Inr ()"
| "match_chunks B cvs i (c # cs) = rbind (ok_or SpanPanicked (nth_opt cvs i)) (\<lambda>v.
     if b3_chunk_cv B c i \<noteq> v then Inl (ChunkValue i) else match_chunks B cvs (i + 1) cs)"

definition span_proof :: "blake3 \<Rightarrow> span_plan \<Rightarrow> seq_capture \<Rightarrow> hash \<Rightarrow> span_error + hash list" where
  "span_proof B plan cap leaf_hash =
     (let n = plan_chunks plan; first = pl_lo plan div 1024; count = div_ceil64 (pl_hi plan - pl_lo plan) 1024 in
      if n = 1 then (if b3_hash B (cap_bytes cap) \<noteq> leaf_hash then Inl SingleChunkHash else Inr [])
      else if length (cap_cvs cap) \<noteq> unat n then Inl ChunkCount
      else if b3_root B (cap_cvs cap) \<noteq> Some leaf_hash then Inl ChunksRoot
      else rbind (match_chunks B (cap_cvs cap) (unat first) (chunks 1024 (cap_bytes cap))) (\<lambda>_.
        ok_or SpanPanicked (b3_range_proof B (cap_cvs cap) (unat first) (unat count))))"

definition build_span :: "blake3 \<Rightarrow> span_plan \<Rightarrow> seq_capture \<Rightarrow> seq_trace \<Rightarrow> span_error + seq_span" where
  "build_span B plan cap sq = rbind (ok_or NoSuchLeaf (nth_opt (st_leaves sq) (unat (pl_leaf plan)))) (\<lambda>leaf_hash.
     if length (cap_bytes cap) \<noteq> unat (pl_hi plan - pl_lo plan) then Inl CaptureLength
     else rbind (span_proof B plan cap leaf_hash) (\<lambda>pf.
       rbind (ok_or SpanPanicked (b3_path B (st_leaves sq) (unat (pl_leaf plan)))) (\<lambda>path.
         Inr \<lparr>ss_first_chunk = ucast (pl_lo plan div 1024), ss_bytes = cap_bytes cap, ss_chunk_proof = pf, ss_leaf_path = path\<rparr>)))"

definition seq_response_ctx :: "blake3 \<Rightarrow> hash \<Rightarrow> u32 \<Rightarrow> u32 \<Rightarrow> seq_trace \<Rightarrow> response_ctx option" where
  "seq_response_ctx B pr np npos sq = map_option (\<lambda>r. \<lparr>trace_root = r, n_prompt = np, n_pos = npos\<rparr>) (seq_trace_root B pr (st_root sq))"

subsection \<open>Bundles\<close>

definition BUNDLE :: u8 where [simp]: "BUNDLE = 0xB0"

definition bundle_bodies :: "bytes list \<Rightarrow> bytes" where
  "bundle_bodies bodies = (if length bodies = 1 then bodies ! 0
     else BUNDLE # word_of_nat (length bodies) # concat (map (\<lambda>b. u32_le (word_of_nat (length b)) @ b) bodies))"

fun unbundle_loop :: "nat \<Rightarrow> bytes \<Rightarrow> nat \<Rightarrow> (bytes list \<times> nat) option" where
  "unbundle_loop 0 b off = Some ([], off)"
| "unbundle_loop (Suc n) b off = do { lb \<leftarrow> get_range b off (off + 4);
     let len = unat (le_u32 lb);
     body \<leftarrow> get_range b (off + 4) (off + 4 + len);
     (rest, e) \<leftarrow> unbundle_loop n b (off + 4 + len);
     Some (body # rest, e) }"

definition unbundle_bodies :: "bytes \<Rightarrow> bytes list option" where
  "unbundle_bodies b = (case b of [] \<Rightarrow> Some [b]
     | x # _ \<Rightarrow> if x \<noteq> BUNDLE then Some [b]
       else do { n \<leftarrow> nth_opt b 1; (bodies, e) \<leftarrow> unbundle_loop (unat n) b 2;
         if e = length b then Some bodies else None })"

subsection \<open>Built spans open\<close>

lemma unat_div_ceil64: "unat (div_ceil64 a 1024) = div_ceil (unat a) 1024"
proof -
  have m: "a mod 1024 = 0 \<longleftrightarrow> unat a mod 1024 = 0" by (simp add: unat_eq_0 [symmetric] unat_mod)
  have "unat a div 1024 < 2 ^ 54" using unat_lt [of a] by (simp add: div_less_iff_less_mult)
  then have "unat (a div 1024 + 1) = unat a div 1024 + 1" by (simp add: unat_word_ariths unat_div)
  moreover have "(1023 + unat a mod 1024) div 1024 = (if unat a mod 1024 = 0 then 0 else 1)"
    by (auto intro!: div_nat_eqI simp: Suc_le_eq)
  then have "(1023 + unat a) div 1024 = unat a div 1024 + (if unat a mod 1024 = 0 then 0 else 1)"
    by (simp add: div_add1_eq [of 1023 "unat a"])
  ultimately show ?thesis by (simp add: div_ceil64_def div_ceil_def m unat_div)
qed

lemma match_chunks_ok:
  "match_chunks B cvs i cs = Inr () \<longleftrightarrow>
   (\<forall>j < length cs. i + j < length cvs \<and> cvs ! (i + j) = b3_chunk_cv B (cs ! j) (i + j))"
proof (induction cs arbitrary: i)
  case (Cons c cs)
  have "match_chunks B cvs i (c # cs) = Inr () \<longleftrightarrow>
      i < length cvs \<and> cvs ! i = b3_chunk_cv B c i \<and> match_chunks B cvs (i + 1) cs = Inr ()"
    by (auto simp: rbind_Inr)
  also have "\<dots> \<longleftrightarrow> (\<forall>j < length (c # cs). i + j < length cvs \<and> cvs ! (i + j) = b3_chunk_cv B ((c # cs) ! j) (i + j))"
    unfolding Cons.IH by (simp add: All_less_Suc2)
  finally show ?case .
qed simp

lemma matched_cvs:
  assumes "match_chunks B cvs f (chunks 1024 bs) = Inr ()"
  shows "chunk_cvs B f bs = slice cvs f (div_ceil (length bs) 1024)"
proof (rule nth_equalityI)
  have l: "length (chunks 1024 bs) = div_ceil (length bs) 1024" by (simp add: length_chunks div_ceil_def)
  have a: "\<forall>j < div_ceil (length bs) 1024. f + j < length cvs \<and> cvs ! (f + j) = b3_chunk_cv B (chunks 1024 bs ! j) (f + j)"
    using assms unfolding match_chunks_ok l .
  show len: "length (chunk_cvs B f bs) = length (slice cvs f (div_ceil (length bs) 1024))"
    using a by (cases "div_ceil (length bs) 1024") auto
  fix i assume "i < length (chunk_cvs B f bs)"
  then show "chunk_cvs B f bs ! i = slice cvs f (div_ceil (length bs) 1024) ! i"
    using a len l by (simp add: chunk_cvs_def)
qed

text \<open>The chunks from \<open>lo div 1024\<close> to the one holding \<open>hi - 1\<close>, and the bytes they span.\<close>

lemma span_count:
  assumes "lo < hi" and "hi \<le> (t :: nat)"
  defines "b \<equiv> min t (div_ceil hi 1024 * 1024) - lo div 1024 * 1024"
  shows "lo div 1024 + div_ceil b 1024 = div_ceil hi 1024" and "0 < div_ceil b 1024"
    and "div_ceil hi 1024 \<le> div_ceil t 1024" and "hi - lo div 1024 * 1024 \<le> b"
proof -
  define f where "f = lo div 1024"
  define e where "e = div_ceil hi 1024"
  have d: "div_ceil a 1024 = (a + 1023) div 1024" for a by (simp add: div_ceil_def)
  have hi: "e * 1024 \<le> hi + 1023" "hi + 1023 < 1024 + e * 1024"
    unfolding e_def d by (rule div_times_less_eq_dividend, rule dividend_less_div_times, simp)
  have lo: "f * 1024 \<le> lo" "lo < 1024 + f * 1024"
    unfolding f_def by (rule div_times_less_eq_dividend, rule dividend_less_div_times, simp)
  have "f < e" using hi lo assms(1) by linarith
  from less_imp_add_positive [OF this] obtain k where k: "0 < k" "f + k = e" by blast
  have e: "e * 1024 = f * 1024 + k * 1024" unfolding k(2) [symmetric] by (rule add_mult_distrib)
  have b_eq: "b = min t (e * 1024) - f * 1024" by (simp only: b_def e_def f_def)
  have b: "k * 1024 < b + 1024" "b \<le> k * 1024" "hi - f * 1024 \<le> b"
    using hi assms(2) unfolding b_eq e by linarith+
  have bk: "div_ceil b 1024 = k"
    unfolding d [of b] by (rule div_nat_eqI) (use b in simp_all)
  show "lo div 1024 + div_ceil b 1024 = div_ceil hi 1024" unfolding bk using k(2) by (simp only: e_def f_def)
  show "0 < div_ceil b 1024" unfolding bk by (rule k(1))
  show "div_ceil hi 1024 \<le> div_ceil t 1024" unfolding d using assms(2) by (intro div_le_mono) simp
  show "hi - lo div 1024 * 1024 \<le> b" using b(3) by (simp only: f_def)
qed

abbreviation planned_len :: "u64 \<Rightarrow> u64 \<Rightarrow> u64 \<Rightarrow> nat" where
  "planned_len tlen lo hi \<equiv> min (unat tlen) (div_ceil (unat hi) 1024 * 1024) - unat lo div 1024 * 1024"

lemma plan_widths:
  assumes "plan_new leaf tlen lo hi = Some plan" and "unat tlen < 2 ^ 42"
  shows "unat lo < unat hi" and "unat hi \<le> unat tlen" and "pl_leaf plan = ucast leaf"
    and "pl_lo plan = lo div 1024 * 1024" and "pl_hi plan = min tlen (div_ceil64 hi 1024 * 1024)"
    and "unat (pl_hi plan - pl_lo plan) = planned_len tlen lo hi"
    and "unat (pl_lo plan div 1024) = unat lo div 1024" and "unat (plan_chunks plan) = max (div_ceil (unat tlen) 1024) 1"
proof -
  let ?f = "unat lo div 1024" and ?e = "div_ceil (unat hi) 1024"
  show lt: "unat lo < unat hi" "unat hi \<le> unat tlen"
    using assms(1) by (auto simp: plan_new_def word_less_nat_alt word_le_nat_alt split: if_splits)
  have plan: "plan = \<lparr>pl_leaf = ucast leaf, pl_total = tlen, pl_lo = lo div 1024 * 1024, pl_hi = min tlen (div_ceil64 hi 1024 * 1024)\<rparr>"
    using assms(1) by (auto simp: plan_new_def split: if_splits)
  then show "pl_leaf plan = ucast leaf" and "pl_lo plan = lo div 1024 * 1024" and "pl_hi plan = min tlen (div_ceil64 hi 1024 * 1024)"
    by simp_all
  note sc = span_count [OF lt]
  have "?e * 1024 < 2 ^ 43" using sc(3) assms(2) lt by (auto simp: div_ceil_def)
  then have "unat (div_ceil64 hi 1024 * 1024) = ?e * 1024" by (simp add: unat_word_ariths unat_div_ceil64)
  then have top: "unat (min tlen (div_ceil64 hi 1024 * 1024)) = min (unat tlen) (?e * 1024)"
    by (simp add: min_def word_le_nat_alt)
  have "?f < ?e" using sc(1,2) by linarith
  moreover have "?f * 1024 \<le> unat lo" by simp
  ultimately have "?f * 1024 \<le> min (unat tlen) (?e * 1024)" using lt by simp
  then show "unat (pl_hi plan - pl_lo plan) = planned_len tlen lo hi"
    by (simp add: plan unat_sub word_le_nat_alt top unat_chunk_floor)
  show "unat (pl_lo plan div 1024) = ?f" by (simp add: plan unat_div unat_chunk_floor)
  show "unat (plan_chunks plan) = max (div_ceil (unat tlen) 1024) 1"
    by (simp add: plan_chunks_def plan max_def word_le_nat_alt unat_div_ceil64)
qed

text \<open>The proof of the planned chunks folds the captured bytes to the hash of the leaf.\<close>

lemma span_leaf_hash:
  assumes "plan_new leaf tlen lo hi = Some plan" and T: "unat tlen < 2 ^ 42"
    and pf: "span_proof B plan cap h = Inr pf" and cl: "length (cap_bytes cap) = planned_len tlen lo hi"
  shows "b3_leaf_from_chunks B (unat tlen) (unat lo div 1024) (cap_bytes cap) pf = Some h"
proof -
  let ?f = "unat lo div 1024" and ?e = "div_ceil (unat hi) 1024" and ?b = "planned_len tlen lo hi"
  let ?n = "max (div_ceil (unat tlen) 1024) 1"
  note pw = plan_widths [OF assms(1) T]
  note n = pw(8)
  have count: "unat (div_ceil64 (pl_hi plan - pl_lo plan) 1024) = div_ceil ?b 1024" by (simp only: unat_div_ceil64 pw(6))
  have B: "?f + div_ceil ?b 1024 = ?e" "0 < div_ceil ?b 1024" "?e \<le> ?n" using span_count [OF pw(1,2)] by simp_all
  have n64: "?n < 2 ^ 64" using div_ceil_le_self [of "unat tlen"] T by auto
  then have add: "checked_add_u64 ?f (div_ceil ?b 1024) = Some ?e" using B(1,3) by (simp add: checked_add_u64_def)
  show ?thesis
  proof (cases "?n = 1")
    case True
    then have "plan_chunks plan = 1" using n by (metis unat_1 word_unat_eq_iff)
    with pf have "pf = []" "b3_hash B (cap_bytes cap) = h"
      by (auto simp: span_proof_def Let_def split: if_splits)
    then show ?thesis using True add B(3) less_not_refl2 [OF B(2)]
      unfolding b3_leaf_from_chunks_def Let_def cl by (simp only: Option.bind.bind_lunit simp_thms not_less [symmetric] if_False if_True)
  next
    case False
    then have "plan_chunks plan \<noteq> 1" using n by auto
    with pf have cv: "length (cap_cvs cap) = ?n" "b3_root B (cap_cvs cap) = Some h"
      "match_chunks B (cap_cvs cap) ?f (chunks 1024 (cap_bytes cap)) = Inr ()"
      "b3_range_proof B (cap_cvs cap) ?f (div_ceil ?b 1024) = Some pf"
      by (auto simp: span_proof_def Let_def rbind_Inr n pw(7) count split: if_splits)
    have "b3_check B h ?n ?f (slice (cap_cvs cap) ?f (div_ceil ?b 1024)) pf"
      using b3.complete [OF B(2), of ?f "cap_cvs cap" B] B cv n64 by auto
    then have "b3_range_fold B ?n ?f (chunk_cvs B ?f (cap_bytes cap)) pf = Some h"
      using matched_cvs [OF cv(3)] cl by (simp add: b3_check_def)
    then show ?thesis using False add leD [OF B(3)] less_not_refl2 [OF B(2)]
      unfolding b3_leaf_from_chunks_def Let_def cl by (simp only: Option.bind.bind_lunit simp_thms if_False)
  qed
qed

lemma span_range:
  assumes "unat lo < unat hi" and "unat hi - unat lo div 1024 * 1024 \<le> length bs"
  shows "get_range bs (unat (lo - lo div 1024 * 1024)) (unat (hi - lo div 1024 * 1024 :: u64))
    = Some (slice bs (unat lo mod 1024) (unat hi - unat lo))"
proof -
  let ?f = "unat lo div 1024"
  have le: "lo div 1024 * 1024 \<le> lo" "lo div 1024 * 1024 \<le> hi"
    using assms(1) by (simp_all add: word_le_nat_alt unat_chunk_floor)
  have u: "unat (lo - lo div 1024 * 1024) = unat lo - ?f * 1024" "unat (hi - lo div 1024 * 1024) = unat hi - ?f * 1024"
    unfolding unat_sub [OF le(1)] unat_sub [OF le(2)] unat_chunk_floor by (rule refl)+
  have m: "unat lo mod 1024 = unat lo - ?f * 1024" by (rule minus_div_mult_eq_mod [symmetric])
  have "?f * 1024 \<le> unat lo" by simp
  then have "unat lo - ?f * 1024 \<le> unat hi - ?f * 1024" "(unat hi - ?f * 1024) - (unat lo - ?f * 1024) = unat hi - unat lo"
    using assms(1) by linarith+
  with assms(2) show ?thesis unfolding get_range_def u m by (simp only: simp_thms if_True)
qed

text \<open>C18. Every span the miner builds for a planned range opens at the verifier, against the root of the same
  sequence tree, and yields the captured bytes of that range: the checks \<open>span\<close> makes on the capture are all
  the verifier asks for.\<close>

theorem built_span_opens:
  assumes "plan_new leaf tlen lo hi = Some plan" and "build_span B plan cap sq = Inr sp"
    and "b3_root B (st_leaves sq) = Some (st_root sq)" and "length (st_leaves sq) = unat (seq_n_leaves l)"
    and "leaf < 2 ^ 32" and "tlen < 2 ^ 42"
  shows "open_span B (st_root sq) l leaf tlen lo hi sp
    = Some (slice (cap_bytes cap) (unat lo mod 1024) (unat hi - unat lo))"
proof -
  have T: "unat tlen < 2 ^ 42" using assms(6) by (simp add: word_less_nat_alt)
  note pw = plan_widths [OF assms(1) T]
  have leaf32: "unat (ucast leaf :: u32) = unat leaf"
    using assms(5) by (simp add: unsigned_ucast_eq word_less_nat_alt take_bit_nat_eq_self)
  obtain pf path where i: "unat leaf < length (st_leaves sq)" and cl: "length (cap_bytes cap) = planned_len tlen lo hi"
    and pf: "span_proof B plan cap (st_leaves sq ! unat leaf) = Inr pf"
    and path: "b3_path B (st_leaves sq) (unat leaf) = Some path"
    and sp: "sp = \<lparr>ss_first_chunk = ucast (pl_lo plan div 1024), ss_bytes = cap_bytes cap, ss_chunk_proof = pf, ss_leaf_path = path\<rparr>"
    using assms(2) unfolding pw(6) [symmetric] by (auto simp: build_span_def rbind_Inr pw(3) leaf32 split: if_splits)
  note leafh = span_leaf_hash [OF assms(1) T pf cl]
  have "b3_fold B (unat (seq_n_leaves l)) (unat leaf) (st_leaves sq ! unat leaf) path = Some (st_root sq)"
    using path_accepted [OF i, of B] assms(3,4) path unat_lt [of "seq_n_leaves l"] by (auto simp: b3_fold_verify)
  moreover have "ucast (ss_first_chunk sp) = lo div 1024"
  proof -
    have "unat lo div 1024 < 2 ^ 32" using pw(1,2) T by (simp add: div_less_iff_less_mult)
    then have "unat (ucast (ucast (pl_lo plan div 1024) :: u32) :: u64) = unat lo div 1024"
      by (simp add: unsigned_ucast_eq unsigned_take_bit_eq pw(7) take_bit_nat_eq_self)
    then show ?thesis by (simp add: sp word_unat_eq_iff unat_div)
  qed
  moreover have "get_range (cap_bytes cap) (unat (lo - lo div 1024 * 1024)) (unat (hi - lo div 1024 * 1024))
      = Some (slice (cap_bytes cap) (unat lo mod 1024) (unat hi - unat lo))"
    using span_count(4) [OF pw(1,2)] by (intro span_range pw(1)) (unfold cl)
  moreover have "\<not> hi \<le> lo" "\<not> tlen < hi" using pw(1,2) by (simp_all add: word_less_nat_alt word_le_nat_alt)
  moreover have "unat (min tlen (div_ceil64 hi 1024 * 1024) - lo div 1024 * 1024) = planned_len tlen lo hi" using pw(4-6) by simp
  ultimately show ?thesis
    using leafh cl by (simp add: open_span_def sp Let_def unat_div)
qed

subsection \<open>Bundles round trip\<close>

lemma unbundle_loop_written:
  assumes "\<forall>b \<in> set bs. length b < 2 ^ 32"
  shows "unbundle_loop (length bs) (p @ concat (map (\<lambda>b. u32_le (word_of_nat (length b)) @ b) bs)) (length p)
    = Some (bs, length p + length (concat (map (\<lambda>b. u32_le (word_of_nat (length b)) @ b) bs)))"
  using assms
proof (induction bs arbitrary: p)
  case (Cons b bs)
  let ?h = "u32_le (word_of_nat (length b))" and ?t = "concat (map (\<lambda>b. u32_le (word_of_nat (length b)) @ b) bs)"
  have len: "unat (word_of_nat (length b) :: u32) = length b"
    using Cons.prems by (simp add: unat_of_nat take_bit_nat_eq_self)
  have h: "get_range (p @ ?h @ b @ ?t) (length p) (length p + 4) = Some ?h" by (rule get_range_append) simp_all
  have b: "get_range (p @ ?h @ b @ ?t) (length p + 4) (length p + 4 + length b) = Some b"
    using get_range_append [of "p @ ?h" "length p + 4" b "length b" ?t] by simp
  show ?case
    using Cons.IH [of "p @ ?h @ b"] Cons.prems h b by (simp add: len Let_def add.assoc)
qed simp

text \<open>Bundles: \<open>unbundle\<close> returns the bodies \<open>bundle\<close> packed, for fewer than 256 bodies of less than 4 GiB,
  provided a lone body (which is stored bare) does not begin with the bundle mark.\<close>

theorem bundle_roundtrip:
  assumes "length bodies < 256" and "\<forall>b \<in> set bodies. length b < 2 ^ 32"
    and "\<And>b. bodies = [b] \<Longrightarrow> b = [] \<or> hd b \<noteq> BUNDLE"
  shows "unbundle_bodies (bundle_bodies bodies) = Some bodies"
proof (cases "length bodies = 1")
  case True
  then obtain b where "bodies = [b]" by (auto simp: length_Suc_conv)
  with assms(3) show ?thesis by (cases b) (auto simp: bundle_bodies_def unbundle_bodies_def)
next
  case False
  have "unat (word_of_nat (length bodies) :: u8) = length bodies"
    using assms(1) by (simp add: unat_of_nat take_bit_nat_eq_self)
  then show ?thesis
    using False unbundle_loop_written [OF assms(2), of "[BUNDLE, word_of_nat (length bodies)]"]
    by (simp add: bundle_bodies_def unbundle_bodies_def nth_opt_def eval_nat_numeral)
qed

theorem bundle_roundtrip_witness: "unbundle_bodies (bundle_bodies [[3, 1], [], [7]]) = Some [[3, 1], [], [7]]"
  by (rule bundle_roundtrip) auto

theorem built_span_opens_witness:
  "open_span toy_blake3 toy_seq_root toy_seq_layout 1 3 0 2 toy_span = Some [9, 10]"
proof -
  let ?sq = "\<lparr>st_leaves = [b3_hash toy_blake3 [7, 8], b3_hash toy_blake3 [9, 10, 11]], st_root = toy_seq_root\<rparr>"
  let ?plan = "\<lparr>pl_leaf = 1, pl_total = 3, pl_lo = 0, pl_hi = 3\<rparr>" and ?cap = "\<lparr>cap_bytes = [9, 10, 11], cap_cvs = []\<rparr>"
  have "plan_new 1 3 0 2 = Some ?plan" by (simp add: plan_new_def div_ceil64_def)
  moreover have "build_span toy_blake3 ?plan ?cap ?sq = Inr toy_span"
    by (simp add: build_span_def span_proof_def plan_chunks_def div_ceil64_def nth_opt_def b3_path_def
        b3_path_loop.simps b3_level_eq xor1_def toy_span_def)
  ultimately show ?thesis
    using built_span_opens [of 1 3 0 2 ?plan toy_blake3 ?cap ?sq toy_span toy_seq_layout] toy_seq_root
    by (simp add: toy_seq_layout_def seq_n_leaves_def)
qed

end
