(* ===== verification/Answer_Shape.thy ===== *)
theory Answer_Shape
  imports Keryx_Prelude
begin

section \<open>Sealed answers and the shape rule\<close>

text \<open>
  Model of \<open>verifiable-inference/src/answer.rs\<close> (the plaintext of a sealed answer: text, token ids, count and
  a magic) and of \<open>shape.rs\<close> (the positions a trace must commit against the sizes of its request and response).
\<close>

definition TOKENS_MAGIC :: bytes where "TOKENS_MAGIC = [0x4B, 0x58, 0x54, 0x4B]"
definition TRAILER_LEN :: nat where [simp]: "TRAILER_LEN = 8"

definition answer_encode :: "bytes \<Rightarrow> u32 list \<Rightarrow> bytes" where
  "answer_encode text ids = text @ concat (map u32_le ids) @ u32_le (word_of_nat (length ids)) @ TOKENS_MAGIC"

definition answer_decode :: "bytes \<Rightarrow> (bytes \<times> u32 list) option" where
  "answer_decode plain =
     (if length plain < TRAILER_LEN then None
      else let body = length plain - TRAILER_LEN in
        if drop (body + 4) plain \<noteq> TOKENS_MAGIC then None
        else let n = unat (le_u32 (slice plain body 4)) in
          if body < 4 * n then None
          else Some (take (body - 4 * n) plain, map le_u32 (chunks_exact 4 (slice plain (body - 4 * n) (4 * n)))))"

definition text_len :: "u32 \<Rightarrow> u32 \<Rightarrow> u32 option" where
  "text_len answer_len n_ids =
     (if 4 * unat n_ids + TRAILER_LEN < 2 ^ 32 \<and> 4 * unat n_ids + TRAILER_LEN \<le> unat answer_len
      then Some (answer_len - (4 * n_ids + word_of_nat TRAILER_LEN)) else None)"

subsection \<open>Sizes\<close>

definition PROMPT_BYTES_PER_POSITION :: u32 where [simp]: "PROMPT_BYTES_PER_POSITION = 16"
definition ANSWER_BYTES_PER_POSITION :: u32 where [simp]: "ANSWER_BYTES_PER_POSITION = 10"
definition MAX_ANSWER_BYTES_PER_TOKEN :: u32 where [simp]: "MAX_ANSWER_BYTES_PER_TOKEN = 32"
definition MAX_TRACE_POSITIONS :: u32 where [simp]: "MAX_TRACE_POSITIONS = 131072"

definition min_prompt_positions :: "u32 \<Rightarrow> u32" where
  "min_prompt_positions prompt_len = prompt_len div PROMPT_BYTES_PER_POSITION"

definition min_generated_positions :: "u32 \<Rightarrow> u32 \<Rightarrow> u32" where
  "min_generated_positions answer_len max_tokens = min (answer_len div ANSWER_BYTES_PER_POSITION) max_tokens"

definition max_answer_len :: "u32 \<Rightarrow> u64" where
  "max_answer_len max_tokens = ucast max_tokens * ucast MAX_ANSWER_BYTES_PER_TOKEN"

definition shape_ok :: "u32 \<Rightarrow> u32 \<Rightarrow> u32 \<Rightarrow> u32 \<Rightarrow> u32 \<Rightarrow> bool" where
  "shape_ok prompt_len answer_len max_tokens np npos \<longleftrightarrow>
     0 < np \<and> np \<le> npos \<and> npos \<le> MAX_TRACE_POSITIONS \<and> npos - np \<le> max_tokens
     \<and> min_prompt_positions prompt_len \<le> np \<and> min_generated_positions answer_len max_tokens \<le> npos - np
     \<and> ucast answer_len \<le> max_answer_len max_tokens"

subsection \<open>Round trip\<close>

lemma length_ids [simp]: "length (concat (map u32_le ids)) = 4 * length ids"
  by (induction ids) simp_all

lemma chunks_exact_4_step: "length a = 4 \<Longrightarrow> chunks_exact 4 (a @ r) = a # chunks_exact 4 r"
proof -
  assume a: "length a = 4"
  then have "chunks 4 (a @ r) = a # chunks 4 r" by (subst chunks.simps) auto
  then show ?thesis using a by (simp add: chunks_exact_def)
qed

lemma chunks_exact_ids: "map le_u32 (chunks_exact 4 (concat (map u32_le ids))) = ids"
  by (induction ids) (simp_all add: chunks_exact_4_step, simp add: chunks_exact_def)

lemma ids_of_chunks: "length xs = 4 * n \<Longrightarrow> \<exists>ids. length ids = n \<and> xs = concat (map u32_le ids)"
proof (induction n arbitrary: xs)
  case (Suc n)
  then have "length (take 4 xs) = 4" "length (drop 4 xs) = 4 * n" by simp_all
  from Suc.IH [OF this(2)] obtain ids where "length ids = n" "drop 4 xs = concat (map u32_le ids)" by blast
  moreover have "u32_le (le_u32 (take 4 xs)) = take 4 xs" by (rule u32_le_le_u32) fact
  ultimately have "length (le_u32 (take 4 xs) # ids) = Suc n" "xs = concat (map u32_le (le_u32 (take 4 xs) # ids))"
    by (simp_all add: append_take_drop_id) (metis append_take_drop_id)
  then show ?case by blast
qed simp

text \<open>Sealed answers: the plaintexts \<open>decode\<close> accepts are exactly the encodings, and it returns the text and
  the token ids they were built from. A text that happens to end in a trailer is no exception.\<close>

lemma answer_decode_encoded:
  assumes "length (answer_encode text ids) < 2 ^ 32"
  shows "answer_decode (answer_encode text ids) = Some (text, ids)"
proof -
  let ?p = "answer_encode text ids" and ?c = "concat (map u32_le ids)"
  let ?body = "length text + 4 * length ids"
  have m: "length TOKENS_MAGIC = 4" by (simp add: TOKENS_MAGIC_def)
  have len: "length ?p = ?body + 8" by (simp add: answer_encode_def m)
  have n: "unat (le_u32 (slice ?p ?body 4)) = length ids"
    using assms len by (simp add: answer_encode_def unat_of_nat take_bit_nat_eq_self)
  have "drop (?body + 4) ?p = TOKENS_MAGIC" by (simp add: answer_encode_def)
  moreover have "take (length text) ?p = text" "slice ?p (length text) (4 * length ids) = ?c"
    by (simp_all add: answer_encode_def)
  ultimately show ?thesis
    unfolding answer_decode_def Let_def len by (simp add: n chunks_exact_ids len)
qed

lemma split_four: "a \<le> b \<Longrightarrow> xs = take a xs @ slice xs a (b - a) @ slice xs b k @ drop (b + k) xs"
proof -
  assume "a \<le> b"
  have "slice xs b k @ drop (b + k) xs = drop b xs" by (metis add.commute append_take_drop_id drop_drop)
  moreover have "slice xs a (b - a) @ drop b xs = drop a xs"
    using \<open>a \<le> b\<close> by (metis append_take_drop_id drop_drop le_add_diff_inverse2)
  ultimately show ?thesis by simp
qed

lemma answer_decode_canonical:
  assumes "answer_decode plain = Some (text, ids)"
  shows "plain = answer_encode text ids"
proof -
  let ?body = "length plain - 8" and ?n = "unat (le_u32 (slice plain (length plain - 8) 4))"
  have l: "8 \<le> length plain" and m: "drop (?body + 4) plain = TOKENS_MAGIC" and n: "4 * ?n \<le> ?body"
    and t: "text = take (?body - 4 * ?n) plain"
    and i: "ids = map le_u32 (chunks_exact 4 (slice plain (?body - 4 * ?n) (4 * ?n)))"
    using assms by (auto simp: answer_decode_def Let_def split: if_splits)
  have "length (slice plain (?body - 4 * ?n) (4 * ?n)) = 4 * ?n" using n by simp
  from ids_of_chunks [OF this] obtain is1 where is1: "length is1 = ?n"
    "slice plain (?body - 4 * ?n) (4 * ?n) = concat (map u32_le is1)" by blast
  then have ids: "ids = is1" using i by (simp add: chunks_exact_ids)
  have "u32_le (le_u32 (slice plain ?body 4)) = slice plain ?body 4" using l by (intro u32_le_le_u32) simp
  moreover have "word_of_nat ?n = le_u32 (slice plain ?body 4)" by simp
  ultimately have c: "u32_le (word_of_nat (length is1)) = slice plain ?body 4" unfolding is1(1) by simp
  have d: "?body - (?body - 4 * ?n) = 4 * ?n" using n by simp
  have "plain = take (?body - 4 * ?n) plain @ slice plain (?body - 4 * ?n) (4 * ?n) @ slice plain ?body 4 @ drop (?body + 4) plain"
    using split_four [of "?body - 4 * ?n" ?body plain 4] unfolding d by simp
  then show ?thesis unfolding answer_encode_def c ids is1(2) [symmetric] m [symmetric] t [symmetric] by simp
qed

text \<open>C40. Sealed answers: the plaintexts \<open>decode\<close> accepts are exactly the encodings, and it returns the text and
  the token ids they were built from. A text that happens to end in a trailer is no exception. The text length
  the node computes from the two sizes is the length of that text.\<close>

theorem answer_decode_iff:
  assumes "length plain < 2 ^ 32"
  shows "(answer_decode plain = Some (text, ids) \<longleftrightarrow> plain = answer_encode text ids)
    \<and> (plain = answer_encode text ids \<longrightarrow>
         text_len (word_of_nat (length plain)) (word_of_nat (length ids)) = Some (word_of_nat (length text)))"
proof -
  have "text_len (word_of_nat (length plain)) (word_of_nat (length ids)) = Some (word_of_nat (length text))"
    if p: "plain = answer_encode text ids"
  proof -
    have len: "length plain = length text + 4 * length ids + 8" by (simp add: p answer_encode_def TOKENS_MAGIC_def)
    have u: "unat (word_of_nat (length plain) :: u32) = length plain" "unat (word_of_nat (length ids) :: u32) = length ids"
    proof -
      show "unat (word_of_nat (length plain) :: u32) = length plain"
        using assms by (simp add: unat_of_nat take_bit_nat_eq_self)
      have "length ids < 2 ^ 32" using assms len by linarith
      then show "unat (word_of_nat (length ids) :: u32) = length ids" by (simp add: unat_of_nat take_bit_nat_eq_self)
    qed
    show ?thesis using assms unfolding text_len_def u by (simp add: len)
  qed
  then show ?thesis using answer_decode_encoded answer_decode_canonical assms by metis
qed

theorem answer_decode_iff_witness:
  "answer_decode [104, 105, 7, 0, 0, 0, 1, 0, 0, 0, 0x4B, 0x58, 0x54, 0x4B] = Some ([104, 105], [7])"
proof -
  have "answer_encode [104, 105] [7] = [104, 105, 7, 0, 0, 0, 1, 0, 0, 0, 0x4B, 0x58, 0x54, 0x4B]"
    by code_simp
  then show ?thesis
    using answer_decode_iff [of "[104, 105, 7, 0, 0, 0, 1, 0, 0, 0, 0x4B, 0x58, 0x54, 0x4B]" "[104, 105]" "[7]"] by simp
qed

subsection \<open>What an accepted shape bounds\<close>

text \<open>The shape rule in terms of the sizes: the trace has a prompt and at most 131072 positions, its prompt is
  long enough for the prompt bytes, it generates no more tokens than asked for, and an answer is at most ten
  bytes per generated position, unless the budget was used up, and then at most 32 per token.\<close>

theorem shape_ok_bounds:
  "shape_ok prompt_len answer_len max_tokens np npos \<longleftrightarrow>
     (let gen = unat npos - unat np in
      0 < unat np \<and> unat np \<le> unat npos \<and> unat npos \<le> 131072 \<and> gen \<le> unat max_tokens
      \<and> unat prompt_len < 16 * (unat np + 1)
      \<and> (unat answer_len < 10 * (gen + 1) \<or> gen = unat max_tokens \<and> unat answer_len \<le> 32 * unat max_tokens)
      \<and> unat answer_len \<le> 32 * unat max_tokens)"
proof -
  have u64: "unat (ucast w :: u64) = unat w" for w :: u32
    using unat_lt [of w] by (simp add: unsigned_ucast_eq take_bit_nat_eq_self)
  have big: "ucast answer_len \<le> max_answer_len max_tokens \<longleftrightarrow> unat answer_len \<le> 32 * unat max_tokens"
  proof -
    have "32 * unat max_tokens < 2 ^ 64" using unat_lt [of max_tokens] by simp
    then have "unat (max_answer_len max_tokens) = 32 * unat max_tokens"
      by (simp add: max_answer_len_def unat_word_ariths u64 mult.commute)
    then show ?thesis by (simp add: word_le_nat_alt u64)
  qed
  have d: "a div q \<le> n \<longleftrightarrow> a < q * (n + 1)" if "0 < q" for a q n :: nat
    using that by (simp add: div_less_iff_less_mult less_Suc_eq_le [symmetric] mult.commute)
  have prompt: "min_prompt_positions prompt_len \<le> np \<longleftrightarrow> unat prompt_len < 16 * (unat np + 1)"
    by (simp add: min_prompt_positions_def word_le_nat_alt unat_div d)
  have unat_min: "unat (min x y) = min (unat x) (unat y)" for x y :: u32
    by (simp add: min_def word_le_nat_alt)
  have gen: "min_generated_positions answer_len max_tokens \<le> g \<longleftrightarrow> unat answer_len < 10 * (unat g + 1) \<or> unat max_tokens \<le> unat g" for g
    by (simp add: min_generated_positions_def min_le_iff_disj unat_min word_le_nat_alt unat_div d)
  show ?thesis
    unfolding shape_ok_def Let_def big prompt gen
    by (auto simp: word_le_nat_alt word_less_nat_alt unat_sub)
qed

end
