(* ===== verification/Attention.thy ===== *)
theory Attention
  imports Chain_Links
begin

section \<open>Attention heads\<close>

text \<open>
  Model of \<open>verifiable-inference/src/attn.rs\<close>: rotary embedding, head norms, the softmax partial of one query
  under the three kernel roundings, the per-head transforms and the output of a group of query heads. Vectors
  are lists of bit patterns; an operation that indexes past the end of one is the value \<open>None\<close>.
\<close>

subsection \<open>Rotary embedding and norm\<close>

definition ROPE_NORM :: u32 where [simp]: "ROPE_NORM = 0"
definition ROPE_NEOX :: u32 where [simp]: "ROPE_NEOX = 1"

definition rope_theta :: "libm \<Rightarrow> u64 \<Rightarrow> nat \<Rightarrow> nat \<Rightarrow> f64 \<Rightarrow> f32 list option \<Rightarrow> f64" where
  "rope_theta L pos i nr base ff =
     f64_div (f64_mul (f64_of_int (int (unat pos)))
         (lm_pow L base (f64_div (f64_mul (f64_of_int (- 2)) (f64_of_int (int i))) (f64_of_int (int nr)))))
       (case ff of None \<Rightarrow> f64_of_int 1 | Some f \<Rightarrow> f64_of_f32 (f ! i))"

text \<open>The rotation of the pair at \<open>ia\<close> and \<open>ib\<close> by the angle \<open>th\<close>.\<close>

definition rotate_pair :: "libm \<Rightarrow> f64 \<Rightarrow> nat \<Rightarrow> nat \<Rightarrow> f64 list \<Rightarrow> f64 list" where
  "rotate_pair L th ia ib x = (let s = lm_sin L th; c = lm_cos L th; a = x ! ia; b = x ! ib
     in x[ia := f64_sub (f64_mul a c) (f64_mul b s), ib := f64_add (f64_mul a s) (f64_mul b c)])"

definition rope_fits :: "f64 list \<Rightarrow> nat \<Rightarrow> f32 list option \<Rightarrow> bool" where
  "rope_fits x nr ff \<longleftrightarrow> nr div 2 * 2 \<le> length x \<and> (case ff of None \<Rightarrow> True | Some f \<Rightarrow> nr div 2 \<le> length f)"

definition rope_norm :: "libm \<Rightarrow> f64 list \<Rightarrow> u64 \<Rightarrow> nat \<Rightarrow> f64 \<Rightarrow> f32 list option \<Rightarrow> f64 list option" where
  "rope_norm L x pos nr base ff = (if \<not> rope_fits x nr ff then None
     else Some (foldl (\<lambda>x i. rotate_pair L (rope_theta L pos i nr base ff) (2 * i) (2 * i + 1) x) x [0..<nr div 2]))"

definition rope_neox :: "libm \<Rightarrow> f64 list \<Rightarrow> u64 \<Rightarrow> nat \<Rightarrow> f64 \<Rightarrow> f32 list option \<Rightarrow> f64 list option" where
  "rope_neox L x pos nr base ff = (if \<not> rope_fits x nr ff then None
     else Some (foldl (\<lambda>x i. rotate_pair L (rope_theta L pos i nr base ff) i (i + nr div 2) x) x [0..<nr div 2]))"

definition head_rms_norm :: "libm \<Rightarrow> f64 list \<Rightarrow> f32 list option \<Rightarrow> f64 \<Rightarrow> f64 list option" where
  "head_rms_norm L x w eps =
     (if (case w of None \<Rightarrow> False | Some w \<Rightarrow> length w < length x) then None
      else let ms = f64_div (f64_sum (map (\<lambda>a. f64_mul a a) x)) (f64_len x);
               r = f64_div (f64_of_int 1) (lm_sqrt L (f64_add ms eps))
           in Some (map (\<lambda>(i, a). f64_mul a (f64_mul r (case w of None \<Rightarrow> f64_of_int 1 | Some w \<Rightarrow> f64_of_f32 (w ! i)))) (enumerate 0 x)))"

subsection \<open>Softmax partials\<close>

record partial =
  pa_o :: "f64 list"
  pa_m :: f64
  pa_l :: f64

datatype arith = Exact | Q8Query | F16

definition ARITHS :: "arith list" where "ARITHS = [Exact, Q8Query, F16]"

definition f16_round :: "f64 \<Rightarrow> f64" where "f16_round x = f64_of_f32 (half_round (f32_of_f64 x))"

definition f32_div :: "f32 \<Rightarrow> f32 \<Rightarrow> f32" where "f32_div a b = e32 (fp_div 23 (d32 a) (d32 b))"

text \<open>\<open>f32::round\<close>: to the nearest integer, halves away from zero.\<close>

definition f32_round :: "f32 \<Rightarrow> f32" where
  "f32_round a = (case d32 a of FFin s m e \<Rightarrow>
       if 0 \<le> e then a
       else let k = nat (- e); q = m div 2 ^ k in e32 (FFin s (if 2 ^ k \<le> 2 * (m mod 2 ^ k) then q + 1 else q) 0)
     | _ \<Rightarrow> a)"

definition q8_1_query :: "f64 list \<Rightarrow> f64 \<Rightarrow> f64 list option" where
  "q8_1_query q sc =
     (if length q mod 32 \<noteq> 0 \<or> \<not> f64_finite sc \<or> f64_eq sc 0 then None
      else Some (concat (map (\<lambda>b. let xs = map (\<lambda>x. f32_of_f64 (f64_mul x sc)) b;
                d = f32_div (foldl (\<lambda>m x. f32_max m (f32_abs x)) 0 xs) (f32_of_int 127)
             in map (\<lambda>x. if f32_eq d 0 then 0
                   else f64_div (f64_mul (f64_of_f32 (f32_round (f32_div x d))) (f64_of_f32 d)) sc) xs) (chunks_exact 32 q))))"

definition f64_neg_inf :: f64 where "f64_neg_inf = e64 (FInf True)"

text \<open>The rounding of a key or value under \<open>ar\<close>, and the scaled query with the scale left for the scores.\<close>

definition kv_round :: "arith \<Rightarrow> f32 \<Rightarrow> f64" where
  "kv_round ar x = f64_of_f32 (if ar = F16 then half_round x else x)"

definition scaled_query :: "arith \<Rightarrow> f64 list \<Rightarrow> f64 \<Rightarrow> (f64 list \<times> f64) option" where
  "scaled_query ar q sc = (case ar of
       Exact \<Rightarrow> Some (q, sc)
     | Q8Query \<Rightarrow> map_option (\<lambda>q. (q, sc)) (q8_1_query q sc)
     | F16 \<Rightarrow> Some (map (\<lambda>x. f16_round (f64_mul (f16_round x) (f16_round sc))) q, f64_of_int 1))"

definition partial_of :: "libm \<Rightarrow> arith \<Rightarrow> f64 list \<Rightarrow> f64 \<Rightarrow> f32 list list \<Rightarrow> f32 list list \<Rightarrow> partial option" where
  "partial_of L ar q sc keys values =
     (if keys = [] \<or> length keys \<noteq> length values \<or> list_ex (\<lambda>k. length k \<noteq> length q) keys then None
      else let d = length (values ! 0) in
        if list_ex (\<lambda>v. length v \<noteq> d) values then None
        else do { (qv, sc) \<leftarrow> scaled_query ar q sc;
          let scores = map (\<lambda>k. f64_mul (f64_sum (map (\<lambda>(a, b). f64_mul a (kv_round ar b)) (zip qv k))) sc) keys;
          let m = foldl f64_max f64_neg_inf scores;
          if \<not> f64_finite m then None
          else let w = map (\<lambda>x. lm_exp L (f64_sub x m)) scores; l = f64_sum w;
                   o1 = foldl (\<lambda>o1 (wi, v). let wi = (if ar = F16 then f16_round wi else wi)
                          in map (\<lambda>(a, x). f64_add a (f64_mul wi (kv_round ar x))) (zip o1 v)) (replicate d 0) (zip w values);
                   o2 = map (\<lambda>a. f64_div a l) o1
            in if list_all f64_finite o2 then Some \<lparr>pa_o = o2, pa_m = m, pa_l = l\<rparr> else None })"

definition head_output :: "libm \<Rightarrow> f64 list \<Rightarrow> f32 list list \<Rightarrow> f32 list list \<Rightarrow> f64 \<Rightarrow> f64 list option" where
  "head_output L q keys values sc = map_option pa_o (partial_of L Exact q sc keys values)"

subsection \<open>Shapes and per-head transforms\<close>

record attn_shape =
  as_n_head :: nat
  as_n_head_kv :: nat
  as_head_dim :: nat
  as_rope_kind :: u32
  as_n_rot :: nat
  as_rope_base :: f64
  as_kq_scale :: f64

definition shape_group :: "attn_shape \<Rightarrow> nat option" where
  "shape_group s = (if 0 < as_n_head_kv s \<and> as_n_head s mod as_n_head_kv s = 0 \<and> as_n_rot s \<le> as_head_dim s
       \<and> as_n_rot s mod 2 = 0 \<and> (as_rope_kind s = ROPE_NORM \<or> as_rope_kind s = ROPE_NEOX)
     then Some (as_n_head s div as_n_head_kv s) else None)"

definition shape_rope :: "libm \<Rightarrow> attn_shape \<Rightarrow> f64 list \<Rightarrow> u64 \<Rightarrow> f32 list option \<Rightarrow> f64 list option" where
  "shape_rope L s x pos ff = (if as_rope_kind s = ROPE_NORM then rope_norm L x pos (as_n_rot s) (as_rope_base s) ff
     else rope_neox L x pos (as_n_rot s) (as_rope_base s) ff)"

record prep =
  pr_q_norm :: "f32 list option"
  pr_k_norm :: "f32 list option"
  pr_v_norm :: bool
  pr_freqs :: "f32 list option"
  pr_eps :: f64

definition prep_fits :: "prep \<Rightarrow> attn_shape \<Rightarrow> bool" where
  "prep_fits p s \<longleftrightarrow> (case pr_q_norm p of None \<Rightarrow> True | Some w \<Rightarrow> length w = as_head_dim s)
     \<and> (case pr_k_norm p of None \<Rightarrow> True | Some w \<Rightarrow> length w = as_head_dim s)
     \<and> (case pr_freqs p of None \<Rightarrow> True
        | Some f \<Rightarrow> length f = as_n_rot s div 2 \<and> list_all (\<lambda>x. f32_finite x \<and> f32_lt 0 x) f)"

definition rotated :: "libm \<Rightarrow> prep \<Rightarrow> attn_shape \<Rightarrow> f32 list \<Rightarrow> f32 list option \<Rightarrow> u64 \<Rightarrow> f64 list option" where
  "rotated L p s raw norm pos = do {
     let x = map f64_of_f32 raw;
     x \<leftarrow> (if norm \<noteq> None then head_rms_norm L x norm (pr_eps p) else Some x);
     shape_rope L s x pos (pr_freqs p) }"

definition prep_query :: "libm \<Rightarrow> prep \<Rightarrow> attn_shape \<Rightarrow> f32 list \<Rightarrow> u64 \<Rightarrow> f64 list option" where
  "prep_query L p s raw pos = rotated L p s raw (pr_q_norm p) pos"

definition prep_key :: "libm \<Rightarrow> prep \<Rightarrow> attn_shape \<Rightarrow> f32 list \<Rightarrow> u64 \<Rightarrow> f64 list option" where
  "prep_key L p s raw pos = rotated L p s raw (pr_k_norm p) pos"

definition prep_value :: "libm \<Rightarrow> prep \<Rightarrow> f32 list \<Rightarrow> f64 list option" where
  "prep_value L p raw = (let x = map f64_of_f32 raw in if pr_v_norm p then head_rms_norm L x None (pr_eps p) else Some x)"

definition group_output_in :: "libm \<Rightarrow> arith \<Rightarrow> attn_shape \<Rightarrow> prep \<Rightarrow> f32 list \<Rightarrow> nat \<Rightarrow> u64 \<Rightarrow> f32 list list \<Rightarrow> f32 list list \<Rightarrow> f64 list option" where
  "group_output_in L ar s p q_proj kv t keys values = do {
     g \<leftarrow> shape_group s;
     let hd1 = as_head_dim s;
     if as_n_head_kv s \<le> kv \<or> length q_proj \<noteq> as_n_head s * hd1 \<or> \<not> prep_fits p s then None
     else map_option concat (those (map (\<lambda>qi. do { q \<leftarrow> prep_query L p s (slice q_proj (qi * hd1) hd1) t;
            pa \<leftarrow> partial_of L ar q (as_kq_scale s) keys values; Some (pa_o pa) }) [kv * g..<(kv + 1) * g])) }"

definition group_output :: "libm \<Rightarrow> attn_shape \<Rightarrow> prep \<Rightarrow> f32 list \<Rightarrow> nat \<Rightarrow> u64 \<Rightarrow> f32 list list \<Rightarrow> f32 list list \<Rightarrow> f64 list option" where
  "group_output L = group_output_in L Exact"

definition apply_gate :: "libm \<Rightarrow> f64 list \<Rightarrow> f32 list \<Rightarrow> f64 list option" where
  "apply_gate L out gate =
     (if length out \<noteq> length gate then None
      else let r = map (\<lambda>(a, g). f64_div a (f64_add (f64_of_int 1) (lm_exp L (f64_neg (f64_of_f32 g))))) (zip out gate)
        in if list_all f64_finite r then Some r else None)"

definition ATTN_THRESHOLD :: f64 where "ATTN_THRESHOLD = f64_of_int 2"

definition check_group :: "attn_shape \<Rightarrow> bytes \<Rightarrow> u8 \<Rightarrow> nat \<Rightarrow> f64 list \<Rightarrow> bool" where
  "check_group s x layout kv grp = (case shape_group s of
       None \<Rightarrow> False
     | Some g \<Rightarrow> let hd1 = as_head_dim s in
         if length grp \<noteq> g * hd1 \<or> hd1 mod 32 \<noteq> 0 then False
         else (case block_deviation x layout (as_n_head s * hd1) (kv * g * hd1 div 32) grp of
             Some d \<Rightarrow> f64_le d ATTN_THRESHOLD | None \<Rightarrow> False))"

subsection \<open>Lengths\<close>

lemma length_rotate_pair [simp]: "length (rotate_pair L th ia ib x) = length x"
  by (simp add: rotate_pair_def Let_def)

lemma length_foldl_rotate: "length (foldl (\<lambda>x i. rotate_pair L (th i) (ia i) (ib i) x) x is1) = length x"
  by (induction is1 arbitrary: x) simp_all

lemma length_shape_rope: "shape_rope L s x pos ff = Some y \<Longrightarrow> length y = length x"
  by (auto simp: shape_rope_def rope_norm_def rope_neox_def length_foldl_rotate split: if_splits)

lemma length_head_rms_norm: "head_rms_norm L x w eps = Some y \<Longrightarrow> length y = length x"
  by (auto simp: head_rms_norm_def Let_def split: if_splits)

lemma length_rotated: "rotated L p s raw norm pos = Some y \<Longrightarrow> length y = length raw"
proof -
  assume "rotated L p s raw norm pos = Some y"
  then obtain x where x: "(if norm \<noteq> None then head_rms_norm L (map f64_of_f32 raw) norm (pr_eps p) else Some (map f64_of_f32 raw)) = Some x"
    and y: "shape_rope L s x pos (pr_freqs p) = Some y"
    by (auto simp: rotated_def Let_def Option.bind_eq_Some_conv)
  have "length x = length raw" using x by (cases norm) (auto dest: length_head_rms_norm)
  then show ?thesis using length_shape_rope [OF y] by simp
qed

text \<open>Under the guards of \<open>group_output_in\<close> no operation indexes past a vector.\<close>

lemma rotated_returns:
  assumes "shape_group s = Some g" and "prep_fits p s" and "length raw = as_head_dim s"
    and "norm = pr_q_norm p \<or> norm = pr_k_norm p"
  shows "\<exists>y. rotated L p s raw norm pos = Some y"
proof -
  have nr: "as_n_rot s div 2 * 2 \<le> as_head_dim s" using assms(1) by (auto simp: shape_group_def split: if_splits)
  have "\<exists>y. shape_rope L s x pos (pr_freqs p) = Some y" if "length x = as_head_dim s" for x
    using that nr assms(2) by (auto simp: shape_rope_def rope_norm_def rope_neox_def rope_fits_def prep_fits_def split: option.splits)
  moreover have "\<exists>y. head_rms_norm L (map f64_of_f32 raw) (Some w) (pr_eps p) = Some y \<and> length y = as_head_dim s" if "norm = Some w" for w
    using that assms(2-4) by (auto simp: head_rms_norm_def prep_fits_def Let_def dest!: sym [of "Some w"])
  ultimately show ?thesis using assms(3) by (cases norm) (fastforce simp: rotated_def)+
qed

end
