(* ===== verification/Attn_Blocks.thy ===== *)
theory Attn_Blocks
  imports Attention Chain_Check Leaf_Openings
begin

section \<open>Attention openings by blocks of positions\<close>

text \<open>
  Model of \<open>verifiable-inference/src/attn_blocks.rs\<close>: the sizes of a phase, the encoding of partials, the tree
  of blocks over the attended positions, the combination of partials, the checks of a node, a leaf and the root,
  and the draw of a child. The tree theorem shows that the children of every node split its positions into
  consecutive nonempty runs and that a leaf holds positions of one block only.
\<close>

definition BLOCK_BUDGET :: u64 where [simp]: "BLOCK_BUDGET = 98304"
definition LSE_TOL :: f64 where "LSE_TOL = f64_div (f64_of_int 1) (f64_of_int 256)"
definition PARTIAL_STEPS :: f64 where "PARTIAL_STEPS = f64_lit 1 4"
definition LEAF_FLOOR :: f64 where "LEAF_FLOOR = f64_div (f64_of_int 1) (f64_of_int (2 ^ 24))"
definition NODE_FLOOR :: f64 where "NODE_FLOOR = f64_mul (f64_of_int 2) LEAF_FLOOR"
definition LSE_ROOT_TOL :: f64 where "LSE_ROOT_TOL = f64_div (f64_of_int 1) (f64_of_int 64)"
definition ATTN_OUT_MAX :: f64 where "ATTN_OUT_MAX = f64_of_int 3"
definition ATTN_OUT_SPARE :: nat where [simp]: "ATTN_OUT_SPARE = 4"
definition UNIFORM_EIGHTHS :: u8 where [simp]: "UNIFORM_EIGHTHS = 4"

definition root_lse_tol :: "f64 \<Rightarrow> f64" where
  "root_lse_tol m = f64_add LSE_ROOT_TOL (f64_div (f64_min (f64_abs m) (f64_of_int 176)) (f64_of_int 4096))"

subsection \<open>Sizes of a phase\<close>

text \<open>The doubling loop of \<open>fit\<close>; \<open>usize\<close> products wrap. The inner option is the code's.\<close>

partial_function (option) fit_loop :: "u64 \<Rightarrow> u64 \<Rightarrow> u64 option" where
  "fit_loop un n = (if 2 * n * un \<le> BLOCK_BUDGET then fit_loop un (2 * n) else Some n)"

definition fit_block :: "u64 \<Rightarrow> u64 option option" where
  "fit_block un = map_option (\<lambda>n. if 0 < un \<and> n * un \<le> BLOCK_BUDGET then Some n else None) (fit_loop un 1)"

definition block_params :: "u64 \<Rightarrow> u64 \<Rightarrow> (u64 \<times> u64) option option" where
  "block_params rb pb = do { c \<leftarrow> fit_block rb;
     case c of None \<Rightarrow> Some None
     | Some c \<Rightarrow> map_option (\<lambda>b. case b of None \<Rightarrow> None | Some b \<Rightarrow> if 2 \<le> b then Some (c, b) else None) (fit_block pb) }"

definition partial_len :: "nat \<Rightarrow> nat" where "partial_len d = 2 * d + 8"

subsection \<open>Encoded partials\<close>

definition encode_partial :: "partial \<Rightarrow> bytes" where
  "encode_partial p = concat (map (\<lambda>x. u16_le (from_f32 (f32_of_f64 x))) (pa_o p))
     @ u32_le (f32_of_f64 (pa_m p)) @ u32_le (f32_of_f64 (pa_l p))"

definition decode_partial :: "nat \<Rightarrow> bytes \<Rightarrow> partial option" where
  "decode_partial d c = (let o1 = map (\<lambda>i. f64_of_f32 (half_read c (2 * i))) [0..<d];
       m = f64_of_f32 (le_u32 (slice c (2 * d) 4)); l = f64_of_f32 (le_u32 (slice c (2 * d + 4) 4))
     in if list_all f64_finite o1 \<and> f64_finite m \<and> f64_finite l \<and> f64_le (f64_of_int 1) l
        then Some \<lparr>pa_o = o1, pa_m = m, pa_l = l\<rparr> else None)"

definition decode_partials :: "bytes \<Rightarrow> nat \<Rightarrow> partial list option" where
  "decode_partials b d = (if d = 0 \<or> b = [] \<or> length b mod partial_len d \<noteq> 0 then None
     else those (map (decode_partial d) (chunks_exact (partial_len d) b)))"

definition encode_partials :: "partial list \<Rightarrow> bytes" where
  "encode_partials parts = concat (map encode_partial parts)"

definition partial_leaves :: "blake3 \<Rightarrow> bytes \<Rightarrow> nat \<Rightarrow> hash list option" where
  "partial_leaves B b d = (if 0 < d \<and> b \<noteq> [] \<and> length b mod partial_len d = 0
     then Some (map (b3_hash B) (chunks_exact (partial_len d) b)) else None)"

definition partials_root :: "blake3 \<Rightarrow> bytes \<Rightarrow> nat \<Rightarrow> hash option" where
  "partials_root B b d = do { l \<leftarrow> partial_leaves B b d; b3_root B l }"

definition partial_opening :: "blake3 \<Rightarrow> bytes \<Rightarrow> nat \<Rightarrow> nat \<Rightarrow> (bytes \<times> hash list) option" where
  "partial_opening B b d i = do { leaves \<leftarrow> partial_leaves B b d;
     if i < length leaves then do { p \<leftarrow> b3_path B leaves i; Some (slice b (i * partial_len d) (partial_len d), p) } else None }"

definition open_partial :: "blake3 \<Rightarrow> hash \<Rightarrow> u64 \<Rightarrow> u64 \<Rightarrow> bytes \<Rightarrow> hash list \<Rightarrow> nat \<Rightarrow> partial option" where
  "open_partial B root n i b path d =
     (if length b \<noteq> partial_len d \<or> \<not> b3_verify B root (unat n) (unat i) (b3_hash B b) path then None
      else do { ps \<leftarrow> decode_partials b d; if ps = [] then None else Some (last ps) })"

subsection \<open>The tree of blocks\<close>

record block_tree =
  bt_lo :: u64
  bt_hi :: u64
  bt_c :: u64
  bt_b :: u64

definition block_tree_new :: "u64 \<Rightarrow> u64 \<Rightarrow> u64 \<Rightarrow> u64 \<Rightarrow> block_tree option" where
  "block_tree_new lo hi c b = (if lo < hi \<and> 1 \<le> c \<and> 2 \<le> b then Some \<lparr>bt_lo = lo, bt_hi = hi, bt_c = c, bt_b = b\<rparr> else None)"

definition bt_n_leaves :: "block_tree \<Rightarrow> u64" where
  "bt_n_leaves t = (bt_hi t - 1) div bt_c t - bt_lo t div bt_c t + 1"

definition saturating_mul64 :: "u64 \<Rightarrow> u64 \<Rightarrow> u64" where
  "saturating_mul64 a b = word_of_nat (min (2 ^ 64 - 1) (unat a * unat b))"

definition saturating_pow64 :: "u64 \<Rightarrow> nat \<Rightarrow> u64" where
  "saturating_pow64 a k = word_of_nat (min (2 ^ 64 - 1) (unat a ^ k))"

text \<open>The loop of \<open>depth\<close>. It does not end for fewer than two children per node, which \<open>new\<close> excludes.\<close>

partial_function (option) depth_loop :: "u64 \<Rightarrow> u64 \<Rightarrow> u64 \<Rightarrow> nat \<Rightarrow> nat option" where
  "depth_loop b n span d = (if span < n then depth_loop b n (saturating_mul64 span b) (d + 1) else Some d)"

definition bt_depth :: "block_tree \<Rightarrow> nat option" where
  "bt_depth t = depth_loop (bt_b t) (bt_n_leaves t) 1 0"

definition leaves_per_node :: "block_tree \<Rightarrow> nat \<Rightarrow> u64 option" where
  "leaves_per_node t level = map_option (\<lambda>d. saturating_pow64 (bt_b t) (d - level)) (bt_depth t)"

definition bt_positions :: "block_tree \<Rightarrow> u64 \<Rightarrow> u64 \<Rightarrow> u64 \<times> u64" where
  "bt_positions t a z = (let first = bt_lo t div bt_c t in
     (max (bt_lo t) ((first + a) * bt_c t), min (bt_hi t) ((first + z) * bt_c t)))"

fun leaf_range_loop :: "block_tree \<Rightarrow> nat \<Rightarrow> u64 list \<Rightarrow> u64 \<Rightarrow> u64 \<Rightarrow> (u64 \<times> u64) option" where
  "leaf_range_loop t level [] a z = Some (a, z)"
| "leaf_range_loop t level (i # path) a z = do { s \<leftarrow> leaves_per_node t (level + 1);
     if div_ceil64 (z - a) s \<le> i then None
     else let a = a + i * s in leaf_range_loop t (level + 1) path a (min z (a + s)) }"

definition leaf_range :: "block_tree \<Rightarrow> u64 list \<Rightarrow> (u64 \<times> u64) option" where
  "leaf_range t path = do { d \<leftarrow> bt_depth t;
     if d < length path then None else leaf_range_loop t 0 path 0 (bt_n_leaves t) }"

definition bt_node :: "block_tree \<Rightarrow> u64 list \<Rightarrow> (u64 \<times> u64) option" where
  "bt_node t path = map_option (\<lambda>(a, z). bt_positions t a z) (leaf_range t path)"

text \<open>The runs \<open>(a..z).step_by(s)\<close>.\<close>

definition bt_children :: "block_tree \<Rightarrow> u64 list \<Rightarrow> (u64 \<times> u64) list option" where
  "bt_children t path = do { d \<leftarrow> bt_depth t;
     if d \<le> length path then None
     else do { (a, z) \<leftarrow> leaf_range t path; s \<leftarrow> leaves_per_node t (length path + 1);
       Some (map (\<lambda>j. let x = a + word_of_nat j * s in bt_positions t x (min z (x + s))) [0..<unat (div_ceil64 (z - a) s)]) } }"

subsection \<open>Combining and comparing partials\<close>

definition max_of_ms :: "partial list \<Rightarrow> f64" where "max_of_ms parts = foldl f64_max f64_neg_inf (map pa_m parts)"

definition weighted_sum :: "nat \<Rightarrow> f64 list \<Rightarrow> partial list \<Rightarrow> f64 list" where
  "weighted_sum d w parts = foldl (\<lambda>o1 (wi, p). map (\<lambda>(a, x). f64_add a (f64_mul wi x)) (zip o1 (pa_o p))) (replicate d 0) (zip w parts)"

definition combine :: "libm \<Rightarrow> partial list \<Rightarrow> partial option" where
  "combine L parts = (case parts of [] \<Rightarrow> None
     | p0 # _ \<Rightarrow> let d = length (pa_o p0) in
         if list_ex (\<lambda>p. length (pa_o p) \<noteq> d) parts then None
         else let m = max_of_ms parts; w = map (\<lambda>p. f64_mul (pa_l p) (lm_exp L (f64_sub (pa_m p) m))) parts; l = f64_sum w;
                  o1 = map (\<lambda>a. f64_div a l) (weighted_sum d w parts)
           in if f64_finite m \<and> f64_finite l \<and> list_all f64_finite o1 then Some \<lparr>pa_o = o1, pa_m = m, pa_l = l\<rparr> else None)"

definition F64_MIN_POSITIVE :: f64 where "F64_MIN_POSITIVE = 0x0010000000000000"

definition steps_on :: "f64 list \<Rightarrow> f64 list \<Rightarrow> f64 list \<Rightarrow> f64 \<Rightarrow> f64 option" where
  "steps_on a b sc fl =
     (if length a \<noteq> length b \<or> length a \<noteq> length sc \<or> length b mod 32 \<noteq> 0 then None
      else Some (foldl (\<lambda>dev (x, y, z). let step = f64_max (f64_div (max_abs z) (f64_of_int 127)) F64_MIN_POSITIVE
             in foldl (\<lambda>m (p, q). f64_max m (f64_div (f64_max (f64_sub (f64_abs (f64_sub p q)) fl) 0) step)) dev (zip x y))
           0 (zip (chunks_exact 32 a) (zip (chunks_exact 32 b) (chunks_exact 32 sc)))))"

definition partial_lse :: "libm \<Rightarrow> partial \<Rightarrow> f64" where "partial_lse L p = f64_add (pa_m p) (lm_log L (pa_l p))"

definition lse_close :: "libm \<Rightarrow> partial \<Rightarrow> partial \<Rightarrow> bool" where
  "lse_close L a b = f64_le (f64_abs (f64_sub (partial_lse L a) (partial_lse L b))) LSE_TOL"

definition few_steps :: "f64 option \<Rightarrow> bool" where
  "few_steps dev = (case dev of None \<Rightarrow> False | Some d \<Rightarrow> f64_le d PARTIAL_STEPS)"

definition same_partial :: "libm \<Rightarrow> partial \<Rightarrow> partial \<Rightarrow> bool" where
  "same_partial L a b \<longleftrightarrow> lse_close L a b \<and> few_steps (steps_on (pa_o a) (pa_o b) (pa_o b) LEAF_FLOOR)"

definition check_node :: "libm \<Rightarrow> partial \<Rightarrow> partial list \<Rightarrow> bool" where
  "check_node L parent children = (case combine L children of None \<Rightarrow> False
     | Some c \<Rightarrow>
         let w = map (\<lambda>p. f64_div (f64_mul (pa_l p) (lm_exp L (f64_sub (pa_m p) (pa_m c)))) (pa_l c)) children;
             sc = map (\<lambda>k. f64_max (f64_sum (map (\<lambda>(p, wi). f64_mul wi (f64_abs (pa_o p ! k))) (zip children w)))
                   (case nth_opt (pa_o parent) k of None \<Rightarrow> 0 | Some x \<Rightarrow> f64_abs x)) [0..<length (pa_o c)]
         in lse_close L c parent \<and> few_steps (steps_on (pa_o c) (pa_o parent) sc NODE_FLOOR))"

definition root_within :: "bytes \<Rightarrow> u8 \<Rightarrow> nat \<Rightarrow> nat \<Rightarrow> f64 list \<Rightarrow> bool" where
  "root_within x layout n_out first_block o1 = (case block_outliers x layout n_out first_block o1 ATTN_THRESHOLD of
       None \<Rightarrow> False | Some (dv, spare) \<Rightarrow> f64_le dv ATTN_OUT_MAX \<and> spare \<le> ATTN_OUT_SPARE)"

definition check_root :: "libm \<Rightarrow> bytes \<Rightarrow> u8 \<Rightarrow> nat \<Rightarrow> nat \<Rightarrow> partial list \<Rightarrow> f32 list option \<Rightarrow> bool" where
  "check_root L x layout n_out head children gate = (case map_option pa_o (combine L children) of None \<Rightarrow> False
     | Some o1 \<Rightarrow> let d = length o1 in
         if d mod 32 \<noteq> 0 \<or> n_out < (head + 1) * d then False
         else (case (case gate of None \<Rightarrow> Some o1 | Some g \<Rightarrow> apply_gate L o1 g) of None \<Rightarrow> False
           | Some o2 \<Rightarrow> root_within x layout n_out (head * d div 32) o2))"

definition check_root_lse :: "libm \<Rightarrow> bytes \<Rightarrow> u8 \<Rightarrow> nat \<Rightarrow> nat \<Rightarrow> partial list \<Rightarrow> f32 list option \<Rightarrow> f32 \<Rightarrow> bool" where
  "check_root_lse L x layout n_out head children gate committed \<longleftrightarrow> f32_finite committed
     \<and> (case combine L children of None \<Rightarrow> False
        | Some c \<Rightarrow> f64_le (f64_abs (f64_sub (partial_lse L c) (f64_of_f32 committed))) (root_lse_tol (pa_m c)))
     \<and> check_root L x layout n_out head children gate"

definition check_leaf :: "libm \<Rightarrow> f64 list \<Rightarrow> f64 \<Rightarrow> f32 list list \<Rightarrow> f32 list list \<Rightarrow> partial \<Rightarrow> bool" where
  "check_leaf L q sc keys values claimed = list_ex (\<lambda>a. case partial_of L a q sc keys values of
     None \<Rightarrow> False | Some p \<Rightarrow> same_partial L p claimed) ARITHS"

subsection \<open>The drawn child\<close>

definition child_weights :: "libm \<Rightarrow> partial list \<Rightarrow> u16 list option" where
  "child_weights L parts =
     (let m = max_of_ms parts in
      if parts = [] \<or> \<not> f64_finite m then None
      else let mass = map (\<lambda>p. f64_mul (pa_l p) (lm_exp L (f64_sub (pa_m p) m))) parts;
               peak = map (\<lambda>p. max_abs (pa_o p)) parts;
               total_mass = f64_sum mass;
               tau = f64_div (f64_div (f64_sum (map (\<lambda>(w, x). f64_mul w x) (zip mass peak))) total_mass) (f64_of_int 1024);
               c = map (\<lambda>(w, x). f64_mul w (f64_add x tau)) (zip mass peak);
               total1 = f64_sum c
        in if \<not> f64_finite total_mass \<or> f64_le total_mass 0 \<or> \<not> f64_finite total1 then None
           else if f64_le total1 0 then Some (replicate (length parts) 1)
           else Some (map (\<lambda>x. ucast (min 65535 (max 1 (u64_of_f64 (f64_mul (f64_div x total1) (f64_of_int 65535)))))) c))"

definition draw_weighted_child :: "blake3 \<Rightarrow> hash \<Rightarrow> u16 list \<Rightarrow> u64" where
  "draw_weighted_child B rand ws =
     (let b = hash_bytes (b3_hash B (hash_bytes rand @ ascii ''attn-child-w''));
          n = word_of_nat (max (length ws) 1) :: u64; r = le_u64 (slice b 8 8)
      in if b ! 0 AND 7 < UNIFORM_EIGHTHS then r mod n
         else (case weighted_pick (map ucast ws) 0 (r mod max (sum_list (map ucast ws)) 1) of Some i \<Rightarrow> i | None \<Rightarrow> n - 1))"

definition draw_child :: "blake3 \<Rightarrow> hash \<Rightarrow> u64 \<Rightarrow> u64" where
  "draw_child B rand n = le_u64 (take 8 (hash_bytes (b3_hash B (hash_bytes rand @ ascii ''attn-child'')))) mod max n 1"

subsection \<open>Partials of the children, as the miner computes them\<close>

definition children_partials :: "libm \<Rightarrow> arith \<Rightarrow> f64 list \<Rightarrow> f64 \<Rightarrow> f32 list list \<Rightarrow> f32 list list \<Rightarrow> u64 \<Rightarrow> block_tree \<Rightarrow> u64 list \<Rightarrow> partial list option" where
  "children_partials L ar q sc keys values lo t path = do { cs \<leftarrow> bt_children t path;
     those (map (\<lambda>(p0, p1). if p0 < lo \<or> p1 < lo then None
       else do { ks \<leftarrow> get_range keys (unat (p0 - lo)) (unat (p1 - lo)); vs \<leftarrow> get_range values (unat (p0 - lo)) (unat (p1 - lo));
                 partial_of L ar q sc ks vs }) cs) }"

definition pick_partials :: "libm \<Rightarrow> f64 list \<Rightarrow> f64 \<Rightarrow> f32 list list \<Rightarrow> f32 list list \<Rightarrow> u64 \<Rightarrow> block_tree \<Rightarrow> u64 list \<Rightarrow> (partial list \<Rightarrow> bool) \<Rightarrow> bytes option" where
  "pick_partials L q sc keys values lo t path check = (if values = [] then None
     else let d = length (values ! 0);
              encs = List.map_filter (\<lambda>a. do { ps \<leftarrow> children_partials L a q sc keys values lo t path;
                let enc = encode_partials ps; dec \<leftarrow> decode_partials enc d; if check dec then Some enc else None }) ARITHS
          in nth_opt encs 0)"

subsection \<open>The children of a node tile its positions\<close>

text \<open>Consecutive nonempty runs from \<open>p\<close> to \<open>q\<close>.\<close>

fun tiles :: "u64 \<Rightarrow> u64 \<Rightarrow> (u64 \<times> u64) list \<Rightarrow> bool" where
  "tiles p q [] \<longleftrightarrow> p = q"
| "tiles p q ((a, b) # r) \<longleftrightarrow> a = p \<and> a < b \<and> tiles b q r"

lemma tiles_breaks: "k \<le> n \<Longrightarrow> (\<forall>j. k \<le> j \<and> j < n \<longrightarrow> g j < g (Suc j)) \<Longrightarrow> tiles (g k) (g n) (map (\<lambda>j. (g j, g (Suc j))) [k..<n])"
proof (induction "n - k" arbitrary: k)
  case (Suc m)
  then have "[k..<n] = k # [Suc k..<n]" by (simp add: upt_conv_Cons)
  then show ?case using Suc.hyps(1) [of "Suc k"] Suc.hyps(2) Suc.prems by auto
qed simp

lemma tiles_le: "tiles p q cs \<Longrightarrow> p \<le> q"
proof (induction cs arbitrary: p)
  case (Cons c cs)
  then have "p < snd c" "snd c \<le> q" by (cases c; auto)+
  then show ?case by simp
qed simp

lemma tiles_nth: "tiles p q cs \<Longrightarrow> i < length cs \<Longrightarrow> fst (cs ! i) < snd (cs ! i) \<and> p \<le> fst (cs ! i) \<and> snd (cs ! i) \<le> q"
proof (induction cs arbitrary: p i)
  case (Cons c cs)
  then show ?case by (cases c; cases i) (fastforce dest: tiles_le)+
qed simp

lemma unat_saturating_pow64: "unat (saturating_pow64 b k) = min (2 ^ 64 - 1) (unat b ^ k)"
  by (simp add: saturating_pow64_def unat_of_nat take_bit_nat_eq_self min_def)

lemma saturating_step: "0 < b \<Longrightarrow> saturating_mul64 (saturating_pow64 b k) b = saturating_pow64 b (Suc k)"
proof -
  assume "0 < b"
  then have b: "1 \<le> unat b" by (simp add: word_less_nat_alt)
  have "min (2 ^ 64 - 1) (min (2 ^ 64 - 1) (unat b ^ k) * unat b) = min (2 ^ 64 - 1) (unat b ^ Suc k)"
  proof (cases "unat b ^ k \<le> 2 ^ 64 - 1")
    case True
    then show ?thesis by (simp add: min_def mult.commute)
  next
    case False
    have "unat b ^ k * 1 \<le> unat b ^ k * unat b" "(2 ^ 64 - 1) * 1 \<le> (2 ^ 64 - 1) * unat b" using b by (rule mult_le_mono2)+
    then have "2 ^ 64 - 1 \<le> unat b ^ Suc k" "2 ^ 64 - 1 \<le> (2 ^ 64 - 1) * unat b"
      using False by (simp_all only: power_Suc2 mult_1_right)
    moreover have "2 ^ 64 - 1 \<le> unat b ^ k" using False by simp
    ultimately show ?thesis by (simp only: min_def if_True)
  qed
  then show ?thesis unfolding saturating_mul64_def unat_saturating_pow64 by (simp only: saturating_pow64_def)
qed

lemma depth_loop_returns:
  "0 < b \<Longrightarrow> k \<le> j \<Longrightarrow> n \<le> saturating_pow64 b j \<Longrightarrow> \<exists>d. depth_loop b n (saturating_pow64 b k) k = Some d
     \<and> n \<le> saturating_pow64 b d \<and> k \<le> d \<and> (k < d \<longrightarrow> saturating_pow64 b (d - 1) < n)"
proof (induction "j - k" arbitrary: k)
  case 0
  then have "\<not> saturating_pow64 b k < n" by simp
  then show ?case using 0 by (subst depth_loop.simps) simp
next
  case (Suc m)
  show ?case
  proof (cases "saturating_pow64 b k < n")
    case True
    have "m = j - Suc k" "Suc k \<le> j" using Suc.hyps(2) by simp_all
    from Suc.hyps(1) [OF this(1) Suc.prems(1) this(2) Suc.prems(3)] obtain d where
      d: "depth_loop b n (saturating_pow64 b (Suc k)) (Suc k) = Some d" "n \<le> saturating_pow64 b d" "Suc k \<le> d"
        "Suc k < d \<longrightarrow> saturating_pow64 b (d - 1) < n" by auto
    have "depth_loop b n (saturating_pow64 b k) k = Some d"
      using True d(1) by (subst depth_loop.simps) (simp add: saturating_step [OF Suc.prems(1)])
    then show ?thesis using d True by (cases "Suc k = d") auto
  next
    case False
    then show ?thesis by (subst depth_loop.simps) simp
  qed
qed

text \<open>A tree over fewer than \<open>2 ^ 32\<close> positions, in natural numbers.\<close>

definition bt_ok :: "block_tree \<Rightarrow> bool" where
  "bt_ok t \<longleftrightarrow> bt_lo t < bt_hi t \<and> bt_hi t \<le> 2 ^ 32 \<and> 0 < bt_c t \<and> bt_c t \<le> 2 ^ 32 \<and> 2 \<le> bt_b t"

definition bt_count :: "block_tree \<Rightarrow> nat" where
  "bt_count t = (unat (bt_hi t) - 1) div unat (bt_c t) - unat (bt_lo t) div unat (bt_c t) + 1"

lemma bt_facts:
  assumes "bt_ok t"
  shows "unat (bt_lo t) < unat (bt_hi t)" and "unat (bt_hi t) \<le> 2 ^ 32" and "0 < unat (bt_c t)" and "unat (bt_c t) \<le> 2 ^ 32"
    and "2 \<le> unat (bt_b t)" and "unat (bt_n_leaves t) = bt_count t" and "bt_count t \<le> 2 ^ 32" and "0 < bt_count t"
    and "unat (bt_lo t) div unat (bt_c t) + bt_count t = (unat (bt_hi t) - 1) div unat (bt_c t) + 1"
proof -
  show f: "unat (bt_lo t) < unat (bt_hi t)" "unat (bt_hi t) \<le> 2 ^ 32" "0 < unat (bt_c t)" "unat (bt_c t) \<le> 2 ^ 32" "2 \<le> unat (bt_b t)"
    using assms by (simp_all add: bt_ok_def word_less_nat_alt word_le_nat_alt)
  let ?q = "(unat (bt_hi t) - 1) div unat (bt_c t)" and ?r = "unat (bt_lo t) div unat (bt_c t)"
  have rq: "?r \<le> ?q" using f(1) by (intro div_le_mono) simp
  have q: "?q \<le> unat (bt_hi t) - 1" by (rule div_le_dividend)
  have le: "?q - ?r + 1 \<le> 2 ^ 32" using q f(1,2) by linarith
  show "bt_count t \<le> 2 ^ 32" using le by (simp only: bt_count_def)
  show "0 < bt_count t" by (simp add: bt_count_def)
  show "?r + bt_count t = ?q + 1" using rq by (simp add: bt_count_def)
  have h1: "unat (bt_hi t - 1) = unat (bt_hi t) - 1" using f(1) by (simp add: unat_sub word_le_nat_alt)
  have "unat ((bt_hi t - 1) div bt_c t - bt_lo t div bt_c t) = ?q - ?r"
    using rq by (simp add: unat_sub word_le_nat_alt unat_div h1)
  moreover have "?q - ?r + 1 < 2 ^ 64" using le by (rule le_less_trans) simp
  ultimately show "unat (bt_n_leaves t) = bt_count t"
    by (simp add: bt_n_leaves_def bt_count_def unat_word_ariths)
qed

lemma bt_depth_returns:
  assumes "bt_ok t"
  obtains d where "bt_depth t = Some d" and "bt_count t \<le> unat (bt_b t) ^ d"
    and "0 < d \<Longrightarrow> unat (bt_b t) ^ (d - 1) < bt_count t"
proof -
  note f = bt_facts [OF assms]
  have b: "0 < bt_b t" using f(5) by (simp add: word_less_nat_alt)
  have "(2::nat) ^ 64 \<le> unat (bt_b t) ^ 64" using f(5) by (intro power_mono) simp_all
  then have "unat (saturating_pow64 (bt_b t) 64) = 2 ^ 64 - 1" by (simp add: unat_saturating_pow64)
  then have "bt_n_leaves t \<le> saturating_pow64 (bt_b t) 64" using f(6,7) by (simp add: word_le_nat_alt)
  from depth_loop_returns [OF b _ this, of 0] obtain d where d: "bt_depth t = Some d"
    "bt_n_leaves t \<le> saturating_pow64 (bt_b t) d" "0 < d \<longrightarrow> saturating_pow64 (bt_b t) (d - 1) < bt_n_leaves t"
    by (auto simp: bt_depth_def saturating_pow64_def [of _ 0])
  show thesis
  proof (rule that [OF d(1)])
    show "bt_count t \<le> unat (bt_b t) ^ d"
      using d(2) f(6) by (simp add: word_le_nat_alt unat_saturating_pow64)
    assume "0 < d"
    with d(3) f(6,7) show "unat (bt_b t) ^ (d - 1) < bt_count t"
      by (simp add: word_less_nat_alt unat_saturating_pow64 min_def split: if_splits)
  qed
qed

text \<open>The break before leaf \<open>x\<close> of the tree: positions of leaves \<open>[a, z)\<close> run from break \<open>a\<close> to break \<open>z\<close>.\<close>

definition bt_break :: "block_tree \<Rightarrow> nat \<Rightarrow> nat" where
  "bt_break t x = max (unat (bt_lo t)) (min (unat (bt_hi t)) ((unat (bt_lo t) div unat (bt_c t) + x) * unat (bt_c t)))"

lemma bt_break_facts:
  assumes "bt_ok t"
  shows "bt_break t 0 = unat (bt_lo t)" and "bt_break t (bt_count t) = unat (bt_hi t)" and "bt_break t x < 2 ^ 64"
    and "a < z \<Longrightarrow> z \<le> bt_count t \<Longrightarrow> bt_break t a < bt_break t z"
    and "a < bt_count t \<Longrightarrow> bt_break t a div unat (bt_c t) = unat (bt_lo t) div unat (bt_c t) + a"
    and "a < bt_count t \<Longrightarrow> (bt_break t (a + 1) - 1) div unat (bt_c t) = unat (bt_lo t) div unat (bt_c t) + a"
proof -
  note f = bt_facts [OF assms]
  let ?lo = "unat (bt_lo t)" and ?hi = "unat (bt_hi t)" and ?c = "unat (bt_c t)" and ?N = "bt_count t"
  let ?f = "?lo div ?c"
  have lo: "?f * ?c \<le> ?lo" "?lo < (?f + 1) * ?c"
    using dividend_less_div_times [OF f(3), of ?lo] by (simp_all add: div_times_less_eq_dividend)
  have inner: "(?f + a) * ?c < ?hi" if "a < ?N" for a
  proof -
    have "?f + a \<le> (?hi - 1) div ?c" using that f(9) by linarith
    then have "(?f + a) * ?c \<le> (?hi - 1) div ?c * ?c" by (rule mult_le_mono1)
    also have "\<dots> \<le> ?hi - 1" by (rule div_times_less_eq_dividend)
    finally show ?thesis using f(1) by linarith
  qed
  have top: "?hi \<le> (?f + ?N) * ?c"
  proof -
    have "?hi - 1 < ((?hi - 1) div ?c + 1) * ?c" using dividend_less_div_times [OF f(3), of "?hi - 1"] by simp
    then show ?thesis unfolding f(9) by linarith
  qed
  have low: "?lo < (?f + x) * ?c" if "0 < x" for x
  proof -
    have "(?f + 1) * ?c \<le> (?f + x) * ?c" using that by (intro mult_le_mono1) simp
    then show ?thesis using lo(2) by linarith
  qed
  show "bt_break t 0 = ?lo" unfolding bt_break_def add_0_right by (rule max_absorb1, rule min.coboundedI2, rule lo(1))
  show "bt_break t ?N = ?hi" using top f(1) by (simp add: bt_break_def)
  show "bt_break t x < 2 ^ 64" using f(1,2) by (simp add: bt_break_def min_def max_def)
  have mid: "bt_break t x = (?f + x) * ?c" if "0 < x" "x < ?N" for x
    using low [OF that(1)] inner [OF that(2)] by (simp add: bt_break_def)
  have start: "bt_break t a = max ?lo ((?f + a) * ?c)" if "a < ?N" for a using inner [OF that] f(1) by (simp add: bt_break_def)
  have stop: "bt_break t z = min ?hi ((?f + z) * ?c)" if "0 < z" for z using low [OF that] f(1) by (simp add: bt_break_def)
  show "bt_break t a < bt_break t z" if "a < z" "z \<le> ?N"
  proof -
    have "(?f + a) * ?c < (?f + z) * ?c" using that(1) f(3) by simp
    then show ?thesis using start [of a] stop [of z] that low [of z] inner [of a] f(1) by simp
  qed
  have quot: "y div ?c = ?f + a" if "(?f + a) * ?c \<le> y" "y < (?f + a + 1) * ?c" for y a
    by (rule div_nat_eqI) (use that in \<open>simp_all add: mult.commute\<close>)
  show "bt_break t a div ?c = ?f + a" if "a < ?N"
  proof (rule quot)
    have "(?f + a) * ?c < (?f + a + 1) * ?c" using f(3) by simp
    moreover have "?lo < (?f + a + 1) * ?c" using low [of "a + 1"] by (simp add: add.assoc)
    ultimately show "bt_break t a < (?f + a + 1) * ?c" "(?f + a) * ?c \<le> bt_break t a" by (simp_all add: start [OF that])
  qed
  show "(bt_break t (a + 1) - 1) div ?c = ?f + a" if "a < ?N"
  proof (rule quot)
    have m: "?f + (a + 1) = ?f + a + 1" by simp
    have "(?f + a) * ?c < (?f + a + 1) * ?c" using f(3) by simp
    then show "bt_break t (a + 1) - 1 < (?f + a + 1) * ?c" "(?f + a) * ?c \<le> bt_break t (a + 1) - 1"
      using inner [OF that] by (simp_all add: stop m)
  qed
qed

lemma bt_positions_breaks:
  assumes "bt_ok t" and "unat a < unat z" and "unat z \<le> bt_count t"
  shows "bt_positions t a z = (word_of_nat (bt_break t (unat a)), word_of_nat (bt_break t (unat z)))"
proof -
  note f = bt_facts [OF assms(1)]
  let ?f = "unat (bt_lo t) div unat (bt_c t)" and ?c = "unat (bt_c t)"
  have fl: "?f \<le> unat (bt_lo t)" by (rule div_le_dividend)
  have cell: "unat ((bt_lo t div bt_c t + x) * bt_c t) = (?f + unat x) * ?c" if "unat x \<le> bt_count t" for x
  proof -
    have "?f + unat x \<le> 2 ^ 32 + 2 ^ 32" using that fl f(1,2,7) by linarith
    moreover have "(?f + unat x) * ?c \<le> (?f + bt_count t) * ?c" using that by (intro mult_le_mono1) simp
    moreover have "(?f + bt_count t) * ?c \<le> unat (bt_hi t) - 1 + ?c"
      unfolding f(9) by (simp add: div_times_less_eq_dividend)
    ultimately have "(?f + unat x) * ?c \<le> 2 ^ 32 + 2 ^ 32" "?f + unat x \<le> 2 ^ 32 + 2 ^ 32" using f(2,4) by linarith+
    moreover have "(2::nat) ^ 32 + 2 ^ 32 < 2 ^ 64" by simp
    ultimately have "(?f + unat x) * ?c < 2 ^ 64" "?f + unat x < 2 ^ 64" by linarith+
    then show ?thesis by (simp add: unat_word_ariths unat_div)
  qed
  have h: "(?f + x) * ?c < unat (bt_hi t)" if "x < bt_count t" for x
  proof -
    have "?f + x \<le> (unat (bt_hi t) - 1) div ?c" using that f(9) by linarith
    then have "(?f + x) * ?c \<le> (unat (bt_hi t) - 1) div ?c * ?c" by (rule mult_le_mono1)
    also have "\<dots> \<le> unat (bt_hi t) - 1" by (rule div_times_less_eq_dividend)
    finally show ?thesis using f(1) by linarith
  qed
  have l: "unat (bt_lo t) < (?f + x) * ?c" if "0 < x" for x
  proof -
    have "unat (bt_lo t) < (?f + 1) * ?c" using dividend_less_div_times [OF f(3), of "unat (bt_lo t)"] by simp
    also have "\<dots> \<le> (?f + x) * ?c" using that by (intro mult_le_mono1) simp
    finally show ?thesis .
  qed
  have "unat (max (bt_lo t) ((bt_lo t div bt_c t + a) * bt_c t)) = bt_break t (unat a)"
    using assms(2,3) h [of "unat a"] f(1) by (simp add: max_def word_le_nat_alt cell bt_break_def)
  moreover have "unat (min (bt_hi t) ((bt_lo t div bt_c t + z) * bt_c t)) = bt_break t (unat z)"
    using assms(2,3) l [of "unat z"] f(1) by (simp add: min_def word_le_nat_alt cell bt_break_def)
  ultimately show ?thesis
    using bt_break_facts(3) [OF assms(1)] by (simp add: bt_positions_def Let_def word_unat_eq_iff unat_of_nat take_bit_nat_eq_self)
qed

text \<open>The leaves under a node reached by a path of \<open>k\<close> steps: at most \<open>b ^ (d - k)\<close> of them.\<close>

lemma leaf_range_loop_append:
  "leaf_range_loop t l (p @ q) a z = do { (a, z) \<leftarrow> leaf_range_loop t l p a z; leaf_range_loop t (l + length p) q a z }"
  by (induction p arbitrary: l a z) (auto simp: Let_def split: bind_split)

lemma leaves_per_node_eq:
  assumes "bt_ok t" and "bt_depth t = Some d" and "0 < k" and "k \<le> d"
  shows "\<exists>s. leaves_per_node t k = Some s \<and> unat s = unat (bt_b t) ^ (d - k) \<and> unat s < 2 ^ 32"
proof -
  note f = bt_facts [OF assms(1)]
  obtain d' where "bt_depth t = Some d'" "0 < d' \<Longrightarrow> unat (bt_b t) ^ (d' - 1) < bt_count t"
    using bt_depth_returns [OF assms(1)] by metis
  then have "unat (bt_b t) ^ (d - 1) < bt_count t" using assms(2-4) by auto
  moreover have "unat (bt_b t) ^ (d - k) \<le> unat (bt_b t) ^ (d - 1)" using assms(3) f(5) by (intro power_increasing) simp_all
  ultimately have "unat (bt_b t) ^ (d - k) < 2 ^ 32" using f(7) by linarith
  then show ?thesis by (simp add: leaves_per_node_def assms(2) unat_saturating_pow64)
qed

lemma ceil_quot: "0 < s \<Longrightarrow> (n + s - 1) div s = n div s + (if n mod s = 0 then 0 else 1 :: nat)"
proof -
  assume s: "0 < s"
  define q r where "q = n div s" and "r = n mod s"
  have n: "n = q * s + r" and r: "r < s" using s by (simp_all add: q_def r_def)
  have "(q * s + r + s - 1) div s = q + (if r = 0 then 0 else 1)"
    by (rule div_nat_eqI) (use s r in \<open>auto simp: algebra_simps\<close>)
  then show ?thesis by (simp only: n [symmetric] q_def [symmetric] r_def [symmetric])
qed

text \<open>One step: child \<open>i\<close> of leaves \<open>[a, z)\<close> in groups of \<open>s\<close>.\<close>

lemma group_bounds:
  fixes a z s i :: u64
  assumes "unat a < unat z" and "unat z \<le> 2 ^ 32" and "0 < unat s" and "unat s < 2 ^ 32"
  shows "unat (div_ceil64 (z - a) s) = (unat z - unat a + unat s - 1) div unat s"
    and "i < div_ceil64 (z - a) s \<Longrightarrow> unat (a + i * s) = unat a + unat i * unat s \<and> unat a + unat i * unat s < unat z
       \<and> unat (min z (a + i * s + s)) = min (unat z) (unat a + (unat i + 1) * unat s)"
proof -
  let ?n = "unat z - unat a" and ?s = "unat s"
  have d: "unat (z - a) = ?n" using assms(1) by (simp add: unat_sub word_le_nat_alt)
  have m: "(z - a) mod s = 0 \<longleftrightarrow> ?n mod ?s = 0" by (simp add: unat_eq_0 [symmetric] unat_mod d)
  have le: "?n div ?s \<le> ?n" by (rule div_le_dividend)
  have e: "(?n + ?s - 1) div ?s = ?n div ?s + (if ?n mod ?s = 0 then 0 else 1)"
    using ceil_quot [OF assms(3)] .
  have "?n div ?s + 1 < 2 ^ 64" using le_less_trans [OF le, of "2 ^ 64 - 1"] assms(2) by simp
  then show c: "unat (div_ceil64 (z - a) s) = (?n + ?s - 1) div ?s"
    unfolding e by (simp add: div_ceil64_def m unat_word_ariths unat_div d)
  assume "i < div_ceil64 (z - a) s"
  then have "unat i < (?n + ?s - 1) div ?s" using c by (simp add: word_less_nat_alt)
  then have "(unat i + 1) * ?s \<le> ?n + ?s - 1" using less_eq_div_iff_mult_less_eq [OF assms(3), of "unat i + 1" "?n + ?s - 1"] by simp
  then have "unat i * ?s + ?s \<le> ?n + ?s - 1" by (simp only: add_mult_distrib mult_1)
  then have i: "unat a + unat i * ?s < unat z" "unat i * ?s \<le> unat z" using assms(1,3) by linarith+
  moreover have "(2::nat) ^ 32 + 2 ^ 32 < 2 ^ 64" by simp
  ultimately have "unat i * ?s < 2 ^ 64" "unat a + unat i * ?s < 2 ^ 64" "unat a + unat i * ?s + ?s < 2 ^ 64"
    using assms(2,4) by linarith+
  then have x: "unat (a + i * s) = unat a + unat i * ?s" "unat (a + i * s + s) = unat a + unat i * ?s + ?s"
    by (simp_all add: unat_word_ariths)
  then show "unat (a + i * s) = unat a + unat i * ?s \<and> unat a + unat i * ?s < unat z
       \<and> unat (min z (a + i * s + s)) = min (unat z) (unat a + (unat i + 1) * ?s)"
    using i by (simp add: min_def word_le_nat_alt algebra_simps)
qed

lemma leaf_range_loop_bounds:
  assumes "bt_ok t" and "bt_depth t = Some d"
  shows "leaf_range_loop t l path a z = Some (a', z') \<Longrightarrow> l + length path \<le> d \<Longrightarrow> unat a < unat z \<Longrightarrow> unat z \<le> bt_count t
    \<Longrightarrow> unat z \<le> unat a + unat (bt_b t) ^ (d - l)
    \<Longrightarrow> unat a' < unat z' \<and> unat z' \<le> bt_count t \<and> unat z' \<le> unat a' + unat (bt_b t) ^ (d - (l + length path))"
proof (induction path arbitrary: l a z)
  case (Cons i path)
  note f = bt_facts [OF assms(1)]
  obtain s where s: "leaves_per_node t (l + 1) = Some s" "unat s = unat (bt_b t) ^ (d - (l + 1))" "unat s < 2 ^ 32"
    using leaves_per_node_eq [OF assms, of "l + 1"] Cons.prems(2) by auto
  have s0: "0 < unat s" using s(2) f(5) by simp
  have z: "unat z \<le> 2 ^ 32" using Cons.prems(4) f(7) by linarith
  have "\<not> div_ceil64 (z - a) s \<le> i" and
    r: "leaf_range_loop t (l + 1) path (a + i * s) (min z (a + i * s + s)) = Some (a', z')"
    using Cons.prems(1) s(1) by (auto simp: Let_def split: if_splits)
  then have "i < div_ceil64 (z - a) s" by simp
  note g = group_bounds(2) [OF Cons.prems(3) z s0 s(3) this]
  have "unat (a + i * s) < unat (min z (a + i * s + s))" "unat (min z (a + i * s + s)) \<le> bt_count t"
    "unat (min z (a + i * s + s)) \<le> unat (a + i * s) + unat (bt_b t) ^ (d - (l + 1))"
    using g Cons.prems(4) s0 unfolding s(2) [symmetric] by (simp_all add: algebra_simps)
  with Cons.IH [OF r] Cons.prems(2) show ?case by simp
qed simp

lemma leaf_range_bounds:
  assumes "bt_ok t" and "bt_depth t = Some d" and "leaf_range t path = Some (a, z)"
  shows "unat a < unat z" and "unat z \<le> bt_count t" and "unat z \<le> unat a + unat (bt_b t) ^ (d - length path)" and "length path \<le> d"
proof -
  note f = bt_facts [OF assms(1)]
  obtain d' where "bt_depth t = Some d'" "bt_count t \<le> unat (bt_b t) ^ d'" by (rule bt_depth_returns [OF assms(1)])
  then have c: "bt_count t \<le> unat (bt_b t) ^ d" using assms(2) by simp
  show l: "length path \<le> d" using assms(2,3) by (auto simp: leaf_range_def split: if_splits)
  have "leaf_range_loop t 0 path 0 (bt_n_leaves t) = Some (a, z)" using assms(2,3) by (auto simp: leaf_range_def split: if_splits)
  from leaf_range_loop_bounds [OF assms(1,2) this] l c f(6,8)
  show "unat a < unat z" "unat z \<le> bt_count t" "unat z \<le> unat a + unat (bt_b t) ^ (d - length path)" by simp_all
qed

text \<open>The children of a node one level down.\<close>

lemma children_of_range:
  assumes ok: "bt_ok t" and d: "bt_depth t = Some d" and r: "leaf_range t path = Some (a, z)" and "length path < d"
  shows "\<exists>cs. bt_children t path = Some cs \<and> cs \<noteq> [] \<and> length cs \<le> unat (bt_b t)
    \<and> tiles (fst (bt_positions t a z)) (snd (bt_positions t a z)) cs
    \<and> (\<forall>j < length cs. bt_node t (path @ [word_of_nat j]) = Some (cs ! j))"
proof -
  note f = bt_facts [OF ok] and b = leaf_range_bounds [OF ok d r]
  obtain s where s: "leaves_per_node t (length path + 1) = Some s" "unat s = unat (bt_b t) ^ (d - (length path + 1))" "unat s < 2 ^ 32"
    using leaves_per_node_eq [OF ok d, of "length path + 1"] assms(4) by auto
  have s0: "0 < unat s" using s(2) f(5) by simp
  have z: "unat z \<le> 2 ^ 32" using b(2) f(7) by linarith
  define n where "n = unat (div_ceil64 (z - a) s)"
  have n: "n = (unat z - unat a + unat s - 1) div unat s" by (simp add: n_def group_bounds(1) [OF b(1) z s0 s(3)])
  have nw: "n < 2 ^ 64" using unat_lt [of "div_ceil64 (z - a) s"] by (simp add: n_def)
  have g: "unat (a + word_of_nat j * s) = unat a + j * unat s" "unat a + j * unat s < unat z"
      "unat (min z (a + word_of_nat j * s + s)) = min (unat z) (unat a + Suc j * unat s)" if "j < n" for j
  proof -
    have j: "unat (word_of_nat j :: u64) = j" using that nw by (simp add: unat_of_nat take_bit_nat_eq_self)
    then have "(word_of_nat j :: u64) < div_ceil64 (z - a) s" using that by (simp add: word_less_nat_alt n_def)
    from group_bounds(2) [OF b(1) z s0 s(3) this] show "unat (a + word_of_nat j * s) = unat a + j * unat s"
      "unat a + j * unat s < unat z" "unat (min z (a + word_of_nat j * s + s)) = min (unat z) (unat a + Suc j * unat s)"
      by (simp_all add: j)
  qed
  define br where "br j = (word_of_nat (bt_break t (min (unat z) (unat a + j * unat s))) :: u64)" for j
  have child: "bt_positions t (a + word_of_nat j * s) (min z (a + word_of_nat j * s + s)) = (br j, br (Suc j))"
    and less: "br j < br (Suc j)" if "j < n" for j
  proof -
    have lt: "min (unat z) (unat a + j * unat s) < min (unat z) (unat a + Suc j * unat s)" and
      eq: "min (unat z) (unat a + j * unat s) = unat a + j * unat s" using g(2) [OF that] s0 by simp_all
    have le: "min (unat z) (unat a + Suc j * unat s) \<le> bt_count t" using b(2) by simp
    have "unat (a + word_of_nat j * s) < unat (min z (a + word_of_nat j * s + s))"
      "unat (min z (a + word_of_nat j * s + s)) \<le> bt_count t" unfolding g(1,3) [OF that] using lt le eq by simp_all
    from bt_positions_breaks [OF ok this] show "bt_positions t (a + word_of_nat j * s) (min z (a + word_of_nat j * s + s)) = (br j, br (Suc j))"
      unfolding g(1,3) [OF that] br_def eq .
    show "br j < br (Suc j)" using bt_break_facts(4) [OF ok lt le] bt_break_facts(3) [OF ok]
      by (simp add: br_def word_less_nat_alt unat_of_nat take_bit_nat_eq_self)
  qed
  let ?cs = "map (\<lambda>j. (br j, br (Suc j))) [0..<n]"
  have cs: "bt_children t path = Some ?cs"
    using d r s(1) assms(4) by (auto simp: bt_children_def Let_def n_def [symmetric] child)
  have n1: "0 < n" using b(1) s0 unfolding n by (simp add: div_greater_zero_iff)
  have nb: "n \<le> unat (bt_b t)"
  proof -
    have "d - length path = Suc (d - (length path + 1))" using assms(4) by simp
    then have "unat z - unat a \<le> unat (bt_b t) * unat s" using b(3) by (simp add: s(2))
    then have "unat z - unat a + unat s - 1 < (unat (bt_b t) + 1) * unat s" using s0 by (simp add: algebra_simps)
    then have "n < unat (bt_b t) + 1" unfolding n by (subst div_less_iff_less_mult [OF s0])
    then show ?thesis by simp
  qed
  have "unat z \<le> unat a + n * unat s"
    using dividend_less_div_times [OF s0, of "unat z - unat a + unat s - 1"] b(1) unfolding n [symmetric] by (simp add: algebra_simps)
  then have "bt_positions t a z = (br 0, br n)"
    using bt_positions_breaks [OF ok b(1,2)] b(1) by (simp add: br_def)
  moreover have "tiles (br 0) (br n) ?cs" using less by (intro tiles_breaks) simp_all
  moreover have "bt_node t (path @ [word_of_nat j]) = Some (?cs ! j)" if "j < n" for j
  proof -
    have "unat (word_of_nat j :: u64) = j" using that nw by (simp add: unat_of_nat take_bit_nat_eq_self)
    then have "(word_of_nat j :: u64) < div_ceil64 (z - a) s" using that by (simp add: word_less_nat_alt n_def)
    moreover have "leaf_range_loop t 0 path 0 (bt_n_leaves t) = Some (a, z)" using d r by (auto simp: leaf_range_def split: if_splits)
    ultimately have "leaf_range t (path @ [word_of_nat j]) = Some (a + word_of_nat j * s, min z (a + word_of_nat j * s + s))"
      using d assms(4) s(1) by (simp add: leaf_range_def leaf_range_loop_append Let_def)
    then show ?thesis using that child [OF that] by (simp add: bt_node_def)
  qed
  ultimately show ?thesis using cs n1 nb by auto
qed

text \<open>C9. Attention blocks: in the tree \<open>new\<close> builds, the root covers the attended positions; every node above the
  last level has between one and \<open>b\<close> children, which split its positions into consecutive nonempty runs and are
  the nodes one step further down; a node of the last level has no children and its positions, at least one,
  lie in one block of \<open>c\<close>. The depth loop returns.\<close>

theorem block_tree_tiles:
  assumes "block_tree_new lo hi c b = Some t" and "hi \<le> 2 ^ 32" and "c \<le> 2 ^ 32"
  shows "\<exists>d. bt_depth t = Some d \<and> bt_node t [] = Some (lo, hi)
    \<and> (\<forall>path p q. bt_node t path = Some (p, q) \<longrightarrow> p < q \<and> length path \<le> d
        \<and> (if length path = d then bt_children t path = None \<and> p div c = (q - 1) div c
           else \<exists>cs. bt_children t path = Some cs \<and> cs \<noteq> [] \<and> length cs \<le> unat b \<and> tiles p q cs
             \<and> (\<forall>j < length cs. bt_node t (path @ [word_of_nat j]) = Some (cs ! j))))"
proof -
  have t: "t = \<lparr>bt_lo = lo, bt_hi = hi, bt_c = c, bt_b = b\<rparr>" and "lo < hi" "1 \<le> c" "2 \<le> b"
    using assms(1) by (auto simp: block_tree_new_def split: if_splits)
  then have ok: "bt_ok t" using assms(2,3) by (simp add: bt_ok_def word_less_nat_alt word_le_nat_alt)
  note f = bt_facts [OF ok]
  obtain d where d: "bt_depth t = Some d" by (rule bt_depth_returns [OF ok])
  have w: "bt_positions t a z = (word_of_nat (bt_break t (unat a)), word_of_nat (bt_break t (unat z)))"
    "unat (fst (bt_positions t a z)) = bt_break t (unat a)" "unat (snd (bt_positions t a z)) = bt_break t (unat z)"
    if "unat a < unat z" "unat z \<le> bt_count t" for a z
    using bt_positions_breaks [OF ok that] bt_break_facts(3) [OF ok] by (simp_all add: unat_of_nat take_bit_nat_eq_self)
  have "leaf_range t [] = Some (0, bt_n_leaves t)" using d by (simp add: leaf_range_def)
  then have root: "bt_node t [] = Some (lo, hi)"
    using w(1) [of 0 "bt_n_leaves t"] f(6,8) bt_break_facts(1,2) [OF ok] by (simp add: bt_node_def t)
  have "p < q \<and> length path \<le> d
        \<and> (if length path = d then bt_children t path = None \<and> p div c = (q - 1) div c
           else \<exists>cs. bt_children t path = Some cs \<and> cs \<noteq> [] \<and> length cs \<le> unat b \<and> tiles p q cs
             \<and> (\<forall>j < length cs. bt_node t (path @ [word_of_nat j]) = Some (cs ! j)))"
    if "bt_node t path = Some (p, q)" for path p q
  proof -
    obtain a z where r: "leaf_range t path = Some (a, z)" and pq: "bt_positions t a z = (p, q)"
      using \<open>bt_node t path = Some (p, q)\<close> by (auto simp: bt_node_def)
    note b = leaf_range_bounds [OF ok d r] and u = w(2,3) [OF leaf_range_bounds(1,2) [OF ok d r]]
    have pu: "unat p = bt_break t (unat a)" "unat q = bt_break t (unat z)" using u pq by simp_all
    have lt: "p < q" using bt_break_facts(4) [OF ok b(1,2)] pu by (simp add: word_less_nat_alt)
    show ?thesis
    proof (cases "length path = d")
      case True
      then have "unat z = unat a + 1" using b(1,3) by simp
      then have "unat p div unat c = unat (q - 1) div unat c"
        using bt_break_facts(5,6) [OF ok, of "unat a"] b(1,2) pu lt by (simp add: t unat_sub word_le_nat_alt word_less_nat_alt)
      then show ?thesis using True lt d by (simp add: word_unat_eq_iff unat_div bt_children_def)
    next
      case False
      then show ?thesis using children_of_range [OF ok d r] b(4) pq lt by (simp add: t)
    qed
  qed
  then show ?thesis using d root by blast
qed

theorem block_tree_tiles_witness:
  "\<exists>t d. block_tree_new 3 20 4 2 = Some t \<and> bt_depth t = Some d \<and> bt_node t [] = Some (3, 20)
    \<and> (\<forall>path p q. bt_node t path = Some (p, q) \<longrightarrow> p < q \<and> length path \<le> d
        \<and> (if length path = d then bt_children t path = None \<and> p div 4 = (q - 1) div 4
           else \<exists>cs. bt_children t path = Some cs \<and> cs \<noteq> [] \<and> length cs \<le> 2 \<and> tiles p q cs
             \<and> (\<forall>j < length cs. bt_node t (path @ [word_of_nat j]) = Some (cs ! j))))"
proof -
  have n: "block_tree_new 3 20 4 2 = Some \<lparr>bt_lo = 3, bt_hi = 20, bt_c = 4, bt_b = 2\<rparr>"
    by (simp add: block_tree_new_def)
  have le: "(20 :: u64) \<le> 2 ^ 32" "(4 :: u64) \<le> 2 ^ 32" and u: "unat (2 :: u64) = 2" by simp_all
  from n block_tree_tiles [OF n le, unfolded u] show ?thesis by blast
qed

subsection \<open>The sizes of a phase\<close>

lemma fit_loop_returns:
  "0 < unat un \<Longrightarrow> unat un \<le> 2 ^ 40 \<Longrightarrow> 0 < unat n \<Longrightarrow> unat n \<le> 98304 \<Longrightarrow>
   \<exists>m. fit_loop un n = Some m \<and> (\<exists>k. unat m = unat n * 2 ^ k) \<and> unat m \<le> 98304
     \<and> (m = n \<or> unat m * unat un \<le> 98304) \<and> 98304 < 2 * unat m * unat un"
proof (induction "98304 - unat n" arbitrary: n rule: less_induct)
  case less
  have "unat n * unat un \<le> 98304 * 2 ^ 40" using less.prems by (intro mult_le_mono)
  then have "2 * unat n * unat un < 2 ^ 64" by simp
  moreover from this have "2 * unat n < 2 ^ 64" using less.prems by simp
  ultimately have u: "unat (2 * n) = 2 * unat n" "unat (2 * n * un) = 2 * unat n * unat un" by (simp_all add: unat_word_ariths)
  show ?case
  proof (cases "2 * unat n * unat un \<le> 98304")
    case True
    have "2 * unat n * 1 \<le> 2 * unat n * unat un" using less.prems(1) by (intro mult_le_mono2) simp
    then have n: "2 * unat n \<le> 98304" using True by linarith
    have "98304 - unat (2 * n) < 98304 - unat n" using n less.prems(3) by (simp add: u)
    from less.hyps [OF this less.prems(1,2)] n less.prems(3) obtain m k where m: "fit_loop un (2 * n) = Some m" "unat m = unat (2 * n) * 2 ^ k"
      "unat m \<le> 98304" "m = 2 * n \<or> unat m * unat un \<le> 98304" "98304 < 2 * unat m * unat un"
      unfolding u by auto
    have "fit_loop un n = Some m" using True m(1) by (subst fit_loop.simps) (simp add: word_le_nat_alt u)
    moreover have "unat m = unat n * 2 ^ Suc k" using m(2) by (simp add: u)
    moreover have "unat m * unat un \<le> 98304" using m(4) True by (elim disjE) (simp_all add: u)
    ultimately show ?thesis using m(3,5) by (intro exI [of _ m] conjI exI [of _ "Suc k"]) simp_all
  next
    case False
    then have "fit_loop un n = Some n" by (subst fit_loop.simps) (simp add: word_le_nat_alt u)
    then show ?thesis using False less.prems by (intro exI [of _ n] conjI exI [of _ 0]) simp_all
  qed
qed

text \<open>The largest power of two that keeps a number of units within the budget.\<close>

definition largest_fit :: "u64 \<Rightarrow> u64 \<Rightarrow> bool" where
  "largest_fit n un \<longleftrightarrow> (\<exists>k. unat n = 2 ^ k) \<and> unat n * unat un \<le> unat BLOCK_BUDGET
     \<and> (\<forall>j. 2 ^ j * unat un \<le> unat BLOCK_BUDGET \<longrightarrow> 2 ^ j \<le> unat n)"

lemma largest_fitI:
  assumes "unat n = 2 ^ k" and "unat n * unat un \<le> 98304" and "98304 < 2 * unat n * unat un"
  shows "largest_fit n un"
proof -
  have "2 ^ j \<le> unat n" if "2 ^ j * unat un \<le> 98304" for j
  proof (rule ccontr)
    assume "\<not> 2 ^ j \<le> unat n"
    then have "(2 :: nat) ^ k < 2 ^ j" by (simp add: assms(1))
    then have "Suc k \<le> j" by (simp add: Suc_le_eq)
    then have "(2 :: nat) ^ Suc k \<le> 2 ^ j" by (rule power_increasing) simp
    then have "2 * unat n * unat un \<le> 2 ^ j * unat un" by (intro mult_le_mono1) (simp add: assms(1))
    with that assms(3) show False by linarith
  qed
  then show ?thesis using assms(1,2) by (auto simp: largest_fit_def)
qed

lemma largest_fitD: "largest_fit n un \<Longrightarrow> 0 < n" "largest_fit n un \<Longrightarrow> unat n * unat un \<le> 98304"
  by (auto simp: largest_fit_def word_less_nat_alt)

lemma fit_block_returns:
  assumes "0 < un" and "un \<le> 2 ^ 40"
  shows "\<exists>r. fit_block un = Some r \<and> (case r of None \<Rightarrow> 98304 < unat un
    | Some n \<Rightarrow> largest_fit n un \<and> 98304 < 2 * unat n * unat un)"
proof -
  have un: "0 < unat un" "unat un \<le> 2 ^ 40" using assms by (simp_all add: word_less_nat_alt word_le_nat_alt)
  from fit_loop_returns [OF un, of 1] obtain m k where m: "fit_loop un 1 = Some m" "unat m = unat (1 :: u64) * 2 ^ k" "unat m \<le> 98304"
    "m = 1 \<or> unat m * unat un \<le> 98304" "98304 < 2 * unat m * unat un" by (metis unat_1 zero_less_one one_le_numeral)
  then have k: "unat m = 2 ^ k" by simp
  have "unat m * unat un \<le> 98304 * 2 ^ 40" using m(3) assms(2) by (intro mult_le_mono) (simp_all add: word_le_nat_alt)
  then have u: "unat (m * un) = unat m * unat un" by (simp add: unat_word_ariths)
  show ?thesis
  proof (cases "unat m * unat un \<le> 98304")
    case True
    then have "fit_block un = Some (Some m)" using m(1) un(1) by (simp add: fit_block_def word_le_nat_alt word_less_nat_alt u)
    then show ?thesis using largest_fitI [OF k True m(5)] m(5) by simp
  next
    case False
    then have "fit_block un = Some None" using m(1) by (simp add: fit_block_def word_le_nat_alt u)
    then show ?thesis using False m(4) by auto
  qed
qed

lemma fit_loop_zero: "fit_loop un n = Some m \<Longrightarrow> un \<noteq> 0"
  by (rule fit_loop.raw_induct [where P = "\<lambda>un n m. un \<noteq> 0"]) (auto split: if_splits)

text \<open>C37. Sizes of a phase: for a row and a partial of at least one byte (and at most \<open>2 ^ 40\<close>) \<open>block_params\<close>
  returns, and the number of rows and the number of partials it returns are each the largest power of two that
  stays within the budget, with at least one row and two partials; it returns no sizes only when one row or two
  partials exceed the budget. For a row of no bytes it does not return.\<close>

theorem block_params_fit:
  assumes "0 < rb" and "rb \<le> 2 ^ 40" and "0 < pb" and "pb \<le> 2 ^ 40"
  shows "(\<exists>r. block_params rb pb = Some r \<and> (case r of
        None \<Rightarrow> unat BLOCK_BUDGET < unat rb \<or> unat BLOCK_BUDGET < 2 * unat pb
      | Some (c, b) \<Rightarrow> largest_fit c rb \<and> largest_fit b pb \<and> 0 < c \<and> 2 \<le> b))
    \<and> block_params 0 pb = None"
proof -
  obtain r where r: "fit_block rb = Some r" "case r of None \<Rightarrow> 98304 < unat rb
    | Some n \<Rightarrow> largest_fit n rb \<and> 98304 < 2 * unat n * unat rb" using fit_block_returns [OF assms(1,2)] by blast
  obtain q where q: "fit_block pb = Some q" "case q of None \<Rightarrow> 98304 < unat pb
    | Some n \<Rightarrow> largest_fit n pb \<and> 98304 < 2 * unat n * unat pb" using fit_block_returns [OF assms(3,4)] by blast
  have two: "98304 < 2 * unat pb" if "q = Some n" "\<not> 2 \<le> n" for n
  proof -
    have "unat n \<le> 1" using that(2) by (simp add: word_le_nat_alt)
    then have "unat n * unat pb \<le> 1 * unat pb" by (rule mult_le_mono1)
    moreover have "98304 < 2 * unat n * unat pb" using q(2) that(1) by simp
    ultimately show ?thesis by linarith
  qed
  have "fit_block 0 = None" using fit_loop_zero [of 0 1] by (cases "fit_loop 0 1") (auto simp: fit_block_def)
  then show ?thesis using r q two largest_fitD(1) by (auto simp: block_params_def split: option.splits)
qed

theorem block_params_fit_witness:
  "(\<exists>r. block_params 68 40 = Some r \<and> (case r of
        None \<Rightarrow> 98304 < (68 :: nat) \<or> 98304 < 2 * (40 :: nat)
      | Some (c, b) \<Rightarrow> largest_fit c 68 \<and> largest_fit b 40 \<and> 0 < c \<and> 2 \<le> b))
    \<and> block_params 0 40 = None"
proof -
  have u: "unat (68 :: u64) = 68" "unat (40 :: u64) = 40" "unat BLOCK_BUDGET = 98304" by simp_all
  show ?thesis using block_params_fit [of 68 40, unfolded u] by simp
qed

end
