(* ===== verification/Attn_Check.thy ===== *)
theory Attn_Check
  imports Attn_Blocks Sequence
begin

section \<open>Attention points\<close>

text \<open>
  Model of the attention points of \<open>verifiable-inference/src/chain.rs\<close>: the drawn site, the phases of an
  opening, the checks of grouped-query and latent-cache layers, and the query of the drawn head. A phase commits
  the partials of the children of a node; the next phase opens one of them. The theorem at the end ties two
  phases that follow each other together.
\<close>

definition ATTN_POINT :: u32 where [simp]: "ATTN_POINT = RESID_POINT + 1"

datatype attn_step = AttnDone | AttnNext hash u64 "u16 list"

record attn_site =
  si_ll :: layer_links
  si_a :: attn_links
  si_slot :: u64
  si_t :: u64
  si_d :: "u64 list"
  si_tree :: block_tree
  si_dv :: nat

definition layer_index :: "chain_ctx \<Rightarrow> u32 \<Rightarrow> u64 option" where
  "layer_index ctx i = (if i < layer_base ctx \<or> n_layers ctx \<le> i - layer_base ctx then None else Some (ucast (i - layer_base ctx)))"

text \<open>First position, bytes per cached position and values per partial.\<close>

definition attn_extent :: "attn_links \<Rightarrow> u64 \<Rightarrow> u64 \<times> u64 \<times> nat" where
  "attn_extent a t = (let hd1 = ucast (al_head_dim a) :: u64; w = ucast (swa_window a) :: u64 in
     if mla_rank a \<noteq> 0 then (0, hd1 div 32 * 34, unat (mla_rank a))
     else (if 0 < w \<and> w < t + 1 then t + 1 - w else 0, 2 * (hd1 div 32 * 34), unat hd1))"

definition draw_attn_site :: "blake3 \<Rightarrow> tier_ctx \<Rightarrow> chain_ctx \<Rightarrow> response_ctx \<Rightarrow> hash \<Rightarrow> attn_opening \<Rightarrow> fail + attn_site" where
  "draw_attn_site B tier ctx resp seed op =
     (if n_pos resp = 0 \<or> n_layers ctx = 0 \<or> n_attn ctx = 0 \<or> n_layers ctx < n_attn ctx \<or> seq_heads ctx = 0 then Inl FailUnsupported
      else if seq_trace_root B (ao_pos_root op) (ao_seq_root op) \<noteq> Some (trace_root resp) then Inl FailTrace
      else let d = draw_point B seed ATTN_POINT; slot = d ! 1 mod ucast (n_attn ctx) in
      rbind (ok_or FailManifest (layer_index ctx (eo_index (ao_layer op)))) (\<lambda>layer.
      rbind (open_layer B tier ctx (ao_layer op) layer) (\<lambda>ll.
      rbind (ok_or FailShape (ll_attn ll)) (\<lambda>a.
      if ucast (al_slot a) \<noteq> slot then Inl FailManifest
      else rbind (resid_position ctx resp layer (d ! 0)) (\<lambda>t.
      if softcap a \<noteq> 0 \<or> 1 < v_norm a \<or> 1 < gated a then Inl FailUnsupported
      else if al_head_dim a = 0 \<or> al_head_dim a mod 32 \<noteq> 0 then Inl FailManifest
      else let (start, row, dv) = attn_extent a t in
      rbind (ok_or FailPanicked (block_params row (word_of_nat (partial_len dv)))) (\<lambda>cb.
      rbind (ok_or FailManifest cb) (\<lambda>(c, b).
      rbind (ok_or FailManifest (block_tree_new start (t + 1) c b)) (\<lambda>tree.
        Inr \<lparr>si_ll = ll, si_a = a, si_slot = slot, si_t = t, si_d = d, si_tree = tree, si_dv = dv\<rparr>))))))))"

subsection \<open>Rows and values of the drawn layer\<close>

text \<open>Products of \<open>usize\<close> values that may pass \<open>2 ^ 64\<close> wrap.\<close>

definition usize :: "nat \<Rightarrow> nat" where [simp]: "usize x = x mod 2 ^ 64"

definition gqa_shape :: "attn_links \<Rightarrow> attn_shape" where
  "gqa_shape a = \<lparr>as_n_head = unat (n_head a), as_n_head_kv = unat (n_head_kv a), as_head_dim = unat (al_head_dim a),
     as_rope_kind = rope_kind a, as_n_rot = unat (n_rot a), as_rope_base = f64_of_f32 (rope_base a), as_kq_scale = f64_of_f32 (kq_scale a)\<rparr>"

text \<open>\<open>take\<close> hands the opened weights to the declared indices in order.\<close>

fun take_declared :: "u32 list \<Rightarrow> 'a list \<Rightarrow> 'a option list" where
  "take_declared [] ws = []"
| "take_declared (i # is1) ws = (if i = NONE then None # take_declared is1 ws
     else case ws of [] \<Rightarrow> None # take_declared is1 [] | w # ws \<Rightarrow> Some w # take_declared is1 ws)"

definition gqa_norms :: "blake3 \<Rightarrow> tier_ctx \<Rightarrow> attn_links \<Rightarrow> weights list \<Rightarrow> fail + f32 list option list" where
  "gqa_norms B tier a norms =
     (let hd1 = ucast (al_head_dim a) :: u64;
          decl = filter (\<lambda>(i, k). i \<noteq> NONE) [(q_norm a, hd1), (k_norm a, hd1), (rope_freqs a, ucast (n_rot a div 2))]
      in if length norms \<noteq> length decl then Inl FailShape
         else rbind (rmap (\<lambda>((i, k), w). f32_weights B tier w i k 0 k) (zip decl norms)) (\<lambda>ws.
           Inr (take_declared [q_norm a, k_norm a, rope_freqs a] ws)))"

definition gqa_prep :: "chain_ctx \<Rightarrow> attn_links \<Rightarrow> f32 list option list \<Rightarrow> prep" where
  "gqa_prep ctx a norms = \<lparr>pr_q_norm = norms ! 0, pr_k_norm = norms ! 1, pr_v_norm = (v_norm a = 1), pr_freqs = norms ! 2, pr_eps = cx_eps ctx\<rparr>"

definition gqa_heads :: "attn_site \<Rightarrow> nat \<Rightarrow> fail + nat \<times> nat" where
  "gqa_heads s g = (let d2 = unat (si_d s ! 2); nkv = unat (n_head_kv (si_a s)) in
     if nkv = 0 \<or> g = 0 then Inl FailPanicked
     else let kv = d2 mod nkv in Inr (kv, kv * g + d2 div nkv mod g))"

definition shape_any :: "tier_ctx \<Rightarrow> chain_ctx \<Rightarrow> pos_shape" where "shape_any tier ctx = chain_shape tier ctx 0"

definition seq_layout_of :: "chain_ctx \<Rightarrow> seq_layout" where
  "seq_layout_of ctx = \<lparr>sl_n_attn = ucast (n_attn ctx), sl_n_recur = ucast (n_recur ctx), sl_heads = ucast (seq_heads ctx)\<rparr>"

definition anchor_root :: "blake3 \<Rightarrow> hash \<Rightarrow> u32 \<Rightarrow> u64 \<Rightarrow> pos_shape \<Rightarrow> u64 \<Rightarrow> leaf_chunk list \<Rightarrow> u64 \<Rightarrow> hash list \<Rightarrow> fail + hash" where
  "anchor_root B pr npos p sh leaf cs total1 path =
     rbind (ok_or FailShape (nth_opt cs 0)) (\<lambda>c.
     rbind (chunk_leaf B c total1 (ucast (lc_index c))) (\<lambda>h.
     rbind (ok_or FailTrace (b3_fold B (unat (n_leaves sh)) (unat leaf) h (lc_leaf_path c))) (\<lambda>root.
       if b3_verify B pr (unat npos) (unat p) root path then Inr root else Inl FailTrace)))"

text \<open>Values \<open>[lo, lo + n)\<close> of a leaf, \<open>None\<close> where no opened chunk covers one.\<close>

definition fill_head :: "nat \<Rightarrow> nat \<Rightarrow> f32 list \<Rightarrow> f32 option list \<Rightarrow> f32 option list" where
  "fill_head base lo vals out = foldl (\<lambda>out (j, v). if lo \<le> base + j \<and> base + j - lo < length out then out[base + j - lo := Some v] else out)
     out (enumerate 0 vals)"

fun head_loop :: "blake3 \<Rightarrow> hash \<Rightarrow> pos_shape \<Rightarrow> u64 \<Rightarrow> u64 \<Rightarrow> nat \<Rightarrow> leaf_chunk list \<Rightarrow> f32 option list \<Rightarrow> fail + f32 option list" where
  "head_loop B root sh leaf total1 lo [] out = Inr out"
| "head_loop B root sh leaf total1 lo (c # cs) out =
     rbind (leaf_chunk_values B root sh leaf c total1 (ucast (lc_index c))) (\<lambda>vals.
       head_loop B root sh leaf total1 lo cs (fill_head (unat (lc_index c) * 1024 div 4) lo vals out))"

definition head_from_chunks :: "blake3 \<Rightarrow> hash \<Rightarrow> pos_shape \<Rightarrow> u64 \<Rightarrow> leaf_chunk list \<Rightarrow> u64 \<Rightarrow> nat \<Rightarrow> nat \<Rightarrow> fail + f32 list" where
  "head_from_chunks B root sh leaf cs total1 lo n =
     rbind (head_loop B root sh leaf total1 lo cs (replicate n None)) (\<lambda>out. ok_or FailShape (those out))"

definition cache_rows :: "blake3 \<Rightarrow> chain_ctx \<Rightarrow> hash \<Rightarrow> u64 option \<Rightarrow> u64 \<Rightarrow> u64 \<Rightarrow> u64 \<Rightarrow> u64 \<Rightarrow> seq_span \<Rightarrow> fail + bytes list" where
  "cache_rows B ctx sr leaf npos hd1 p0 p1 span = (let bb = hd1 div 32 * 34 in
     rbind (ok_or FailShape leaf) (\<lambda>leaf.
     rbind (ok_or FailTrace (open_span B sr (seq_layout_of ctx) leaf (npos * bb) (p0 * bb) (p1 * bb) span)) (\<lambda>b.
       Inr (chunks_exact (unat bb) b))))"

definition dequant_head :: "bytes \<Rightarrow> nat \<Rightarrow> fail + f32 list" where
  "dequant_head row hd1 = ok_or FailShape (dequant_row Q8_0 row hd1)"

definition committed_lse :: "blake3 \<Rightarrow> chain_ctx \<Rightarrow> attn_opening \<Rightarrow> attn_site \<Rightarrow> u64 \<Rightarrow> nat \<Rightarrow> nat \<Rightarrow> nat \<Rightarrow> fail + f32" where
  "committed_lse B ctx op s npos kv g qi = (let sl = seq_layout_of ctx; g = word_of_nat g in
     rbind (ok_or FailShape (lse sl (si_slot s) (word_of_nat kv))) (\<lambda>leaf.
     let lo = (si_t s * g + word_of_nat qi) * 4 in
     rbind (ok_or FailTrace (open_span B (ao_seq_root op) sl leaf (npos * g * 4) lo (lo + 4) (ao_lse op))) (\<lambda>b.
       if length b \<noteq> 4 then Inl FailShape else Inr (le_u32 b))))"

definition q8_0_block_ok :: "f64 \<Rightarrow> bytes \<Rightarrow> f64 list \<Rightarrow> bool" where
  "q8_0_block_ok vmax blk vals = (let d = half_read blk 0; q = slice blk 2 32 in
     f32_finite d \<and> canonical d q
     \<and> (if f32_eq d 0 then list_all (\<lambda>a. f64_le (f64_abs a) (f64_mul (f64_lit 1 1000000) vmax)) vals
        else list_all (\<lambda>(j, a). f64_le (f64_abs (f64_sub (f64_of_int (sint (q ! j))) (f64_div a (f64_of_f32 d)))) THRESHOLD)
          (enumerate 0 vals)))"

definition q8_0_matches :: "bytes \<Rightarrow> f64 list \<Rightarrow> bool" where
  "q8_0_matches b v \<longleftrightarrow> length b = up_div (length v) 32 * 34
     \<and> list_all (\<lambda>(blk, vals). q8_0_block_ok (max_abs v) blk vals) (zip (chunks_exact 34 b) (chunks 32 v))"

definition out_root :: "blake3 \<Rightarrow> tier_ctx \<Rightarrow> chain_ctx \<Rightarrow> response_ctx \<Rightarrow> attn_opening \<Rightarrow> attn_site \<Rightarrow> u32 \<Rightarrow> u32 \<Rightarrow> fail + u8 \<times> hash" where
  "out_root B tier ctx resp op s rank wt =
     (let layout = layout_for (expected_ubatch (si_t s) (n_prompt resp)) wt in
      rbind (ok_or FailTrace (b3_fold B (unat (n_leaves (shape_any tier ctx))) (unat (2 * ucast rank :: u64))
          (b3_hash B (lb_bytes (ao_out op))) (lb_leaf_path (ao_out op)))) (\<lambda>root.
        if b3_verify B (ao_pos_root op) (unat (n_pos resp)) (unat (si_t s)) root (ao_pos_path op) then Inr (layout, root) else Inl FailTrace))"

subsection \<open>Queries\<close>

definition q_leaf :: "attn_links \<Rightarrow> u64" where "q_leaf a = 2 * ucast (al_q a) + 1"

definition gqa_query :: "libm \<Rightarrow> blake3 \<Rightarrow> tier_ctx \<Rightarrow> chain_ctx \<Rightarrow> response_ctx \<Rightarrow> attn_opening \<Rightarrow> attn_site \<Rightarrow> fail + f64 list" where
  "gqa_query L B tier ctx resp op s =
     (let a = si_a s; shp = gqa_shape a; hd1 = as_head_dim shp; qw = 1 + unat (gated a); psh = shape_any tier ctx in
      rbind (ok_or FailManifest (shape_group shp)) (\<lambda>g.
      rbind (open_entry B tier (ao_q_entry op) (ucast (al_q a))) (\<lambda>qe.
      if unat (en_m qe) \<noteq> usize (as_n_head shp * hd1 * qw) then Inl FailManifest
      else rbind (gqa_norms B tier a (ao_norms op)) (\<lambda>norms.
      let p = gqa_prep ctx a norms in
      if \<not> prep_fits p shp then Inl FailManifest
      else rbind (anchor_root B (ao_pos_root op) (n_pos resp) (si_t s) psh (q_leaf a) (ao_q op) (4 * en_m qe) (ao_pos_path op)) (\<lambda>root.
      rbind (gqa_heads s g) (\<lambda>(kv, qh).
      rbind (head_from_chunks B root psh (q_leaf a) (ao_q op) (4 * en_m qe) (usize (qh * hd1 * qw)) hd1) (\<lambda>raw.
        ok_or FailPanicked (prep_query L p shp raw (si_t s)))))))))"

definition mla_query :: "blake3 \<Rightarrow> tier_ctx \<Rightarrow> chain_ctx \<Rightarrow> response_ctx \<Rightarrow> attn_opening \<Rightarrow> attn_site \<Rightarrow> fail + f64 list" where
  "mla_query B tier ctx resp op s =
     (let a = si_a s; nh = unat (n_head a); hd1 = unat (al_head_dim a); r = unat (mla_rank a); rope = hd1 - r; psh = shape_any tier ctx in
      if hd1 < r \<or> r mod 32 \<noteq> 0 \<or> nh = 0 then Inl FailManifest
      else rbind (open_entry B tier (ao_q_entry op) (ucast (al_q a))) (\<lambda>qe.
      if unat (en_m qe) mod nh \<noteq> 0 then Inl FailManifest
      else let w = unat (en_m qe) div nh in
      if w \<le> rope then Inl FailManifest
      else let qh = unat (si_d s ! 2) mod nh in
      rbind (anchor_root B (ao_pos_root op) (n_pos resp) (si_t s) psh (q_leaf a) (ao_q op) (4 * en_m qe) (ao_pos_path op)) (\<lambda>root.
      rbind (head_from_chunks B root psh (2 * ucast (al_absorb a) + 1) (ao_absorb op) (4 * word_of_nat (nh * r)) (qh * r) r) (\<lambda>q1.
      rbind (head_from_chunks B root psh (q_leaf a) (ao_q op) (4 * en_m qe) (qh * w + (w - rope)) rope) (\<lambda>q2.
        Inr (map f64_of_f32 (q1 @ q2)))))))"

definition attn_query :: "libm \<Rightarrow> blake3 \<Rightarrow> tier_ctx \<Rightarrow> chain_ctx \<Rightarrow> response_ctx \<Rightarrow> hash \<Rightarrow> attn_opening \<Rightarrow> fail + f64 list \<times> f64" where
  "attn_query L B tier ctx resp seed op = rbind (draw_attn_site B tier ctx resp seed op) (\<lambda>s.
     rbind (if mla_rank (si_a s) \<noteq> 0 then mla_query B tier ctx resp op s else gqa_query L B tier ctx resp op s) (\<lambda>q.
       Inr (q, f64_of_f32 (kq_scale (si_a s)))))"

subsection \<open>The checks of a grouped-query layer\<close>

definition seq_span_default :: seq_span where
  "seq_span_default = \<lparr>ss_first_chunk = 0, ss_bytes = [], ss_chunk_proof = [], ss_leaf_path = []\<rparr>"

definition entry_opening_default :: entry_opening where
  "entry_opening_default = \<lparr>eo_index = 0, eo_bytes = [], eo_path = []\<rparr>"

definition leaf_bytes_default :: leaf_bytes where "leaf_bytes_default = \<lparr>lb_bytes = [], lb_leaf_path = []\<rparr>"

definition expect :: "fail \<Rightarrow> bool \<Rightarrow> fail + unit" where "expect e ok = (if ok then Inr () else Inl e)"

text \<open>The root of the drawn position, reached from the attention-output input in a root phase, and its layout.\<close>

definition gqa_root :: "blake3 \<Rightarrow> tier_ctx \<Rightarrow> chain_ctx \<Rightarrow> response_ctx \<Rightarrow> attn_opening \<Rightarrow> attn_site \<Rightarrow> u64 list \<Rightarrow> u64 \<Rightarrow> fail + hash \<times> u8" where
  "gqa_root B tier ctx resp op s path m =
     (let a = si_a s; shp = gqa_shape a in
      if path = [] then
        rbind (open_entry B tier (ao_o_entry op) (ucast (ll_proj (si_ll s)))) (\<lambda>oe.
        if unat (en_k oe) \<noteq> as_n_head shp * as_head_dim shp then Inl FailManifest
        else rbind (out_root B tier ctx resp op s (ll_proj (si_ll s)) (wtype oe)) (\<lambda>(layout, root).
        if length (lb_bytes (ao_out op)) \<noteq> unat (x_len (en_k oe) layout) then Inl FailShape else Inr (root, layout)))
      else rbind (anchor_root B (ao_pos_root op) (n_pos resp) (si_t s) (shape_any tier ctx) (q_leaf a) (ao_q op) (4 * m) (ao_pos_path op)) (\<lambda>root.
        Inr (root, 0)))"

definition gqa_children :: "libm \<Rightarrow> blake3 \<Rightarrow> tier_ctx \<Rightarrow> chain_ctx \<Rightarrow> response_ctx \<Rightarrow> attn_opening \<Rightarrow> attn_site \<Rightarrow> hash \<Rightarrow> u8 \<Rightarrow> u64 \<Rightarrow> nat \<Rightarrow> nat \<Rightarrow> nat \<Rightarrow> partial list \<Rightarrow> fail + unit" where
  "gqa_children L B tier ctx resp op s root layout m g kv qh ch =
     (let a = si_a s; shp = gqa_shape a; hd1 = as_head_dim shp; qw = 1 + unat (gated a) in
      rbind (if 1 < qw then rbind (head_from_chunks B root (shape_any tier ctx) (q_leaf a) (ao_q op) (4 * m) (usize (qh * hd1 * qw + hd1)) hd1) (\<lambda>g. Inr (Some g))
             else Inr None) (\<lambda>gate.
      rbind (committed_lse B ctx op s (ucast (n_pos resp)) kv g (qh - kv * g)) (\<lambda>mass.
        expect FailMismatch (check_root_lse L (lb_bytes (ao_out op)) layout (as_n_head shp * hd1) qh ch gate mass))))"

text \<open>The output of a whole opening: under some kernel rounding the partial of all attended positions is the
  committed output and mass.\<close>

definition gqa_whole :: "libm \<Rightarrow> blake3 \<Rightarrow> tier_ctx \<Rightarrow> chain_ctx \<Rightarrow> response_ctx \<Rightarrow> attn_opening \<Rightarrow> attn_site \<Rightarrow> prep \<Rightarrow> hash \<Rightarrow> u8 \<Rightarrow> u64 \<Rightarrow> nat \<Rightarrow> nat \<Rightarrow> nat
    \<Rightarrow> f32 list list \<Rightarrow> f32 list list \<Rightarrow> fail + bool" where
  "gqa_whole L B tier ctx resp op s p root layout m g kv qh keys values =
     (let a = si_a s; shp = gqa_shape a; hd1 = as_head_dim shp; qw = 1 + unat (gated a) in
      rbind (head_from_chunks B root (shape_any tier ctx) (q_leaf a) (ao_q op) (4 * m) (usize (qh * hd1 * qw)) (hd1 * qw)) (\<lambda>raw.
      rbind (ok_or FailPanicked (prep_query L p shp (take hd1 raw) (si_t s))) (\<lambda>q.
      let gate = (if 1 < qw then Some (drop hd1 raw) else None) in
      rbind (committed_lse B ctx op s (ucast (n_pos resp)) kv g (qh - kv * g)) (\<lambda>mass.
        Inr (list_ex (\<lambda>ar. case partial_of L ar q (as_kq_scale shp) keys values of None \<Rightarrow> False
          | Some pa \<Rightarrow> check_root_lse L (lb_bytes (ao_out op)) layout (as_n_head shp * hd1) qh [pa] gate mass) ARITHS)))))"

text \<open>The cached key and value of one attended position are the quantized projections of that position.\<close>

definition gqa_anchor :: "libm \<Rightarrow> blake3 \<Rightarrow> tier_ctx \<Rightarrow> chain_ctx \<Rightarrow> response_ctx \<Rightarrow> attn_opening \<Rightarrow> attn_site \<Rightarrow> prep \<Rightarrow> nat \<Rightarrow> u64 \<Rightarrow> bytes \<Rightarrow> bytes \<Rightarrow> fail + unit" where
  "gqa_anchor L B tier ctx resp op s p kv ps krow vrow =
     (let a = si_a s; shp = gqa_shape a; hd1 = as_head_dim shp; psh = shape_any tier ctx;
          kv_total = 4 * word_of_nat (as_n_head_kv shp * hd1); kl = 2 * ucast (al_k a) + 1; vl = 2 * ucast (al_v a) + 1 in
      rbind (anchor_root B (ao_pos_root op) (n_pos resp) ps psh kl (anchor_k op) kv_total (anchor_pos_path op)) (\<lambda>root.
      rbind (head_from_chunks B root psh kl (anchor_k op) kv_total (kv * hd1) hd1) (\<lambda>kp.
      rbind (if al_v a = al_k a then (if anchor_v op \<noteq> [] then Inl FailShape else Inr kp)
             else head_from_chunks B root psh vl (anchor_v op) kv_total (kv * hd1) hd1) (\<lambda>vp.
      rbind (ok_or FailPanicked (prep_key L p shp kp ps)) (\<lambda>kc.
      rbind (ok_or FailPanicked (prep_value L p vp)) (\<lambda>vc.
        expect FailMismatch (q8_0_matches krow kc \<and> q8_0_matches vrow vc)))))))"

text \<open>The attended row drawn for the anchor: position \<open>p0 + d3 mod (p1 - p0)\<close>.\<close>

definition anchor_row :: "attn_site \<Rightarrow> u64 \<Rightarrow> u64 \<Rightarrow> fail + u64" where
  "anchor_row s p0 p1 = (if p1 - p0 = 0 then Inl FailPanicked else Inr (si_d s ! 3 mod (p1 - p0)))"

definition gqa_phase :: "libm \<Rightarrow> blake3 \<Rightarrow> tier_ctx \<Rightarrow> chain_ctx \<Rightarrow> response_ctx \<Rightarrow> attn_opening \<Rightarrow> attn_site \<Rightarrow> u64 list \<Rightarrow> partial option \<Rightarrow> partial list option \<Rightarrow> fail + unit" where
  "gqa_phase L B tier ctx resp op s path parent children =
     (let a = si_a s; shp = gqa_shape a; hd1 = as_head_dim shp; qw = 1 + unat (gated a); w = ucast (al_head_dim a); sl = seq_layout_of ctx in
      if al_absorb a \<noteq> NONE \<or> al_out a \<noteq> NONE \<or> ao_absorb op \<noteq> [] then Inl FailShape
      else rbind (ok_or FailManifest (shape_group shp)) (\<lambda>g.
      rbind (gqa_heads s g) (\<lambda>(kv, qh).
      rbind (open_entry B tier (ao_q_entry op) (ucast (al_q a))) (\<lambda>qe.
      if unat (en_m qe) \<noteq> usize (as_n_head shp * hd1 * qw) then Inl FailManifest
      else rbind (gqa_root B tier ctx resp op s path (en_m qe)) (\<lambda>(root, layout).
      case children of Some ch \<Rightarrow> gqa_children L B tier ctx resp op s root layout (en_m qe) g kv qh ch
      | None \<Rightarrow>
      rbind (gqa_norms B tier a (ao_norms op)) (\<lambda>norms.
      let p = gqa_prep ctx a norms in
      if \<not> prep_fits p shp then Inl FailManifest
      else rbind (ok_or FailShape (bt_node (si_tree s) path)) (\<lambda>(p0, p1).
      rbind (cache_rows B ctx (ao_seq_root op) (kcache sl (si_slot s) (word_of_nat kv)) (ucast (n_pos resp)) w p0 p1 (ao_kcache op)) (\<lambda>krows.
      rbind (cache_rows B ctx (ao_seq_root op) (vcache sl (si_slot s) (word_of_nat kv)) (ucast (n_pos resp)) w p0 p1 (ao_vcache op)) (\<lambda>vrows.
      rbind (rmap (\<lambda>r. dequant_head r hd1) krows) (\<lambda>keys.
      rbind (rmap (\<lambda>r. dequant_head r hd1) vrows) (\<lambda>values.
      rbind (case parent of Some pa \<Rightarrow> rbind (gqa_query L B tier ctx resp op s) (\<lambda>q. Inr (check_leaf L q (as_kq_scale shp) keys values pa))
             | None \<Rightarrow> gqa_whole L B tier ctx resp op s p root layout (en_m qe) g kv qh keys values) (\<lambda>ok.
      rbind (expect FailMismatch ok) (\<lambda>_.
      rbind (anchor_row s p0 p1) (\<lambda>i.
      rbind (ok_or FailPanicked (nth_opt krows (unat i))) (\<lambda>krow.
      rbind (ok_or FailPanicked (nth_opt vrows (unat i))) (\<lambda>vrow.
        gqa_anchor L B tier ctx resp op s p kv (p0 + i) krow vrow))))))))))))))))"

subsection \<open>The checks of a latent-cache layer\<close>

text \<open>The guards on the layer's links, and the width of the rotary part.\<close>

definition mla_links_ok :: "attn_links \<Rightarrow> fail + nat" where
  "mla_links_ok a = (let hd1 = unat (al_head_dim a); r = unat (mla_rank a) in
     if hd1 < r \<or> r mod 32 \<noteq> 0 then Inl FailManifest
     else if n_head_kv a \<noteq> 1 \<or> n_rot a \<noteq> 0 \<or> swa_window a \<noteq> 0 \<or> gated a \<noteq> 0 \<or> v_norm a \<noteq> 0 \<or> q_norm a \<noteq> NONE \<or> rope_freqs a \<noteq> NONE
     then Inl FailUnsupported
     else if al_v a \<noteq> NONE \<or> k_norm a = NONE \<or> al_absorb a = NONE \<or> n_head a = 0 then Inl FailManifest
     else Inr (hd1 - r))"

text \<open>The drawn head's part of the attention-output input in a root phase, and its layout.\<close>

definition mla_out :: "blake3 \<Rightarrow> tier_ctx \<Rightarrow> chain_ctx \<Rightarrow> response_ctx \<Rightarrow> attn_opening \<Rightarrow> attn_site \<Rightarrow> u64 list \<Rightarrow> nat \<Rightarrow> fail + (bytes \<times> u8) option" where
  "mla_out B tier ctx resp op s path qh =
     (let a = si_a s; nh = unat (n_head a); rank = (if al_out a = NONE then ll_proj (si_ll s) else al_out a) in
      if path \<noteq> [] then Inr None
      else rbind (open_entry B tier (ao_o_entry op) (ucast rank)) (\<lambda>oe.
      if unat (en_k oe) \<noteq> unat (mla_rank a) \<or> unat (n_exp oe) \<noteq> nh \<or> en_role oe \<noteq> ROLE_HEADS then Inl FailManifest
      else rbind (out_root B tier ctx resp op s rank (wtype oe)) (\<lambda>(layout, root).
      let x1 = unat (x_len (en_k oe) layout) in
      if length (lb_bytes (ao_out op)) \<noteq> usize (nh * x1) then Inl FailShape
      else rbind (ok_or FailPanicked (get_range (lb_bytes (ao_out op)) (usize (qh * x1)) (usize ((qh + 1) * x1)))) (\<lambda>x.
        Inr (Some (x, layout))))))"

definition mla_whole :: "libm \<Rightarrow> blake3 \<Rightarrow> chain_ctx \<Rightarrow> response_ctx \<Rightarrow> attn_opening \<Rightarrow> attn_site \<Rightarrow> f64 list \<Rightarrow> f32 list list \<Rightarrow> f32 list list \<Rightarrow> bytes \<Rightarrow> u8 \<Rightarrow> nat \<Rightarrow> fail + bool" where
  "mla_whole L B ctx resp op s q keys values x layout qh =
     (let a = si_a s in
      rbind (committed_lse B ctx op s (ucast (n_pos resp)) 0 (unat (n_head a)) qh) (\<lambda>mass.
        Inr (list_ex (\<lambda>ar. case partial_of L ar q (f64_of_f32 (kq_scale a)) keys values of None \<Rightarrow> False
          | Some p \<Rightarrow> f64_le (f64_abs (f64_sub (partial_lse L p) (f64_of_f32 mass))) (root_lse_tol (pa_m p))
              \<and> root_within x layout (unat (mla_rank a)) 0 (pa_o p)) ARITHS)))"

definition mla_anchor :: "libm \<Rightarrow> blake3 \<Rightarrow> tier_ctx \<Rightarrow> chain_ctx \<Rightarrow> response_ctx \<Rightarrow> attn_opening \<Rightarrow> attn_site \<Rightarrow> f32 list \<Rightarrow> u64 \<Rightarrow> bytes \<Rightarrow> fail + unit" where
  "mla_anchor L B tier ctx resp op s kn ps row =
     (let a = si_a s; hd1 = unat (al_head_dim a); r = unat (mla_rank a); psh = shape_any tier ctx; kl = 2 * ucast (al_k a) + 1; w = 4 * ucast (al_head_dim a) in
      rbind (anchor_root B (ao_pos_root op) (n_pos resp) ps psh kl (anchor_k op) w (anchor_pos_path op)) (\<lambda>root.
      rbind (head_from_chunks B root psh kl (anchor_k op) w 0 hd1) (\<lambda>kv.
      let key = map f64_of_f32 kv in
      rbind (ok_or FailPanicked (head_rms_norm L (take r key) (Some kn) (cx_eps ctx))) (\<lambda>latent.
        expect FailMismatch (q8_0_matches row (latent @ drop r key))))))"

definition mla_phase :: "libm \<Rightarrow> blake3 \<Rightarrow> tier_ctx \<Rightarrow> chain_ctx \<Rightarrow> response_ctx \<Rightarrow> attn_opening \<Rightarrow> attn_site \<Rightarrow> u64 list \<Rightarrow> partial option \<Rightarrow> partial list option \<Rightarrow> fail + unit" where
  "mla_phase L B tier ctx resp op s path parent children =
     (let a = si_a s; nh = unat (n_head a); hd1 = unat (al_head_dim a); r = unat (mla_rank a); scale = f64_of_f32 (kq_scale a) in
      rbind (mla_links_ok a) (\<lambda>rope.
      rbind (open_entry B tier (ao_q_entry op) (ucast (al_q a))) (\<lambda>qe.
      if unat (en_m qe) mod nh \<noteq> 0 \<or> unat (en_m qe) div nh \<le> rope then Inl FailManifest
      else if anchor_v op \<noteq> [] \<or> ao_vcache op \<noteq> seq_span_default then Inl FailShape
      else let qh = unat (si_d s ! 2) mod nh in
      rbind (mla_out B tier ctx resp op s path qh) (\<lambda>out.
      case children of Some ch \<Rightarrow>
        rbind (ok_or FailShape out) (\<lambda>(x, layout).
        rbind (committed_lse B ctx op s (ucast (n_pos resp)) 0 nh qh) (\<lambda>mass.
          expect FailMismatch (check_root_lse L x layout r 0 ch None mass)))
      | None \<Rightarrow>
      rbind (if length (ao_norms op) = 1 then Inr (hd (ao_norms op)) else Inl FailShape) (\<lambda>w.
      rbind (f32_weights B tier w (k_norm a) (ucast (mla_rank a)) 0 (ucast (mla_rank a))) (\<lambda>kn.
      rbind (mla_query B tier ctx resp op s) (\<lambda>q.
      rbind (ok_or FailShape (bt_node (si_tree s) path)) (\<lambda>(p0, p1).
      rbind (cache_rows B ctx (ao_seq_root op) (kcache (seq_layout_of ctx) (si_slot s) 0) (ucast (n_pos resp)) (ucast (al_head_dim a)) p0 p1 (ao_kcache op)) (\<lambda>rows.
      rbind (rmap (\<lambda>row. dequant_head row hd1) rows) (\<lambda>keys.
      let values = map (take r) keys in
      rbind (case (parent, out) of
          (Some pa, _) \<Rightarrow> Inr (check_leaf L q scale keys values pa)
        | (None, Some (x, layout)) \<Rightarrow> mla_whole L B ctx resp op s q keys values x layout qh
        | (None, None) \<Rightarrow> Inr False) (\<lambda>ok.
      rbind (expect FailMismatch ok) (\<lambda>_.
      rbind (anchor_row s p0 p1) (\<lambda>i.
      rbind (ok_or FailPanicked (nth_opt rows (unat i))) (\<lambda>row.
        mla_anchor L B tier ctx resp op s kn (p0 + i) row))))))))))))))"

subsection \<open>A phase\<close>

text \<open>What an opening may hold at \<open>path\<close>; every other field is the default.\<close>

definition attn_keep :: "attn_opening \<Rightarrow> bool \<Rightarrow> bool \<Rightarrow> attn_opening" where
  "attn_keep op first final =
     \<lparr>ao_response_txid = ao_response_txid op, ao_pos_root = ao_pos_root op, ao_seq_root = ao_seq_root op, ao_layer = ao_layer op,
      ao_q_entry = (if first \<or> final then ao_q_entry op else entry_opening_default),
      ao_o_entry = (if first then ao_o_entry op else entry_opening_default),
      ao_norms = (if final then ao_norms op else []),
      ao_pos_path = (if first \<or> final then ao_pos_path op else []),
      ao_q = (if first \<or> final then ao_q op else []),
      ao_out = (if first then ao_out op else leaf_bytes_default),
      ao_kcache = (if final then ao_kcache op else seq_span_default),
      ao_vcache = (if final then ao_vcache op else seq_span_default),
      anchor_pos_path = (if final then anchor_pos_path op else []),
      anchor_k = (if final then anchor_k op else []),
      anchor_v = (if final then anchor_v op else []),
      ao_absorb = (if final then ao_absorb op else []),
      ao_path = ao_path op, ao_parent = ao_parent op, ao_parent_path = ao_parent_path op,
      ao_partials = (if final then [] else ao_partials op),
      ao_lse = (if first then ao_lse op else seq_span_default)\<rparr>"

text \<open>The partial the previous phase committed for the node of \<open>path\<close>.\<close>

definition attn_parent :: "blake3 \<Rightarrow> attn_site \<Rightarrow> u64 list \<Rightarrow> hash option \<Rightarrow> attn_opening \<Rightarrow> fail + partial option" where
  "attn_parent B s path parent_root op =
     (if path = [] \<and> parent_root = None then (if ao_parent op = [] \<and> ao_parent_path op = [] then Inr None else Inl FailShape)
      else case parent_root of None \<Rightarrow> Inl FailShape
      | Some root \<Rightarrow> if path = [] then Inl FailShape
        else rbind (ok_or FailShape (bt_children (si_tree s) (butlast path))) (\<lambda>cs.
             rbind (ok_or FailTrace (open_partial B root (word_of_nat (length cs)) (last path) (ao_parent op) (ao_parent_path op) (si_dv s))) (\<lambda>p.
               Inr (Some p))))"

definition attn_children :: "attn_site \<Rightarrow> u64 list \<Rightarrow> attn_opening \<Rightarrow> fail + partial list" where
  "attn_children s path op = rbind (ok_or FailShape (bt_children (si_tree s) path)) (\<lambda>cs.
     case decode_partials (ao_partials op) (si_dv s) of None \<Rightarrow> Inl FailShape
     | Some ps \<Rightarrow> if length ps = length cs then Inr ps else Inl FailShape)"

definition attn_step_of :: "libm \<Rightarrow> blake3 \<Rightarrow> attn_site \<Rightarrow> attn_opening \<Rightarrow> partial list option \<Rightarrow> fail + attn_step" where
  "attn_step_of L B s op children = (case children of None \<Rightarrow> Inr AttnDone
     | Some ch \<Rightarrow> rbind (ok_or FailShape (partials_root B (ao_partials op) (si_dv s))) (\<lambda>root.
         rbind (ok_or FailShape (child_weights L ch)) (\<lambda>ws. Inr (AttnNext root (word_of_nat (length ch)) ws))))"

definition verify_attn_phase :: "libm \<Rightarrow> blake3 \<Rightarrow> tier_ctx \<Rightarrow> chain_ctx \<Rightarrow> response_ctx \<Rightarrow> hash \<Rightarrow> u64 list \<Rightarrow> hash option \<Rightarrow> attn_opening \<Rightarrow> fail + attn_step" where
  "verify_attn_phase L B tier ctx resp seed path parent_root op =
     rbind (draw_attn_site B tier ctx resp seed op) (\<lambda>s.
     rbind (ok_or FailPanicked (bt_depth (si_tree s))) (\<lambda>depth.
     if ao_path op \<noteq> path \<or> depth < length path then Inl FailShape
     else rbind (attn_parent B s path parent_root op) (\<lambda>parent.
     let final = (length path = depth) in
     if op \<noteq> attn_keep op (path = []) final then Inl FailShape
     else rbind (if final then Inr None else rbind (attn_children s path op) (\<lambda>ch. Inr (Some ch))) (\<lambda>children.
     rbind (case (parent, children) of
         (Some p, Some ch) \<Rightarrow> expect FailMismatch (check_node L p ch)
       | _ \<Rightarrow> if mla_rank (si_a s) \<noteq> 0 then mla_phase L B tier ctx resp op s path parent children
              else gqa_phase L B tier ctx resp op s path parent children) (\<lambda>_.
       attn_step_of L B s op children)))))"

definition verify_attn_point :: "libm \<Rightarrow> blake3 \<Rightarrow> tier_ctx \<Rightarrow> chain_ctx \<Rightarrow> response_ctx \<Rightarrow> hash \<Rightarrow> attn_opening \<Rightarrow> fail + unit" where
  "verify_attn_point L B tier ctx resp seed op =
     rbind (verify_attn_phase L B tier ctx resp seed [] None op) (\<lambda>st.
       case st of AttnDone \<Rightarrow> Inr () | AttnNext _ _ _ \<Rightarrow> Inl FailUnsupported)"

subsection \<open>Phases that follow each other\<close>

lemma those_nth:
  assumes "those (map f xs) = Some ys"
  shows "length ys = length xs" and "i < length ys \<Longrightarrow> f (xs ! i) = Some (ys ! i)"
  using assms by (induction xs arbitrary: ys i) (auto simp: nth_Cons split: option.splits nat.splits)

lemma decode_partials_Some:
  assumes "decode_partials b d = Some ps"
  shows "0 < d" and "b \<noteq> []" and "length b mod partial_len d = 0"
    and "length ps = length (chunks_exact (partial_len d) b)"
    and "i < length ps \<Longrightarrow> decode_partial d (chunks_exact (partial_len d) b ! i) = Some (ps ! i)"
proof -
  have r: "those (map (decode_partial d) (chunks_exact (partial_len d) b)) = Some ps" and
    g: "0 < d" "b \<noteq> []" "length b mod partial_len d = 0"
    using assms by (auto simp: decode_partials_def split: if_splits)
  show "0 < d" "b \<noteq> []" "length b mod partial_len d = 0" using g .
  note n = those_nth [OF r]
  show "length ps = length (chunks_exact (partial_len d) b)" by (rule n(1))
  show "i < length ps \<Longrightarrow> decode_partial d (chunks_exact (partial_len d) b ! i) = Some (ps ! i)" by (rule n(2))
qed

lemma chunks_exact_one: "length b = n \<Longrightarrow> 0 < n \<Longrightarrow> chunks_exact n b = [b]"
  by (cases "b = []") (simp_all add: chunks_exact_def chunks.simps [of n b])

lemma open_partial_Some:
  assumes "open_partial B root n i b path d = Some p" and "0 < d"
  shows "b3_verify B root (unat n) (unat i) (b3_hash B b) path" and "decode_partial d b = Some p"
proof -
  obtain ps where ps: "length b = partial_len d" "b3_verify B root (unat n) (unat i) (b3_hash B b) path"
    "decode_partials b d = Some ps" "ps \<noteq> []" "p = last ps"
    using assms(1) by (auto simp: open_partial_def split: if_splits bind_splits)
  have c: "chunks_exact (partial_len d) b = [b]" using ps(1) by (intro chunks_exact_one) (simp_all add: partial_len_def)
  have l: "length ps = 1" using decode_partials_Some(4) [OF ps(3)] by (simp add: c)
  show "b3_verify B root (unat n) (unat i) (b3_hash B b) path" by (rule ps(2))
  have "decode_partial d b = Some (ps ! 0)" using decode_partials_Some(5) [OF ps(3), of 0] l by (simp add: c)
  then show "decode_partial d b = Some p" using l ps(5) by (cases ps) simp_all
qed

lemma bt_children_length: "bt_children t path = Some cs \<Longrightarrow> length cs < 2 ^ 64"
proof -
  have "unat x < 2 ^ 64" for x :: u64 using unsigned_less [of x] by simp
  then show "bt_children t path = Some cs \<Longrightarrow> length cs < 2 ^ 64"
    by (auto simp: bt_children_def split: if_splits bind_splits)
qed

lemma attn_children_Some:
  assumes "attn_children s path op = Inr ch"
  obtains cs where "bt_children (si_tree s) path = Some cs" and "length ch = length cs"
    and "decode_partials (ao_partials op) (si_dv s) = Some ch" and "length ch < 2 ^ 64"
proof -
  obtain cs where cs: "bt_children (si_tree s) path = Some cs" "length ch = length cs"
    "decode_partials (ao_partials op) (si_dv s) = Some ch"
    using assms by (fastforce simp: attn_children_def rbind_Inr split: option.splits)
  show thesis using that [OF cs] bt_children_length [OF cs(1)] cs(2) by simp
qed

lemma child_weights_range:
  assumes "child_weights L parts = Some ws"
  shows "length ws = length parts" and "0 \<notin> set ws" and "parts \<noteq> []"
proof -
  show "length ws = length parts" "parts \<noteq> []"
    using assms by (auto simp: child_weights_def Let_def split: if_splits)
  have "(ucast (min 65535 (max 1 x)) :: u16) \<noteq> 0" for x :: u64
  proof
    let ?m = "min 65535 (max 1 x)"
    have m: "1 \<le> unat ?m" "unat ?m < 2 ^ 16" by (simp_all add: min_def max_def word_le_nat_alt)
    have "unat (ucast ?m :: u16) = take_bit 16 (unat ?m)" by (simp add: unsigned_ucast_eq)
    also have "\<dots> = unat ?m" using m(2) by (rule take_bit_nat_eq_self)
    finally have "1 \<le> unat (ucast ?m :: u16)" using m(1) by simp
    moreover assume "(ucast ?m :: u16) = 0"
    ultimately show False by simp
  qed
  then show "0 \<notin> set ws"
    using assms by (auto simp: child_weights_def Let_def split: if_splits)
qed

lemma weighted_pick_range:
  "weighted_pick ws b x = Some i \<Longrightarrow> b + length ws \<le> 2 ^ 64 \<Longrightarrow> b \<le> unat i \<and> unat i < b + length ws"
proof (induction ws arbitrary: b x)
  case (Cons w ws)
  show ?case
  proof (cases "x < w")
    case True
    then show ?thesis using Cons.prems by (auto simp: unat_of_nat take_bit_nat_eq_self)
  next
    case False
    then have "weighted_pick ws (b + 1) (x - w) = Some i" using Cons.prems(1) by simp
    from Cons.IH [OF this] Cons.prems(2) show ?thesis by simp
  qed
qed simp

lemma draw_weighted_child_range:
  assumes "ws \<noteq> []" and "length ws < 2 ^ 64"
  shows "unat (draw_weighted_child B rand ws) < length ws"
proof -
  let ?n = "word_of_nat (length ws) :: u64"
  have l: "0 < length ws" using assms(1) by simp
  then have m: "max (length ws) 1 = length ws" by linarith
  have n: "unat ?n = length ws" using assms(2) by (simp add: unat_of_nat take_bit_nat_eq_self)
  then have "1 \<le> ?n" using l by (simp only: word_le_nat_alt unat_1)
  from unat_sub [OF this] have "unat (?n - 1) < length ws" unfolding n using l by simp
  moreover have "unat (r mod ?n) < length ws" for r unfolding unat_mod n using l by simp
  moreover have "unat i < length ws" if "weighted_pick (map ucast ws) 0 x = Some i" for x i
    using weighted_pick_range [OF that] assms(2) by simp
  ultimately show ?thesis
    unfolding draw_weighted_child_def Let_def m by (simp split: option.split)
qed

lemma ucast_less_64: "unat (w :: u32) < 2 ^ 64"
  by (rule less_trans [OF unsigned_less]) simp

lemma unat_less_32: "unat (w :: u32) < 2 ^ 32"
proof -
  have "unat w < 2 ^ LENGTH(32)" by (rule unsigned_less)
  then show ?thesis by simp
qed

text \<open>The tree of a drawn site is one over the positions up to the drawn one.\<close>

lemma resid_position_less: "resid_position ctx resp layer d = Inr t \<Longrightarrow> t < ucast (n_pos resp)"
proof -
  assume a: "resid_position ctx resp layer d = Inr t"
  let ?np = "ucast (n_pos resp) :: u64" and ?f = "ucast (n_prompt resp) - 1 :: u64"
  have *: "x + d mod (?np - x) < ?np" if "x < ?np" for x :: u64
  proof -
    have s: "unat (?np - x) = unat ?np - unat x" using that by (simp add: unat_sub word_le_nat_alt word_less_nat_alt)
    have "unat (d mod (?np - x)) < unat ?np - unat x" using that by (simp add: unat_mod s word_less_nat_alt)
    moreover have "unat ?np < 2 ^ 64" using unsigned_less [of ?np] by simp
    ultimately show ?thesis by (simp add: word_less_nat_alt unat_word_ariths)
  qed
  have m: "d mod ?np < ?np" if "?np \<noteq> 0" using *[of 0] that by (simp add: word_neq_0_conv)
  show ?thesis using a *[of ?f] m
    by (auto simp: resid_position_def Let_def not_le split: if_splits)
qed

lemma fit_block_small:
  assumes "fit_block un = Some (Some n)" and "0 < un" and "un \<le> 2 ^ 40"
  shows "n \<le> 98304"
proof -
  have n: "0 < n \<and> unat n * unat un \<le> 98304" using fit_block_returns [OF assms(2,3)] assms(1) largest_fitD by auto
  have "1 \<le> unat un" using assms(2) by (simp add: word_less_nat_alt)
  then have "unat n * 1 \<le> unat n * unat un" by (rule mult_le_mono2)
  then have "unat n \<le> 98304" using n by linarith
  then show ?thesis by (simp add: word_le_nat_alt)
qed

lemma attn_extent_row:
  assumes "attn_extent a t = (start, row, dv)" and "al_head_dim a \<noteq> 0" and "al_head_dim a mod 32 = 0"
  shows "0 < row" and "row \<le> 2 ^ 40"
proof -
  have u: "unat (ucast (al_head_dim a) :: u64) = unat (al_head_dim a)"
    using ucast_less_64 [of "al_head_dim a"] by (simp add: unsigned_ucast_eq take_bit_nat_eq_self)
  from arg_cong [OF assms(3), of unat] have "unat (al_head_dim a) mod 32 = 0" by (simp add: unat_mod)
  moreover have "0 < unat (al_head_dim a)" using assms(2) by (simp add: unat_gt_0)
  ultimately have q: "0 < unat (al_head_dim a) div 32" by (simp add: div_greater_zero_iff mod_greater_zero_iff_not_dvd dvd_imp_le mod_0_imp_dvd)
  have "unat (al_head_dim a) div 32 \<le> 2 ^ 32 div 32" using unat_less_32 [of "al_head_dim a"] by (intro div_le_mono) simp
  then have b: "unat (al_head_dim a) div 32 \<le> 2 ^ 27" by simp
  have r: "unat (ucast (al_head_dim a) div 32 * 34 :: u64) = unat (al_head_dim a) div 32 * 34"
    "unat (2 * (ucast (al_head_dim a) div 32 * 34) :: u64) = 2 * (unat (al_head_dim a) div 32 * 34)"
    using b by (simp_all add: unat_word_ariths unat_div u)
  show "0 < row" "row \<le> 2 ^ 40" using assms(1) q b r
    by (auto simp: attn_extent_def Let_def word_less_nat_alt word_le_nat_alt split: if_splits)
qed

lemma draw_attn_site_tree:
  assumes "draw_attn_site B tier ctx resp seed op = Inr s"
  shows "bt_ok (si_tree s)" and "bt_hi (si_tree s) = si_t s + 1" and "si_t s < ucast (n_pos resp)"
proof -
  obtain layer d a cb where
    t: "resid_position ctx resp layer d = Inr (si_t s)" and hd: "al_head_dim a \<noteq> 0" "al_head_dim a mod 32 = 0"
    and p: "block_params (fst (snd (attn_extent a (si_t s)))) (word_of_nat (partial_len (snd (snd (attn_extent a (si_t s)))))) = Some (Some cb)"
    and tr': "block_tree_new (fst (attn_extent a (si_t s))) (si_t s + 1) (fst cb) (snd cb) = Some (si_tree s)"
    using assms by (auto simp: draw_attn_site_def Let_def rbind_Inr case_prod_unfold del: mod_0_imp_dvd)
  obtain start row dv c b where e: "attn_extent a (si_t s) = (start, row, dv)" and cb: "block_params row (word_of_nat (partial_len dv)) = Some (Some (c, b))"
    and tr: "block_tree_new start (si_t s + 1) c b = Some (si_tree s)"
    using p tr' by (cases "attn_extent a (si_t s)"; cases cb) auto
  show l: "si_t s < ucast (n_pos resp)" by (rule resid_position_less [OF t])
  have f: "fit_block row = Some (Some c)" "2 \<le> b"
    using cb by (auto simp: block_params_def split: option.splits if_splits bind_splits)
  have c: "c \<le> 98304" using fit_block_small [OF f(1) attn_extent_row [OF e hd]] .
  have "unat (si_t s) < 2 ^ 32" using l unat_less_32 [of "n_pos resp"] ucast_less_64 [of "n_pos resp"]
    by (simp add: word_less_nat_alt unsigned_ucast_eq take_bit_nat_eq_self)
  then have h: "si_t s + 1 \<le> 2 ^ 32" by (simp add: word_le_nat_alt unat_word_ariths)
  have "si_tree s = \<lparr>bt_lo = start, bt_hi = si_t s + 1, bt_c = c, bt_b = b\<rparr>" "start < si_t s + 1" "1 \<le> c"
    using tr by (auto simp: block_tree_new_def split: if_splits)
  then show "bt_hi (si_tree s) = si_t s + 1" "bt_ok (si_tree s)"
    using f(2) h c by (simp_all add: bt_ok_def word_less_nat_alt word_le_nat_alt)
qed

text \<open>What a phase with children leaves for the next one.\<close>

lemma attn_step_next:
  assumes "attn_children s path op = Inr ch" and "attn_step_of L B s op (Some ch) = Inr (AttnNext root n ws)"
  shows "length ws = length ch" and "0 \<notin> set ws" and "ch \<noteq> []" and "unat n = length ch" and "length ch < 2 ^ 64"
    and "partials_root B (ao_partials op) (si_dv s) = Some root"
proof -
  obtain cs where cs: "decode_partials (ao_partials op) (si_dv s) = Some ch" "length ch < 2 ^ 64"
    by (rule attn_children_Some [OF assms(1)])
  have st: "partials_root B (ao_partials op) (si_dv s) = Some root" "child_weights L ch = Some ws" "n = word_of_nat (length ch)"
    using assms(2) by (auto simp: attn_step_of_def rbind_Inr)
  show "length ws = length ch" "0 \<notin> set ws" "ch \<noteq> []" using child_weights_range [OF st(2)] by simp_all
  show "unat n = length ch" "length ch < 2 ^ 64" using cs(2) st(3) by (simp_all add: unat_of_nat take_bit_nat_eq_self)
  show "partials_root B (ao_partials op) (si_dv s) = Some root" by (rule st(1))
qed

text \<open>C20. Attention phases: after a phase that commits the partials of the children of a node, the child drawn under
  the weights it returns exists, whatever the randomness: its index is below the number of partials, every weight
  is positive, and the child is a node of the tree with at least one attended position, at or before the drawn
  one.\<close>

theorem attn_child_drawn:
  assumes "bt_ok (si_tree s)" and "bt_hi (si_tree s) = si_t s + 1"
    and "attn_children s path op = Inr ch" and "attn_step_of L B s op (Some ch) = Inr (AttnNext root n ws)"
  shows "0 \<notin> set ws \<and> length ws = unat n \<and> draw_weighted_child B rand ws < n
    \<and> (\<exists>p q. bt_node (si_tree s) (path @ [draw_weighted_child B rand ws]) = Some (p, q) \<and> p < q \<and> q \<le> si_t s + 1)"
proof -
  note st = attn_step_next [OF assms(3,4)]
  obtain cs where cs: "bt_children (si_tree s) path = Some cs" "length ch = length cs" by (rule attn_children_Some [OF assms(3)])
  obtain d where d: "bt_depth (si_tree s) = Some d" by (rule bt_depth_returns [OF assms(1)])
  obtain a z where r: "leaf_range (si_tree s) path = Some (a, z)" "length path < d"
    using cs(1) d by (auto simp: bt_children_def split: if_splits bind_splits)
  let ?i = "draw_weighted_child B rand ws"
  have "ws \<noteq> []" using st(1,3) by auto
  then have i: "unat ?i < length ch" using draw_weighted_child_range [of ws B rand] st(1,5) by simp
  have "bt_node (si_tree s) (path @ [?i]) = Some (cs ! unat ?i)"
    using children_of_range [OF assms(1) d r] cs i by auto
  moreover have "fst (cs ! unat ?i) < snd (cs ! unat ?i) \<and> snd (cs ! unat ?i) \<le> snd (bt_positions (si_tree s) a z)"
    using children_of_range [OF assms(1) d r] cs i tiles_nth by auto
  moreover have "snd (bt_positions (si_tree s) a z) \<le> si_t s + 1" by (simp add: bt_positions_def Let_def assms(2))
  ultimately show ?thesis using st(1,2,4) i by (cases "cs ! unat ?i") (auto simp: word_less_nat_alt)
qed

text \<open>C7. Attention phases: the partial a later phase opens for the drawn child, and checks against that child's own
  children or attended rows, is the partial the phase before committed for that child, unless the opening
  exhibits two different inputs of BLAKE3 with one hash.\<close>

theorem attn_phases_linked:
  assumes "attn_children s path op = Inr ch" and "attn_step_of L B s op (Some ch) = Inr (AttnNext root n ws)"
    and "attn_parent B s (path @ [i]) (Some root) op' = Inr (Some p)"
  shows "i < n \<and> (p = ch ! unat i
    \<or> (let c = chunks_exact (partial_len (si_dv s)) (ao_partials op); b = ao_parent op' in
        b \<noteq> c ! unat i \<and> (b3_hash B b = b3_hash B (c ! unat i)
          \<or> path_clash B (map (b3_hash B) c) (unat i) (b3_hash B b) (ao_parent_path op'))))"
proof -
  note st = attn_step_next [OF assms(1,2)]
  obtain cs where cs: "bt_children (si_tree s) path = Some cs" "length ch = length cs"
    "decode_partials (ao_partials op) (si_dv s) = Some ch" by (rule attn_children_Some [OF assms(1)])
  note dp = decode_partials_Some [OF cs(3)]
  let ?c = "chunks_exact (partial_len (si_dv s)) (ao_partials op)" and ?b = "ao_parent op'"
  have "open_partial B root (word_of_nat (length ch)) i ?b (ao_parent_path op') (si_dv s) = Some p"
    using assms(3) cs(1,2) by (auto simp: attn_parent_def rbind_Inr)
  note op = open_partial_Some [OF this dp(1)]
  have l: "unat (word_of_nat (length ch) :: u64) = length (map (b3_hash B) ?c)"
    using st(5) dp(4) by (simp add: unat_of_nat take_bit_nat_eq_self)
  have "b3_root B (map (b3_hash B) ?c) = Some root"
    using st(6) dp by (auto simp: partials_root_def partial_leaves_def split: if_splits)
  from b3_leaf_sound [OF this] op(1) have i: "unat i < length ?c"
    and h: "b3_hash B ?b = map (b3_hash B) ?c ! unat i \<or> path_clash B (map (b3_hash B) ?c) (unat i) (b3_hash B ?b) (ao_parent_path op')"
    unfolding l using st(5) dp(4) by simp_all
  have "p = ch ! unat i" if "?b = ?c ! unat i" using dp(5) [of "unat i"] op(2) i dp(4) that by simp
  then show ?thesis using h i dp(4) st(4) by (auto simp: Let_def word_less_nat_alt)
qed

subsection \<open>A concrete phase\<close>

text \<open>Two positions, one per leaf, and two partials of one value, 0 and 1.\<close>

definition toy_attn_libm :: libm where
  "toy_attn_libm = \<lparr>lm_exp = (\<lambda>_. f64_of_int 1), lm_tanh = id, lm_sqrt = id, lm_log1p = id, lm_log = id, lm_sin = id, lm_cos = id, lm_pow = (\<lambda>a b. a)\<rparr>"

definition toy_partials :: "bytes list" where
  "toy_partials = [[0, 0, 0, 0, 0, 0, 0, 0, 0x80, 0x3f], [0, 0x3c, 0, 0, 0, 0, 0, 0, 0x80, 0x3f]]"

definition toy_children :: "partial list" where
  "toy_children = [\<lparr>pa_o = [0], pa_m = 0, pa_l = 0x3ff0000000000000\<rparr>, \<lparr>pa_o = [0x3ff0000000000000], pa_m = 0, pa_l = 0x3ff0000000000000\<rparr>]"

definition toy_tree :: block_tree where "toy_tree = \<lparr>bt_lo = 0, bt_hi = 2, bt_c = 1, bt_b = 2\<rparr>"

definition toy_attn_links :: attn_links where
  "toy_attn_links = \<lparr>al_q = 0, al_k = 0, al_v = 0, q_norm = 0, k_norm = 0, n_head = 1, n_head_kv = 1, al_head_dim = 32, rope_kind = 0,
     n_rot = 0, rope_base = 0, kq_scale = 0, swa_window = 0, softcap = 0, rope_freqs = 0, v_norm = 0, gated = 0, al_slot = 0,
     mla_rank = 0, al_absorb = 0, al_out = 0\<rparr>"

definition toy_site :: attn_site where
  "toy_site = \<lparr>si_ll = \<lparr>ll_layer = 0, ll_proj = 0, ll_down = 0, post_attn = 0, post_ffn = 0, ll_scale = 0, ll_moe = None,
       ll_attn = Some toy_attn_links, ll_recur = None\<rparr>,
     si_a = toy_attn_links, si_slot = 0, si_t = 1, si_d = [0, 0, 0, 0], si_tree = toy_tree, si_dv = 1\<rparr>"

definition toy_attn_opening :: "u64 list \<Rightarrow> bytes \<Rightarrow> bytes \<Rightarrow> hash list \<Rightarrow> attn_opening" where
  "toy_attn_opening path partials parent pp =
     \<lparr>ao_response_txid = 0, ao_pos_root = 0, ao_seq_root = 0, ao_layer = entry_opening_default, ao_q_entry = entry_opening_default,
      ao_o_entry = entry_opening_default, ao_norms = [], ao_pos_path = [], ao_q = [], ao_out = leaf_bytes_default,
      ao_kcache = seq_span_default, ao_vcache = seq_span_default, anchor_pos_path = [], anchor_k = [], anchor_v = [], ao_absorb = [],
      ao_path = path, ao_parent = parent, ao_parent_path = pp, ao_partials = partials, ao_lse = seq_span_default\<rparr>"

definition toy_phase :: attn_opening where "toy_phase = toy_attn_opening [] (concat toy_partials) [] []"
definition toy_next_phase :: attn_opening where
  "toy_next_phase = toy_attn_opening [1] [] (toy_partials ! 1) [b3_hash toy_blake3 (toy_partials ! 0)]"

text \<open>The length of a numeral, digit by digit.\<close>

lemma bitlen_numeral: "bitlen (numeral (num.Bit0 n)) = bitlen (numeral n) + 1" "bitlen (numeral (num.Bit1 n)) = bitlen (numeral n) + 1" "bitlen (Suc 0) = 1"
  by (simp_all add: bitlen.simps [of "numeral _"] bitlen.simps [of "Suc 0"] del: One_nat_def)

lemmas fp_eval = f64_mul_def f64_add_def f64_div_def f64_le_def f64_of_f32_def f64_of_int_def d64_def e64_def d32_def e32_def
  fp_encode_def fp_decode_def fp_round_def fp_of_int_def fp_emin_def fp_bias_def sign_bit_def signed_def bitlen_numeral
  round_shift_def f64_finite_def fp_finite_def

lemma half_eval: "half_read [0, 0, a, b, c, d, e, f, g, h] 0 = 0" "half_read [0, 0x3c, a, b, c, d, e, f, g, h] 0 = 0x3f800000"
  by (simp_all add: half_read_def to_f32_def le_u16_def)

lemma const_eval: "f64_of_f32 0 = 0" "f64_of_f32 0x3f800000 = 0x3ff0000000000000" "f64_of_int 1 = 0x3ff0000000000000"
  "f64_finite 0" "f64_finite 0x3ff0000000000000" "f64_le 0x3ff0000000000000 0x3ff0000000000000"
  by (simp_all add: fp_eval)

lemma weight_eval_1: "f64_mul 0x3ff0000000000000 0x3ff0000000000000 = 0x3ff0000000000000" "f64_mul 0x3ff0000000000000 0 = 0" "f64_add 0x8000000000000000 0x3ff0000000000000 = 0x3ff0000000000000"
  by (simp_all add: fp_eval)

lemma weight_eval_2: "f64_add 0x8000000000000000 0 = 0" "f64_add 0x3ff0000000000000 0x3ff0000000000000 = 0x4000000000000000" "f64_add 0 0x3ff0000000000000 = 0x3ff0000000000000"
  by (simp_all add: fp_eval)

lemma weight_eval_3: "f64_div (f64_div 0x3ff0000000000000 0x4000000000000000) (f64_of_int 1024) = 0x3f40000000000000"
  by (simp_all add: fp_eval)

lemma weight_eval_4: "f64_add 0 0x3f40000000000000 = 0x3f40000000000000" "f64_mul 0x3ff0000000000000 0x3f40000000000000 = 0x3f40000000000000"
  by (simp_all add: fp_eval)

lemma weight_eval_5: "f64_add 0x3ff0000000000000 0x3f40000000000000 = 0x3ff0020000000000" "f64_mul 0x3ff0000000000000 0x3ff0020000000000 = 0x3ff0020000000000"
  by (simp_all add: fp_eval)

lemma weight_eval_6: "f64_add 0x8000000000000000 0x3f40000000000000 = 0x3f40000000000000" "f64_add 0x3f40000000000000 0x3ff0020000000000 = 0x3ff0040000000000"
  by (simp_all add: fp_eval)

lemma weight_eval_7: "f64_finite 0x4000000000000000" "f64_finite 0x3ff0040000000000"
  "\<not> f64_le 0x4000000000000000 0" "\<not> f64_le 0x3ff0040000000000 0"
  by (simp_all add: fp_eval)

lemmas weight_eval = weight_eval_1 weight_eval_2 weight_eval_3 weight_eval_4 weight_eval_5 weight_eval_6 weight_eval_7

lemma toy_decoded: "map (decode_partial (Suc 0)) toy_partials = map Some toy_children"
  by (simp add: toy_partials_def toy_children_def decode_partial_def half_eval const_eval le_u32_def)

lemma toy_chunks: "chunks_exact (partial_len (Suc 0)) (concat toy_partials) = toy_partials"
  by (simp add: toy_partials_def partial_len_def chunks_exact_def chunks.simps)

lemma toy_children_decoded: "decode_partials (concat toy_partials) (Suc 0) = Some toy_children"
  unfolding decode_partials_def toy_chunks toy_decoded by (simp add: toy_partials_def partial_len_def)

lemma toy_weights: "\<exists>w v. child_weights toy_attn_libm toy_children = Some [w, v]"
proof -
  have m: "max_of_ms toy_children = 0"
    by (simp add: max_of_ms_def toy_children_def f64_max_def f64_neg_inf_def f64_nan_def f64_lt_def fp_lt_def fp_eval)
  have p: "max_abs [0] = 0" "max_abs [0x3ff0000000000000] = 0x3ff0000000000000"
    by (simp_all add: max_abs_def f64_abs_def f64_max_def f64_nan_def f64_lt_def fp_lt_def fp_eval take_bit_eq_mod)
  show ?thesis unfolding child_weights_def m
    by (simp add: toy_children_def toy_attn_libm_def const_eval weight_eval p f64_sum_def)
qed

lemma toy_depth: "bt_depth toy_tree = Some 1"
  by (simp add: bt_depth_def toy_tree_def bt_n_leaves_def depth_loop.simps saturating_mul64_def)

lemma toy_tree_children: "bt_children toy_tree [] = Some [(0, 1), (1, 2)]"
  by (simp add: bt_children_def toy_depth leaf_range_def leaves_per_node_def saturating_pow64_def)
    (simp add: toy_tree_def bt_n_leaves_def div_ceil64_def bt_positions_def upt_rec)

lemma toy_attn_children: "attn_children toy_site [] toy_phase = Inr toy_children"
  by (simp add: attn_children_def toy_site_def toy_tree_children toy_phase_def toy_attn_opening_def toy_children_decoded)
    (simp add: toy_children_def)

definition toy_root :: hash where
  "toy_root = b3_merge toy_blake3 (b3_hash toy_blake3 (toy_partials ! 0)) (b3_hash toy_blake3 (toy_partials ! 1)) True"

lemma toy_attn_step: "\<exists>w v. attn_step_of toy_attn_libm toy_blake3 toy_site toy_phase (Some toy_children) = Inr (AttnNext toy_root 2 [w, v])"
proof -
  have "partials_root toy_blake3 (concat toy_partials) (Suc 0) = Some toy_root"
    unfolding partials_root_def partial_leaves_def toy_chunks
    by (simp add: toy_partials_def partial_len_def b3_root.simps b3_level_eq nth_opt_def toy_root_def)
  moreover have "(word_of_nat (length toy_children) :: u64) = 2" by (simp add: toy_children_def)
  ultimately show ?thesis using toy_weights
    by (auto simp: attn_step_of_def toy_site_def toy_phase_def toy_attn_opening_def)
qed

theorem attn_child_drawn_witness:
  "\<exists>n ws. attn_step_of toy_attn_libm toy_blake3 toy_site toy_phase (Some toy_children) = Inr (AttnNext toy_root n ws)
    \<and> 0 \<notin> set ws \<and> length ws = unat n \<and> draw_weighted_child toy_blake3 5 ws < n
    \<and> (\<exists>p q. bt_node toy_tree [draw_weighted_child toy_blake3 5 ws] = Some (p, q) \<and> p < q \<and> q \<le> 2)"
proof -
  obtain w v where st: "attn_step_of toy_attn_libm toy_blake3 toy_site toy_phase (Some toy_children) = Inr (AttnNext toy_root 2 [w, v])"
    using toy_attn_step by blast
  have "bt_ok (si_tree toy_site)" "bt_hi (si_tree toy_site) = si_t toy_site + 1" by (simp_all add: toy_site_def toy_tree_def bt_ok_def)
  from attn_child_drawn [OF this toy_attn_children st, of 5] st show ?thesis
    by (intro exI [of _ 2] exI [of _ "[w, v]"]) (simp add: toy_site_def)
qed

theorem attn_phases_linked_witness:
  "\<exists>p. attn_parent toy_blake3 toy_site [1] (Some toy_root) toy_next_phase = Inr (Some p) \<and> p = toy_children ! 1 \<and> (1 :: u64) < 2"
proof -
  obtain w v where st: "attn_step_of toy_attn_libm toy_blake3 toy_site toy_phase (Some toy_children) = Inr (AttnNext toy_root 2 [w, v])"
    using toy_attn_step by blast
  let ?b = "toy_partials ! 1"
  have l: "length ?b = 10" "?b \<noteq> []" by (simp_all add: toy_partials_def)
  have "decode_partials ?b 1 = Some [toy_children ! 1]"
    using toy_decoded l chunks_exact_one [of ?b 10] by (simp add: decode_partials_def partial_len_def toy_partials_def toy_children_def)
  moreover have "b3_verify toy_blake3 toy_root 2 1 (b3_hash toy_blake3 ?b) [b3_hash toy_blake3 (toy_partials ! 0)]"
    by (simp add: b3_verify_def b3_fold_def b3_fold_loop.simps toy_root_def)
  ultimately have p: "attn_parent toy_blake3 toy_site ([] @ [1]) (Some toy_root) toy_next_phase = Inr (Some (toy_children ! 1))"
    using l by (simp add: attn_parent_def toy_site_def toy_tree_children open_partial_def toy_next_phase_def toy_attn_opening_def partial_len_def)
  have c: "chunks_exact (partial_len (si_dv toy_site)) (ao_partials toy_phase) = toy_partials"
    by (simp add: toy_site_def toy_phase_def toy_attn_opening_def toy_chunks)
  have b: "ao_parent toy_next_phase = ?b" by (simp add: toy_next_phase_def toy_attn_opening_def)
  have "(1 :: u64) < 2 \<and> toy_children ! 1 = toy_children ! unat (1 :: u64)"
    using attn_phases_linked [OF toy_attn_children st p] unfolding c b Let_def by simp
  then show ?thesis using p by simp
qed

end
