(* ===== verification/Recurrence.thy ===== *)
theory Recurrence
  imports Attn_Check
begin

section \<open>Recurrent points\<close>

text \<open>
  Model of \<open>verifiable-inference/src/recur.rs\<close>: the drawn segment of a recurrent layer, the recomputation of
  its delta rule over the opened records from a committed state, and the anchor of one record in the committed
  projections and the layer output. Vectors are lists; the lemmas on lengths show that every index read is in
  range. The refinement theorem replaces the opened bytes by the committed ones.
\<close>

definition RECUR_POINT :: u32 where [simp]: "RECUR_POINT = ATTN_POINT + 1"
definition RECUR_ROWS :: u64 where [simp]: "RECUR_ROWS = 16"
definition RECUR_TOL :: f64 where "RECUR_TOL = f64_div (f64_of_int 1) (f64_of_int 64)"
definition RECUR_V_MAX :: f64 where "RECUR_V_MAX = f64_of_int 1024"
definition RECUR_OUT_MAX :: f64 where "RECUR_OUT_MAX = f64_of_int 2"
definition RECUR_OUT_SPARE :: nat where [simp]: "RECUR_OUT_SPARE = 4"
definition F16_MIN_STEP :: f64 where "F16_MIN_STEP = f64_div (f64_of_int 1) (f64_of_int 16777216)"

subsection \<open>Numbers\<close>

definition square_sum :: "f64 list \<Rightarrow> f64" where "square_sum xs = f64_sum (map (\<lambda>x. f64_mul x x) xs)"

definition recur_rms :: "libm \<Rightarrow> f32 list \<Rightarrow> f64" where
  "recur_rms L v = lm_sqrt L (f64_div (square_sum (map f64_of_f32 v)) (f64_of_int (int (max (length v) 1))))"

definition close_to :: "f64 \<Rightarrow> f64 \<Rightarrow> f64 \<Rightarrow> bool" where
  "close_to x want sc \<longleftrightarrow> f64_finite x
     \<and> f64_le (f64_abs (f64_sub x want)) (f64_add (f64_mul RECUR_TOL (f64_add (f64_abs want) sc)) F16_MIN_STEP)"

definition all_close :: "libm \<Rightarrow> f64 list \<Rightarrow> f32 list \<Rightarrow> bool" where
  "all_close L x want \<longleftrightarrow> length x = length want \<and> list_all (\<lambda>(a, b). close_to a (f64_of_f32 b) (recur_rms L want)) (zip x want)"

definition sigmoid :: "libm \<Rightarrow> f64 \<Rightarrow> f64" where
  "sigmoid L x = f64_div (f64_of_int 1) (f64_add (f64_of_int 1) (lm_exp L (f64_neg x)))"

definition softplus :: "libm \<Rightarrow> f64 \<Rightarrow> f64" where
  "softplus L x = (if f64_lt (f64_of_int 20) x then x else lm_log1p L (lm_exp L x))"

definition l2_norm :: "libm \<Rightarrow> f64 list \<Rightarrow> f64 \<Rightarrow> f64 list" where
  "l2_norm L x eps = (let r = f64_div (f64_of_int 1) (lm_sqrt L (f64_max (square_sum x) (f64_mul eps eps))) in map (\<lambda>a. f64_mul a r) x)"

definition chunk_values :: "blake3 \<Rightarrow> pos_shape \<Rightarrow> u64 \<Rightarrow> leaf_chunk \<Rightarrow> u64 \<Rightarrow> u64 \<Rightarrow> nat \<Rightarrow> fail + hash \<times> f32 list" where
  "chunk_values B sh leaf c total1 off n =
     (let o1 = unat (off mod 256) in
      if 256 < o1 + n then Inl FailManifest
      else rbind (chunk_leaf B c total1 (off div 256)) (\<lambda>h.
      rbind (ok_or FailTrace (b3_fold B (unat (n_leaves sh)) (unat leaf) h (lc_leaf_path c))) (\<lambda>root.
      rbind (ok_or FailShape (get_range (f32s (lc_chunk c)) o1 (o1 + n))) (\<lambda>v. Inr (root, v)))))"

subsection \<open>The drawn segment\<close>

record recur_site =
  rs_proj :: u32
  rs_links :: recur_links
  rs_slot :: u64
  rs_h :: u64
  rs_hk :: u64
  rs_s :: u64
  rs_c :: u64
  rs_e :: u64
  rs_r0 :: u64
  rs_p :: u64

definition recur_kind_ok :: "recur_links \<Rightarrow> bool" where
  "recur_kind_ok r \<longleftrightarrow> (rl_kind r = RECUR_GDA \<or> rl_kind r = RECUR_KDA) \<and> 1 \<le> conv_len r \<and> conv_len r \<le> 8 \<and> rl_interval r \<noteq> 0"

definition recur_heads_ok :: "recur_links \<Rightarrow> u32 \<Rightarrow> bool" where
  "recur_heads_ok r heads \<longleftrightarrow> rl_head_dim r \<noteq> 0 \<and> rl_head_dim r mod 32 = 0 \<and> rl_head_dim r mod 16 = 0
     \<and> n_k_heads r \<noteq> 0 \<and> n_v_heads r mod n_k_heads r = 0 \<and> n_v_heads r \<le> heads \<and> (rl_kind r = RECUR_KDA \<longrightarrow> n_k_heads r = n_v_heads r)"

text \<open>The draws \<open>d\<close> pick head, segment, rows and anchor position. A layer without value heads panics.\<close>

definition recur_site_of :: "recur_links \<Rightarrow> u32 \<Rightarrow> u64 \<Rightarrow> u64 \<Rightarrow> u64 list \<Rightarrow> fail + recur_site" where
  "recur_site_of r proj slot np d =
     (let nv = ucast (n_v_heads r) :: u64; nk = ucast (n_k_heads r); iv = ucast (rl_interval r); hd1 = ucast (rl_head_dim r) in
      if nv = 0 then Inl FailPanicked
      else let h = d ! 2 mod nv; s = d ! 0 mod div_ceil64 np iv; c = s * iv; e = min ((s + 1) * iv) np in
      Inr \<lparr>rs_proj = proj, rs_links = r, rs_slot = slot, rs_h = h, rs_hk = h mod nk, rs_s = s, rs_c = c, rs_e = e,
           rs_r0 = d ! 3 mod (hd1 div RECUR_ROWS) * RECUR_ROWS, rs_p = c + drop_bit 32 (d ! 3) mod (e - c)\<rparr>)"

definition draw_recur_site :: "blake3 \<Rightarrow> tier_ctx \<Rightarrow> chain_ctx \<Rightarrow> response_ctx \<Rightarrow> hash \<Rightarrow> recur_opening \<Rightarrow> fail + recur_site" where
  "draw_recur_site B tier ctx resp seed op =
     (if n_pos resp = 0 \<or> n_recur ctx = 0 \<or> seq_heads ctx = 0 then Inl FailUnsupported
      else if seq_trace_root B (rc_pos_root op) (rc_seq_root op) \<noteq> Some (trace_root resp) then Inl FailTrace
      else let d = draw_point B seed RECUR_POINT; slot = d ! 1 mod ucast (n_recur ctx) in
      rbind (ok_or FailManifest (layer_index ctx (eo_index (rc_layer op)))) (\<lambda>layer.
      rbind (open_layer B tier ctx (rc_layer op) layer) (\<lambda>ll.
      rbind (ok_or FailShape (ll_recur ll)) (\<lambda>r.
      if ucast (rl_slot r) \<noteq> slot then Inl FailManifest
      else if \<not> recur_kind_ok r then Inl FailUnsupported
      else if \<not> recur_heads_ok r (seq_heads ctx) then Inl FailManifest
      else recur_site_of r (ll_proj ll) slot (ucast (n_pos resp)) d))))"

subsection \<open>The delta rule over a segment\<close>

definition is_kda :: "recur_site \<Rightarrow> bool" where "is_kda s \<longleftrightarrow> rl_kind (rs_links s) = RECUR_KDA"

definition head_width :: "recur_site \<Rightarrow> nat" where "head_width s = unat (rl_head_dim (rs_links s))"

definition record_decay :: "libm \<Rightarrow> bool \<Rightarrow> nat \<Rightarrow> delta_record \<Rightarrow> f64 list" where
  "record_decay L kda hd1 rec = (if kda then map (\<lambda>x. lm_exp L (f64_of_f32 x)) (dr_g rec)
     else replicate hd1 (lm_exp L (f64_of_f32 (dr_g rec ! 0))))"

definition vector_norm :: "libm \<Rightarrow> f64 list \<Rightarrow> f64" where "vector_norm L x = lm_sqrt L (square_sum x)"

definition record_sane :: "libm \<Rightarrow> delta_record \<Rightarrow> bool" where
  "record_sane L rec = (let top = f64_add (f64_of_int 1) RECUR_TOL; beta = f64_of_f32 (dr_beta rec) in
     \<not> f64_lt top (vector_norm L (map f64_of_f32 (dr_q rec))) \<and> \<not> f64_lt top (vector_norm L (map f64_of_f32 (dr_k rec)))
     \<and> f64_le 0 beta \<and> f64_le beta top \<and> list_all (\<lambda>x. f32_le x 0) (dr_g rec)
     \<and> list_all (\<lambda>x. f64_le (f64_of_f32 (f32_abs x)) RECUR_V_MAX) (dr_v rec))"

text \<open>One state row after a record: the new row, or \<open>None\<close> where the recorded output is not close to it.\<close>

definition row_step :: "libm \<Rightarrow> nat \<Rightarrow> f64 list \<Rightarrow> delta_record \<Rightarrow> f64 \<Rightarrow> nat \<Rightarrow> f64 list \<Rightarrow> f64 list option" where
  "row_step L hd1 g rec out_scale col row =
     (let k = map f64_of_f32 (dr_k rec); q = map f64_of_f32 (dr_q rec);
          kv = f64_sum (map (\<lambda>i. f64_mul (f64_mul (g ! i) (row ! i)) (k ! i)) [0..<hd1]);
          delta = f64_mul (f64_sub (f64_of_f32 (dr_v rec ! col)) kv) (f64_of_f32 (dr_beta rec));
          row = map (\<lambda>i. f64_add (f64_mul (g ! i) (row ! i)) (f64_mul (k ! i) delta)) [0..<hd1];
          o1 = f64_mul (f64_sum (map (\<lambda>i. f64_mul (row ! i) (q ! i)) [0..<hd1])) out_scale;
          bound = f64_mul (f64_mul out_scale (vector_norm L q)) (vector_norm L row)
      in if close_to o1 (f64_of_f32 (dr_o rec ! col)) bound then Some row else None)"

fun run_records :: "libm \<Rightarrow> bool \<Rightarrow> nat \<Rightarrow> nat \<Rightarrow> delta_record list \<Rightarrow> f64 list list \<Rightarrow> fail + f64 list list" where
  "run_records L kda hd1 r0 [] st = Inr st"
| "run_records L kda hd1 r0 (rec # recs) st =
     (if \<not> record_sane L rec then Inl FailMismatch
      else let g = record_decay L kda hd1 rec; out_scale = f64_div (f64_of_int 1) (lm_sqrt L (f64_of_int (int hd1))) in
        rbind (ok_or FailMismatch (those (map (\<lambda>(ri, row). row_step L hd1 g rec out_scale (r0 + ri) row) (enumerate 0 st)))) (\<lambda>st.
          run_records L kda hd1 r0 recs st))"

text \<open>The records of a segment and the rows of a checkpoint, from their bytes.\<close>

definition decode_records :: "recur_site \<Rightarrow> bytes \<Rightarrow> delta_record list option" where
  "decode_records s b = those (map (record_decode (rl_kind (rs_links s)) (head_width s))
     (chunks_exact (record_len (rl_kind (rs_links s)) (head_width s)) b))"

definition decode_rows :: "libm \<Rightarrow> nat \<Rightarrow> bytes \<Rightarrow> fail + f64 list list" where
  "decode_rows L hd1 b =
     (let rows = map (map f64_of_f32) (chunks hd1 (f32s b)); row_max = f64_mul RECUR_V_MAX (lm_sqrt L (f64_of_int (int hd1))) in
      if list_ex (\<lambda>row. list_ex (\<lambda>x. \<not> f64_finite x) row \<or> f64_lt row_max (vector_norm L row)) rows then Inl FailMismatch else Inr rows)"

definition recur_record_len :: "recur_site \<Rightarrow> u64" where
  "recur_record_len s = word_of_nat (record_len (rl_kind (rs_links s)) (head_width s))"

text \<open>The bytes of checkpoint \<open>m\<close> the drawn rows take.\<close>

definition recur_rows :: "recur_site \<Rightarrow> u64 \<Rightarrow> u64 \<times> u64" where
  "recur_rows s m = checkpoint_rows (ucast (rl_head_dim (rs_links s))) m (rs_r0 s) RECUR_ROWS"

definition rows_at :: "libm \<Rightarrow> blake3 \<Rightarrow> hash \<Rightarrow> seq_layout \<Rightarrow> recur_site \<Rightarrow> u64 \<Rightarrow> u64 \<Rightarrow> u64 \<Rightarrow> seq_span \<Rightarrow> fail + f64 list list" where
  "rows_at L B sr l s leaf len m span = (let (lo, hi) = recur_rows s m in
     rbind (ok_or FailTrace (open_span B sr l leaf len lo hi span)) (\<lambda>b. decode_rows L (head_width s) b))"

definition zero_rows :: "nat \<Rightarrow> f64 list list" where "zero_rows hd1 = replicate 16 (replicate hd1 0)"

definition rows_close :: "libm \<Rightarrow> f64 list list \<Rightarrow> f64 list list \<Rightarrow> bool" where
  "rows_close L state want = list_all (\<lambda>(row, w). all_close L row (map f32_of_f64 w)) (zip state want)"

definition recur_segment :: "libm \<Rightarrow> blake3 \<Rightarrow> hash \<Rightarrow> seq_layout \<Rightarrow> u64 \<Rightarrow> recur_site \<Rightarrow> seq_span \<Rightarrow> seq_span \<Rightarrow> seq_span \<Rightarrow> fail + delta_record list" where
  "recur_segment L B sr l np s records first last1 =
     (let iv = ucast (rl_interval (rs_links s)) :: u64; rl = recur_record_len s; hd1 = ucast (rl_head_dim (rs_links s)) :: u64 in
      rbind (ok_or FailShape (record_leaf l (rs_slot s) (rs_h s))) (\<lambda>rleaf.
      rbind (ok_or FailTrace (open_span B sr l rleaf (np * rl) (rs_c s * rl) (rs_e s * rl) records)) (\<lambda>b.
      rbind (ok_or FailShape (decode_records s b)) (\<lambda>recs.
      rbind (ok_or FailShape (checkpoint l (rs_slot s) (rs_h s))) (\<lambda>cleaf.
      rbind (ok_or FailPanicked (checkpoint_len hd1 np iv)) (\<lambda>clen.
      rbind (if rs_s s = 0 then (if first \<noteq> seq_span_default then Inl FailShape else Inr (zero_rows (head_width s)))
             else rows_at L B sr l s cleaf clen (rs_s s) first) (\<lambda>start.
      rbind (run_records L (is_kda s) (head_width s) (unat (rs_r0 s)) recs start) (\<lambda>state.
      rbind (if rs_e s - rs_c s = iv then rbind (rows_at L B sr l s cleaf clen (rs_s s + 1) last1) (\<lambda>want.
               if rows_close L state want then Inr () else Inl FailMismatch)
             else if last1 \<noteq> seq_span_default then Inl FailShape else Inr ()) (\<lambda>_.
        Inr recs)))))))))"

subsection \<open>The anchor of one record\<close>

text \<open>Offsets of the head's query, key and value in the projections, and the bytes of one projection leaf.\<close>

definition head_offsets :: "recur_site \<Rightarrow> u64 list \<times> u64" where
  "head_offsets s = (let r = rs_links s; hd1 = ucast (rl_head_dim r) :: u64; nv = ucast (n_v_heads r); nk = ucast (n_k_heads r) in
     if is_kda s then ([rs_h s * hd1, rs_h s * hd1, rs_h s * hd1], 4 * nv * hd1)
     else ([rs_hk s * hd1, (nk + rs_hk s) * hd1, 2 * nk * hd1 + rs_h s * hd1], 4 * (2 * nk + nv) * hd1))"

fun tap_values :: "blake3 \<Rightarrow> pos_shape \<Rightarrow> (u32 \<times> leaf_chunk \<times> u64) list \<Rightarrow> u64 \<Rightarrow> nat \<Rightarrow> hash option \<Rightarrow> fail + hash option \<times> f64 list list" where
  "tap_values B sh [] total1 n root = Inr (root, [])"
| "tap_values B sh ((src, lc, off) # rest) total1 n root =
     rbind (chunk_values B sh (2 * ucast src + 1) lc total1 off n) (\<lambda>(rt, vals).
       if root \<noteq> None \<and> root \<noteq> Some rt then Inl FailTrace
       else rbind (tap_values B sh rest total1 n (Some rt)) (\<lambda>(root, vs). Inr (root, map f64_of_f32 vals # vs)))"

text \<open>The taps end at the anchor position; the last one's root is the anchor's.\<close>

fun tap_loop :: "blake3 \<Rightarrow> pos_shape \<Rightarrow> recur_site \<Rightarrow> hash \<Rightarrow> u64 \<Rightarrow> u64 \<Rightarrow> recur_tap list \<Rightarrow> hash option \<Rightarrow> fail + hash option \<times> f64 list list list" where
  "tap_loop B sh s pr np pos [] root_p = Inr (root_p, [])"
| "tap_loop B sh s pr np pos (tap # taps) root_p =
     (let r = rs_links s; (offs, total1) = head_offsets s in
      rbind (tap_values B sh (zip [rl_q r, rl_k r, rl_v r] (zip [rt_q tap, rt_k tap, rt_v tap] offs)) total1 (head_width s) None) (\<lambda>(root, vals).
      rbind (ok_or FailShape root) (\<lambda>root.
      if \<not> b3_verify B pr (unat np) (unat pos) root (rt_pos_path tap) then Inl FailTrace
      else rbind (tap_loop B sh s pr np (pos + 1) taps (if pos = rs_p s then Some root else root_p)) (\<lambda>(root_p, rest).
        Inr (root_p, vals # rest)))))"

text \<open>Convolution \<open>x\<close> of a window of taps, with its activation.\<close>

definition conv_values :: "libm \<Rightarrow> nat \<Rightarrow> nat \<Rightarrow> f32 list \<Rightarrow> f64 list list \<Rightarrow> f64 list" where
  "conv_values L hd1 cl w win = map (\<lambda>i. let a = f64_sum (map (\<lambda>j. f64_mul (f64_of_f32 (w ! (i * cl + j))) (win ! j ! i)) [0..<cl])
     in f64_mul a (sigmoid L a)) [0..<hd1]"

definition conv_weights :: "blake3 \<Rightarrow> tier_ctx \<Rightarrow> recur_site \<Rightarrow> weights list \<Rightarrow> fail + f32 list list" where
  "conv_weights B tier s ws =
     (let r = rs_links s; hd1 = ucast (rl_head_dim r) :: u64; nv = ucast (n_v_heads r) :: u64; nk = ucast (n_k_heads r) :: u64; cl = ucast (conv_len r) :: u64;
          total1 = cl * (if is_kda s then nv * hd1 else (2 * nk + nv) * hd1); offs = fst (head_offsets s); convs = [conv_q r, conv_k r, conv_v r]
      in rmap (\<lambda>x. f32_weights B tier (ws ! x) (convs ! x) total1 (offs ! x * cl) (hd1 * cl)) [0..<3])"

definition anchor_window :: "nat \<Rightarrow> nat \<Rightarrow> f64 list list list \<Rightarrow> nat \<Rightarrow> f64 list list" where
  "anchor_window hd1 cl vals x = replicate (cl - length vals) (replicate hd1 0) @ map (\<lambda>v. v ! x) vals"

definition recur_qkv :: "libm \<Rightarrow> blake3 \<Rightarrow> tier_ctx \<Rightarrow> chain_ctx \<Rightarrow> recur_site \<Rightarrow> u64 \<Rightarrow> recur_opening \<Rightarrow> delta_record \<Rightarrow> fail + hash" where
  "recur_qkv L B tier ctx s np op rec =
     (let cl = unat (conv_len (rs_links s)); hd1 = head_width s; taps = rc_taps op; n_taps = min (unat (rs_p s) + 1) cl in
      if length taps \<noteq> n_taps \<or> length (rc_weights op) \<noteq> 6 then Inl FailShape
      else rbind (tap_loop B (shape_any tier ctx) s (rc_pos_root op) np (rs_p s + 1 - word_of_nat n_taps) taps None) (\<lambda>(root_p, vals).
      rbind (ok_or FailShape root_p) (\<lambda>root_p.
      rbind (conv_weights B tier s (rc_weights op)) (\<lambda>w.
      let out = map (\<lambda>x. conv_values L hd1 cl (w ! x) (anchor_window hd1 cl vals x)) [0..<3] in
      if all_close L (l2_norm L (out ! 0) (cx_eps ctx)) (dr_q rec) \<and> all_close L (l2_norm L (out ! 1) (cx_eps ctx)) (dr_k rec)
        \<and> all_close L (out ! 2) (dr_v rec) then Inr root_p else Inl FailMismatch))))"

text \<open>Step size and decay of the record.\<close>

definition recur_decay :: "libm \<Rightarrow> blake3 \<Rightarrow> tier_ctx \<Rightarrow> pos_shape \<Rightarrow> recur_site \<Rightarrow> recur_opening \<Rightarrow> delta_record \<Rightarrow> hash \<Rightarrow> fail + unit" where
  "recur_decay L B tier sh s op rec root_p =
     (let r = rs_links s; nv = ucast (n_v_heads r) :: u64; gw = (if is_kda s then ucast (rl_head_dim r) else 1) :: u64 in
      rbind (chunk_values B sh (2 * ucast (rl_beta r) + 1) (rc_beta op) (4 * nv) (rs_h s) 1) (\<lambda>(rt, beta).
      if rt \<noteq> root_p then Inl FailTrace
      else if \<not> close_to (sigmoid L (f64_of_f32 (beta ! 0))) (f64_of_f32 (dr_beta rec)) 0 then Inl FailMismatch
      else rbind (open_entry B tier (decay_entry op) (ucast (rl_decay r))) (\<lambda>de.
      if en_role de \<noteq> ROLE_PRODUCT then Inl FailManifest
      else rbind (chunk_values B sh (2 * ucast (rl_decay r) + 1) (rc_decay op) (4 * nv * gw) (rs_h s * gw) (unat gw)) (\<lambda>(rt, dy).
      if rt \<noteq> root_p then Inl FailTrace
      else rbind (f32_weights B tier (rc_weights op ! 3) (rl_dt r) (nv * gw) (rs_h s * gw) gw) (\<lambda>dt.
      rbind (f32_weights B tier (rc_weights op ! 4) (rl_a r) nv (rs_h s) 1) (\<lambda>a.
      let g = map (\<lambda>i. f64_mul (f64_of_f32 (a ! 0)) (softplus L (f64_add (f64_of_f32 (dy ! i))
            (if en_bias de = NONE then f64_of_f32 (dt ! i) else 0)))) [0..<unat gw]
      in if all_close L g (dr_g rec) then Inr () else Inl FailMismatch))))))"

text \<open>The recorded output, normed and gated, against the input of the output projection.\<close>

definition recur_output :: "libm \<Rightarrow> blake3 \<Rightarrow> tier_ctx \<Rightarrow> chain_ctx \<Rightarrow> response_ctx \<Rightarrow> recur_site \<Rightarrow> recur_opening \<Rightarrow> delta_record \<Rightarrow> hash \<Rightarrow> fail + unit" where
  "recur_output L B tier ctx resp s op rec root_p =
     (let r = rs_links s; sh = shape_any tier ctx; nv = ucast (n_v_heads r) :: u64; hd1 = ucast (rl_head_dim r) :: u64; n = head_width s in
      rbind (chunk_values B sh (2 * ucast (rl_gate r) + 1) (rc_gate op) (4 * nv * hd1) (rs_h s * hd1) n) (\<lambda>(rt, gate).
      if rt \<noteq> root_p then Inl FailTrace
      else rbind (f32_weights B tier (rc_weights op ! 5) (rl_norm r) hd1 0 hd1) (\<lambda>norm.
      rbind (open_entry B tier (out_entry op) (ucast (rs_proj s))) (\<lambda>oe.
      if en_k oe \<noteq> nv * hd1 then Inl FailManifest
      else let lay = layout_for (expected_ubatch (rs_p s) (n_prompt resp)) (wtype oe); x = lb_bytes (rc_out op) in
      if length x \<noteq> unat (x_len (en_k oe) lay) then Inl FailShape
      else if \<not> b3_verify B root_p (unat (n_leaves sh)) (unat (2 * ucast (rs_proj s) :: u64)) (b3_hash B x) (lb_leaf_path (rc_out op)) then Inl FailTrace
      else let ms = f64_div (square_sum (map f64_of_f32 (dr_o rec))) (f64_of_int (int n));
               rn = f64_div (f64_of_int 1) (lm_sqrt L (f64_add ms (cx_eps ctx)));
               y = map (\<lambda>i. let z = f64_of_f32 (gate ! i); act = (if is_kda s then sigmoid L z else f64_mul z (sigmoid L z))
                    in f64_mul (f64_mul (f64_mul (f64_of_f32 (dr_o rec ! i)) rn) (f64_of_f32 (norm ! i))) act) [0..<n]
      in case block_outliers x lay (unat (nv * hd1)) (unat (rs_h s * hd1) div 32) y THRESHOLD of
           None \<Rightarrow> Inl FailMismatch
         | Some (dv, spare) \<Rightarrow> if f64_le dv RECUR_OUT_MAX \<and> spare \<le> RECUR_OUT_SPARE then Inr () else Inl FailMismatch))))"

definition verify_recur_point :: "libm \<Rightarrow> blake3 \<Rightarrow> tier_ctx \<Rightarrow> chain_ctx \<Rightarrow> response_ctx \<Rightarrow> hash \<Rightarrow> recur_opening \<Rightarrow> fail + unit" where
  "verify_recur_point L B tier ctx resp seed op =
     rbind (draw_recur_site B tier ctx resp seed op) (\<lambda>s.
     let np = ucast (n_pos resp) in
     rbind (recur_segment L B (rc_seq_root op) (seq_layout_of ctx) np s (rc_records op) (start_rows op) (end_rows op)) (\<lambda>recs.
     rbind (ok_or FailPanicked (nth_opt recs (unat (rs_p s - rs_c s)))) (\<lambda>rec.
     rbind (recur_qkv L B tier ctx s np op rec) (\<lambda>root_p.
     rbind (recur_decay L B tier (shape_any tier ctx) s op rec root_p) (\<lambda>_.
       recur_output L B tier ctx resp s op rec root_p)))))"

subsection \<open>The segments cover the positions\<close>

lemma unat_widen: "unat (ucast (w :: u32) :: u64) = unat w"
proof -
  have "take_bit 64 (unat w) = unat w" by (rule take_bit_nat_eq_self [OF ucast_less_64])
  then show ?thesis by (simp add: unsigned_ucast_eq)
qed

lemma widen_neq_0: "w \<noteq> 0 \<Longrightarrow> (ucast (w :: u32) :: u64) \<noteq> 0"
  using unat_widen [of w] unat_0 [where 'a = 64] by (metis unat_eq_0)

lemma recur_site_values:
  assumes "recur_kind_ok r" and "recur_heads_ok r heads" and "n_v_heads r \<noteq> 0" and "0 < np" and "np < 2 ^ 32"
    and "recur_site_of r proj slot np d = Inr s"
  shows "rs_h s < ucast (n_v_heads r)" and "rs_hk s < ucast (n_k_heads r)"
    and "unat (rs_r0 s) + 16 \<le> unat (rl_head_dim r)"
    and "rs_c s \<le> rs_p s" and "rs_p s < rs_e s"
    and "unat (rs_c s) = unat (rs_s s) * unat (rl_interval r)"
    and "unat (rs_e s) = min (unat (rs_c s) + unat (rl_interval r)) (unat np)"
    and "rs_s s = d ! 0 mod div_ceil64 np (ucast (rl_interval r))"
proof -
  let ?iv = "ucast (rl_interval r) :: u64" and ?hd = "ucast (rl_head_dim r) :: u64"
  note u32 = unat_less_32 ucast_less_64
  note uc = unat_widen
  have s: "rs_h s = d ! 2 mod ucast (n_v_heads r)" "rs_hk s = rs_h s mod ucast (n_k_heads r)"
    "rs_s s = d ! 0 mod div_ceil64 np ?iv" "rs_c s = rs_s s * ?iv" "rs_e s = min ((rs_s s + 1) * ?iv) np"
    "rs_r0 s = d ! 3 mod (?hd div 16) * 16" "rs_p s = rs_c s + drop_bit 32 (d ! 3) mod (rs_e s - rs_c s)"
    using assms(6) by (auto simp: recur_site_of_def Let_def split: if_splits)
  have less: "x mod n < n" if "n \<noteq> 0" for x n :: u64
    using that by (simp add: word_less_nat_alt unat_mod unat_gt_0)
  show "rs_h s < ucast (n_v_heads r)" unfolding s(1) by (rule less [OF widen_neq_0 [OF assms(3)]])
  show "rs_hk s < ucast (n_k_heads r)" unfolding s(2) using assms(2) by (intro less widen_neq_0) (simp add: recur_heads_ok_def)
  show "rs_s s = d ! 0 mod div_ceil64 np ?iv" by (rule s(3))
  have np: "unat (0 :: u64) < unat np" "unat np \<le> 2 ^ 32" using assms(4,5) by (simp_all add: word_less_nat_alt)
  have iv: "0 < unat ?iv" "unat ?iv < 2 ^ 32" using assms(1) u32 by (simp_all add: recur_kind_ok_def uc unat_gt_0)
  have "0 < unat (div_ceil64 np ?iv)"
    using group_bounds(1) [OF np iv] np(1) iv(1) by (simp add: div_greater_zero_iff)
  then have sl: "rs_s s < div_ceil64 (np - 0) ?iv" unfolding s(3) using less by (simp add: unat_gt_0)
  note g = group_bounds(2) [OF np iv sl]
  have c: "unat (rs_c s) = unat (rs_s s) * unat (rl_interval r)" "unat (rs_c s) < unat np" using g by (simp_all add: s(4) uc)
  show "unat (rs_c s) = unat (rs_s s) * unat (rl_interval r)" by (rule c(1))
  have "rs_e s = min np (0 + rs_s s * ?iv + ?iv)" by (simp add: s(5) min.commute algebra_simps)
  then have e: "unat (rs_e s) = min (unat np) ((unat (rs_s s) + 1) * unat (rl_interval r))" using g by (simp add: uc)
  then show "unat (rs_e s) = min (unat (rs_c s) + unat (rl_interval r)) (unat np)" by (simp add: c(1) min.commute)
  have ce: "unat (rs_c s) < unat (rs_e s)" using c iv(1) by (simp add: e uc)
  have d: "unat (rs_e s - rs_c s) = unat (rs_e s) - unat (rs_c s)" using ce by (simp add: unat_sub word_le_nat_alt)
  define y where "y = drop_bit 32 (d ! 3) mod (rs_e s - rs_c s)"
  have y: "unat y < unat (rs_e s) - unat (rs_c s)" unfolding y_def unat_mod d using ce by simp
  have "unat (rs_e s) < 2 ^ 64" using unsigned_less [of "rs_e s"] by simp
  then have "unat (rs_p s) = unat (rs_c s) + unat y" using y by (simp add: s(7) y_def [symmetric] unat_word_ariths)
  then show "rs_c s \<le> rs_p s" "rs_p s < rs_e s" using y by (simp_all add: word_le_nat_alt word_less_nat_alt)
  let ?k = "unat (rl_head_dim r) div 16"
  have "rl_head_dim r mod 16 = 0" using assms(2) unfolding recur_heads_ok_def by blast
  from arg_cong [OF this, of unat] have "unat (rl_head_dim r) mod 16 = 0" by (simp add: unat_mod)
  moreover have "0 < unat (rl_head_dim r)" using assms(2) by (simp add: recur_heads_ok_def unat_gt_0)
  ultimately have k: "0 < ?k" "?k * 16 \<le> unat (rl_head_dim r)" "?k < 2 ^ 32"
    using u32(1) [of "rl_head_dim r"] by (auto simp: div_greater_zero_iff dvd_imp_le less_imp_diff_less le_less_trans [OF div_le_dividend])
  have m: "unat (d ! 3 mod (?hd div 16)) = unat (d ! 3) mod ?k" by (simp add: unat_mod unat_div uc)
  have l: "unat (d ! 3) mod ?k < ?k" using k(1) by simp
  then have "unat (d ! 3) mod ?k * 16 < 2 ^ 64" using k(3) by simp
  moreover have "unat (y * 16) = unat y * 16" if "unat y * 16 < 2 ^ 64" for y :: u64 using that by (simp add: unat_word_ariths)
  ultimately have "unat (rs_r0 s) = unat (d ! 3) mod ?k * 16" unfolding s(6) by (metis m)
  moreover have "(unat (d ! 3) mod ?k + 1) * 16 \<le> ?k * 16" using l by (intro mult_le_mono1) simp
  ultimately show "unat (rs_r0 s) + 16 \<le> unat (rl_head_dim r)" using k(2) by simp
qed

text \<open>C36. Recurrent points: with at least one value head the draw never fails, and nothing in it wraps. The head and its
  key head exist, the sixteen drawn state rows lie within the head, the segment is nonempty, at most an interval
  long, ends at the next checkpoint or at the last position, and contains the anchor; and every position of the
  response is in the segment of some draw.\<close>

theorem recur_site_bounds:
  assumes "recur_kind_ok r" and "recur_heads_ok r heads" and "n_v_heads r \<noteq> 0" and "0 < np" and "np < 2 ^ 32"
  shows "(\<exists>s. recur_site_of r proj slot np d = Inr s
      \<and> rs_h s < ucast (n_v_heads r) \<and> rs_hk s < ucast (n_k_heads r) \<and> unat (rs_r0 s) + 16 \<le> unat (rl_head_dim r)
      \<and> rs_c s \<le> rs_p s \<and> rs_p s < rs_e s
      \<and> unat (rs_c s) = unat (rs_s s) * unat (rl_interval r)
      \<and> unat (rs_e s) = min (unat (rs_c s) + unat (rl_interval r)) (unat np))
    \<and> (\<forall>x < np. \<exists>d s. recur_site_of r proj slot np d = Inr s \<and> rs_c s \<le> x \<and> x < rs_e s)"
proof -
  have some: "\<exists>s. recur_site_of r proj slot np d = Inr s" for d
  proof -
    have "(ucast (n_v_heads r) :: u64) \<noteq> 0" by (rule widen_neq_0 [OF assms(3)])
    then show ?thesis by (simp add: recur_site_of_def Let_def)
  qed
  note v = recur_site_values [OF assms]
  have "\<exists>d s. recur_site_of r proj slot np d = Inr s \<and> rs_c s \<le> x \<and> x < rs_e s" if x: "x < np" for x
  proof -
    let ?iv = "ucast (rl_interval r) :: u64" and ?I = "unat (rl_interval r)"
    have uc: "unat ?iv = ?I" by (rule unat_widen)
    have iv: "0 < unat ?iv" "unat ?iv < 2 ^ 32" using assms(1) unat_less_32 by (simp_all add: recur_kind_ok_def uc unat_gt_0)
    have np: "unat (0 :: u64) < unat np" "unat np \<le> 2 ^ 32" using assms(4,5) by (simp_all add: word_less_nat_alt)
    let ?d = "[x div ?iv, 0, 0, 0]"
    obtain s where s: "recur_site_of r proj slot np ?d = Inr s" using some by blast
    have "unat x div ?I < unat np div ?I + (if unat np mod ?I = 0 then 0 else 1)"
    proof -
      have "unat x < (unat np div ?I + (if unat np mod ?I = 0 then 0 else 1)) * ?I"
      proof (cases "unat np mod ?I = 0")
        case True
        have "unat np div ?I * ?I = unat np" using div_mult_mod_eq [of "unat np" ?I] by (simp only: True add_0_right)
        then show ?thesis using x True by (simp add: word_less_nat_alt)
      next
        case False
        have "unat np < (unat np div ?I + 1) * ?I" using dividend_less_div_times [of ?I "unat np"] iv(1) by (simp add: uc)
        then show ?thesis using x False by (simp add: word_less_nat_alt)
      qed
      then show ?thesis using iv(1) by (simp add: uc div_less_iff_less_mult)
    qed
    then have "unat (x div ?iv) < unat (div_ceil64 np ?iv)"
      using group_bounds(1) [OF np iv] ceil_quot [OF iv(1), of "unat np"] by (simp add: unat_div uc)
    then have "rs_s s = x div ?iv" using v(8) [OF s] by (simp add: word_unat_eq_iff unat_mod)
    then have c: "unat (rs_c s) = unat x div ?I * ?I" using v(6) [OF s] by (simp add: unat_div uc)
    then have "rs_c s \<le> x" by (simp add: word_le_nat_alt)
    moreover have "unat x < unat x div ?I * ?I + ?I" using dividend_less_div_times [of ?I "unat x"] iv(1) by (simp add: uc)
    then have "x < rs_e s" using v(7) [OF s] c x by (simp add: word_less_nat_alt)
    ultimately show ?thesis using s by blast
  qed
  moreover obtain s where s: "recur_site_of r proj slot np d = Inr s" using some by blast
  ultimately show ?thesis using v(1-7) [OF s] s by auto
qed

definition toy_recur_links :: recur_links where
  "toy_recur_links = \<lparr>rl_kind = RECUR_GDA, rl_slot = 0, n_v_heads = 1, n_k_heads = 1, rl_head_dim = 32, rl_q = 0, rl_k = 0, rl_v = 0,
     conv_q = 0, conv_k = 0, conv_v = 0, rl_beta = 0, rl_decay = 0, rl_dt = 0, rl_a = 0, rl_norm = 0, rl_gate = 0,
     rl_interval = 4, conv_len = 4\<rparr>"

theorem recur_site_bounds_witness:
  "\<exists>s. recur_site_of toy_recur_links 0 0 10 [9, 8, 7, 6] = Inr s \<and> rs_c s = 0 \<and> rs_e s = 4 \<and> rs_p s < 4 \<and> unat (rs_r0 s) + 16 \<le> 32"
proof -
  have r: "recur_kind_ok toy_recur_links" "recur_heads_ok toy_recur_links 1" "n_v_heads toy_recur_links \<noteq> 0"
    by (simp_all add: recur_kind_ok_def recur_heads_ok_def toy_recur_links_def)
  have np: "(0 :: u64) < 10" "(10 :: u64) < 2 ^ 32" by simp_all
  obtain s where s: "recur_site_of toy_recur_links 0 0 10 [9, 8, 7, 6] = Inr s" "rs_p s < rs_e s" "unat (rs_r0 s) + 16 \<le> unat (rl_head_dim toy_recur_links)"
    using recur_site_bounds [OF r np, of 0 0 "[9, 8, 7, 6]"] by blast
  moreover from s(1) have "rs_c s = 0" "rs_e s = 4" by (auto simp: recur_site_of_def toy_recur_links_def div_ceil64_def)
  ultimately show ?thesis by (simp add: toy_recur_links_def)
qed

subsection \<open>The opened segment is the committed one\<close>

text \<open>The segment recomputed from the committed record and checkpoint leaves, without openings.\<close>

definition committed_rows :: "libm \<Rightarrow> recur_site \<Rightarrow> bytes \<Rightarrow> u64 \<Rightarrow> fail + f64 list list" where
  "committed_rows L s ck m = (let (lo, hi) = recur_rows s m in decode_rows L (head_width s) (slice ck (unat lo) (unat hi - unat lo)))"

definition committed_segment :: "libm \<Rightarrow> recur_site \<Rightarrow> bytes \<Rightarrow> bytes \<Rightarrow> fail + delta_record list" where
  "committed_segment L s recb ck =
     (let rl = recur_record_len s; lo = unat (rs_c s * rl); hi = unat (rs_e s * rl) in
      rbind (ok_or FailShape (decode_records s (slice recb lo (hi - lo)))) (\<lambda>recs.
      rbind (if rs_s s = 0 then Inr (zero_rows (head_width s)) else committed_rows L s ck (rs_s s)) (\<lambda>start.
      rbind (run_records L (is_kda s) (head_width s) (unat (rs_r0 s)) recs start) (\<lambda>state.
      rbind (if rs_e s - rs_c s = ucast (rl_interval (rs_links s)) then rbind (committed_rows L s ck (rs_s s + 1)) (\<lambda>want.
               if rows_close L state want then Inr () else Inl FailMismatch) else Inr ()) (\<lambda>_. Inr recs)))))"

lemma rows_at_committed:
  assumes "blake3_tree_mode B" and "b3_root B (map (b3_hash B) leaves) = Some sr" and "length leaves = unat (seq_n_leaves l)"
    and "length (leaves ! unat j) = unat clen" and "rows_at L B sr l s j clen m sp = Inr rows"
  shows "committed_rows L s (leaves ! unat j) m = Inr rows \<or> (\<exists>f. span_clash B leaves (unat j) f sp)"
proof -
  obtain lo hi where r: "recur_rows s m = (lo, hi)" by (cases "recur_rows s m")
  obtain b where b: "open_span B sr l j clen lo hi sp = Some b" "decode_rows L (head_width s) b = Inr rows"
    using assms(5) by (auto simp: rows_at_def r rbind_Inr)
  show ?thesis using span_sound [OF assms(1-4) b(1)] b(2) by (auto simp: committed_rows_def r)
qed

text \<open>C8. Recurrent points: when a segment opening is accepted against the root of the committed sequence leaves, the
  recomputation of the delta rule over the committed records, started from the committed state rows, gives the
  same records and ends close to the next committed rows; or one of the three spans shows two different inputs
  with one hash.\<close>

theorem recur_segment_refines:
  assumes "blake3_tree_mode B" and "b3_root B (map (b3_hash B) leaves) = Some sr" and "length leaves = unat (seq_n_leaves l)"
    and "record_leaf l (rs_slot s) (rs_h s) = Some i" and "checkpoint l (rs_slot s) (rs_h s) = Some j"
    and "length (leaves ! unat i) = unat (np * recur_record_len s)"
    and "checkpoint_len (ucast (rl_head_dim (rs_links s))) np (ucast (rl_interval (rs_links s))) = Some clen"
    and "length (leaves ! unat j) = unat clen"
    and "recur_segment L B sr l np s records first last1 = Inr recs"
  shows "committed_segment L s (leaves ! unat i) (leaves ! unat j) = Inr recs
    \<or> (\<exists>f. span_clash B leaves (unat i) f records \<or> span_clash B leaves (unat j) f first \<or> span_clash B leaves (unat j) f last1)"
proof (cases "\<exists>f. span_clash B leaves (unat i) f records \<or> span_clash B leaves (unat j) f first \<or> span_clash B leaves (unat j) f last1")
  case False
  let ?rl = "recur_record_len s" and ?whole = "rs_e s - rs_c s = ucast (rl_interval (rs_links s))"
  obtain b start state where
    b: "open_span B sr l i (np * ?rl) (rs_c s * ?rl) (rs_e s * ?rl) records = Some b" "decode_records s b = Some recs"
    and start: "(if rs_s s = 0 then (if first \<noteq> seq_span_default then Inl FailShape else Inr (zero_rows (head_width s)))
             else rows_at L B sr l s j clen (rs_s s) first) = Inr start"
    and state: "run_records L (is_kda s) (head_width s) (unat (rs_r0 s)) recs start = Inr state"
    and last1: "(if ?whole then rbind (rows_at L B sr l s j clen (rs_s s + 1) last1) (\<lambda>want. if rows_close L state want then Inr () else Inl FailMismatch)
        else if last1 \<noteq> seq_span_default then Inl FailShape else Inr ()) = Inr ()"
    using assms(9) unfolding recur_segment_def Let_def assms(4,5,7) by (auto simp: rbind_Inr)
  have fin: "\<exists>want. rows_at L B sr l s j clen (rs_s s + 1) last1 = Inr want \<and> rows_close L state want" if ?whole
    using last1 that by (auto simp: rbind_Inr)
  note R = rows_at_committed [OF assms(1-3,8)]
  have "b = slice (leaves ! unat i) (unat (rs_c s * ?rl)) (unat (rs_e s * ?rl) - unat (rs_c s * ?rl))"
    using span_sound [OF assms(1-3,6) b(1)] False by blast
  moreover have "rs_s s \<noteq> 0 \<longrightarrow> committed_rows L s (leaves ! unat j) (rs_s s) = Inr start"
    using R [of L s "rs_s s" first start] start False by auto
  moreover have "rs_s s = 0 \<longrightarrow> start = zero_rows (head_width s)" using start by auto
  moreover have "?whole \<longrightarrow> (\<exists>want. committed_rows L s (leaves ! unat j) (rs_s s + 1) = Inr want \<and> rows_close L state want)"
    using fin R [of L s "rs_s s + 1" last1] False by blast
  ultimately have "committed_segment L s (leaves ! unat i) (leaves ! unat j) = Inr recs"
    using b(2) state unfolding committed_segment_def Let_def by (cases "rs_s s = 0"; cases ?whole; auto)
  then show ?thesis ..
qed blast

subsection \<open>A concrete segment\<close>

text \<open>One record of zeros and the state before the first position, which is zero; \<open>toy_attn_libm\<close> takes the root to be
  the identity.\<close>

definition toy_record :: bytes where "toy_record = replicate 264 0"

definition toy_zero_record :: delta_record where
  "toy_zero_record = \<lparr>dr_q = replicate 32 0, dr_k = replicate 32 0, dr_v = replicate 32 0, dr_o = replicate 32 0, dr_beta = 0, dr_g = [0]\<rparr>"

definition toy_recur_site :: recur_site where
  "toy_recur_site = \<lparr>rs_proj = 0, rs_links = toy_recur_links, rs_slot = 0, rs_h = 0, rs_hk = 0, rs_s = 0, rs_c = 0, rs_e = 1, rs_r0 = 0, rs_p = 0\<rparr>"

definition toy_recur_root :: hash where
  "toy_recur_root = b3_merge toy_blake3 (b3_hash toy_blake3 toy_record) (b3_hash toy_blake3 []) True"

definition toy_record_span :: seq_span where
  "toy_record_span = \<lparr>ss_first_chunk = 0, ss_bytes = toy_record, ss_chunk_proof = [], ss_leaf_path = [b3_hash toy_blake3 []]\<rparr>"

lemma map_upt_const: "(\<And>i. i < n \<Longrightarrow> f i = c) \<Longrightarrow> map f [0..<n] = replicate n c"
  by (rule nth_equalityI) simp_all

lemma zero_eval_1: "f64_of_f32 0 = 0" "f64_mul 0 0 = 0" "f64_mul 0x3ff0000000000000 0 = 0" "f64_add 0 0 = 0"
  by (simp_all add: fp_eval f64_sub_def fp_neg_def f64_abs_def f32_finite_def f32_le_def f32_abs_def)

lemma zero_eval_2: "f64_sub 0 0 = 0" "f64_add 0x8000000000000000 0 = 0" "f64_finite 0" "f64_abs 0 = 0"
  by (simp_all add: fp_eval f64_sub_def fp_neg_def f64_abs_def f32_finite_def f32_le_def f32_abs_def)

lemma zero_eval_3: "f32_finite 0" "f32_le 0 0" "f32_abs 0 = 0" "f64_le 0 0"
  by (simp_all add: fp_eval f64_sub_def fp_neg_def f64_abs_def f32_finite_def f32_le_def f32_abs_def)

lemmas zero_eval = zero_eval_1 zero_eval_2 zero_eval_3

lemma f64_sum_zeros: "f64_sum (replicate (Suc n) 0) = 0"
proof -
  have "foldl f64_add 0 (replicate n 0) = 0" by (induction n) (simp_all add: zero_eval)
  then show ?thesis by (simp add: f64_sum_def zero_eval)
qed

lemma sum_zeros_32: "f64_sum (replicate 32 0) = 0"
  using f64_sum_zeros [of 31] by simp

lemma vector_norm_zeros: "vector_norm toy_attn_libm (replicate 32 0) = 0"
  by (simp add: vector_norm_def square_sum_def zero_eval sum_zeros_32 toy_attn_libm_def)

lemma tol_values: "RECUR_TOL = 0x3f90000000000000" "F16_MIN_STEP = 0x3e70000000000000" "RECUR_V_MAX = 0x4090000000000000"
  by (simp_all add: RECUR_TOL_def F16_MIN_STEP_def RECUR_V_MAX_def fp_eval)

lemma top_value: "f64_add (f64_of_int 1) 0x3f90000000000000 = 0x3ff0400000000000" "f64_div (f64_of_int 1) (f64_of_int 32) = 0x3fa0000000000000"
  by (simp_all add: fp_eval)

lemma top_eval: "f64_le 0 (f64_add (f64_of_int 1) RECUR_TOL)" "\<not> f64_lt (f64_add (f64_of_int 1) RECUR_TOL) 0" "f64_le 0 RECUR_V_MAX"
  unfolding tol_values top_value by (simp_all add: fp_eval f64_lt_def fp_lt_def)

lemma scale_eval: "f64_mul 0 (f64_div (f64_of_int 1) (f64_of_int 32)) = 0" "f64_mul (f64_div (f64_of_int 1) (f64_of_int 32)) 0 = 0"
  unfolding top_value by (simp_all add: fp_eval)

lemma close_to_0: "close_to 0 0 0"
  unfolding close_to_def tol_values by (simp add: zero_eval) (simp add: fp_eval)

lemmas tol_eval = top_eval scale_eval close_to_0

lemma toy_record_decoded: "record_decode RECUR_GDA 32 toy_record = Some toy_zero_record"
proof -
  have h: "halves_at toy_record off 32 = replicate 32 0" if "off \<le> 200" for off
    unfolding halves_at_def by (rule map_upt_const) (use that in \<open>simp add: half_read_def toy_record_def to_f32_def le_u16_def\<close>)
  have f: "le_u32 (slice toy_record off 4) = 0" if "off \<le> 260" for off
  proof -
    have "slice toy_record off 4 = replicate 4 0" using that by (simp add: toy_record_def min_def)
    also have "\<dots> = [0, 0, 0, 0]" by (simp add: numeral_eq_Suc)
    finally show ?thesis by (simp add: le_u32_def)
  qed
  show ?thesis by (simp add: record_decode_def h f toy_record_def [symmetric] Let_def toy_zero_record_def list_all_iff zero_eval)
      (simp add: toy_record_def record_len_def)
qed

lemma toy_records: "decode_records toy_recur_site toy_record = Some [toy_zero_record]"
proof -
  have "chunks_exact 264 toy_record = [toy_record]" by (rule chunks_exact_one) (simp_all add: toy_record_def)
  then show ?thesis using toy_record_decoded
    by (simp add: decode_records_def toy_recur_site_def head_width_def toy_recur_links_def record_len_def)
qed

lemma toy_row_step: "row_step toy_attn_libm 32 (replicate 32 0x3ff0000000000000) toy_zero_record (f64_div (f64_of_int 1) (f64_of_int 32)) ri (replicate 32 0)
  = Some (replicate 32 0)" if "ri < 32"
proof -
  have m: "map (\<lambda>i. f64_mul (f64_mul (replicate 32 0x3ff0000000000000 ! i) (replicate 32 0 ! i)) (replicate 32 0 ! i)) [0..<32] = replicate 32 0"
    "map (\<lambda>i. f64_add (f64_mul (replicate 32 0x3ff0000000000000 ! i) (replicate 32 0 ! i)) (f64_mul (replicate 32 0 ! i) 0)) [0..<32] = replicate 32 0"
    "map (\<lambda>i. f64_mul (replicate 32 0 ! i) (replicate 32 0 ! i)) [0..<32] = replicate 32 0"
    by (rule map_upt_const; simp add: zero_eval)+
  show ?thesis using that
    by (simp add: row_step_def toy_zero_record_def map_replicate zero_eval m sum_zeros_32 vector_norm_zeros tol_eval del: upt_Suc)
qed

lemma toy_run: "run_records toy_attn_libm False 32 0 [toy_zero_record] (zero_rows 32) = Inr (zero_rows 32)"
proof -
  have sane: "record_sane toy_attn_libm toy_zero_record"
    by (simp add: record_sane_def toy_zero_record_def map_replicate list_all_iff zero_eval vector_norm_zeros tol_eval)
  have g: "record_decay toy_attn_libm False 32 toy_zero_record = replicate 32 0x3ff0000000000000"
    by (simp add: record_decay_def toy_attn_libm_def const_eval)
  have sq: "lm_sqrt toy_attn_libm = id" by (simp add: toy_attn_libm_def)
  have "map (\<lambda>(ri, row). row_step toy_attn_libm 32 (replicate 32 0x3ff0000000000000) toy_zero_record (f64_div (f64_of_int 1) (f64_of_int 32)) ri row)
      (enumerate 0 (zero_rows 32)) = map Some (zero_rows 32)"
    by (rule nth_equalityI) (simp_all add: zero_rows_def nth_enumerate_eq toy_row_step)
  then show ?thesis by (simp add: sane g sq)
qed

lemma toy_record_span_open: "open_span toy_blake3 toy_recur_root toy_seq_layout 0 264 0 264 toy_record_span = Some toy_record"
  by (simp add: open_span_def toy_record_span_def b3_leaf_from_chunks_def div_ceil_def div_ceil64_def checked_add_u64_def
      b3_fold_def b3_fold_loop.simps seq_n_leaves_def toy_seq_layout_def toy_recur_root_def get_range_def Let_def toy_record_def)

lemma toy_segment: "recur_segment toy_attn_libm toy_blake3 toy_recur_root toy_seq_layout 1 toy_recur_site toy_record_span seq_span_default seq_span_default
  = Inr [toy_zero_record]"
proof -
  have w: "head_width toy_recur_site = 32" "is_kda toy_recur_site = False" "recur_record_len toy_recur_site = 264"
    by (simp_all add: head_width_def is_kda_def recur_record_len_def toy_recur_site_def toy_recur_links_def record_len_def)
  have f: "rs_slot toy_recur_site = 0" "rs_h toy_recur_site = 0" "rs_s toy_recur_site = 0" "rs_c toy_recur_site = 0" "rs_e toy_recur_site = 1"
    "rs_r0 toy_recur_site = 0" "rl_interval (rs_links toy_recur_site) = 4" "rl_head_dim (rs_links toy_recur_site) = 32"
    by (simp_all add: toy_recur_site_def toy_recur_links_def)
  have l: "record_leaf toy_seq_layout 0 0 = Some 0" "checkpoint toy_seq_layout 0 0 = Some 1"
    by (simp_all add: toy_seq_layout_def record_leaf_def checkpoint_def)
  show ?thesis unfolding recur_segment_def Let_def w f l
    by (simp add: toy_record_span_open toy_run toy_records checkpoint_len_def w del: run_records.simps)
qed

theorem recur_segment_refines_witness:
  "recur_segment toy_attn_libm toy_blake3 toy_recur_root toy_seq_layout 1 toy_recur_site toy_record_span seq_span_default seq_span_default
     = Inr [toy_zero_record]
   \<and> (committed_segment toy_attn_libm toy_recur_site toy_record [] = Inr [toy_zero_record]
     \<or> (\<exists>f. span_clash toy_blake3 [toy_record, []] 0 f toy_record_span \<or> span_clash toy_blake3 [toy_record, []] 1 f seq_span_default))"
proof -
  have r: "b3_root toy_blake3 (map (b3_hash toy_blake3) [toy_record, []]) = Some toy_recur_root"
    by (simp add: b3_root.simps b3_level_eq nth_opt_def toy_recur_root_def)
  have n: "length [toy_record, []] = unat (seq_n_leaves toy_seq_layout)" by (simp add: seq_n_leaves_def toy_seq_layout_def)
  have l: "record_leaf toy_seq_layout (rs_slot toy_recur_site) (rs_h toy_recur_site) = Some 0"
    "checkpoint toy_seq_layout (rs_slot toy_recur_site) (rs_h toy_recur_site) = Some 1"
    "checkpoint_len (ucast (rl_head_dim (rs_links toy_recur_site))) 1 (ucast (rl_interval (rs_links toy_recur_site))) = Some 0"
    by (simp_all add: record_leaf_def checkpoint_def checkpoint_len_def toy_seq_layout_def toy_recur_site_def toy_recur_links_def)
  have len: "length ([toy_record, []] ! unat (0 :: u64)) = unat (1 * recur_record_len toy_recur_site)" "length ([toy_record, []] ! unat (1 :: u64)) = unat (0 :: u64)"
    by (simp_all add: toy_record_def recur_record_len_def toy_recur_site_def head_width_def toy_recur_links_def record_len_def)
  show ?thesis using recur_segment_refines [OF toy_tree_mode r n l(1,2) len(1) l(3) len(2) toy_segment] toy_segment by auto
qed

end
