(* ===== verification/Spec2Isabelle.thy ===== *)
theory Spec2Isabelle
  imports Merkle Pom_Cache Pom_Gates Pom_Wire Escrow_Journal Opening_Codec Manifest Chain_Check Point_Sound Seq_Spans Answer_Shape Attn_Check Recurrence
begin

text \<open>
  A verification library for the Keryx miner, a Rust program that proves possession of a language model while
  it mines, serves inference requests, and opens traces of its answers to auditors. This theory imports the
  whole development; the theorems stand in the theory of the component they are about and carry their number
  (C1, C2, ...) in the text before them.

  Parts and how they interact. The miner keeps the weight file of its tier behind an index
  (\<open>WeightIndex\<close>) whose Merkle root the chain knows. A nonce is won by a walk over the weights; the
  proof of a win carries the weights read and their paths, and the node re-walks it. Rewards for inference are
  paid to escrow outputs, which a watcher tracks and spends in batches. An answer to a request is committed as
  a trace, one leaf per activation and position; an auditor's seed draws points, the miner opens them, and the
  verifier recomputes each drawn value from the opened weights and activations. Attention and recurrent layers
  commit their caches as sequence leaves, which are opened by byte spans.

  Shared theories.
  \<^item> \<open>Keryx_Prelude\<close>: machine integers, little-endian bytes, lists, UTF-8, results.
  \<^item> \<open>Floats\<close>, \<open>Half\<close>: IEEE arithmetic on bit patterns and \<open>f16.rs\<close>. Every operation
    rounds once, to nearest with ties to even; the payload of a NaN is not modelled.
  \<^item> \<open>Level_Tree\<close>: trees folded level by level, range proofs over them, and their binding, as a
    locale over the node and the lone-node function; every hash tree of the program interprets it.

  Weights and proof of model (\<open>src/pom.rs\<close>, \<open>src/pom_v3.rs\<close>, \<open>src/pom_v4.rs\<close>,
  \<open>src/pom_v5.rs\<close>).
  \<^item> \<open>Pom_Tree\<close>: \<open>merkle_root\<close>, \<open>merkle_proof\<close>, \<open>verify_merkle\<close>,
    \<open>fold_levels\<close>.
  \<^item> \<open>Pom_Index\<close>, \<open>Pom_Cache\<close>: \<open>WeightIndex\<close>: checkpoint layout, streaming build, paths on
    demand, sidecar and restart. The index built from the file has the root of the plain tree over the chunks
    and serves the same paths, whatever is memoised.
  \<^item> \<open>Pom_Walk\<close>, \<open>Pom_Proof\<close>, \<open>Pom_Tiles\<close>, \<open>Pom_V5\<close>: the walks of the eras with
    their provers and verifiers. For v2, v4 and v5: what the prover builds from an index the verifier accepts,
    and what the verifier accepts is the reference walk over the committed chunks, unless two different inputs
    with one hash are exhibited. The vector instructions of the v4 transition agree with the scalar code.
  \<^item> \<open>Pom_Gates\<close>, \<open>Pom_Wire\<close>: activation scores, the registry of resident indices, the wire
    layout of a proof per era and its round trip.

  Escrow (\<open>src/escrow.rs\<close>).
  \<^item> \<open>Escrow_Batch\<close>, \<open>Escrow_Claim\<close>: selection of a batch of outputs, claim transactions,
    scripts, addresses, certificates.
  \<^item> \<open>Escrow_Watcher\<close>, \<open>Escrow_Invariant\<close>: the operations of \<open>EscrowWatcher\<close>, the step
    relation on watcher and disk, the invariant of every reachable state and what follows from it.
  \<^item> \<open>Escrow_Journal\<close>: runs of operations, crashes and restarts from an empty disk, and what a restart
    reads back from snapshot and journal in every state of a run; and what it loses when a reorg leaves two
    entries for one outpoint.

  Traces and openings (the crate \<open>verifiable-inference\<close>).
  \<^item> \<open>Merkle\<close>, \<open>Leaf_Openings\<close>: \<open>merkle.rs\<close>, and what accepted paths, ranges and chunks say
    about committed data.
  \<^item> \<open>Opening\<close>, \<open>Opening_Codec\<close>, \<open>Manifest\<close>: the payloads with readers and writers, and
    the weight manifest, with their round trips.
  \<^item> \<open>Weight_Rows\<close>, \<open>Point_Check\<close>, \<open>Point_Sound\<close>: quantised rows, products,
    \<open>draw.rs\<close> and \<open>verify.rs\<close>. \<open>Point_Sound\<close> states the specification, the recomputation
    \<open>ref_point\<close> from the committed data alone, and shows that \<open>verify_point_at\<close> implements it.
  \<^item> \<open>Chain_Links\<close>, \<open>Chain_Check\<close>: \<open>chain.rs\<close>, \<open>prefix.rs\<close>,
    \<open>block_task.rs\<close>.
  \<^item> \<open>Sequence\<close>, \<open>Seq_Spans\<close>: \<open>seq.rs\<close> and the spans and bundles of
    \<open>src/trace_seq.rs\<close>; every span the miner builds opens at the verifier.
  \<^item> \<open>Attention\<close>, \<open>Attn_Blocks\<close>, \<open>Attn_Check\<close>: \<open>attn.rs\<close>,
    \<open>attn_blocks.rs\<close> and the attention points of \<open>chain.rs\<close>. The blocks of positions form a tree whose
    nodes tile their parents; a drawn child always exists, and the partial a later phase opens is the one the
    phase before committed, or a clash.
  \<^item> \<open>Recurrence\<close>: \<open>recur.rs\<close>. The drawn segment is in range and covers every position for some
    draw; an accepted segment is the recomputation over the committed records, or a clash.
  \<^item> \<open>Answer_Shape\<close>: \<open>answer.rs\<close>, \<open>shape.rs\<close>.

  Parameters. Code that is not in the repository is an argument of the definitions: BLAKE3 is the record
  \<open>blake3\<close> (plain hash, merge of subtrees, chunk values; \<open>blake3_tree_mode\<close> says that the plain
  hash of long input is the tree of its chunks), BLAKE2b, secp256k1 and hex are the record of
  \<open>Escrow_Claim\<close>, serde_json and borsh are codecs with a round trip law, SHA-256 and keccak f1600 are
  functions, the libm crate is the record \<open>libm\<close>. No theorem assumes that a hash has no collisions: soundness
  statements end in a clash, a pair of different inputs with one hash.

  Conventions. Integers that wrap in a release build are words; sizes the code keeps in range are natural
  numbers, with checked operations written out. A panic is a value (\<open>None\<close> or a constructor of its own).
  Loops are structural or carry a termination proof; a loop that may not end has fuel or is a partial function,
  with a lemma that it returns: 10 rounds normalise a half (\<open>normalize_done\<close>), each rejection of a
  batch of \<open>n\<close> outputs caps its members at half of \<open>n\<close>, the depth of a block tree over fewer than
  \<open>2 ^ 32\<close> positions is found (\<open>bt_depth_returns\<close>), the sizes of a phase are found for rows of at least one byte
  (\<open>fit_block_returns\<close>) and not for rows of none.

  Not modelled, with the reason. Network clients (gRPC, stratum), the terminal interface, logging and statistics
  are input and output around threads. GPU code and the plugins are foreign kernels; their results enter as data
  that the modelled verifiers check. The engine around llama.cpp, downloads and file hashing drive processes
  and files. The trace store writes borsh records with atomic renames. Escrow key files are file system calls. Left
  out of this library: the block header with its hash and compact target (\<open>pow.rs\<close>, \<open>heavy_hash.rs\<close>,
  \<open>target.rs\<close>, the generators), whose results the modelled proof of model takes as inputs; the payload
  layouts, the fixed-point network and the encrypted envelopes of the inference crate (\<open>ai_payload.rs\<close>,
  \<open>model_fixed.rs\<close>, \<open>fraud_proof.rs\<close>, \<open>private.rs\<close>); the caches of the devices' tasks
  (\<open>src/block_task.rs\<close>); and \<open>support.rs\<close>, a check the tests run over shipped manifests.
\<close>

end
